(* ===== verification/Prelude.thy ===== *)
theory Prelude
  imports Main "HOL-Library.Word" "HOL-Library.AList" "HOL-Library.Multiset" "HOL-Library.Monad_Syntax"
begin

text \<open>
  Shared vocabulary of the development: the machine types of the C++ sources, the
  little-endian memory image of an integer, \<open>std::unordered_map\<close> as an association
  list with distinct keys, and the generic list lemmas that the component theories use.

  \<^item> \<open>std::uint8_t\<close> \dots \<open>std::uint64_t\<close> and \<open>std::size_t\<close> are words of their width
    (64-bit \<open>size_t\<close>); C \<open>int\<close> error numbers are 32-bit words read as signed.
  \<^item> \<open>le_bytes\<close>/\<open>le_word\<close> are the object representation of an integer on the
    little-endian hosts the daemon is built for (amd64, arm64).
  \<^item> \<open>um_emplace\<close>, \<open>um_assign\<close>, \<open>um_erase\<close> are \<open>emplace\<close>, \<open>operator[]=\<close> and
    \<open>erase\<close> of \<open>std::unordered_map\<close>; \<open>map_of\<close> is \<open>find\<close>. The order in which a hash
    map is iterated is never taken from the list: the code that iterates gets an
    unknown permutation as a parameter (\<open>is_order\<close>).
\<close>

unbundle bit_operations_syntax

named_theorems errno_simps \<open>numeric values of the errno constants\<close>
named_theorems um_simps \<open>lookup, key and distinctness laws of the hash-map operations\<close>

type_synonym byte = "8 word"
type_synonym u8 = "8 word"
type_synonym u16 = "16 word"
type_synonym u32 = "32 word"
type_synonym u64 = "64 word"
type_synonym c_int = "32 word"

section \<open>Object representation of integers\<close>

definition le_bytes :: "nat \<Rightarrow> 'a::len word \<Rightarrow> byte list" where
  "le_bytes n w = map (\<lambda>i. ucast (drop_bit (8 * i) w)) [0..<n]"

fun le_word :: "byte list \<Rightarrow> 'a::len word" where
  "le_word [] = 0"
| "le_word (b # bs) = ucast b OR push_bit 8 (le_word bs)"

lemma length_le_bytes [simp]: "length (le_bytes n w) = n"
  by (simp add: le_bytes_def)

lemma bit_byte_ge: "8 \<le> k \<Longrightarrow> \<not> bit (b :: byte) k"
  by (simp add: bit_imp_le_length linorder_not_less order.trans not_le_imp_less bit_word.rep_eq)

lemma bit_le_word:
  "bit (le_word bs :: 'a::len word) k \<longleftrightarrow>
     k < LENGTH('a) \<and> k div 8 < length bs \<and> bit (bs ! (k div 8)) (k mod 8)"
proof (induction bs arbitrary: k)
  case Nil
  then show ?case by simp
next
  case (Cons b bs)
  show ?case
  proof (cases "k < 8")
    case True
    then show ?thesis
      by (auto simp: bit_or_iff bit_push_bit_iff bit_ucast_iff)
  next
    case False
    then have split: "k div 8 = Suc ((k - 8) div 8)" "k mod 8 = (k - 8) mod 8"
      by (auto simp: div_if mod_if)
    have "\<not> bit b k" using False by (simp add: bit_byte_ge)
    with False Cons.IH [of "k - 8"] show ?thesis
      unfolding split by (auto simp: bit_or_iff bit_push_bit_iff bit_ucast_iff)
  qed
qed

lemma le_word_bytes [simp]:
  assumes "LENGTH('a::len) = 8 * n"
  shows "le_word (le_bytes n (w :: 'a word)) = w"
proof (rule bit_word_eqI)
  fix k assume k: "k < LENGTH('a)"
  with assms have "k div 8 < n" by (simp add: less_mult_imp_div_less mult.commute)
  then show "bit (le_word (le_bytes n w) :: 'a word) k = bit w k"
    using k by (auto simp: bit_le_word le_bytes_def bit_ucast_iff bit_drop_bit_eq add.commute)
qed

lemma le_bytes_word:
  assumes "LENGTH('a::len) = 8 * length bs"
  shows "le_bytes (length bs) (le_word bs :: 'a word) = bs"
proof (rule nth_equalityI)
  fix i assume i: "i < length (le_bytes (length bs) (le_word bs :: 'a word))"
  show "le_bytes (length bs) (le_word bs :: 'a word) ! i = bs ! i"
  proof (rule bit_word_eqI)
    fix k assume "k < LENGTH(8)"
    then have k: "k < 8" by simp
    have "8 * i + k < 8 * length bs" using i k by simp
    then have "8 * i + k < LENGTH('a)" using assms by simp
    moreover have "(8 * i + k) div 8 = i" "(8 * i + k) mod 8 = k" using k by auto
    ultimately show "bit (le_bytes (length bs) (le_word bs :: 'a word) ! i) k = bit (bs ! i) k"
      using i k by (auto simp: le_bytes_def bit_ucast_iff bit_drop_bit_eq bit_le_word)
  qed
qed simp

section \<open>Writing into a buffer\<close>

text \<open>Bytes stored at an offset of a fixed buffer, as \<open>recv\<close> stores them.\<close>

definition write_at :: "'a list \<Rightarrow> nat \<Rightarrow> 'a list \<Rightarrow> 'a list" where
  "write_at buf off bs = take off buf @ bs @ drop (off + length bs) buf"

lemma length_write_at [simp]:
  "off + length bs \<le> length buf \<Longrightarrow> length (write_at buf off bs) = length buf"
  by (simp add: write_at_def)

lemma take_write_at:
  "off + length bs \<le> length buf \<Longrightarrow> take (off + length bs) (write_at buf off bs) = take off buf @ bs"
  by (simp add: write_at_def)

section \<open>Hash maps\<close>

type_synonym ('k, 'v) umap = "('k \<times> 'v) list"

definition um_emplace :: "'k \<Rightarrow> 'v \<Rightarrow> ('k, 'v) umap \<Rightarrow> ('k, 'v) umap" where
  "um_emplace k v m = (case map_of m k of None \<Rightarrow> m @ [(k, v)] | Some _ \<Rightarrow> m)"

definition um_assign :: "'k \<Rightarrow> 'v \<Rightarrow> ('k, 'v) umap \<Rightarrow> ('k, 'v) umap" where
  "um_assign k v m = AList.update k v m"

definition um_erase :: "'k \<Rightarrow> ('k, 'v) umap \<Rightarrow> ('k, 'v) umap" where
  "um_erase k m = AList.delete k m"

abbreviation um_keys :: "('k, 'v) umap \<Rightarrow> 'k list" where
  "um_keys m \<equiv> map fst m"

abbreviation um_wf :: "('k, 'v) umap \<Rightarrow> bool" where
  "um_wf m \<equiv> distinct (map fst m)"

declare map_of_eq_Some_iff [simp del] Some_eq_map_of_iff [simp del]

lemma map_of_um_emplace [um_simps]:
  "map_of (um_emplace k v m) = (case map_of m k of None \<Rightarrow> (map_of m)(k \<mapsto> v) | Some _ \<Rightarrow> map_of m)"
  by (auto simp: um_emplace_def map_add_def fun_eq_iff split: option.splits)

lemma map_of_um_assign [um_simps]: "map_of (um_assign k v m) = (map_of m)(k \<mapsto> v)"
  by (simp add: um_assign_def update_conv')

lemma map_of_um_erase [um_simps]: "map_of (um_erase k m) = (map_of m)(k := None)"
  by (simp add: um_erase_def delete_conv' fun_eq_iff)

lemma keys_um_emplace [um_simps]: "set (um_keys (um_emplace k v m)) = insert k (set (um_keys m))"
  by (auto simp: um_emplace_def split: option.splits dest!: map_of_SomeD intro: rev_image_eqI)

lemma keys_um_assign [um_simps]: "set (um_keys (um_assign k v m)) = insert k (set (um_keys m))"
  by (auto simp: um_assign_def update_keys)

lemma keys_um_erase [um_simps]: "set (um_keys (um_erase k m)) = set (um_keys m) - {k}"
  by (auto simp: um_erase_def delete_keys)

lemmas keys_um_image [um_simps] =
  keys_um_emplace [unfolded set_map] keys_um_assign [unfolded set_map] keys_um_erase [unfolded set_map]

lemma um_wf_emplace [um_simps]: "um_wf m \<Longrightarrow> um_wf (um_emplace k v m)"
  by (auto simp: um_emplace_def map_of_eq_None_iff split: option.splits)

lemma um_wf_assign [um_simps]: "um_wf m \<Longrightarrow> um_wf (um_assign k v m)"
  by (simp add: um_assign_def distinct_update)

lemma um_assign_ne_nil [simp]: "um_assign k v m \<noteq> []"
  by (cases m) (auto simp: um_assign_def)

lemma um_wf_erase [um_simps]: "um_wf m \<Longrightarrow> um_wf (um_erase k m)"
  by (simp add: um_erase_def distinct_delete)

lemma um_erase_absent: "k \<notin> set (um_keys m) \<Longrightarrow> um_erase k m = m"
  by (simp add: um_erase_def delete_idem)

lemma um_erase_Cons [simp]:
  "um_erase k ((k', v) # m) = (if k' = k then um_erase k m else (k', v) # um_erase k m)"
  by (simp add: um_erase_def)

lemma length_um_erase: "um_wf m \<Longrightarrow> k \<in> set (um_keys m) \<Longrightarrow> Suc (length (um_erase k m)) = length m"
proof (induction m)
  case (Cons kv m)
  then show ?case by (cases kv; cases "fst kv = k") (simp_all add: um_erase_absent)
qed simp

lemma um_erase_nil [simp]: "um_erase k [] = []"
  by (simp add: um_erase_def)

lemma um_erase_eq_nil_iff: "um_erase k m = [] \<longleftrightarrow> set (um_keys m) \<subseteq> {k}"
  by (auto simp: um_erase_def AList.delete_eq filter_empty_conv)

text \<open>An iteration order: some rearrangement of the entries.\<close>

definition is_order :: "('a list \<Rightarrow> 'a list) \<Rightarrow> bool" where
  "is_order ord \<longleftrightarrow> (\<forall>xs. mset (ord xs) = mset xs)"

lemma is_order_set: "is_order ord \<Longrightarrow> set (ord xs) = set xs"
  unfolding is_order_def by (metis set_mset_mset)

lemma is_order_distinct: "is_order ord \<Longrightarrow> distinct (ord xs) = distinct xs"
  unfolding is_order_def by (metis mset_eq_imp_distinct_iff)

lemma is_order_length: "is_order ord \<Longrightarrow> length (ord xs) = length xs"
  unfolding is_order_def by (metis mset_eq_length)

lemma is_order_id: "is_order (\<lambda>xs. xs)" and is_order_rev: "is_order rev"
  by (simp_all add: is_order_def)

lemma ucast_u32_of_nat: "(ucast (of_nat n :: u64) :: u32) = of_nat n"
  by (simp add: unsigned_of_nat word_unat_eq_iff unat_of_nat take_bit_eq_mod mod_mod_cancel)

section \<open>Strings\<close>

text \<open>A literal as bytes, and a string up to its first NUL, as \<open>c_str()\<close> hands it to a C function.\<close>

definition ascii :: "string \<Rightarrow> byte list" where
  "ascii s = map (\<lambda>c. of_nat (of_char c)) s"

lemma ascii_code [code]: "ascii s = map of_char s"
proof -
  have "of_nat (of_char c) = (of_char c :: byte)" for c by (cases c) simp
  then show ?thesis by (simp add: ascii_def)
qed

definition c_str :: "byte list \<Rightarrow> byte list" where
  "c_str s = takeWhile (\<lambda>b. b \<noteq> 0) s"

lemma c_str_id [simp]: "0 \<notin> set s \<Longrightarrow> c_str s = s"
  unfolding c_str_def by (induction s) auto

lemma length_c_str: "length (c_str s) \<le> length s"
  by (simp add: c_str_def length_takeWhile_le)

section \<open>Fresh descriptors\<close>

text \<open>
  For the concrete systems of the witnesses: a descriptor above all that are open, and the open
  ones of a state that starts with their list.
\<close>

definition fresh_fd :: "int list \<Rightarrow> int" where
  "fresh_fd fds = fold max fds 0 + 1"

lemma fold_max_ge: "x \<le> fold max fds x" "fd \<in> set fds \<Longrightarrow> fd \<le> fold max fds x" for fds :: "int list"
proof -
  show ge: "x \<le> fold max fds x" for x :: int and fds
  proof (induction fds arbitrary: x)
    case (Cons a fds)
    from Cons [of "max a x"] show ?case by simp
  qed simp
  show "fd \<in> set fds \<Longrightarrow> fd \<le> fold max fds x" for fd
  proof (induction fds arbitrary: x)
    case (Cons a fds)
    with ge [of "max a x" fds] show ?case by auto
  qed simp
qed

lemma fresh_fd_new: "0 \<le> fresh_fd fds" "fresh_fd fds \<notin> set fds"
  using fold_max_ge [of 0 fds] fold_max_ge(2) [of "fresh_fd fds" fds 0] by (auto simp: fresh_fd_def)

definition open_fds :: "int list \<times> 'q \<Rightarrow> int set" where
  "open_fds w = {fd \<in> set (fst w). 0 \<le> fd}"

end
