(* ===== verification/Sdk_Error.thy ===== *)
theory Sdk_Error
  imports Prelude
begin

text \<open>
  The SDK error type and its conversions: \<^verbatim>\<open>include/ocvsmd/sdk/defines.hpp\<close> (\<open>Error\<close>,
  \<open>Error::Code\<close>, \<open>OptError\<close>, \<open>operator==\<close>), \<^verbatim>\<open>src/common/common_helpers.hpp\<close>
  (\<open>errnoToError\<close>, \<open>dsdlErrorToOptError\<close>, \<open>optErrorToDsdlError\<close>) and
  \<^verbatim>\<open>src/daemon/engine/engine_helpers.hpp\<close> (\<open>cyErrorToSdkError\<close>).

  \<open>Error::Code\<close> is an enum with a fixed 32-bit underlying type: a \<open>static_cast\<close> from
  the wire can give a value with no enumerator, which \<open>UnnamedCode\<close> stands for.
\<close>

section \<open>Error numbers\<close>

type_synonym errno = c_int

text \<open>The values of the error numbers the sources name, on Linux.\<close>

definition ENOENT :: errno where [errno_simps]: "ENOENT = 2"
definition EINTR :: errno where [errno_simps]: "EINTR = 4"
definition EIO :: errno where [errno_simps]: "EIO = 5"
definition E2BIG :: errno where [errno_simps]: "E2BIG = 7"
definition EPERM :: errno where [errno_simps]: "EPERM = 1"
definition EAGAIN :: errno where [errno_simps]: "EAGAIN = 11"
definition ENOMEM :: errno where [errno_simps]: "ENOMEM = 12"
definition EACCES :: errno where [errno_simps]: "EACCES = 13"
definition EBUSY :: errno where [errno_simps]: "EBUSY = 16"
definition EEXIST :: errno where [errno_simps]: "EEXIST = 17"
definition EISDIR :: errno where [errno_simps]: "EISDIR = 21"
definition EINVAL :: errno where [errno_simps]: "EINVAL = 22"
definition ENOSPC :: errno where [errno_simps]: "ENOSPC = 28"
definition EPROTO :: errno where [errno_simps]: "EPROTO = 71"
definition ENOTSUP :: errno where [errno_simps]: "ENOTSUP = 95"
definition ENETDOWN :: errno where [errno_simps]: "ENETDOWN = 100"
definition ENETUNREACH :: errno where [errno_simps]: "ENETUNREACH = 101"
definition ECONNABORTED :: errno where [errno_simps]: "ECONNABORTED = 103"
definition ECONNRESET :: errno where [errno_simps]: "ECONNRESET = 104"
definition ENOTCONN :: errno where [errno_simps]: "ENOTCONN = 107"
definition ESHUTDOWN :: errno where [errno_simps]: "ESHUTDOWN = 108"
definition ETIMEDOUT :: errno where [errno_simps]: "ETIMEDOUT = 110"
definition EHOSTDOWN :: errno where [errno_simps]: "EHOSTDOWN = 112"
definition EHOSTUNREACH :: errno where [errno_simps]: "EHOSTUNREACH = 113"
definition EINPROGRESS :: errno where [errno_simps]: "EINPROGRESS = 115"
definition ECANCELED :: errno where [errno_simps]: "ECANCELED = 125"

section \<open>The error type\<close>

datatype sdk_code =
    Other | Busy | NoEntry | Canceled | TimedOut | Shutdown | OutOfMemory | Disconnected
  | NotConnected | AlreadyExists | InvalidArgument | OperationInProgress
  | UnnamedCode u32

text \<open>\<open>static_cast\<close> to and from the underlying integer.\<close>

fun code_raw :: "sdk_code \<Rightarrow> u32" where
  "code_raw Other = 1"
| "code_raw Busy = 2"
| "code_raw NoEntry = 3"
| "code_raw Canceled = 4"
| "code_raw TimedOut = 5"
| "code_raw Shutdown = 6"
| "code_raw OutOfMemory = 7"
| "code_raw Disconnected = 8"
| "code_raw NotConnected = 9"
| "code_raw AlreadyExists = 10"
| "code_raw InvalidArgument = 11"
| "code_raw OperationInProgress = 12"
| "code_raw (UnnamedCode w) = w"

definition code_of_raw :: "u32 \<Rightarrow> sdk_code" where
  "code_of_raw w =
     (if w = 1 then Other else if w = 2 then Busy else if w = 3 then NoEntry
      else if w = 4 then Canceled else if w = 5 then TimedOut else if w = 6 then Shutdown
      else if w = 7 then OutOfMemory else if w = 8 then Disconnected
      else if w = 9 then NotConnected else if w = 10 then AlreadyExists
      else if w = 11 then InvalidArgument else if w = 12 then OperationInProgress
      else UnnamedCode w)"

record sdk_error =
  getCode :: sdk_code
  getOptErrno :: "c_int option"

type_synonym opt_error = "sdk_error option"

text \<open>The two constructors of \<open>Error\<close>.\<close>

definition mkError :: "sdk_code \<Rightarrow> sdk_error" where
  "mkError c = \<lparr>getCode = c, getOptErrno = None\<rparr>"

definition mkErrorErrno :: "sdk_code \<Rightarrow> c_int \<Rightarrow> sdk_error" where
  "mkErrorErrno c e = \<lparr>getCode = c, getOptErrno = Some e\<rparr>"

text \<open>\<open>operator==\<close> compares the codes only.\<close>

definition error_eq :: "sdk_error \<Rightarrow> sdk_error \<Rightarrow> bool" where
  "error_eq lhs rhs \<longleftrightarrow> getCode lhs = getCode rhs"

lemma mkError_sel [simp]:
  "getCode (mkError c) = c" "getOptErrno (mkError c) = None"
  "getCode (mkErrorErrno c e) = c" "getOptErrno (mkErrorErrno c e) = Some e"
  by (simp_all add: mkError_def mkErrorErrno_def)

lemma mkError_inject [simp]:
  "mkError c = mkError d \<longleftrightarrow> c = d" "mkErrorErrno c e = mkErrorErrno d f \<longleftrightarrow> c = d \<and> e = f"
  "mkError c \<noteq> mkErrorErrno d f"
  by (auto simp: mkError_def mkErrorErrno_def)

section \<open>Conversions\<close>

definition errnoToError :: "errno \<Rightarrow> sdk_error" where
  "errnoToError e =
     (if e = EBUSY then mkErrorErrno Busy e
      else if e = ENOENT then mkErrorErrno NoEntry e
      else if e = ETIMEDOUT then mkErrorErrno TimedOut e
      else if e = ENOMEM then mkErrorErrno OutOfMemory e
      else if e = EEXIST then mkErrorErrno AlreadyExists e
      else if e = EINVAL then mkErrorErrno InvalidArgument e
      else if e = ECANCELED then mkErrorErrno Canceled e
      else if e = ENOTCONN then mkErrorErrno NotConnected e
      else if e = ECONNRESET then mkErrorErrno Disconnected e
      else if e = ESHUTDOWN then mkErrorErrno Shutdown e
      else if e = EINPROGRESS then mkErrorErrno OperationInProgress e
      else mkErrorErrno Other e)"

record dsdl_error =
  error_code :: u32
  raw_errno :: c_int

definition dsdlErrorToOptError :: "dsdl_error \<Rightarrow> opt_error" where
  "dsdlErrorToOptError d =
     (if error_code d = 0 then None
      else if raw_errno d = 0 then Some (mkError (code_of_raw (error_code d)))
      else Some (mkErrorErrno (code_of_raw (error_code d)) (raw_errno d)))"

definition optErrorToDsdlError :: "opt_error \<Rightarrow> dsdl_error" where
  "optErrorToDsdlError oe =
     (case oe of
        Some e \<Rightarrow> \<lparr>error_code = code_raw (getCode e),
                   raw_errno = (case getOptErrno e of Some n \<Rightarrow> n | None \<Rightarrow> 0)\<rparr>
      | None \<Rightarrow> \<lparr>error_code = 0, raw_errno = 0\<rparr>)"

text \<open>The failures of the Cyphal stack, by the overloads of \<open>cyErrorToSdkError\<close>.\<close>

datatype cy_failure =
    MemoryError | CapacityError | ArgumentError | AnonymousError | NunavutError
  | AlreadyExistsError | PlatformError errno | ResponsePromiseExpired
  | TooManyPendingRequestsError

fun cyErrorToSdkError :: "cy_failure \<Rightarrow> sdk_error" where
  "cyErrorToSdkError MemoryError = mkError OutOfMemory"
| "cyErrorToSdkError CapacityError = mkError OutOfMemory"
| "cyErrorToSdkError ArgumentError = mkError InvalidArgument"
| "cyErrorToSdkError AnonymousError = mkError InvalidArgument"
| "cyErrorToSdkError NunavutError = mkError InvalidArgument"
| "cyErrorToSdkError AlreadyExistsError = mkError AlreadyExists"
| "cyErrorToSdkError (PlatformError e) = errnoToError e"
| "cyErrorToSdkError ResponsePromiseExpired = mkError TimedOut"
| "cyErrorToSdkError TooManyPendingRequestsError = mkError Busy"

definition cyFailureToOptError :: "cy_failure \<Rightarrow> opt_error" where
  "cyFailureToOptError f = Some (cyErrorToSdkError f)"

section \<open>Lemmas\<close>

lemma code_raw_of_raw [simp]: "code_raw (code_of_raw w) = w"
  by (simp add: code_of_raw_def)

lemma code_of_raw_raw:
  "(\<And>w. c = UnnamedCode w \<Longrightarrow> w \<notin> {1..12}) \<Longrightarrow> code_of_raw (code_raw c) = c"
  by (cases c) (auto simp: code_of_raw_def)

text \<open>
  Values of \<open>Error\<close> the program builds: a named code (or a wire code with no name,
  which is not zero).
\<close>

definition error_wf :: "sdk_error \<Rightarrow> bool" where
  "error_wf e \<longleftrightarrow> (case getCode e of UnnamedCode w \<Rightarrow> w \<noteq> 0 \<and> w \<notin> {1..12} | _ \<Rightarrow> True)"

lemma code_raw_nonzero: "error_wf e \<Longrightarrow> code_raw (getCode e) \<noteq> 0"
  by (cases "getCode e") (auto simp: error_wf_def)

lemma errnoToError_wf: "error_wf (errnoToError e)"
  by (simp add: errnoToError_def error_wf_def)

lemma errnoTomkErrorErrno [simp]: "getOptErrno (errnoToError e) = Some e"
  by (simp add: errnoToError_def)

lemma optErrorToDsdlError_code_eq_0:
  "(\<And>e. oe = Some e \<Longrightarrow> error_wf e) \<Longrightarrow> error_code (optErrorToDsdlError oe) = 0 \<longleftrightarrow> oe = None"
  by (cases oe) (auto simp: optErrorToDsdlError_def code_raw_nonzero)

text \<open>What survives the wire: a zero \<open>errno\<close> is read back as no \<open>errno\<close>.\<close>

definition drop_zero_errno :: "sdk_error \<Rightarrow> sdk_error" where
  "drop_zero_errno e = (if getOptErrno e = Some 0 then e\<lparr>getOptErrno := None\<rparr> else e)"

lemma dsdl_error_roundtrip_wf:
  assumes "error_wf e"
  shows "dsdlErrorToOptError (optErrorToDsdlError (Some e)) = Some (drop_zero_errno e)"
proof -
  have "code_of_raw (code_raw (getCode e)) = getCode e"
    using assms by (intro code_of_raw_raw) (auto simp: error_wf_def)
  with code_raw_nonzero [OF assms] show ?thesis
    by (cases e) (auto simp: optErrorToDsdlError_def dsdlErrorToOptError_def drop_zero_errno_def
        mkError_def mkErrorErrno_def split: option.splits)
qed

section \<open>Properties\<close>

text \<open>
  An error sent over the IPC wire (\<open>optErrorToDsdlError\<close>, then \<open>dsdlErrorToOptError\<close> on
  the other side) arrives with its code and its \<open>errno\<close>; only an \<open>errno\<close> that is
  present and zero is read back as absent. No error arrives as no error.
\<close>

theorem dsdl_error_roundtrip:
  assumes "\<And>e. oe = Some e \<Longrightarrow> error_wf e"
  shows "dsdlErrorToOptError (optErrorToDsdlError oe) = map_option drop_zero_errno oe"
proof (cases oe)
  case None
  then show ?thesis by (simp add: optErrorToDsdlError_def dsdlErrorToOptError_def)
next
  case (Some e)
  with assms dsdl_error_roundtrip_wf show ?thesis by simp
qed

theorem dsdl_error_roundtrip_witness:
  "dsdlErrorToOptError (optErrorToDsdlError (Some (mkErrorErrno Busy 0))) = Some (mkError Busy) \<and>
   dsdlErrorToOptError (optErrorToDsdlError (Some (mkErrorErrno NoEntry 2))) = Some (mkErrorErrno NoEntry 2)"
  using dsdl_error_roundtrip [of "Some (mkErrorErrno Busy 0)"]
    dsdl_error_roundtrip [of "Some (mkErrorErrno NoEntry 2)"]
  by (simp add: error_wf_def drop_zero_errno_def mkError_def mkErrorErrno_def)

end
