(* ===== verification/Posix_Io.thy ===== *)
theory Posix_Io
  imports Sdk_Error
begin

text \<open>
  \<^verbatim>\<open>include/ocvsmd/platform/posix_utils.hpp\<close>: the retry loop \<open>posixSyscallError\<close> around a
  system call, and \<^verbatim>\<open>src/common/io/io.hpp\<close>, \<^verbatim>\<open>io.cpp\<close>: \<open>OwnedFd\<close>, the owner of a file
  descriptor.

  A system call is a function of the state of the operating system, which is a
  parameter: \<open>'w \<Rightarrow> 'a sysret \<times> 'w\<close>. It returns a non-negative result (\<open>SysOk\<close>, with
  what the call hands back) or \<open>-1\<close> with \<open>errno\<close> set (\<open>SysErr\<close>). The loop runs for as
  long as the call is interrupted, so it is a partial function: \<open>None\<close> stands for a
  loop that never ends.
\<close>

section \<open>The retry loop\<close>

datatype 'a sysret = SysOk 'a | SysErr errno

partial_function (option) posixSyscallError ::
    "('w \<Rightarrow> 'a sysret \<times> 'w) \<Rightarrow> 'w \<Rightarrow> ('a sysret \<times> 'w) option" where
  "posixSyscallError call w =
     (case call w of
        (SysOk v, w') \<Rightarrow> Some (SysOk v, w')
      | (SysErr error_num, w') \<Rightarrow>
          if error_num \<noteq> EINTR then Some (SysErr error_num, w') else posixSyscallError call w')"

text \<open>\<open>k\<close> interrupted calls lead from \<open>w\<close> to \<open>v\<close>.\<close>

fun eintr_chain :: "('w \<Rightarrow> 'a sysret \<times> 'w) \<Rightarrow> nat \<Rightarrow> 'w \<Rightarrow> 'w \<Rightarrow> bool" where
  "eintr_chain call 0 w v \<longleftrightarrow> v = w"
| "eintr_chain call (Suc k) w v \<longleftrightarrow>
     (\<exists>w'. call w = (SysErr EINTR, w') \<and> eintr_chain call k w' v)"

lemma posixSyscallError_now:
  "call w = (r, w') \<Longrightarrow> r \<noteq> SysErr EINTR \<Longrightarrow> posixSyscallError call w = Some (r, w')"
  by (subst posixSyscallError.simps) (auto split: sysret.splits)

lemma posixSyscallError_retry:
  "call w = (SysErr EINTR, w') \<Longrightarrow> posixSyscallError call w = posixSyscallError call w'"
  by (subst posixSyscallError.simps) simp

lemma posixSyscallError_chain:
  "eintr_chain call k w v \<Longrightarrow> call v = (r, w') \<Longrightarrow> r \<noteq> SysErr EINTR \<Longrightarrow>
   posixSyscallError call w = Some (r, w')"
  by (induction k arbitrary: w) (auto simp: posixSyscallError_now posixSyscallError_retry)

lemma posixSyscallError_chainD:
  assumes ret: "posixSyscallError call w = Some rw"
  shows "\<exists>k v. eintr_chain call k w v \<and> call v = rw \<and> fst rw \<noteq> SysErr EINTR"
proof (rule posixSyscallError.raw_induct
    [where P = "\<lambda>c w rw. \<exists>k v. eintr_chain c k w v \<and> c v = rw \<and> fst rw \<noteq> SysErr EINTR", OF _ ret])
  fix f c w rw
  assume IH: "\<And>c w rw. f c w = Some rw \<Longrightarrow>
      \<exists>k v. eintr_chain c k w v \<and> c v = rw \<and> fst rw \<noteq> SysErr EINTR"
    and eq: "(case c w of (SysOk v, w') \<Rightarrow> Some (SysOk v, w')
      | (SysErr error_num, w') \<Rightarrow>
          if error_num \<noteq> EINTR then Some (SysErr error_num, w') else f c w') = Some rw"
  show "\<exists>k v. eintr_chain c k w v \<and> c v = rw \<and> fst rw \<noteq> SysErr EINTR"
  proof (cases "\<exists>w'. c w = (SysErr EINTR, w')")
    case True
    then obtain w' where w': "c w = (SysErr EINTR, w')" by blast
    with eq have "f c w' = Some rw" by simp
    from IH [OF this] obtain k v where "eintr_chain c k w' v \<and> c v = rw \<and> fst rw \<noteq> SysErr EINTR"
      by blast
    with w' have "eintr_chain c (Suc k) w v \<and> c v = rw \<and> fst rw \<noteq> SysErr EINTR" by simp
    then show ?thesis by blast
  next
    case False
    obtain r w' where cw: "c w = (r, w')" by (cases "c w")
    with eq False have "rw = (r, w') \<and> r \<noteq> SysErr EINTR"
      by (auto split: sysret.splits if_splits)
    with cw have "eintr_chain c 0 w w \<and> c w = rw \<and> fst rw \<noteq> SysErr EINTR" by simp
    then show ?thesis by blast
  qed
qed

text \<open>
  The number of interrupts before the first other result is determined, so "it returns"
  is exactly "the interrupts end".
\<close>

lemma posixSyscallError_Some_iff:
  "posixSyscallError call w = Some (r, w') \<longleftrightarrow>
     (\<exists>k v. eintr_chain call k w v \<and> call v = (r, w') \<and> r \<noteq> SysErr EINTR)"
  using posixSyscallError_chain posixSyscallError_chainD by fastforce

section \<open>Owned file descriptors\<close>

text \<open>
  An \<open>OwnedFd\<close> is its field \<open>fd_\<close>; \<open>close\<close> is the system call, whose result the code
  does not look at.
\<close>

type_synonym owned_fd = int

definition OwnedFd_empty :: owned_fd where
  "OwnedFd_empty = -1"

definition OwnedFd_reset :: "(int \<Rightarrow> 'w \<Rightarrow> 'w) \<Rightarrow> owned_fd \<Rightarrow> 'w \<Rightarrow> owned_fd \<times> 'w" where
  "OwnedFd_reset close fd w = (if 0 \<le> fd then (-1, close fd w) else (fd, w))"

definition OwnedFd_destroy :: "(int \<Rightarrow> 'w \<Rightarrow> 'w) \<Rightarrow> owned_fd \<Rightarrow> 'w \<Rightarrow> 'w" where
  "OwnedFd_destroy close fd w = snd (OwnedFd_reset close fd w)"

text \<open>Move construction: the new owner and what is left in the source.\<close>

definition OwnedFd_move :: "owned_fd \<Rightarrow> owned_fd \<times> owned_fd" where
  "OwnedFd_move other = (other, -1)"

text \<open>Move assignment from another object: the old descriptor is closed last.\<close>

definition OwnedFd_move_assign ::
    "(int \<Rightarrow> 'w \<Rightarrow> 'w) \<Rightarrow> owned_fd \<Rightarrow> owned_fd \<Rightarrow> 'w \<Rightarrow> owned_fd \<times> owned_fd \<times> 'w" where
  "OwnedFd_move_assign close this other w =
     (let (old, _) = OwnedFd_move this;
          (fd', other') = (other, -1)
      in (fd', other', OwnedFd_destroy close old w))"

text \<open>Assignment of \<open>nullptr\<close>: the descriptor moves into a local that is destroyed.\<close>

definition OwnedFd_assign_null :: "(int \<Rightarrow> 'w \<Rightarrow> 'w) \<Rightarrow> owned_fd \<Rightarrow> 'w \<Rightarrow> owned_fd \<times> 'w" where
  "OwnedFd_assign_null close this w =
     (let (old, this') = OwnedFd_move this in (this', OwnedFd_destroy close old w))"

text \<open>Valid descriptors held by a list of owners.\<close>

definition held :: "owned_fd list \<Rightarrow> int multiset" where
  "held fds = mset (filter (\<lambda>fd. 0 \<le> fd) fds)"

lemma held_simps [simp]:
  "held [] = {#}" "held (fd # fds) = (if 0 \<le> fd then add_mset fd (held fds) else held fds)"
  by (simp_all add: held_def)

text \<open>
  With the log of closed descriptors as the world, every operation keeps the multiset
  of descriptors that are held or already closed: none is lost and none closed twice.
\<close>

lemma OwnedFd_conservation:
  "OwnedFd_reset (\<lambda>fd cl. cl @ [fd]) fd cl = (fd', cl') \<Longrightarrow> held [fd'] + mset cl' = held [fd] + mset cl"
  "OwnedFd_move other = (fd', other') \<Longrightarrow> held [fd', other'] = held [other]"
  "OwnedFd_move_assign (\<lambda>fd cl. cl @ [fd]) this other cl = (this', other', cl') \<Longrightarrow>
     held [this', other'] + mset cl' = held [this, other] + mset cl"
  "OwnedFd_assign_null (\<lambda>fd cl. cl @ [fd]) this cl = (this', cl') \<Longrightarrow>
     held [this'] + mset cl' = held [this] + mset cl"
  by (auto simp: OwnedFd_reset_def OwnedFd_move_def OwnedFd_move_assign_def OwnedFd_assign_null_def
      OwnedFd_destroy_def split: if_splits)

text \<open>
  Programs over a group of owners: what callers do to them, in any order. Slot numbers
  out of range do nothing. Move assignment of an owner to itself is left out: there the
  code closes the descriptor (the local takes it, and the assignment copies \<open>-1\<close>).
\<close>

datatype fd_op = ResetFd nat | MoveFd nat nat | AssignNullFd nat

fun fd_step :: "fd_op \<Rightarrow> owned_fd list \<times> int list \<Rightarrow> owned_fd list \<times> int list" where
  "fd_step (ResetFd i) (fds, cl) =
     (if i < length fds then
        let (fd', cl') = OwnedFd_reset (\<lambda>fd cl. cl @ [fd]) (fds ! i) cl in (fds[i := fd'], cl')
      else (fds, cl))"
| "fd_step (MoveFd i j) (fds, cl) =
     (if i < length fds \<and> j < length fds \<and> i \<noteq> j then
        let (fd', other', cl') = OwnedFd_move_assign (\<lambda>fd cl. cl @ [fd]) (fds ! i) (fds ! j) cl
        in (fds[i := fd', j := other'], cl')
      else (fds, cl))"
| "fd_step (AssignNullFd i) (fds, cl) =
     (if i < length fds then
        let (fd', cl') = OwnedFd_assign_null (\<lambda>fd cl. cl @ [fd]) (fds ! i) cl in (fds[i := fd'], cl')
      else (fds, cl))"

definition fd_run :: "fd_op list \<Rightarrow> owned_fd list \<times> int list \<Rightarrow> owned_fd list \<times> int list" where
  "fd_run ops s = fold fd_step ops s"

fun destroy_all :: "owned_fd list \<times> int list \<Rightarrow> int list" where
  "destroy_all ([], cl) = cl"
| "destroy_all (fd # fds, cl) = destroy_all (fds, OwnedFd_destroy (\<lambda>fd cl. cl @ [fd]) fd cl)"

lemma held_Cons: "held (fd # fds) = held [fd] + held fds"
  by simp

lemma held_update: "i < length fds \<Longrightarrow> held (fds[i := fd']) + held [fds ! i] = held fds + held [fd']"
proof (induction fds arbitrary: i)
  case (Cons fd fds)
  show ?case
  proof (cases i)
    case (Suc j)
    with Cons have "held (fds[j := fd']) + held [fds ! j] = held fds + held [fd']" by simp
    then have "held [fd] + (held (fds[j := fd']) + held [fds ! j]) = held [fd] + (held fds + held [fd'])"
      by (rule arg_cong)
    with Suc show ?thesis
      by (simp only: list_update.simps nat.case nth_Cons_Suc held_Cons [of fd "fds[j := fd']"] held_Cons [of fd fds]
          add.assoc)
  qed (simp add: held_Cons [of _ fds])
qed simp

lemma held_update_eq:
  assumes "i < length fds" "held [fd'] + C' = held [fds ! i] + C"
  shows "held (fds[i := fd']) + C' = held fds + (C :: int multiset)"
proof -
  have "held (fds[i := fd']) + held [fds ! i] + C' = held fds + (held [fd'] + C')"
    unfolding held_update [OF assms(1)] by (rule add.assoc)
  also have "\<dots> = held fds + (held [fds ! i] + C)" unfolding assms(2) ..
  finally have "held [fds ! i] + (held (fds[i := fd']) + C') = held [fds ! i] + (held fds + C)"
    by (simp only: ac_simps)
  then show ?thesis by (rule add_left_imp_eq)
qed

lemma fd_step_conservation:
  "fd_step op (fds, cl) = (fds', cl') \<Longrightarrow> held fds' + mset cl' = held fds + mset cl"
proof (cases op)
  case (MoveFd i j)
  assume step: "fd_step op (fds, cl) = (fds', cl')"
  show ?thesis
  proof (cases "i < length fds \<and> j < length fds \<and> i \<noteq> j")
    case True
    let ?old = "OwnedFd_destroy (\<lambda>fd cl. cl @ [fd]) (fds ! i) cl"
    from step MoveFd True have "fds' = fds[i := fds ! j, j := -1]" "cl' = ?old"
      by (auto simp: OwnedFd_move_assign_def OwnedFd_move_def)
    moreover have "held [fds ! j] + mset ?old = held [fds ! i] + (held [fds ! j] + mset cl)"
      by (simp add: OwnedFd_destroy_def OwnedFd_reset_def)
    then have "held (fds[i := fds ! j]) + mset ?old = held fds + (held [fds ! j] + mset cl)"
      using True by (intro held_update_eq) auto
    moreover have "held (fds[i := fds ! j, j := -1]) + (held [fds ! j] + mset ?old)
        = held (fds[i := fds ! j]) + mset ?old"
      using True by (intro held_update_eq) auto
    ultimately have "held [fds ! j] + (held fds' + mset cl') = held [fds ! j] + (held fds + mset cl)"
      by (simp only: add.left_commute [of "held [fds ! j]"])
    then show ?thesis by (rule add_left_imp_eq)
  qed (use step MoveFd in auto)
next
  case (ResetFd i)
  assume step: "fd_step op (fds, cl) = (fds', cl')"
  with ResetFd show ?thesis
    by (auto split: if_splits prod.splits intro!: held_update_eq OwnedFd_conservation(1))
next
  case (AssignNullFd i)
  assume step: "fd_step op (fds, cl) = (fds', cl')"
  with AssignNullFd show ?thesis
    by (auto split: if_splits prod.splits intro!: held_update_eq OwnedFd_conservation(4))
qed

lemma fd_run_conservation:
  "fd_run ops (fds, cl) = (fds', cl') \<Longrightarrow> held fds' + mset cl' = held fds + mset cl"
  unfolding fd_run_def
proof (induction ops arbitrary: fds cl)
  case (Cons op ops)
  obtain fds1 cl1 where "fd_step op (fds, cl) = (fds1, cl1)" by fastforce
  with Cons fd_step_conservation show ?case by fastforce
qed simp

lemma destroy_all_held: "mset (destroy_all (fds, cl)) = held fds + mset cl"
  by (induction fds arbitrary: cl) (auto simp: OwnedFd_destroy_def OwnedFd_reset_def)

section \<open>Properties\<close>

text \<open>
  \<open>posixSyscallError\<close> returns exactly when the interrupts end: it hands back the result
  and the state of the first call that was not interrupted, never \<open>EINTR\<close>; with an
  endless run of interrupts it does not return.
\<close>

theorem posixSyscallError_returns:
  "posixSyscallError call w = Some (r, w') \<longleftrightarrow>
     (\<exists>k v. eintr_chain call k w v \<and> call v = (r, w') \<and> r \<noteq> SysErr EINTR)"
  by (rule posixSyscallError_Some_iff)

text \<open>
  No descriptor leaks and none is closed twice: whatever sequence of resets, moves and
  null assignments a group of \<open>OwnedFd\<close> objects goes through, once all of them are
  destroyed the descriptors closed are exactly those held at the start, each as often.
\<close>

theorem OwnedFd_closed_once:
  "mset (destroy_all (fd_run ops (fds, []))) = held fds"
proof -
  obtain fds' cl' where "fd_run ops (fds, []) = (fds', cl')" by fastforce
  with fd_run_conservation [OF this] show ?thesis by (simp add: destroy_all_held)
qed

end
