(* ===== verification/Socket_Buffer.thy ===== *)
theory Socket_Buffer
  imports Prelude
begin

text \<open>
  \<^verbatim>\<open>src/common/io/socket_buffer.hpp\<close>: \<open>Payload\<close>, a span of constant bytes, and
  \<open>SocketBuffer\<close>, the list of fragments that the IPC layers build up by prepending
  their headers. A span is a pointer and a size: \<open>NullSpan n\<close> has the null pointer.
\<close>

section \<open>Payload fragments\<close>

datatype payload = NullSpan nat | Span "byte list"

fun payload_size :: "payload \<Rightarrow> nat" where
  "payload_size (NullSpan n) = n"
| "payload_size (Span bs) = length bs"

fun payload_bytes :: "payload \<Rightarrow> byte list" where
  "payload_bytes (NullSpan n) = []"
| "payload_bytes (Span bs) = bs"

fun isValidPayload :: "payload \<Rightarrow> bool" where
  "isValidPayload (NullSpan n) = False"
| "isValidPayload (Span bs) = (bs \<noteq> [])"

text \<open>
  \<open>span::subspan(offset)\<close>: the elements from \<open>offset\<close> on; an offset beyond the end is
  undefined behaviour (\<open>None\<close>).
\<close>

definition subspan :: "byte list \<Rightarrow> u64 \<Rightarrow> byte list option" where
  "subspan bs off = (if unat off \<le> length bs then Some (drop (unat off) bs) else None)"

section \<open>The buffer\<close>

record socket_buffer =
  buf_size :: u64
  buf_payloads :: "payload list"

definition SocketBuffer_empty :: socket_buffer where
  "SocketBuffer_empty = \<lparr>buf_size = 0, buf_payloads = []\<rparr>"

definition sb_size :: "socket_buffer \<Rightarrow> u64" where
  "sb_size b = buf_size b"

definition listFragments :: "socket_buffer \<Rightarrow> payload list" where
  "listFragments b = buf_payloads b"

definition prepend :: "payload \<Rightarrow> socket_buffer \<Rightarrow> socket_buffer" where
  "prepend p b =
     (if isValidPayload p
      then b\<lparr>buf_size := buf_size b + of_nat (payload_size p), buf_payloads := p # buf_payloads b\<rparr> else b)"

definition append_payload :: "payload \<Rightarrow> socket_buffer \<Rightarrow> socket_buffer" where
  "append_payload p b =
     (if isValidPayload p
      then b\<lparr>buf_size := buf_size b + of_nat (payload_size p), buf_payloads := buf_payloads b @ [p]\<rparr> else b)"

definition SocketBuffer_of :: "payload \<Rightarrow> socket_buffer" where
  "SocketBuffer_of p = append_payload p SocketBuffer_empty"

text \<open>
  Construction from a Cyphal \<open>ScatteredBuffer\<close>: \<open>forEachFragment\<close> calls \<open>onNext\<close> on
  every fragment in order.
\<close>

definition onNext :: "payload \<Rightarrow> socket_buffer \<Rightarrow> socket_buffer" where
  "onNext p b =
     (if isValidPayload p
      then b\<lparr>buf_size := buf_size b + of_nat (payload_size p), buf_payloads := buf_payloads b @ [p]\<rparr> else b)"

definition SocketBuffer_scattered :: "payload list \<Rightarrow> socket_buffer" where
  "SocketBuffer_scattered fragments = fold onNext fragments SocketBuffer_empty"

section \<open>Abstraction and invariant\<close>

text \<open>A buffer stands for the bytes of its fragments in order.\<close>

definition sb_bytes :: "socket_buffer \<Rightarrow> byte list" where
  "sb_bytes b = concat (map payload_bytes (buf_payloads b))"

definition sb_wf :: "socket_buffer \<Rightarrow> bool" where
  "sb_wf b \<longleftrightarrow> list_all isValidPayload (buf_payloads b) \<and> buf_size b = of_nat (length (sb_bytes b))"

text \<open>The invariant and the bytes as simplification rules, one per operation.\<close>

lemma payload_size_bytes: "isValidPayload p \<Longrightarrow> payload_size p = length (payload_bytes p)"
  by (cases p) auto

lemma invalid_no_bytes: "\<not> isValidPayload p \<Longrightarrow> payload_bytes p = []"
  by (cases p) auto

lemma sb_bytes_simps [simp]:
  "sb_bytes SocketBuffer_empty = []"
  "sb_bytes (prepend p b) = payload_bytes p @ sb_bytes b"
  "sb_bytes (append_payload p b) = sb_bytes b @ payload_bytes p"
  "sb_bytes (onNext p b) = sb_bytes b @ payload_bytes p"
  "sb_bytes (SocketBuffer_of p) = payload_bytes p"
  by (simp_all add: sb_bytes_def SocketBuffer_empty_def prepend_def append_payload_def onNext_def
      SocketBuffer_of_def invalid_no_bytes)

lemma sb_wf_empty [simp]: "sb_wf SocketBuffer_empty"
  by (simp add: sb_wf_def SocketBuffer_empty_def sb_bytes_def)

lemma sb_wf_prepend [simp]: "sb_wf b \<Longrightarrow> sb_wf (prepend p b)"
  by (simp add: sb_wf_def prepend_def sb_bytes_def payload_size_bytes)

lemma sb_wf_onNext [simp]: "sb_wf b \<Longrightarrow> sb_wf (onNext p b)"
  by (simp add: sb_wf_def onNext_def sb_bytes_def payload_size_bytes)

lemma append_payload_onNext: "append_payload = onNext"
  by (simp add: append_payload_def onNext_def fun_eq_iff)

lemma sb_wf_append [simp]: "sb_wf b \<Longrightarrow> sb_wf (append_payload p b)"
  by (simp add: append_payload_onNext)

lemma sb_wf_of [simp]: "sb_wf (SocketBuffer_of p)"
  by (simp add: SocketBuffer_of_def)

lemma fold_onNext:
  "sb_wf b \<Longrightarrow> sb_wf (fold onNext ps b) \<and> sb_bytes (fold onNext ps b) = sb_bytes b @ concat (map payload_bytes ps)"
  by (induction ps arbitrary: b) auto

lemma sb_scattered [simp]:
  "sb_wf (SocketBuffer_scattered ps)" "sb_bytes (SocketBuffer_scattered ps) = concat (map payload_bytes ps)"
  using fold_onNext [OF sb_wf_empty, of ps] by (simp_all add: SocketBuffer_scattered_def)

lemma sb_size_bytes: "sb_wf b \<Longrightarrow> sb_size b = of_nat (length (sb_bytes b))"
  by (simp add: sb_size_def sb_wf_def)

lemma subspan_tail:
  assumes "length (pre @ bs) < 2 ^ 64"
  shows "subspan (pre @ bs) (of_nat (length (pre @ bs)) - of_nat (length bs)) = Some bs"
proof -
  have "unat (of_nat (length pre) :: u64) = length pre"
    using assms by (simp add: unat_of_nat)
  then show ?thesis by (simp add: subspan_def)
qed

text \<open>Cutting the last \<open>sz\<close> bytes off is defined exactly when there are that many.\<close>

lemma subspan_defined_iff:
  assumes "length bs < 2 ^ 64"
  shows "subspan bs (of_nat (length bs) - sz) \<noteq> None \<longleftrightarrow> unat sz \<le> length bs"
proof -
  have len: "unat (of_nat (length bs) :: u64) = length bs" using assms by (simp add: unat_of_nat)
  show ?thesis
  proof (cases "unat sz \<le> length bs")
    case True
    then have "unat (of_nat (length bs) - sz) = length bs - unat sz"
      using len by (simp add: unat_sub word_le_nat_alt)
    with True show ?thesis by (simp add: subspan_def)
  next
    case False
    then have "unat (of_nat (length bs) - sz) = 2 ^ 64 + length bs - unat sz"
      using len by (simp add: unat_sub_if' word_le_nat_alt)
    moreover have "unat sz < 2 ^ 64" using unsigned_less [of sz] by simp
    ultimately show ?thesis using False by (simp add: subspan_def)
  qed
qed

section \<open>Properties\<close>

text \<open>Programs that build a buffer, and the byte list they stand for.\<close>

datatype sb_op = Prepend payload | Append payload | OnNext payload

fun sb_step :: "sb_op \<Rightarrow> socket_buffer \<Rightarrow> socket_buffer" where
  "sb_step (Prepend p) b = prepend p b"
| "sb_step (Append p) b = append_payload p b"
| "sb_step (OnNext p) b = onNext p b"

fun bytes_step :: "sb_op \<Rightarrow> byte list \<Rightarrow> byte list" where
  "bytes_step (Prepend p) bs = payload_bytes p @ bs"
| "bytes_step (Append p) bs = bs @ payload_bytes p"
| "bytes_step (OnNext p) bs = bs @ payload_bytes p"

lemma sb_step_refines:
  "sb_wf b \<Longrightarrow> sb_wf (fold sb_step ops b) \<and> sb_bytes (fold sb_step ops b) = fold bytes_step ops (sb_bytes b)"
proof (induction ops arbitrary: b)
  case (Cons op ops)
  then show ?case by (cases op) auto
qed simp

text \<open>
  C36. A \<open>SocketBuffer\<close> implements a byte string: after any sequence of prepends and
  appends (null and empty spans included) the fragments it lists are not empty, their
  concatenation is the string built by the same operations on byte lists, and \<open>size()\<close>
  is its length (modulo the width of \<open>size_t\<close>).
\<close>

theorem SocketBuffer_refines_bytes:
  "let b = fold sb_step ops SocketBuffer_empty; bs = fold bytes_step ops []
   in concat (map payload_bytes (listFragments b)) = bs \<and> sb_size b = of_nat (length bs)
      \<and> [] \<notin> set (map payload_bytes (listFragments b))"
proof -
  let ?b = "fold sb_step ops SocketBuffer_empty"
  have "sb_wf ?b" "sb_bytes ?b = fold bytes_step ops []"
    using sb_step_refines [OF sb_wf_empty, of ops] by simp_all
  moreover from this have "[] \<notin> set (map payload_bytes (listFragments ?b))"
    by (auto simp: sb_wf_def listFragments_def list_all_iff elim!: isValidPayload.elims)
  ultimately show ?thesis
    by (simp add: sb_size_bytes Let_def) (simp add: listFragments_def sb_bytes_def)
qed

end
