(* ===== verification/Socket_Base.thy ===== *)
theory Socket_Base
  imports Posix_Io Socket_Buffer
begin

text \<open>
  \<^verbatim>\<open>src/common/ipc/pipe/socket_base.hpp\<close> and \<^verbatim>\<open>socket_base.cpp\<close>: the message framing of the
  IPC stream. \<open>SocketBase_send\<close> prepends the 8-byte header (signature, payload size) and
  writes the fragments; \<open>receiveData\<close> is called whenever the socket is readable and
  assembles header and payload from partial reads.

  The system calls are parameters. \<open>receiveData\<close> ends by calling
  \<open>io_state.on_rx_msg_payload\<close> and drops its result; the model returns the completed
  payload instead, and the callers (\<open>Socket_Pipes\<close>) run the handler on it after they
  have stored the new \<open>IoState\<close>, which is the state the handler sees in the code.
  \<open>std::size_t\<close> counters that stay below the buffer sizes are natural numbers.
\<close>

section \<open>State\<close>

definition MsgHeaderSignature :: u32 where
  "MsgHeaderSignature = 0x5356434F"

definition MsgPayloadMaxSize :: nat where
  "MsgPayloadMaxSize = 2 ^ 20"

text \<open>
  \<open>MsgPart\<close>: the 8 bytes of the \<open>MsgHeader\<close> struct under construction, or the
  \<open>MsgPayload\<close> with its size and buffer.
\<close>

datatype msg_part = MsgHeader "byte list" | MsgPayload u32 "byte list"

record io_state =
  io_fd :: int
  rx_partial_size :: nat
  rx_msg_part :: msg_part

definition MsgHeader_init :: msg_part where
  "MsgHeader_init = MsgHeader (replicate 8 0)"

definition IoState_init :: io_state where
  "IoState_init = \<lparr>io_fd = -1, rx_partial_size = 0, rx_msg_part = MsgHeader_init\<rparr>"

text \<open>The struct \<open>MsgHeader\<close> as bytes, and its two fields.\<close>

definition msg_header_bytes :: "u32 \<Rightarrow> u32 \<Rightarrow> byte list" where
  "msg_header_bytes sig sz = le_bytes 4 sig @ le_bytes 4 sz"

definition hdr_signature :: "byte list \<Rightarrow> u32" where
  "hdr_signature h = le_word (take 4 h)"

definition hdr_payload_size :: "byte list \<Rightarrow> u32" where
  "hdr_payload_size h = le_word (take 4 (drop 4 h))"

definition isNotReadyCondition :: "errno \<Rightarrow> bool" where
  "isNotReadyCondition err \<longleftrightarrow> err = EAGAIN"

type_synonym 'w recv_call = "int \<Rightarrow> nat \<Rightarrow> 'w \<Rightarrow> byte list sysret \<times> 'w"
type_synonym 'w send_call = "int \<Rightarrow> byte list \<Rightarrow> 'w \<Rightarrow> nat sysret \<times> 'w"

section \<open>Sending\<close>

fun send_fragments :: "'w send_call \<Rightarrow> int \<Rightarrow> payload list \<Rightarrow> 'w \<Rightarrow> (opt_error \<times> 'w) option" where
  "send_fragments sys_send fd [] w = Some (None, w)"
| "send_fragments sys_send fd (p # ps) w =
     (case posixSyscallError (sys_send fd (payload_bytes p)) w of
        None \<Rightarrow> None
      | Some (SysErr err, w') \<Rightarrow> Some (Some (errnoToError err), w')
      | Some (SysOk _, w') \<Rightarrow> send_fragments sys_send fd ps w')"

definition SocketBase_send ::
    "'w send_call \<Rightarrow> io_state \<Rightarrow> socket_buffer \<Rightarrow> 'w \<Rightarrow> (opt_error \<times> socket_buffer \<times> 'w) option" where
  "SocketBase_send sys_send io sock_buff w =
     (let hdr = msg_header_bytes MsgHeaderSignature (ucast (sb_size sock_buff));
          sock_buff' = prepend (Span hdr) sock_buff
      in map_option (\<lambda>(err, w'). (err, sock_buff', w'))
           (send_fragments sys_send (io_fd io) (listFragments sock_buff') w))"

section \<open>Receiving\<close>

datatype part_result = Return opt_error | Continue

definition receive_header ::
    "'w recv_call \<Rightarrow> io_state \<Rightarrow> byte list \<Rightarrow> 'w \<Rightarrow> (part_result \<times> io_state \<times> 'w) option" where
  "receive_header sys_recv io hdr w =
     (let to_payload = (\<lambda>h w. Some (Continue,
            io\<lparr>rx_partial_size := 0,
               rx_msg_part := MsgPayload (hdr_payload_size h)
                                (replicate (unat (hdr_payload_size h)) 0)\<rparr>, w))
      in if rx_partial_size io < 8 then
           (case posixSyscallError (sys_recv (io_fd io) (8 - rx_partial_size io)) w of
              None \<Rightarrow> None
            | Some (SysErr err, w') \<Rightarrow>
                if isNotReadyCondition err then Some (Return None, io, w')
                else if err = ECONNRESET then Some (Return (Some (mkErrorErrno Disconnected err)), io, w')
                else Some (Return (Some (errnoToError err)), io, w')
            | Some (SysOk bs, w') \<Rightarrow>
                let h = write_at hdr (rx_partial_size io) bs;
                    n = rx_partial_size io + length bs;
                    io' = io\<lparr>rx_partial_size := n, rx_msg_part := MsgHeader h\<rparr>
                in if bs = [] then Some (Return (Some (mkError Disconnected)), io', w')
                   else if n < 8 then Some (Return None, io', w')
                   else if hdr_signature h \<noteq> MsgHeaderSignature \<or> hdr_payload_size h = 0
                           \<or> unat (hdr_payload_size h) > MsgPayloadMaxSize
                   then Some (Return (Some (mkError InvalidArgument)), io', w')
                   else to_payload h w')
         else to_payload hdr w)"

definition receive_payload ::
    "'w recv_call \<Rightarrow> io_state \<Rightarrow> u32 \<Rightarrow> byte list \<Rightarrow> 'w \<Rightarrow>
     (opt_error \<times> io_state \<times> byte list option \<times> 'w) option" where
  "receive_payload sys_recv io msg_size buf w =
     (let completed = (\<lambda>buf w. Some (None,
            io\<lparr>rx_partial_size := 0, rx_msg_part := MsgHeader_init\<rparr>, Some buf, w))
      in if rx_partial_size io < unat msg_size then
           (case posixSyscallError (sys_recv (io_fd io) (unat msg_size - rx_partial_size io)) w of
              None \<Rightarrow> None
            | Some (SysErr err, w') \<Rightarrow>
                if isNotReadyCondition err then Some (None, io, None, w')
                else Some (Some (errnoToError err), io, None, w')
            | Some (SysOk bs, w') \<Rightarrow>
                let buf' = write_at buf (rx_partial_size io) bs;
                    n = rx_partial_size io + length bs;
                    io' = io\<lparr>rx_partial_size := n, rx_msg_part := MsgPayload msg_size buf'\<rparr>
                in if bs = [] then Some (Some (mkError Disconnected), io', None, w')
                   else if n < unat msg_size then Some (None, io', None, w')
                   else completed buf' w')
         else completed buf w)"

definition receiveData ::
    "'w recv_call \<Rightarrow> io_state \<Rightarrow> 'w \<Rightarrow> (opt_error \<times> io_state \<times> byte list option \<times> 'w) option" where
  "receiveData sys_recv io w =
     (case rx_msg_part io of
        MsgPayload msg_size buf \<Rightarrow> receive_payload sys_recv io msg_size buf w
      | MsgHeader hdr \<Rightarrow>
          (case receive_header sys_recv io hdr w of
             None \<Rightarrow> None
           | Some (Return err, io', w') \<Rightarrow> Some (err, io', None, w')
           | Some (Continue, io', w') \<Rightarrow>
               (case rx_msg_part io' of
                  MsgPayload msg_size buf \<Rightarrow> receive_payload sys_recv io' msg_size buf w'
                | MsgHeader _ \<Rightarrow> Some (None, io', None, w'))))"

text \<open>
  The executor calls \<open>receiveData\<close> again and again while the socket is readable:
  \<open>rx_run n\<close> is up to \<open>n\<close> such calls, stopped by the first error, with the payloads
  handed to \<open>on_rx_msg_payload\<close> in order.
\<close>

fun rx_run ::
    "'w recv_call \<Rightarrow> nat \<Rightarrow> io_state \<Rightarrow> 'w \<Rightarrow> (opt_error \<times> io_state \<times> byte list list \<times> 'w) option" where
  "rx_run sys_recv 0 io w = Some (None, io, [], w)"
| "rx_run sys_recv (Suc n) io w =
     (case receiveData sys_recv io w of
        None \<Rightarrow> None
      | Some (Some e, io', dlv, w') \<Rightarrow> Some (Some e, io', (case dlv of None \<Rightarrow> [] | Some m \<Rightarrow> [m]), w')
      | Some (None, io', dlv, w') \<Rightarrow>
          map_option (\<lambda>(e, io'', ms, w''). (e, io'', (case dlv of None \<Rightarrow> [] | Some m \<Rightarrow> [m]) @ ms, w''))
            (rx_run sys_recv n io' w'))"

section \<open>Specification of the wire format\<close>

definition frame :: "byte list \<Rightarrow> byte list" where
  "frame m = msg_header_bytes MsgHeaderSignature (of_nat (length m)) @ m"

definition frames :: "byte list list \<Rightarrow> byte list" where
  "frames ms = concat (map frame ms)"

text \<open>Messages the receiver accepts: not empty, at most 1 MB.\<close>

definition msg_ok :: "byte list \<Rightarrow> bool" where
  "msg_ok m \<longleftrightarrow> m \<noteq> [] \<and> length m \<le> MsgPayloadMaxSize"

definition io_wf :: "io_state \<Rightarrow> bool" where
  "io_wf io \<longleftrightarrow>
     (case rx_msg_part io of
        MsgHeader h \<Rightarrow> length h = 8 \<and> rx_partial_size io < 8
      | MsgPayload sz buf \<Rightarrow> length buf = unat sz \<and> unat sz \<le> MsgPayloadMaxSize
                            \<and> rx_partial_size io < unat sz)"

text \<open>The bytes of the current message that have been taken from the stream.\<close>

definition consumed :: "io_state \<Rightarrow> byte list" where
  "consumed io =
     (case rx_msg_part io of
        MsgHeader h \<Rightarrow> take (rx_partial_size io) h
      | MsgPayload sz buf \<Rightarrow> msg_header_bytes MsgHeaderSignature sz @ take (rx_partial_size io) buf)"

lemma io_wf_init [simp]: "io_wf (io\<lparr>rx_partial_size := 0, rx_msg_part := MsgHeader_init\<rparr>)"
  by (simp add: io_wf_def MsgHeader_init_def)

lemma consumed_init [simp]: "consumed (io\<lparr>rx_partial_size := 0, rx_msg_part := MsgHeader_init\<rparr>) = []"
  by (simp add: consumed_def MsgHeader_init_def)

lemma IoState_init_wf [simp]: "io_wf IoState_init" "consumed IoState_init = []"
  by (simp_all add: IoState_init_def io_wf_def consumed_def MsgHeader_init_def)

lemma frames_simps [simp]:
  "frames [] = []" "frames (m # ms) = frame m @ frames ms" "frames (ms @ ms') = frames ms @ frames ms'"
  by (simp_all add: frames_def)

lemma length_msg_header [simp]: "length (msg_header_bytes sig sz) = 8"
  by (simp add: msg_header_bytes_def)

lemma frame_not_Nil [simp]: "frame m \<noteq> []" "[] \<noteq> frame m"
  by (simp_all add: frame_def msg_header_bytes_def le_bytes_def)

lemma le4_inj: "le_bytes 4 (a :: u32) = le_bytes 4 b \<longleftrightarrow> a = b"
proof
  assume "le_bytes 4 a = le_bytes 4 b"
  then have "(le_word (le_bytes 4 a) :: u32) = le_word (le_bytes 4 b)" by (rule arg_cong)
  then show "a = b" by simp
qed simp

lemma msg_header_inj: "msg_header_bytes s a = msg_header_bytes s b \<longleftrightarrow> a = b"
  by (simp add: msg_header_bytes_def le4_inj)

lemma header_of_fields:
  assumes "length h = 8"
  shows "msg_header_bytes (hdr_signature h) (hdr_payload_size h) = h"
proof -
  have "le_bytes 4 (le_word bs :: u32) = bs" if "length bs = 4" for bs
    using le_bytes_word [where bs = bs and 'a = 32] that by simp
  then show ?thesis
    using assms by (simp add: msg_header_bytes_def hdr_signature_def hdr_payload_size_def)
qed

lemma fields_of_header [simp]:
  "hdr_signature (msg_header_bytes sig sz) = sig" "hdr_payload_size (msg_header_bytes sig sz) = sz"
  using le_word_bytes [where n = 4 and 'a = 32]
  by (simp_all add: msg_header_bytes_def hdr_signature_def hdr_payload_size_def)


text \<open>Frames can be told apart, and a wire that is whole frames ends at a frame boundary.\<close>

lemma frame_eq_cancel:
  assumes "msg_ok m" "msg_ok m'" "frame m @ x = frame m' @ y"
  shows "m = m' \<and> x = y"
proof -
  from assms(3) have h: "(of_nat (length m) :: u32) = of_nat (length m')" and t: "m @ x = m' @ y"
    by (simp_all add: frame_def append_eq_append_conv msg_header_inj)
  have "length m < 2 ^ 32" "length m' < 2 ^ 32"
    using assms(1,2) by (simp_all add: msg_ok_def MsgPayloadMaxSize_def)
  then have "length m = length m'"
    using arg_cong [OF h, of unat] by (simp add: unat_of_nat)
  with t show ?thesis by simp
qed

lemma consumed_no_frame:
  assumes "io_wf io" "msg_ok m"
  shows "frame m @ x \<noteq> consumed io"
proof
  assume eq': "frame m @ x = consumed io"
  then have eq: "consumed io = frame m @ x" by simp
  show False
  proof (cases "rx_msg_part io")
    case (MsgHeader h)
    with assms have "length (consumed io) < 8" by (simp add: io_wf_def consumed_def)
    with eq show False by (simp add: frame_def)
  next
    case (MsgPayload sz buf)
    with eq have sz: "sz = of_nat (length m)" and m: "take (rx_partial_size io) buf = m @ x"
      by (simp_all add: consumed_def frame_def append_eq_append_conv msg_header_inj)
    have "unat sz = length m"
      using assms(2) by (simp add: sz unat_of_nat msg_ok_def MsgPayloadMaxSize_def)
    with assms(1) MsgPayload arg_cong [OF m, of length] show False by (simp add: io_wf_def)
  qed
qed

lemma frames_decode:
  assumes "io_wf io" "list_all msg_ok ms" "list_all msg_ok ms'"
    and "frames ms = frames ms' @ consumed io"
  shows "ms' = ms \<and> consumed io = []"
  using assms(2-4)
proof (induction ms' arbitrary: ms)
  case Nil
  then show ?case
    using consumed_no_frame [OF assms(1)] by (cases ms) auto
next
  case (Cons m' ms')
  show ?case
  proof (cases ms)
    case Nil
    with Cons.prems show ?thesis by (simp add: frame_def msg_ok_def)
  next
    case (Cons m ms1)
    with Cons.prems have "m = m' \<and> frames ms1 = frames ms' @ consumed io"
      by (intro frame_eq_cancel) auto
    with Cons Cons.prems Cons.IH [of ms1] show ?thesis by simp
  qed
qed

section \<open>The receiver on a stream socket\<close>

text \<open>
  What \<open>recv\<close> of a stream socket promises: at most the number of bytes asked for, and
  those are the next bytes of the stream; a failed call takes nothing.
\<close>

locale stream_socket =
  fixes sys_recv :: "'w recv_call" and stream :: "'w \<Rightarrow> byte list"
  assumes recv_ok: "sys_recv fd n w = (SysOk bs, w') \<Longrightarrow> length bs \<le> n \<and> stream w = bs @ stream w'"
    and recv_err: "sys_recv fd n w = (SysErr e, w') \<Longrightarrow> stream w' = stream w"
begin

lemma recv_retry_ok:
  assumes "posixSyscallError (sys_recv fd n) w = Some (SysOk bs, w')"
  shows "length bs \<le> n \<and> stream w = bs @ stream w'"
proof -
  from assms obtain k v where chain: "eintr_chain (sys_recv fd n) k w v"
    and v: "sys_recv fd n v = (SysOk bs, w')" by (auto simp: posixSyscallError_Some_iff)
  from chain have "stream v = stream w" by (induction k arbitrary: w) (auto simp: recv_err)
  with recv_ok [OF v] show ?thesis by simp
qed

lemma recv_retry_err:
  assumes "posixSyscallError (sys_recv fd n) w = Some (SysErr e, w')"
  shows "stream w' = stream w"
proof -
  from assms obtain k v where chain: "eintr_chain (sys_recv fd n) k w v"
    and v: "sys_recv fd n v = (SysErr e, w')" by (auto simp: posixSyscallError_Some_iff)
  from chain have "stream v = stream w" by (induction k arbitrary: w) (auto simp: recv_err)
  with recv_err [OF v] show ?thesis by simp
qed

text \<open>One call moves bytes from the stream into the state, never drops or invents any.\<close>

lemma receive_header_conserves:
  assumes "receive_header sys_recv io h w = Some (r, io', w')" "rx_msg_part io = MsgHeader h" "io_wf io"
  shows "r = Return None \<Longrightarrow> io_wf io' \<and> consumed io @ stream w = consumed io' @ stream w'"
    and "r = Continue \<Longrightarrow> io_wf io' \<and> consumed io @ stream w = consumed io' @ stream w'
           \<and> (\<exists>sz buf. rx_msg_part io' = MsgPayload sz buf)"
proof -
  have h: "length h = 8" "rx_partial_size io < 8" using assms(2,3) by (auto simp: io_wf_def)
  obtain sr w1 where call: "posixSyscallError (sys_recv (io_fd io) (8 - rx_partial_size io)) w = Some (sr, w1)"
    using assms(1) h by (auto simp: receive_header_def Let_def split: option.splits)
  have "(r = Return None \<longrightarrow> io_wf io' \<and> consumed io @ stream w = consumed io' @ stream w')
      \<and> (r = Continue \<longrightarrow> io_wf io' \<and> consumed io @ stream w = consumed io' @ stream w'
           \<and> (\<exists>sz buf. rx_msg_part io' = MsgPayload sz buf))"
  proof (cases sr)
    case (SysErr e)
    with recv_retry_err call assms(1) h have "io' = io \<or> r \<noteq> Return None" "r \<noteq> Continue"
        "stream w' = stream w"
      by (auto simp: receive_header_def Let_def split: if_splits)
    with assms(3) SysErr show ?thesis
      using assms(1) h call by (auto simp: receive_header_def Let_def split: if_splits)
  next
    case (SysOk bs)
    let ?h = "write_at h (rx_partial_size io) bs" and ?n = "rx_partial_size io + length bs"
    from recv_retry_ok call SysOk have bs: "length bs \<le> 8 - rx_partial_size io" and st: "stream w = bs @ stream w1"
      by blast+
    with h have len: "length ?h = 8" and tk: "take ?n ?h = take (rx_partial_size io) h @ bs"
      by (simp_all add: take_write_at)
    have full: "msg_header_bytes MsgHeaderSignature (hdr_payload_size ?h) = take (rx_partial_size io) h @ bs"
      if "\<not> ?n < 8" "hdr_signature ?h = MsgHeaderSignature"
    proof -
      have "?n = 8" using that(1) bs h by linarith
      with tk len header_of_fields [OF len] that(2) show ?thesis by simp
    qed
    show ?thesis
      using assms(1,2) h call SysOk st len tk full
      by (auto simp: receive_header_def Let_def io_wf_def consumed_def unat_gt_0 split: if_splits)
  qed
  then show "r = Return None \<Longrightarrow> io_wf io' \<and> consumed io @ stream w = consumed io' @ stream w'"
    and "r = Continue \<Longrightarrow> io_wf io' \<and> consumed io @ stream w = consumed io' @ stream w'
           \<and> (\<exists>sz buf. rx_msg_part io' = MsgPayload sz buf)"
    by blast+
qed

lemma receive_payload_conserves:
  assumes "receive_payload sys_recv io sz buf w = Some (None, io', dlv, w')"
    and "rx_msg_part io = MsgPayload sz buf" "io_wf io"
  shows "io_wf io' \<and> consumed io @ stream w = frames (case dlv of None \<Rightarrow> [] | Some m \<Rightarrow> [m]) @ consumed io' @ stream w'
      \<and> (\<forall>m. dlv = Some m \<longrightarrow> msg_ok m)"
proof -
  have wf: "length buf = unat sz" "unat sz \<le> MsgPayloadMaxSize" "rx_partial_size io < unat sz"
    using assms(2,3) by (auto simp: io_wf_def)
  obtain sr w1 where
    call: "posixSyscallError (sys_recv (io_fd io) (unat sz - rx_partial_size io)) w = Some (sr, w1)"
    using assms(1) wf by (auto simp: receive_payload_def Let_def split: option.splits)
  show ?thesis
  proof (cases sr)
    case (SysErr e)
    with recv_retry_err call assms wf show ?thesis
      by (auto simp: receive_payload_def Let_def split: if_splits)
  next
    case (SysOk bs)
    let ?b = "write_at buf (rx_partial_size io) bs" and ?n = "rx_partial_size io + length bs"
    from recv_retry_ok call SysOk have bs: "length bs \<le> unat sz - rx_partial_size io"
      and st: "stream w = bs @ stream w1" by blast+
    with wf have len: "length ?b = unat sz" and tk: "take ?n ?b = take (rx_partial_size io) buf @ bs"
      by (simp_all add: take_write_at)
    have full: "?b = take (rx_partial_size io) buf @ bs" if "\<not> ?n < unat sz"
      using that tk len bs wf by simp
    have frame: "frame ?b = msg_header_bytes MsgHeaderSignature sz @ ?b"
      unfolding frame_def len by simp
    have ok: "msg_ok ?b" using wf len by (auto simp: msg_ok_def)
    show ?thesis
    proof (cases "bs = [] \<or> ?n < unat sz")
      case True
      with assms wf call SysOk st len tk show ?thesis
        by (auto simp: receive_payload_def Let_def io_wf_def consumed_def split: if_splits)
    next
      case False
      with assms wf call SysOk have "dlv = Some ?b" "w' = w1"
          "io' = io\<lparr>rx_partial_size := 0, rx_msg_part := MsgHeader_init\<rparr>"
        by (auto simp: receive_payload_def Let_def split: if_splits)
      with assms(2) ok frame full False st show ?thesis by (simp add: consumed_def MsgHeader_init_def io_wf_def)
    qed
  qed
qed

lemma receiveData_conserves:
  assumes "receiveData sys_recv io w = Some (None, io', dlv, w')" "io_wf io"
  shows "io_wf io' \<and> consumed io @ stream w = frames (case dlv of None \<Rightarrow> [] | Some m \<Rightarrow> [m]) @ consumed io' @ stream w'
      \<and> (\<forall>m. dlv = Some m \<longrightarrow> msg_ok m)"
proof (cases "rx_msg_part io")
  case (MsgPayload sz buf)
  with assms show ?thesis by (intro receive_payload_conserves) (simp_all add: receiveData_def)
next
  case (MsgHeader h)
  with assms(1) obtain r io1 w1 where hd: "receive_header sys_recv io h w = Some (r, io1, w1)"
    by (auto simp: receiveData_def split: option.splits)
  note cons = receive_header_conserves [OF hd MsgHeader assms(2)]
  show ?thesis
  proof (cases r)
    case (Return e)
    with assms MsgHeader hd cons(1) show ?thesis by (auto simp: receiveData_def)
  next
    case Continue
    from cons(2) [OF Continue] obtain sz buf where part: "rx_msg_part io1 = MsgPayload sz buf"
      and wf: "io_wf io1" and eq: "consumed io @ stream w = consumed io1 @ stream w1" by blast
    from assms(1) MsgHeader hd Continue part
    have "receive_payload sys_recv io1 sz buf w1 = Some (None, io', dlv, w')"
      by (simp add: receiveData_def)
    from receive_payload_conserves [OF this part wf] eq show ?thesis by simp
  qed
qed

lemma rx_run_conserves:
  "rx_run sys_recv n io w = Some (None, io', ms, w') \<Longrightarrow> io_wf io \<Longrightarrow>
   io_wf io' \<and> consumed io @ stream w = frames ms @ consumed io' @ stream w' \<and> list_all msg_ok ms"
proof (induction n arbitrary: io w ms)
  case (Suc n)
  from Suc.prems(1) obtain io1 dlv w1 ms1 where
    step: "receiveData sys_recv io w = Some (None, io1, dlv, w1)"
    and rest: "rx_run sys_recv n io1 w1 = Some (None, io', ms1, w')"
    and ms: "ms = (case dlv of None \<Rightarrow> [] | Some m \<Rightarrow> [m]) @ ms1"
    by (auto split: option.splits prod.splits)
  from receiveData_conserves [OF step Suc.prems(2)] Suc.IH [OF rest] ms show ?case
    by (auto split: option.splits)
qed auto

text \<open>
  Whatever the fragmentation: once the stream of whole frames is used up, exactly its
  messages have been delivered, in order.
\<close>

lemma rx_run_delivers:
  assumes "rx_run sys_recv n io w = Some (None, io', ms', w')"
    and "io_wf io" "consumed io = []" "stream w = frames ms" "list_all msg_ok ms" "stream w' = []"
  shows "ms' = ms \<and> consumed io' = []"
proof -
  from rx_run_conserves [OF assms(1,2)] assms(3-6)
  have "io_wf io'" "frames ms = frames ms' @ consumed io'" "list_all msg_ok ms'" by simp_all
  with assms(5) show ?thesis by (intro frames_decode)
qed

end

section \<open>A kernel socket: segments in the order they arrived\<close>

text \<open>
  The receive queue of a connected socket: data segments of any size, calls that fail
  (a signal, nothing to read) at any moment, and the end of the stream. \<open>recv\<close> returns
  bytes of the first segment only, so every boundary between segments is a short read.
\<close>

datatype arrival = Seg "byte list" | Fault errno | Eof

fun k_recv :: "arrival list recv_call" where
  "k_recv fd n [] = (SysErr EAGAIN, [])"
| "k_recv fd n (Seg bs # k) =
     (if length bs \<le> n then (SysOk bs, k) else (SysOk (take n bs), Seg (drop n bs) # k))"
| "k_recv fd n (Fault e # k) = (SysErr e, k)"
| "k_recv fd n (Eof # k) = (SysOk [], Eof # k)"

fun k_stream :: "arrival list \<Rightarrow> byte list" where
  "k_stream [] = []"
| "k_stream (Seg bs # k) = bs @ k_stream k"
| "k_stream (_ # k) = k_stream k"

interpretation kq: stream_socket k_recv k_stream
proof
  fix fd n w bs w' assume "k_recv fd n w = (SysOk bs, w')"
  then show "length bs \<le> n \<and> k_stream w = bs @ k_stream w'"
    by (cases "(fd, n, w)" rule: k_recv.cases) (auto split: if_splits)
next
  fix fd n w e w' assume "k_recv fd n w = (SysErr e, w')"
  then show "k_stream w' = k_stream w"
    by (cases "(fd, n, w)" rule: k_recv.cases) (auto split: if_splits)
qed

text \<open>Arrivals of a healthy connection, and how much is left of them.\<close>

fun healthy :: "arrival \<Rightarrow> bool" where
  "healthy (Seg bs) = (bs \<noteq> [])"
| "healthy (Fault e) = (e = EINTR \<or> e = EAGAIN)"
| "healthy Eof = False"

fun k_load :: "arrival list \<Rightarrow> nat" where
  "k_load [] = 0"
| "k_load (Seg bs # k) = length bs + k_load k"
| "k_load (Fault e # k) = Suc (k_load k)"
| "k_load (Eof # k) = Suc (k_load k)"

lemma k_load_0: "list_all healthy k \<Longrightarrow> k_load k = 0 \<longleftrightarrow> k = []"
  by (cases k rule: k_load.cases) auto

lemma k_recv_progress:
  assumes "list_all healthy k" "0 < n"
  shows "\<exists>r k'. posixSyscallError (k_recv fd n) k = Some (r, k') \<and> list_all healthy k'
     \<and> (r = SysErr EAGAIN \<or> (\<exists>bs. r = SysOk bs \<and> bs \<noteq> []))
     \<and> k_load k' \<le> k_load k \<and> (k \<noteq> [] \<longrightarrow> k_load k' < k_load k)"
  using assms(1)
proof (induction k rule: k_load.induct)
  case 1
  have "posixSyscallError (k_recv fd n) [] = Some (SysErr EAGAIN, [])"
    by (rule posixSyscallError_now) (simp_all add: errno_simps)
  then show ?case by simp
next
  case (2 bs k)
  let ?r = "k_recv fd n (Seg bs # k)"
  have "posixSyscallError (k_recv fd n) (Seg bs # k) = Some ?r"
    by (subst posixSyscallError.simps) simp
  with 2 assms(2) show ?case by auto
next
  case (3 e k)
  show ?case
  proof (cases "e = EINTR")
    case True
    then have "posixSyscallError (k_recv fd n) (Fault e # k) = posixSyscallError (k_recv fd n) k"
      by (intro posixSyscallError_retry) simp
    with 3 show ?thesis by fastforce
  next
    case False
    then have "posixSyscallError (k_recv fd n) (Fault e # k) = Some (SysErr e, k)"
      by (intro posixSyscallError_now) simp_all
    with 3 False show ?thesis by simp
  qed
qed simp

lemma receive_payload_progress:
  assumes "list_all healthy k" "rx_msg_part io = MsgPayload sz buf" "io_wf io"
  shows "\<exists>io' dlv k'. receive_payload k_recv io sz buf k = Some (None, io', dlv, k') \<and> list_all healthy k'
     \<and> k_load k' \<le> k_load k \<and> (k \<noteq> [] \<longrightarrow> k_load k' < k_load k)"
proof -
  have wf: "rx_partial_size io < unat sz" using assms(2,3) by (simp add: io_wf_def)
  then obtain r k' where
    call: "posixSyscallError (k_recv (io_fd io) (unat sz - rx_partial_size io)) k = Some (r, k')"
    and r: "list_all healthy k'" "r = SysErr EAGAIN \<or> (\<exists>bs. r = SysOk bs \<and> bs \<noteq> [])"
    and load: "k_load k' \<le> k_load k" "k \<noteq> [] \<longrightarrow> k_load k' < k_load k"
    using k_recv_progress [OF assms(1), of "unat sz - rx_partial_size io" "io_fd io"] by auto
  have "\<exists>io' dlv. receive_payload k_recv io sz buf k = Some (None, io', dlv, k')"
    using call r(2) wf by (auto simp: receive_payload_def Let_def isNotReadyCondition_def)
  with r(1) load show ?thesis by blast
qed

lemma frames_take8:
  assumes "list_all msg_ok ms" "frames ms = h @ x" "length h = 8"
  obtains sz where "h = msg_header_bytes MsgHeaderSignature sz" "sz \<noteq> 0" "unat sz \<le> MsgPayloadMaxSize"
proof (cases ms)
  case Nil
  with assms show ?thesis by simp
next
  case (Cons m ms')
  with assms have "h = msg_header_bytes MsgHeaderSignature (of_nat (length m))" and ok: "msg_ok m"
    by (simp_all add: frame_def append_eq_append_conv)
  moreover have "unat (of_nat (length m) :: u32) = length m"
    using ok by (simp add: unat_of_nat msg_ok_def MsgPayloadMaxSize_def)
  ultimately show ?thesis
    using ok that [of "of_nat (length m)"] by (auto simp: msg_ok_def unat_eq_zero [symmetric])
qed

lemma receiveData_progress:
  assumes k: "list_all healthy k" and wf: "io_wf io"
    and ms: "list_all msg_ok ms" "consumed io @ k_stream k = frames ms"
  shows "\<exists>io' dlv k'. receiveData k_recv io k = Some (None, io', dlv, k') \<and> list_all healthy k'
     \<and> k_load k' \<le> k_load k \<and> (k \<noteq> [] \<longrightarrow> k_load k' < k_load k)"
proof (cases "rx_msg_part io")
  case (MsgPayload sz buf)
  with receive_payload_progress [OF k MsgPayload wf] show ?thesis by (simp add: receiveData_def)
next
  case (MsgHeader h)
  let ?p = "rx_partial_size io"
  have h: "length h = 8" "?p < 8" using MsgHeader wf by (auto simp: io_wf_def)
  then obtain r k' where
    call: "posixSyscallError (k_recv (io_fd io) (8 - ?p)) k = Some (r, k')"
    and r: "list_all healthy k'" "r = SysErr EAGAIN \<or> (\<exists>bs. r = SysOk bs \<and> bs \<noteq> [])"
    and load: "k_load k' \<le> k_load k" "k \<noteq> [] \<longrightarrow> k_load k' < k_load k"
    using k_recv_progress [OF k, of "8 - ?p" "io_fd io"] by auto
  show ?thesis
  proof (cases "\<exists>bs. r = SysOk bs \<and> \<not> ?p + length bs < 8")
    case False
    with r(2) call h have "\<exists>io'. receive_header k_recv io h k = Some (Return None, io', k')"
      by (auto simp: receive_header_def Let_def isNotReadyCondition_def)
    with MsgHeader r(1) load show ?thesis by (auto simp: receiveData_def)
  next
    case True
    then obtain bs where bs: "r = SysOk bs" "\<not> ?p + length bs < 8" by blast
    with kq.recv_retry_ok [of "io_fd io" "8 - ?p" k bs k'] call
    have len: "length bs = 8 - ?p" and st: "k_stream k = bs @ k_stream k'" by auto
    let ?h = "write_at h ?p bs"
    have "?h = take ?p h @ bs" using h len by (simp add: write_at_def)
    with ms(2) st MsgHeader have "frames ms = ?h @ k_stream k'" by (simp add: consumed_def)
    from frames_take8 [OF ms(1) this] h len obtain sz where
      sz: "?h = msg_header_bytes MsgHeaderSignature sz" "sz \<noteq> 0" "unat sz \<le> MsgPayloadMaxSize" by auto
    let ?io = "io\<lparr>rx_partial_size := 0, rx_msg_part := MsgPayload sz (replicate (unat sz) 0)\<rparr>"
    have "receive_header k_recv io h k = Some (Continue, ?io, k')"
      using call bs h sz len by (auto simp: receive_header_def Let_def)
    moreover have "io_wf ?io" using sz by (simp add: io_wf_def unat_gt_0)
    ultimately show ?thesis
      using receive_payload_progress [OF r(1), of ?io] MsgHeader load
      by (fastforce simp: receiveData_def)
  qed
qed

text \<open>
  Total correctness of the receiver: with a healthy connection, as many calls as there
  are bytes and failed calls empty the queue and deliver every message once, in order.
\<close>

lemma rx_run_empty: "io_wf io \<Longrightarrow> consumed io = frames ms \<Longrightarrow> list_all msg_ok ms \<Longrightarrow>
  \<exists>io'. rx_run k_recv n io [] = Some (None, io', [], [])"
proof (induction n arbitrary: io ms)
  case (Suc n)
  from receiveData_progress [of "[]" io ms] Suc.prems obtain io' dlv k' where
    step: "receiveData k_recv io [] = Some (None, io', dlv, k')" and "list_all healthy k'" "k_load k' = 0" by auto
  then have k': "k' = []" using k_load_0 by blast
  from Suc.prems have "ms = []"
    using frames_decode [of io ms "[]"] by simp
  with kq.receiveData_conserves [OF step] Suc.prems k' have wf: "io_wf io'" and nil: "consumed io' = []"
    and dlv: "dlv = None"
    by (auto split: option.splits)
  from Suc.IH [OF wf, of "[]"] nil step k' dlv show ?case by auto
qed simp

lemma rx_run_total:
  assumes "list_all healthy k" "io_wf io" "list_all msg_ok ms" "consumed io @ k_stream k = frames ms"
    and "k_load k \<le> n"
  shows "\<exists>io' ms'. rx_run k_recv n io k = Some (None, io', ms', [])"
  using assms
proof (induction n arbitrary: k io ms)
  case 0
  then show ?case by (simp add: k_load_0)
next
  case (Suc n)
  show ?case
  proof (cases "k = []")
    case True
    with Suc.prems rx_run_empty [of io ms "Suc n"] show ?thesis by (metis append_Nil2 k_stream.simps(1))
  next
    case False
    with receiveData_progress Suc.prems obtain io1 dlv k1 where
      step: "receiveData k_recv io k = Some (None, io1, dlv, k1)" and k1: "list_all healthy k1" "k_load k1 < k_load k"
      by metis
    from kq.receiveData_conserves [OF step Suc.prems(2)] have wf: "io_wf io1"
      and eq: "frames ms = frames (case dlv of None \<Rightarrow> [] | Some m \<Rightarrow> [m]) @ consumed io1 @ k_stream k1"
      and ok: "\<forall>m. dlv = Some m \<longrightarrow> msg_ok m"
      using Suc.prems(4) by simp_all
    obtain ms2 where ms2: "consumed io1 @ k_stream k1 = frames ms2" "list_all msg_ok ms2"
    proof (cases dlv)
      case None
      with eq Suc.prems(3) that [of ms] show ?thesis by simp
    next
      case (Some m)
      with eq have fm: "frames ms = frame m @ consumed io1 @ k_stream k1" by simp
      then obtain m1 ms1 where "ms = m1 # ms1" by (cases ms) auto
      with fm Suc.prems(3) ok Some that [of ms1] show ?thesis
        using frame_eq_cancel [of m1 m "frames ms1"] by auto
    qed
    from Suc.IH [OF k1(1) wf ms2(2,1)] k1(2) Suc.prems(5) step show ?thesis
      by (auto split: option.splits)
  qed
qed

section \<open>The sender on a stream socket\<close>

text \<open>
  What \<open>send\<close> promises: some prefix of the bytes is queued, in order. \<open>ample w\<close> says
  that from the state \<open>w\<close> on the socket has room for every call, so that no successful
  call is short.
\<close>

locale stream_sink =
  fixes sys_send :: "'w send_call" and wire :: "'w \<Rightarrow> byte list" and ample :: "'w \<Rightarrow> bool"
  assumes send_ok: "sys_send fd bs w = (SysOk n, w') \<Longrightarrow> n \<le> length bs \<and> wire w' = wire w @ take n bs"
    and send_err: "sys_send fd bs w = (SysErr e, w') \<Longrightarrow> wire w' = wire w"
    and ample_step: "ample w \<Longrightarrow> sys_send fd bs w = (r, w') \<Longrightarrow> ample w'"
    and ample_full: "ample w \<Longrightarrow> sys_send fd bs w = (SysOk n, w') \<Longrightarrow> n = length bs"
begin

lemma send_retry_ok:
  assumes "posixSyscallError (sys_send fd bs) w = Some (SysOk n, w')" "ample w"
  shows "wire w' = wire w @ bs \<and> ample w'"
proof -
  from assms obtain k v where chain: "eintr_chain (sys_send fd bs) k w v"
    and v: "sys_send fd bs v = (SysOk n, w')" by (auto simp: posixSyscallError_Some_iff)
  from chain assms(2) have "wire v = wire w \<and> ample v"
    by (induction k arbitrary: w) (auto simp: send_err dest: ample_step)
  with send_ok [OF v] ample_full [OF _ v] ample_step [OF _ v] show ?thesis by auto
qed

lemma send_fragments_wire:
  "send_fragments sys_send fd ps w = Some (None, w') \<Longrightarrow> ample w \<Longrightarrow>
   wire w' = wire w @ concat (map payload_bytes ps) \<and> ample w'"
proof (induction ps arbitrary: w)
  case (Cons p ps)
  from Cons.prems(1) obtain n w1 where step: "posixSyscallError (sys_send fd (payload_bytes p)) w = Some (SysOk n, w1)"
    and rest: "send_fragments sys_send fd ps w1 = Some (None, w')"
    by (auto split: option.splits prod.splits sysret.splits)
  from Cons.IH [OF rest] send_retry_ok [OF step Cons.prems(2)] show ?case by simp
qed simp

lemma SocketBase_send_wire:
  assumes "SocketBase_send sys_send io b w = Some (None, b', w')" "ample w" "sb_wf b"
  shows "wire w' = wire w @ frame (sb_bytes b) \<and> ample w'"
proof -
  let ?h = "msg_header_bytes MsgHeaderSignature (ucast (sb_size b))"
  have "(ucast (sb_size b) :: u32) = of_nat (length (sb_bytes b))"
    unfolding sb_size_bytes [OF assms(3)] by (rule ucast_u32_of_nat)
  then have "sb_bytes (prepend (Span ?h) b) = frame (sb_bytes b)" by (simp add: frame_def)
  moreover have "send_fragments sys_send (io_fd io) (listFragments (prepend (Span ?h) b)) w = Some (None, w')"
    using assms(1) by (auto simp: SocketBase_send_def Let_def)
  ultimately show ?thesis
    using send_fragments_wire assms(2) by (simp add: listFragments_def sb_bytes_def)
qed

end

text \<open>
  A kernel send queue: the results the calls will return (a byte count, or a failure;
  everything is accepted once the list is used up) and the bytes accepted so far.
\<close>

fun k_send :: "(nat sysret list \<times> byte list) send_call" where
  "k_send fd bs ([], out) = (SysOk (length bs), ([], out @ bs))"
| "k_send fd bs (SysOk n # gs, out) = (SysOk (min n (length bs)), (gs, out @ take n bs))"
| "k_send fd bs (SysErr e # gs, out) = (SysErr e, (gs, out))"

interpretation ks: stream_sink k_send snd "\<lambda>w. list_all (\<lambda>g. \<exists>e. g = SysErr e) (fst w)"
proof
  fix fd bs w n w' assume "k_send fd bs w = (SysOk n, w')"
  then show "n \<le> length bs \<and> snd w' = snd w @ take n bs"
    by (cases "(fd, bs, w)" rule: k_send.cases) (auto simp: min_def)
next
  fix fd bs w e w' assume "k_send fd bs w = (SysErr e, w')"
  then show "snd w' = snd w" by (cases "(fd, bs, w)" rule: k_send.cases) auto
next
  fix fd bs w r w' assume "list_all (\<lambda>g. \<exists>e. g = SysErr e) (fst w)" "k_send fd bs w = (r, w')"
  then show "list_all (\<lambda>g. \<exists>e. g = SysErr e) (fst w')"
    by (cases "(fd, bs, w)" rule: k_send.cases) auto
next
  fix fd bs w n w' assume "list_all (\<lambda>g. \<exists>e. g = SysErr e) (fst w)" "k_send fd bs w = (SysOk n, w')"
  then show "n = length bs" by (cases "(fd, bs, w)" rule: k_send.cases) auto
qed

section \<open>Properties\<close>

text \<open>Several messages sent one after the other, as the routers do; an error stops.\<close>

fun send_all :: "'w send_call \<Rightarrow> io_state \<Rightarrow> socket_buffer list \<Rightarrow> 'w \<Rightarrow> (opt_error \<times> 'w) option" where
  "send_all sys_send io [] w = Some (None, w)"
| "send_all sys_send io (b # bs) w =
     (case SocketBase_send sys_send io b w of
        None \<Rightarrow> None
      | Some (Some err, b', w') \<Rightarrow> Some (Some err, w')
      | Some (None, b', w') \<Rightarrow> send_all sys_send io bs w')"

abbreviation k_ample :: "nat sysret list \<Rightarrow> bool" where
  "k_ample gs \<equiv> list_all (\<lambda>g. \<exists>e. g = SysErr e) gs"

lemma send_all_wire:
  "send_all k_send io bs w = Some (None, w') \<Longrightarrow> k_ample (fst w) \<Longrightarrow> list_all sb_wf bs \<Longrightarrow>
   snd w' = snd w @ frames (map sb_bytes bs)"
proof (induction bs arbitrary: w)
  case (Cons b bs)
  from Cons.prems(1) obtain b1 w1 where "SocketBase_send k_send io b w = Some (None, b1, w1)"
    and rest: "send_all k_send io bs w1 = Some (None, w')"
    by (auto split: option.splits prod.splits)
  with ks.SocketBase_send_wire [of io b w b1 w1] Cons.prems(2,3) have
    "snd w1 = snd w @ frame (sb_bytes b)" "k_ample (fst w1)" by simp_all
  with Cons.IH [OF rest] Cons.prems(3) show ?case by simp
qed simp

text \<open>
  C5. Framing round trip. When every buffer is not empty and at most 1 MB and \<open>send\<close>
  reports success on a socket that takes whole fragments (interrupts and other failures
  may come in between), then however the stream is cut into segments and whatever
  interrupts and "not ready" results the receiver meets, the receiving side returns no
  error, delivers exactly the bytes of each buffer, once, in order, and ends at a message
  boundary, after at most as many \<open>receiveData\<close> calls as there are bytes and faults.
\<close>

theorem ipc_framing_roundtrip:
  assumes "list_all sb_wf bs" "list_all (\<lambda>b. msg_ok (sb_bytes b)) bs" "k_ample gs"
    and "send_all k_send io bs (gs, []) = Some (None, (gs', out))"
    and "list_all healthy k" "k_stream k = out" "k_load k \<le> n"
  shows "\<exists>io'. rx_run k_recv n IoState_init k = Some (None, io', map sb_bytes bs, []) \<and> consumed io' = []"
proof -
  from send_all_wire [OF assms(4)] assms(1,3) have out: "out = frames (map sb_bytes bs)" by simp
  have ok: "list_all msg_ok (map sb_bytes bs)" using assms(2) by (simp add: list_all_iff)
  from rx_run_total [OF assms(5) IoState_init_wf(1) ok _ assms(7)] out assms(6) obtain io' ms' where
    run: "rx_run k_recv n IoState_init k = Some (None, io', ms', [])" by auto
  from kq.rx_run_delivers [OF run _ _ _ ok] out assms(6) run show ?thesis by simp
qed

lemma k_send_run [simp]:
  "posixSyscallError (k_send fd bs) ([], out) = Some (SysOk (length bs), ([], out @ bs))"
  "posixSyscallError (k_send fd bs) (SysOk n # gs, out) = Some (SysOk (min n (length bs)), (gs, out @ take n bs))"
  "posixSyscallError (k_send fd bs) (SysErr EINTR # gs, out) = posixSyscallError (k_send fd bs) (gs, out)"
  "e \<noteq> EINTR \<Longrightarrow> posixSyscallError (k_send fd bs) (SysErr e # gs, out) = Some (SysErr e, (gs, out))"
  by (subst posixSyscallError.simps, simp)+

lemma msg_header_not_Nil [simp]: "msg_header_bytes sig sz \<noteq> []"
  by (simp add: msg_header_bytes_def le_bytes_def)

lemma isValid_header [simp]: "isValidPayload (Span (msg_header_bytes sig sz))"
  by (simp add: msg_header_bytes_def le_bytes_def)

theorem ipc_framing_roundtrip_witness:
  "\<exists>out. send_all k_send IoState_init [SocketBuffer_of (Span [1, 2, 3]), SocketBuffer_of (Span [4])]
       ([SysErr EINTR], []) = Some (None, ([], out)) \<and>
     (\<exists>io'. rx_run k_recv 21 IoState_init [Seg (take 5 out), Fault EINTR, Seg (drop 5 out)]
        = Some (None, io', [[1, 2, 3], [4]], []) \<and> consumed io' = [])"
proof -
  let ?bs = "[SocketBuffer_of (Span [1, 2, 3]), SocketBuffer_of (Span [4])]"
  let ?out = "frame [1, 2, 3] @ frame [4]"
  let ?k = "[Seg (take 5 ?out), Fault EINTR, Seg (drop 5 ?out)]"
  have send: "send_all k_send IoState_init ?bs ([SysErr EINTR], []) = Some (None, ([], ?out))"
    by (simp add: SocketBase_send_def listFragments_def prepend_def SocketBuffer_of_def
        append_payload_def SocketBuffer_empty_def sb_size_def frame_def Let_def)
  have len: "length ?out = 20" by (simp add: frame_def)
  then have k: "list_all healthy ?k" "k_stream ?k = ?out" "k_load ?k \<le> 21"
    by (auto simp del: take_append drop_append)
  have "\<exists>io'. rx_run k_recv 21 IoState_init ?k = Some (None, io', map sb_bytes ?bs, []) \<and> consumed io' = []"
    by (rule ipc_framing_roundtrip [OF _ _ _ send k]) (simp_all add: msg_ok_def MsgPayloadMaxSize_def)
  with send show ?thesis by (simp del: take_append drop_append)
qed

text \<open>
  C33. Nothing is lost, invented or reordered, whatever the peer and the socket do: as long
  as \<open>receiveData\<close> reports no error, the bytes taken so far and still to come are the
  frames of the payloads delivered, then the part of the message under construction, then
  the rest of the stream; every payload delivered is within bounds and so is the buffer.
\<close>

theorem receive_conserves_stream:
  assumes "rx_run k_recv n io k = Some (None, io', ms, k')" "io_wf io"
  shows "io_wf io' \<and> list_all msg_ok ms
    \<and> consumed io @ k_stream k = frames ms @ consumed io' @ k_stream k'"
  using kq.rx_run_conserves [OF assms] by simp

lemma k_recv_Seg_run [simp]:
  "posixSyscallError (k_recv fd n) (Seg bs # k) =
     Some (if length bs \<le> n then (SysOk bs, k) else (SysOk (take n bs), Seg (drop n bs) # k))"
  by (subst posixSyscallError.simps) simp

theorem receive_conserves_stream_witness:
  "\<exists>io' ms. rx_run k_recv 1 IoState_init [Seg [7], Eof] = Some (None, io', ms, [Eof])
     \<and> io_wf io' \<and> [7] = frames ms @ consumed io'"
proof -
  let ?io = "IoState_init\<lparr>rx_partial_size := 1, rx_msg_part := MsgHeader (write_at (replicate 8 0) 0 [7])\<rparr>"
  have "rx_run k_recv 1 IoState_init [Seg [7], Eof] = Some (None, ?io, [], [Eof])"
    by (simp add: IoState_init_def MsgHeader_init_def receiveData_def receive_header_def Let_def)
  with receive_conserves_stream [OF this] show ?thesis by simp
qed

text \<open>
  A peer cannot make the daemon allocate or deliver on a bad header: when 8 header
  bytes have arrived, the connection fails with \<open>InvalidArgument\<close> exactly when the
  signature is wrong or the size is zero or above 1 MB; then nothing is delivered and no
  payload buffer exists.
\<close>

theorem bad_header_rejected:
  assumes "length h = 8" "receiveData k_recv IoState_init (Seg h # k) = Some (e, io', dlv, k')"
    and "k = [] \<or> (\<exists>bs k2. bs \<noteq> [] \<and> k = Seg bs # k2)"
  shows "(e = Some (mkError InvalidArgument) \<longleftrightarrow>
      hdr_signature h \<noteq> MsgHeaderSignature \<or> hdr_payload_size h = 0 \<or> 2 ^ 20 < unat (hdr_payload_size h))
    \<and> (e = Some (mkError InvalidArgument) \<longrightarrow> dlv = None \<and> rx_msg_part io' = MsgHeader h)"
proof (cases "hdr_signature h \<noteq> MsgHeaderSignature \<or> hdr_payload_size h = 0 \<or> 2 ^ 20 < unat (hdr_payload_size h)")
  case True
  from assms(1) have "h \<noteq> []" by auto
  with True assms(1,2) show ?thesis
    by (auto simp: receiveData_def receive_header_def IoState_init_def MsgHeader_init_def write_at_def
        MsgPayloadMaxSize_def Let_def)
next
  case False
  let ?io = "IoState_init\<lparr>rx_msg_part := MsgPayload (hdr_payload_size h) (replicate (unat (hdr_payload_size h)) 0)\<rparr>"
  from assms(1) have "h \<noteq> []" by auto
  with False assms(1,2) have "receive_payload k_recv ?io (hdr_payload_size h)
      (replicate (unat (hdr_payload_size h)) 0) k = Some (e, io', dlv, k')"
    by (auto simp: receiveData_def receive_header_def IoState_init_def MsgHeader_init_def write_at_def
        MsgPayloadMaxSize_def Let_def)
  moreover have "posixSyscallError (k_recv fd n) [] = Some (SysErr EAGAIN, [])" for fd n
    by (rule posixSyscallError_now) (simp_all add: errno_simps)
  ultimately have "e = None" using assms(3) False
    by (auto simp: receive_payload_def IoState_init_def isNotReadyCondition_def Let_def split: if_splits)
  with False show ?thesis by simp
qed

theorem bad_header_rejected_witness:
  "\<exists>io'. receiveData k_recv IoState_init [Seg (replicate 8 0)] = Some (Some (mkError InvalidArgument), io', None, [])"
proof -
  let ?io = "IoState_init\<lparr>rx_partial_size := 8, rx_msg_part := MsgHeader (replicate 8 0)\<rparr>"
  have "receiveData k_recv IoState_init [Seg (replicate 8 0)] =
      Some (Some (mkError InvalidArgument), ?io, None, [])"
    by (simp add: receiveData_def receive_header_def IoState_init_def MsgHeader_init_def write_at_def
        Let_def hdr_signature_def hdr_payload_size_def MsgHeaderSignature_def eval_nat_numeral)
  with bad_header_rejected [OF _ this] show ?thesis by auto
qed

text \<open>
  A short write is not noticed: when the kernel takes only \<open>n\<close> bytes of the last
  fragment, \<open>send\<close> still reports success, although the rest of the message never reaches
  the wire, where the header announces all of it.
\<close>

theorem short_write_unnoticed:
  assumes "sb_wf b" "listFragments b = [Span bs]" "n < length bs"
  shows "\<exists>b'. SocketBase_send k_send io b ([SysOk 8, SysOk n], out) =
    Some (None, b', ([], out @ msg_header_bytes MsgHeaderSignature (of_nat (length bs)) @ take n bs))"
proof -
  have "ucast (sb_size b) = (of_nat (length bs) :: u32)"
    using assms(1,2) by (simp add: sb_size_bytes ucast_u32_of_nat sb_bytes_def listFragments_def)
  with assms(2) show ?thesis
    by (simp add: SocketBase_send_def prepend_def listFragments_def Let_def)
qed

theorem short_write_unnoticed_witness:
  "\<exists>b'. SocketBase_send k_send IoState_init (SocketBuffer_of (Span [1, 2])) ([SysOk 8, SysOk 1], []) =
    Some (None, b', ([], msg_header_bytes MsgHeaderSignature 2 @ [1]))"
  using short_write_unnoticed [of "SocketBuffer_of (Span [1, 2])" "[1, 2]" 1 IoState_init "[]"]
  by (simp add: SocketBuffer_of_def append_payload_def SocketBuffer_empty_def listFragments_def
      sb_wf_def sb_bytes_def)

end
