(* ===== verification/Socket_Address.thy ===== *)
theory Socket_Address
  imports Posix_Io
begin

text \<open>
  \<^verbatim>\<open>src/common/io/socket_address.hpp\<close> and \<^verbatim>\<open>socket_address.cpp\<close>: connection strings, their
  conversion to and from socket addresses, and the socket calls made on an address.

  The \<open>sockaddr_storage\<close> of an address is its 128 bytes; \<open>sockaddr_in\<close>, \<open>sockaddr_in6\<close> and
  \<open>sockaddr_un\<close> are views of them (Linux layout: the family in bytes 0-1, the port in
  network order in bytes 2-3, the IPv4 address from byte 4, the IPv6 address from byte 8,
  \<open>sun_path\<close> of 108 bytes from byte 2). Strings are byte strings. \<open>inet_pton\<close> and
  \<open>inet_ntop\<close> and the system calls are parameters; \<open>strtoull\<close> with base 0 is written out
  (C locale, prefixes \<open>0\<close> and \<open>0x\<close>). \<open>None\<close> of \<open>getUnixPrefixAndPath\<close> and \<open>toString\<close>
  is a read outside the storage.
\<close>

section \<open>Strings\<close>

fun find_first_of :: "byte \<Rightarrow> byte list \<Rightarrow> nat option" where
  "find_first_of c [] = None"
| "find_first_of c (x # xs) = (if x = c then Some 0 else map_option Suc (find_first_of c xs))"

definition find_last_of :: "byte \<Rightarrow> byte list \<Rightarrow> nat option" where
  "find_last_of c s = map_option (\<lambda>i. length s - 1 - i) (find_first_of c (rev s))"

text \<open>\<open>fmt\<close> of an unsigned integer.\<close>

fun dec_digits :: "nat \<Rightarrow> byte list" where
  "dec_digits n = (if n < 10 then [of_nat (48 + n)] else dec_digits (n div 10) @ [of_nat (48 + n mod 10)])"

declare dec_digits.simps [simp del]

section \<open>strtoull\<close>

definition is_space :: "byte \<Rightarrow> bool" where
  "is_space b \<longleftrightarrow> b = 32 \<or> 9 \<le> b \<and> b \<le> 13"

definition digit_val :: "byte \<Rightarrow> nat" where
  "digit_val b =
     (if 48 \<le> b \<and> b \<le> 57 then unat b - 48
      else if 97 \<le> b \<and> b \<le> 122 then unat b - 87
      else if 65 \<le> b \<and> b \<le> 90 then unat b - 55
      else 36)"

fun eat_digits :: "nat \<Rightarrow> nat \<Rightarrow> byte list \<Rightarrow> nat \<times> byte list" where
  "eat_digits base acc [] = (acc, [])"
| "eat_digits base acc (c # cs) =
     (if digit_val c < base then eat_digits base (acc * base + digit_val c) cs else (acc, c # cs))"

fun strip_sign :: "byte list \<Rightarrow> bool \<times> byte list" where
  "strip_sign [] = (False, [])"
| "strip_sign (c # cs) = (if c = 45 then (True, cs) else if c = 43 then (False, cs) else (False, c # cs))"

definition detect_base :: "byte list \<Rightarrow> nat \<times> byte list" where
  "detect_base s =
     (if 3 \<le> length s \<and> s ! 0 = 48 \<and> s ! 1 \<in> {120, 88} \<and> digit_val (s ! 2) < 16 then (16, drop 2 s)
      else if s \<noteq> [] \<and> s ! 0 = 48 then (8, s)
      else (10, s))"

text \<open>\<open>strtoull(s, &end, 0)\<close>: the value, and the string at \<open>end\<close>.\<close>

definition strtoull :: "byte list \<Rightarrow> u64 \<times> byte list" where
  "strtoull s =
     (let (neg, s1) = strip_sign (dropWhile is_space s);
          (base, s2) = detect_base s1
      in if s2 = [] \<or> base \<le> digit_val (hd s2) then (0, s)
         else let (v, rest) = eat_digits base 0 s2
              in (if 2 ^ 64 \<le> v then - 1 else if neg then - of_nat v else of_nat v, rest))"

section \<open>Addresses\<close>

definition AF_UNSPEC :: u16 where "AF_UNSPEC = 0"
definition AF_UNIX :: u16 where "AF_UNIX = 1"
definition AF_INET :: u16 where "AF_INET = 2"
definition AF_INET6 :: u16 where "AF_INET6 = 10"

lemmas af_defs = AF_UNSPEC_def AF_UNIX_def AF_INET_def AF_INET6_def

record socket_address =
  is_wildcard :: bool
  addr_len :: nat
  addr_storage :: "byte list"

datatype pton_result = PtonOk "byte list" | PtonBad | PtonErr errno

record inet_env =
  inet_pton :: "u16 \<Rightarrow> byte list \<Rightarrow> pton_result"
  inet_ntop :: "u16 \<Rightarrow> byte list \<Rightarrow> byte list option"

definition SocketAddress_init :: socket_address where
  "SocketAddress_init = \<lparr>is_wildcard = False, addr_len = 0, addr_storage = replicate 128 0\<rparr>"

definition addr_field :: "nat \<Rightarrow> nat \<Rightarrow> socket_address \<Rightarrow> byte list" where
  "addr_field off n a = take n (drop off (addr_storage a))"

definition set_field :: "nat \<Rightarrow> byte list \<Rightarrow> socket_address \<Rightarrow> socket_address" where
  "set_field off bs a = a\<lparr>addr_storage := write_at (addr_storage a) off bs\<rparr>"

definition sa_family :: "socket_address \<Rightarrow> u16" where
  "sa_family a = le_word (addr_field 0 2 a)"

definition htons :: "u16 \<Rightarrow> u16" where
  "htons w = push_bit 8 w OR drop_bit 8 w"

definition isUnix :: "socket_address \<Rightarrow> bool" where
  "isUnix a \<longleftrightarrow> sa_family a = AF_UNIX"

definition isAnyInet :: "socket_address \<Rightarrow> bool" where
  "isAnyInet a \<longleftrightarrow> (let family = sa_family a in family = AF_INET \<or> family = AF_INET6)"

definition getPort :: "socket_address \<Rightarrow> u16" where
  "getPort a =
     (if sa_family a = AF_INET then htons (le_word (addr_field 2 2 a))
      else if sa_family a = AF_INET6 then htons (le_word (addr_field 2 2 a))
      else 0)"

definition getRaw :: "socket_address \<Rightarrow> byte list \<times> nat" where
  "getRaw a = (addr_storage a, addr_len a)"

definition getUnixPrefixAndPath :: "socket_address \<Rightarrow> (byte list \<times> byte list) option" where
  "getUnixPrefixAndPath a =
     (if addr_len a < 2 \<or> 128 < addr_len a then None
      else let path_len = addr_len a - 2
           in if path_len \<noteq> 0 then
                if addr_storage a ! 2 = 0 then Some (ascii ''unix-abstract:'', addr_field 3 (path_len - 1) a)
                else Some (ascii ''unix:'', addr_field 2 path_len a)
              else Some (ascii ''unix:'', []))"

definition toString :: "inet_env \<Rightarrow> socket_address \<Rightarrow> byte list option" where
  "toString e a =
     (let unknown = Some (ascii ''<unknown>(family='' @ dec_digits (unat (sa_family a)) @ ascii '')'');
          port = dec_digits (unat (getPort a))
      in if is_wildcard a then Some (ascii ''*:'' @ port)
         else if sa_family a = AF_INET then
           (case inet_ntop e AF_INET (addr_field 4 4 a) of
              Some addr \<Rightarrow> Some (addr @ ascii '':'' @ port)
            | None \<Rightarrow> unknown)
         else if sa_family a = AF_INET6 then
           (case inet_ntop e AF_INET6 (addr_field 8 16 a) of
              Some addr \<Rightarrow> Some (ascii ''['' @ addr @ ascii '']:'' @ port)
            | None \<Rightarrow> unknown)
         else if sa_family a = AF_UNIX then
           map_option (\<lambda>(prefix, path). prefix @ path) (getUnixPrefixAndPath a)
         else unknown)"

section \<open>Parsing\<close>

type_synonym parse_result = "sdk_error + socket_address"

text \<open>
  The family, host and port of \<open>host\<close>, \<open>host:port\<close>, \<open>[host]\<close>, \<open>[host]:port\<close>; the family
  \<open>AF_UNSPEC\<close> is a failure, with the out-parameters as they are then.
\<close>

definition parse_port_part :: "u16 \<Rightarrow> byte list \<Rightarrow> byte list \<Rightarrow> u16 \<Rightarrow> u16 \<times> byte list \<times> u16" where
  "parse_port_part family host port_part port =
     (if port_part \<noteq> [] then
        let (maybe_port, end_ptr) = strtoull (c_str port_part)
        in if end_ptr \<noteq> [] then (AF_UNSPEC, host, port)
           else if maybe_port > 0xFFFF then (AF_UNSPEC, host, port)
           else (family, host, ucast maybe_port)
      else (family, host, port))"

definition extractFamilyHostAndPort :: "byte list \<Rightarrow> u16 \<Rightarrow> u16 \<times> byte list \<times> u16" where
  "extractFamilyHostAndPort s port =
     (if find_first_of 91 s = Some 0 then
        (case find_last_of 93 s of
           None \<Rightarrow> (AF_UNSPEC, [], port)
         | Some end_bracket_pos \<Rightarrow>
             let host = take (end_bracket_pos - 1) (drop 1 s)
             in if end_bracket_pos + 1 < length s then
                  if s ! (end_bracket_pos + 1) \<noteq> 58 then (AF_UNSPEC, host, port)
                  else parse_port_part AF_INET6 host (drop (end_bracket_pos + 2) s) port
                else parse_port_part AF_INET6 host [] port)
      else
        (case find_first_of 58 s of
           None \<Rightarrow> parse_port_part AF_INET s [] port
         | Some colon_pos \<Rightarrow>
             if find_first_of 58 (drop (colon_pos + 1) s) \<noteq> None then parse_port_part AF_INET6 s [] port
             else parse_port_part AF_INET (take colon_pos s) (drop (colon_pos + 1) s) port))"

definition tryParseAsWildcard :: "byte list \<Rightarrow> u16 \<Rightarrow> socket_address option" where
  "tryParseAsWildcard host port =
     (if host \<noteq> ascii ''*'' then None
      else Some (set_field 0 (le_bytes 2 AF_INET6)
        ((set_field 2 (le_bytes 2 (htons port)) (SocketAddress_init\<lparr>is_wildcard := True\<rparr>))\<lparr>addr_len := 28\<rparr>)))"

definition tryParseAsTcpAddress :: "inet_env \<Rightarrow> byte list \<Rightarrow> u16 \<Rightarrow> parse_result option" where
  "tryParseAsTcpAddress e conn_str port_hint =
     (if take 6 conn_str \<noteq> ascii ''tcp://'' then None
      else
        let addr_str = drop 6 conn_str;
            (family, host, port) = extractFamilyHostAndPort addr_str port_hint
        in if family = AF_UNSPEC then Some (Inl (mkError InvalidArgument))
           else (case tryParseAsWildcard host port of
              Some result \<Rightarrow> Some (Inr result)
            | None \<Rightarrow>
                let (result, addr_target) =
                      (if family = AF_INET6 then
                         (set_field 2 (le_bytes 2 (htons port))
                            (set_field 0 (le_bytes 2 AF_INET6) (SocketAddress_init\<lparr>addr_len := 28\<rparr>)), 8)
                       else
                         (set_field 2 (le_bytes 2 (htons port))
                            (set_field 0 (le_bytes 2 AF_INET) (SocketAddress_init\<lparr>addr_len := 16\<rparr>)), 4))
                in (case inet_pton e family (c_str host) of
                      PtonOk bs \<Rightarrow> Some (Inr (set_field addr_target bs result))
                    | PtonBad \<Rightarrow> Some (Inl (mkError InvalidArgument))
                    | PtonErr err \<Rightarrow> Some (Inl (errnoToError err)))))"

text \<open>\<open>strncpy\<close> copies up to the first NUL and pads with NUL bytes.\<close>

definition strncpy :: "byte list \<Rightarrow> nat \<Rightarrow> byte list" where
  "strncpy src n = take n (c_str src) @ replicate (n - length (c_str src)) 0"

definition tryParseAsUnixDomain :: "byte list \<Rightarrow> parse_result option" where
  "tryParseAsUnixDomain conn_str =
     (if take 5 conn_str \<noteq> ascii ''unix:'' then None
      else
        let path = drop 5 conn_str;
            result = set_field 0 (le_bytes 2 AF_UNIX) SocketAddress_init
        in if length path + 1 > 108 then Some (Inl (mkError InvalidArgument))
           else Some (Inr ((set_field 2 (strncpy path 108) result)\<lparr>addr_len := 2 + length path + 1\<rparr>)))"

definition tryParseAsAbstractUnixDomain :: "byte list \<Rightarrow> parse_result option" where
  "tryParseAsAbstractUnixDomain conn_str =
     (if take 14 conn_str \<noteq> ascii ''unix-abstract:'' then None
      else
        let path = drop 14 conn_str;
            result = set_field 0 (le_bytes 2 AF_UNIX) SocketAddress_init
        in if length path + 1 > 107 then Some (Inl (mkError InvalidArgument))
           else Some (Inr ((set_field 3 (path @ [0]) (set_field 2 [0] result))\<lparr>addr_len := 2 + length path + 1\<rparr>)))"

definition SocketAddress_parse :: "inet_env \<Rightarrow> byte list \<Rightarrow> u16 \<Rightarrow> parse_result" where
  "SocketAddress_parse e conn_str port_hint =
     (case tryParseAsUnixDomain conn_str of
        Some result \<Rightarrow> result
      | None \<Rightarrow>
          (case tryParseAsAbstractUnixDomain conn_str of
             Some result \<Rightarrow> result
           | None \<Rightarrow>
               (case tryParseAsTcpAddress e conn_str port_hint of
                  Some result \<Rightarrow> result
                | None \<Rightarrow> Inl (mkError InvalidArgument))))"


section \<open>Socket calls\<close>

datatype sockopt = SO_REUSEADDR | IPV6_V6ONLY | TCP_NODELAY

text \<open>
  The system calls the sockets use. \<open>accept\<close> gets the size of the address buffer and
  hands back the descriptor, the bytes it stored and the length of the address;
  \<open>getsockopt(SO_ERROR)\<close> hands back the pending error.
\<close>

record 'w sock_sys =
  sys_socket :: "u16 \<Rightarrow> int \<Rightarrow> 'w \<Rightarrow> int sysret \<times> 'w"
  sys_fcntl_nonblock :: "int \<Rightarrow> 'w \<Rightarrow> unit sysret \<times> 'w"
  sys_setsockopt :: "int \<Rightarrow> sockopt \<Rightarrow> int \<Rightarrow> 'w \<Rightarrow> unit sysret \<times> 'w"
  sys_bind :: "int \<Rightarrow> byte list \<Rightarrow> nat \<Rightarrow> 'w \<Rightarrow> unit sysret \<times> 'w"
  sys_connect :: "int \<Rightarrow> byte list \<Rightarrow> nat \<Rightarrow> 'w \<Rightarrow> unit sysret \<times> 'w"
  sys_listen :: "int \<Rightarrow> nat \<Rightarrow> 'w \<Rightarrow> unit sysret \<times> 'w"
  sys_accept :: "int \<Rightarrow> nat \<Rightarrow> 'w \<Rightarrow> (int \<times> byte list \<times> nat) sysret \<times> 'w"
  sys_getsockopt_error :: "int \<Rightarrow> 'w \<Rightarrow> errno sysret \<times> 'w"
  sys_close :: "int \<Rightarrow> 'w \<Rightarrow> 'w"

definition SOCK_STREAM :: int where "SOCK_STREAM = 1"

definition configureNoDelay :: "('w, 'z) sock_sys_scheme \<Rightarrow> owned_fd \<Rightarrow> 'w \<Rightarrow> 'w option" where
  "configureNoDelay sys fd w = map_option snd (posixSyscallError (sys_setsockopt sys fd TCP_NODELAY 1) w)"

definition SocketAddress_socket ::
    "('w, 'z) sock_sys_scheme \<Rightarrow> int \<Rightarrow> socket_address \<Rightarrow> 'w \<Rightarrow> ((sdk_error + owned_fd) \<times> 'w) option" where
  "SocketAddress_socket sys socket_type a w =
     (case posixSyscallError (sys_socket sys (sa_family a) socket_type) w of
        None \<Rightarrow> None
      | Some (SysErr err, w1) \<Rightarrow> Some (Inl (errnoToError err), w1)
      | Some (SysOk out_fd, w1) \<Rightarrow>
          (case posixSyscallError (sys_fcntl_nonblock sys out_fd) w1 of
             None \<Rightarrow> None
           | Some (SysErr err, w2) \<Rightarrow> Some (Inl (errnoToError err), OwnedFd_destroy (sys_close sys) out_fd w2)
           | Some (SysOk _, w2) \<Rightarrow>
               if SOCK_STREAM = socket_type \<and> isAnyInet a
               then map_option (\<lambda>w3. (Inr out_fd, w3)) (configureNoDelay sys out_fd w2)
               else Some (Inr out_fd, w2)))"

definition SocketAddress_bind ::
    "('w, 'z) sock_sys_scheme \<Rightarrow> owned_fd \<Rightarrow> socket_address \<Rightarrow> 'w \<Rightarrow> (opt_error \<times> 'w) option" where
  "SocketAddress_bind sys raw_fd a w =
     (let bind = (\<lambda>w. map_option (\<lambda>(r, w'). (case r of SysErr err \<Rightarrow> Some (errnoToError err) | SysOk _ \<Rightarrow> None, w'))
                        (posixSyscallError (sys_bind sys raw_fd (addr_storage a) (addr_len a)) w))
      in if is_wildcard a then
           (case posixSyscallError (sys_setsockopt sys raw_fd IPV6_V6ONLY 0) w of
              None \<Rightarrow> None
            | Some (SysErr err, w1) \<Rightarrow> Some (Some (errnoToError err), w1)
            | Some (SysOk _, w1) \<Rightarrow> bind w1)
         else bind w)"

definition SocketAddress_connect ::
    "('w, 'z) sock_sys_scheme \<Rightarrow> owned_fd \<Rightarrow> socket_address \<Rightarrow> 'w \<Rightarrow> (opt_error \<times> 'w) option" where
  "SocketAddress_connect sys raw_fd a w =
     map_option (\<lambda>(r, w'). (case r of
          SysErr err \<Rightarrow> if err = EINPROGRESS then None else Some (errnoToError err)
        | SysOk _ \<Rightarrow> None, w'))
       (posixSyscallError (sys_connect sys raw_fd (addr_storage a) (addr_len a)) w)"

text \<open>The errors of \<open>accept\<close> that are taken as temporary.\<close>

definition accept_retry :: "errno \<Rightarrow> bool" where
  "accept_retry err \<longleftrightarrow>
     err \<in> {EINTR, ENETDOWN, ETIMEDOUT, EHOSTDOWN, ENETUNREACH, ECONNABORTED, EHOSTUNREACH, EPROTO}"

partial_function (option) SocketAddress_accept ::
    "('w, 'z) sock_sys_scheme \<Rightarrow> owned_fd \<Rightarrow> socket_address \<Rightarrow> 'w \<Rightarrow>
     (socket_address \<times> owned_fd option \<times> 'w) option" where
  "SocketAddress_accept sys server_fd a w =
     (case sys_accept sys server_fd 128 w of
        (SysOk (client_fd, stored, len), w1) \<Rightarrow>
          (let a1 = (set_field 0 stored a)\<lparr>addr_len := len\<rparr>
           in (case posixSyscallError (sys_fcntl_nonblock sys client_fd) w1 of
                 None \<Rightarrow> None
               | Some (SysErr err, w2) \<Rightarrow> Some (a1, None, OwnedFd_destroy (sys_close sys) client_fd w2)
               | Some (SysOk _, w2) \<Rightarrow>
                   if isAnyInet a1 then map_option (\<lambda>w3. (a1, Some client_fd, w3)) (configureNoDelay sys client_fd w2)
                   else Some (a1, Some client_fd, w2)))
      | (SysErr err, w1) \<Rightarrow>
          if err = EAGAIN then Some (a\<lparr>addr_len := 128\<rparr>, None, w1)
          else if accept_retry err then SocketAddress_accept sys server_fd (a\<lparr>addr_len := 128\<rparr>) w1
          else Some (a\<lparr>addr_len := 128\<rparr>, None, w1))"

section \<open>Numbers in text\<close>

lemma dec_digits_neq_Nil [simp]: "dec_digits n \<noteq> []"
  by (subst dec_digits.simps) simp

lemma unat_digit: "d < 10 \<Longrightarrow> unat (of_nat (48 + d) :: byte) = 48 + d"
  by (simp add: unat_of_nat del: of_nat_add)

lemma digit_val_digit: "d < 10 \<Longrightarrow> digit_val (of_nat (48 + d)) = d"
  by (simp only: digit_val_def word_le_nat_alt unat_digit) simp

lemma dec_digits_bytes: "b \<in> set (dec_digits n) \<Longrightarrow> 48 \<le> b \<and> b \<le> 57"
proof (induction n rule: dec_digits.induct)
  case (1 n)
  have d: "48 \<le> (of_nat (48 + d) :: byte) \<and> (of_nat (48 + d) :: byte) \<le> 57" if "d < 10" for d
    using that by (simp only: word_le_nat_alt unat_digit) simp
  show ?case
  proof (cases "n < 10")
    case True
    with 1 d [of n] show ?thesis by (subst (asm) (2) dec_digits.simps) simp
  next
    case False
    with 1 d [of "n mod 10"] show ?thesis by (subst (asm) (2) dec_digits.simps) auto
  qed
qed

lemma dec_digits_avoid: "b < 48 \<or> 57 < b \<Longrightarrow> b \<notin> set (dec_digits n)"
  using dec_digits_bytes [of b n] by (auto simp: not_le)

lemma hd_dec_digits: "0 < n \<Longrightarrow> hd (dec_digits n) \<noteq> 48"
proof (induction n rule: dec_digits.induct)
  case (1 n)
  show ?case
  proof (cases "n < 10")
    case True
    have "(of_nat (48 + n) :: byte) \<noteq> 48" using unat_digit [OF True] 1(2) by (auto simp: word_unat_eq_iff)
    with True show ?thesis by (subst dec_digits.simps) simp
  next
    case False
    with 1 show ?thesis by (subst dec_digits.simps) simp
  qed
qed

lemma eat_digits_append:
  "eat_digits base acc (xs @ ys) =
     (let (v, r) = eat_digits base acc xs in if r = [] then eat_digits base v ys else (v, r @ ys))"
  by (induction xs arbitrary: acc) auto

lemma eat_dec_digits: "eat_digits 10 acc (dec_digits n) = (acc * 10 ^ length (dec_digits n) + n, [])"
proof (induction n arbitrary: acc rule: dec_digits.induct)
  case (1 n)
  show ?case
  proof (cases "n < 10")
    case True
    then have "dec_digits n = [of_nat (48 + n)]" by (subst dec_digits.simps) simp
    with True show ?thesis by (simp only: eat_digits.simps digit_val_digit) simp
  next
    case False
    then have n: "dec_digits n = dec_digits (n div 10) @ [of_nat (48 + n mod 10)]"
      by (subst dec_digits.simps) simp
    show ?thesis unfolding n eat_digits_append 1 [OF False]
      by (simp only: eat_digits.simps digit_val_digit prod.case Let_def) (simp add: algebra_simps)
  qed
qed

lemma digit_no_space: "48 \<le> b \<Longrightarrow> b \<le> 57 \<Longrightarrow> \<not> is_space b \<and> b \<noteq> 45 \<and> b \<noteq> 43"
  by (auto simp: is_space_def word_le_nat_alt word_unat_eq_iff)

lemma digit_val_dec: "48 \<le> b \<Longrightarrow> b \<le> 57 \<Longrightarrow> digit_val b < 10"
  by (simp add: digit_val_def word_le_nat_alt)

lemma hd_dec: "48 \<le> hd (dec_digits n) \<and> hd (dec_digits n) \<le> 57"
  by (rule dec_digits_bytes [of _ n]) simp

text \<open>The part of \<open>strtoull\<close> behind the sign, on a decimal numeral.\<close>

lemma detect_base_dec:
  "detect_base (dec_digits n) = (if n = 0 then 8 else 10, dec_digits n)"
proof (cases "n = 0")
  case True
  then have "dec_digits n = [48]" by (subst dec_digits.simps) simp
  with True show ?thesis by (simp add: detect_base_def)
next
  case False
  then have "dec_digits n ! 0 \<noteq> 48" using hd_dec_digits [of n] by (simp add: hd_conv_nth)
  with False show ?thesis by (simp add: detect_base_def)
qed

lemma eat_dec_numeral: "eat_digits (if n = 0 then 8 else 10) 0 (dec_digits n) = (n, [])"
proof (cases "n = 0")
  case True
  then have "dec_digits n = [48]" by (subst dec_digits.simps) simp
  with True show ?thesis by (simp add: digit_val_def)
qed (simp add: eat_dec_digits)

lemma dec_numeral_start: "digit_val (hd (dec_digits n)) < (if n = 0 then 8 else 10)"
proof (cases "n = 0")
  case True
  then have "dec_digits n = [48]" by (subst dec_digits.simps) simp
  with True show ?thesis by (simp add: digit_val_def)
qed (use digit_val_dec hd_dec in simp)

lemma strtoull_dec:
  "strtoull (dec_digits n) = (if 2 ^ 64 \<le> n then - 1 else of_nat n, [])"
  "strtoull (45 # dec_digits n) = (if 2 ^ 64 \<le> n then - 1 else - of_nat n, [])"
proof -
  obtain c cs where d: "dec_digits n = c # cs" by (cases "dec_digits n") simp_all
  have c: "\<not> is_space c" "c \<noteq> 45" "c \<noteq> 43" using digit_no_space hd_dec [of n] by (simp_all add: d)
  have sp: "\<not> is_space 45" by (simp add: is_space_def)
  have s: "strip_sign (dropWhile is_space (dec_digits n)) = (False, dec_digits n)"
    "strip_sign (dropWhile is_space (45 # dec_digits n)) = (True, dec_digits n)"
    using c sp by (simp_all add: d)
  have nd: "\<not> (if n = 0 then 8 else 10) \<le> digit_val (hd (dec_digits n))"
    using dec_numeral_start [of n] by (simp add: not_le)
  show "strtoull (dec_digits n) = (if 2 ^ 64 \<le> n then - 1 else of_nat n, [])"
    using nd unfolding strtoull_def s prod.case detect_base_dec Let_def eat_dec_numeral by simp
  show "strtoull (45 # dec_digits n) = (if 2 ^ 64 \<le> n then - 1 else - of_nat n, [])"
    using nd unfolding strtoull_def s prod.case detect_base_dec Let_def eat_dec_numeral by simp
qed


section \<open>Searching and fields\<close>

lemma find_first_of_None [simp]: "find_first_of c s = None \<longleftrightarrow> c \<notin> set s"
  by (induction s) auto

lemma find_first_of_append: "c \<notin> set xs \<Longrightarrow> find_first_of c (xs @ c # ys) = Some (length xs)"
  by (induction xs) auto

lemma find_last_of_append: "c \<notin> set ys \<Longrightarrow> find_last_of c (xs @ c # ys) = Some (length xs)"
  using find_first_of_append [of c "rev ys" "rev xs"] by (simp add: find_last_of_def)

lemma set_field_sel [simp]:
  "is_wildcard (set_field off bs a) = is_wildcard a" "addr_len (set_field off bs a) = addr_len a"
  by (simp_all add: set_field_def)

lemma length_set_field [simp]:
  "off + length bs \<le> length (addr_storage a) \<Longrightarrow> length (addr_storage (set_field off bs a)) = length (addr_storage a)"
  by (simp add: set_field_def)

lemma addr_field_upd [simp]:
  "addr_field off n (a\<lparr>addr_len := l\<rparr>) = addr_field off n a"
  "addr_field off n (a\<lparr>is_wildcard := w\<rparr>) = addr_field off n a"
  by (simp_all add: addr_field_def)

lemma field_set_same:
  "off + length bs \<le> length (addr_storage a) \<Longrightarrow> n = length bs \<Longrightarrow> addr_field off n (set_field off bs a) = bs"
  by (simp add: addr_field_def set_field_def write_at_def)

lemma field_set_before:
  "off' + length bs \<le> length (addr_storage a) \<Longrightarrow> off + n \<le> off' \<Longrightarrow>
   addr_field off n (set_field off' bs a) = addr_field off n a"
  by (simp add: addr_field_def set_field_def write_at_def drop_take)

lemma field_set_after:
  "off' + length bs \<le> length (addr_storage a) \<Longrightarrow> off' + length bs \<le> off \<Longrightarrow>
   addr_field off n (set_field off' bs a) = addr_field off n a"
  by (simp add: addr_field_def set_field_def write_at_def)

lemmas field_set = field_set_same field_set_before field_set_after

lemma length_init [simp]: "length (addr_storage SocketAddress_init) = 128" "is_wildcard SocketAddress_init = False"
  by (simp_all add: SocketAddress_init_def)

lemma htons_htons [simp]: "htons (htons w) = w"
  by (rule bit_word_eqI) (auto simp: htons_def bit_simps)

lemma le_word_u16 [simp]: "le_word (le_bytes 2 w) = (w :: u16)"
  by (rule le_word_bytes) simp

lemma ucast_port [simp]: "(ucast (of_nat (unat (p :: u16)) :: u64) :: u16) = p"
  by (rule bit_word_eqI) (auto simp: bit_simps)

section \<open>The addresses a connection string can give\<close>

definition wildcard_address :: "u16 \<Rightarrow> socket_address" where
  "wildcard_address port =
     set_field 0 (le_bytes 2 AF_INET6)
       ((set_field 2 (le_bytes 2 (htons port)) (SocketAddress_init\<lparr>is_wildcard := True\<rparr>))\<lparr>addr_len := 28\<rparr>)"

definition inet4_address :: "u16 \<Rightarrow> byte list \<Rightarrow> socket_address" where
  "inet4_address port bs =
     set_field 4 bs (set_field 2 (le_bytes 2 (htons port))
       (set_field 0 (le_bytes 2 AF_INET) (SocketAddress_init\<lparr>addr_len := 16\<rparr>)))"

definition inet6_address :: "u16 \<Rightarrow> byte list \<Rightarrow> socket_address" where
  "inet6_address port bs =
     set_field 8 bs (set_field 2 (le_bytes 2 (htons port))
       (set_field 0 (le_bytes 2 AF_INET6) (SocketAddress_init\<lparr>addr_len := 28\<rparr>)))"

definition abstract_address :: "byte list \<Rightarrow> socket_address" where
  "abstract_address path =
     (set_field 3 (path @ [0]) (set_field 2 [0] (set_field 0 (le_bytes 2 AF_UNIX) SocketAddress_init)))
       \<lparr>addr_len := 2 + length path + 1\<rparr>"

definition unix_address :: "byte list \<Rightarrow> socket_address" where
  "unix_address path =
     (set_field 2 (strncpy path 108) (set_field 0 (le_bytes 2 AF_UNIX) SocketAddress_init))
       \<lparr>addr_len := 2 + length path + 1\<rparr>"

lemma wildcard_address_sel [simp]:
  "sa_family (wildcard_address p) = AF_INET6" "getPort (wildcard_address p) = p"
  "is_wildcard (wildcard_address p)" "addr_len (wildcard_address p) = 28"
  "length (addr_storage (wildcard_address p)) = 128"
  by (simp_all add: wildcard_address_def sa_family_def getPort_def field_set)

lemma inet4_address_sel [simp]:
  assumes "length bs = 4"
  shows "sa_family (inet4_address p bs) = AF_INET" "getPort (inet4_address p bs) = p"
    "\<not> is_wildcard (inet4_address p bs)" "addr_len (inet4_address p bs) = 16"
    "length (addr_storage (inet4_address p bs)) = 128" "addr_field 4 4 (inet4_address p bs) = bs"
  using assms by (simp_all add: inet4_address_def sa_family_def getPort_def field_set)

lemma inet6_address_sel [simp]:
  assumes "length bs = 16"
  shows "sa_family (inet6_address p bs) = AF_INET6" "getPort (inet6_address p bs) = p"
    "\<not> is_wildcard (inet6_address p bs)" "addr_len (inet6_address p bs) = 28"
    "length (addr_storage (inet6_address p bs)) = 128" "addr_field 8 16 (inet6_address p bs) = bs"
  using assms by (simp_all add: inet6_address_def sa_family_def getPort_def field_set)

lemma storage_nth: "2 < length (addr_storage a) \<Longrightarrow> addr_storage a ! 2 = hd (addr_field 2 1 a)"
  by (simp add: addr_field_def take_Suc_conv_app_nth hd_drop_conv_nth hd_take)

lemma abstract_address_sel:
  assumes "length path \<le> 106"
  shows "sa_family (abstract_address path) = AF_UNIX" "\<not> is_wildcard (abstract_address path)"
    "addr_len (abstract_address path) = length path + 3"
    "length (addr_storage (abstract_address path)) = 128" "addr_storage (abstract_address path) ! 2 = 0"
    "addr_field 3 (length path) (abstract_address path) = path"
proof -
  let ?b = "set_field 2 [0] (set_field 0 (le_bytes 2 AF_UNIX) SocketAddress_init)"
  have b: "length (addr_storage ?b) = 128" by simp
  show len: "length (addr_storage (abstract_address path)) = 128"
    using assms b by (simp add: abstract_address_def)
  show "sa_family (abstract_address path) = AF_UNIX" "\<not> is_wildcard (abstract_address path)"
    "addr_len (abstract_address path) = length path + 3"
    using assms by (simp_all add: abstract_address_def sa_family_def field_set)
  have "addr_field 2 1 (abstract_address path) = [0]"
    using assms by (simp add: abstract_address_def field_set)
  with len show "addr_storage (abstract_address path) ! 2 = 0" by (simp add: storage_nth)
  have "addr_field 3 (length path + 1) (abstract_address path) = path @ [0]"
    using assms by (simp add: abstract_address_def field_set)
  then have "take (length path) (addr_field 3 (length path + 1) (abstract_address path)) = path" by simp
  then show "addr_field 3 (length path) (abstract_address path) = path" by (simp add: addr_field_def min_def)
qed

lemma length_strncpy [simp]: "length (strncpy p n) = n"
  by (simp add: strncpy_def)

lemma unix_address_sel:
  assumes "length path \<le> 107"
  shows "sa_family (unix_address path) = AF_UNIX" "\<not> is_wildcard (unix_address path)"
    "addr_len (unix_address path) = length path + 3" "length (addr_storage (unix_address path)) = 128"
    "addr_field 2 108 (unix_address path) = strncpy path 108"
  using assms by (simp_all add: unix_address_def sa_family_def field_set)


lemma parse_port_part_dec:
  "parse_port_part f host (dec_digits n) port =
     (if n < 65536 then (f, host, of_nat n) else (AF_UNSPEC, host, port))"
proof -
  have c: "c_str (dec_digits n) = dec_digits n" by (rule c_str_id) (rule dec_digits_avoid, simp)
  have big: "\<not> (of_nat n :: u64) \<le> 0xFFFF" if "\<not> n < 65536" "n < 2 ^ 64"
    using that by (simp add: word_le_nat_alt unat_of_nat)
  have small: "(of_nat n :: u64) \<le> 0xFFFF" if "n < 65536"
    using that by (simp add: word_le_nat_alt unat_of_nat)
  have m1: "\<not> (- 1 :: u64) \<le> 0xFFFF" by code_simp
  have cast: "(ucast (of_nat n :: u64) :: u16) = of_nat n" if "n < 65536"
    using that by (simp add: word_unat_eq_iff unat_of_nat unsigned_of_nat take_bit_eq_mod)
  show ?thesis
    using big small m1 cast
    by (auto simp: parse_port_part_def c strtoull_dec not_le [symmetric] simp del: not_le)
qed

lemma extract_host_port:
  assumes "58 \<notin> set host" "hd (host @ [58]) \<noteq> 91"
  shows "extractFamilyHostAndPort (host @ ascii '':'' @ ps) port =
    (if 58 \<in> set ps then (AF_INET6, host @ ascii '':'' @ ps, port) else parse_port_part AF_INET host ps port)"
proof -
  have col: "find_first_of 58 (host @ 58 # ps) = Some (length host)"
    by (rule find_first_of_append [OF assms(1)])
  have nb: "find_first_of 91 (host @ 58 # ps) \<noteq> Some 0" using assms(2) by (cases host) auto
  show ?thesis
    using col nb by (auto simp: extractFamilyHostAndPort_def ascii_def parse_port_part_def)
qed

lemma extract_brackets:
  assumes "93 \<notin> set ps"
  shows "extractFamilyHostAndPort (ascii ''['' @ host @ ascii '']:'' @ ps) port = parse_port_part AF_INET6 host ps port"
proof -
  have last: "find_last_of 93 ((91 # host) @ 93 # 58 # ps) = Some (length (91 # host))"
    by (rule find_last_of_append) (use assms in simp)
  have nth: "(host @ 93 # 58 # ps) ! Suc (length host) = 58" by (simp add: nth_append)
  show ?thesis
    using last nth by (simp add: extractFamilyHostAndPort_def ascii_def)
qed

lemma extract_family: "fst (extractFamilyHostAndPort s port) \<in> {AF_UNSPEC, AF_INET, AF_INET6}"
proof -
  have p: "fst (parse_port_part f h ps q) \<in> {AF_UNSPEC, f}" for f h ps q
    by (auto simp: parse_port_part_def split: prod.splits)
  define ok :: "u16 \<times> byte list \<times> u16 \<Rightarrow> bool" where "ok r \<longleftrightarrow> fst r \<in> {AF_UNSPEC, AF_INET, AF_INET6}" for r
  have ok: "ok (parse_port_part AF_INET h ps q)" "ok (parse_port_part AF_INET6 h ps q)" "ok (AF_UNSPEC, h, q)" for h ps q
    using p [of AF_INET h ps q] p [of AF_INET6 h ps q] by (auto simp: ok_def)
  have "ok (extractFamilyHostAndPort s port)"
    unfolding extractFamilyHostAndPort_def Let_def by (simp add: ok split: option.split)
  then show ?thesis by (simp only: ok_def)
qed

lemma ascii_prefixes:
  "ascii ''tcp://'' = [116, 99, 112, 58, 47, 47]" "ascii ''unix:'' = [117, 110, 105, 120, 58]"
  "ascii ''unix-abstract:'' = [117, 110, 105, 120, 45, 97, 98, 115, 116, 114, 97, 99, 116, 58]"
  by (simp_all add: ascii_def)

lemma parse_unix:
  "SocketAddress_parse e (ascii ''unix:'' @ path) hint =
     (if length path \<le> 107 then Inr (unix_address path) else Inl (mkError InvalidArgument))"
  by (auto simp: SocketAddress_parse_def tryParseAsUnixDomain_def ascii_prefixes unix_address_def)

lemma parse_abstract:
  "SocketAddress_parse e (ascii ''unix-abstract:'' @ path) hint =
     (if length path \<le> 106 then Inr (abstract_address path) else Inl (mkError InvalidArgument))"
  by (auto simp: SocketAddress_parse_def tryParseAsUnixDomain_def tryParseAsAbstractUnixDomain_def
      ascii_prefixes abstract_address_def)

definition tcp_result :: "inet_env \<Rightarrow> u16 \<times> byte list \<times> u16 \<Rightarrow> parse_result" where
  "tcp_result e fhp =
     (case fhp of (family, host, port) \<Rightarrow>
        if family = AF_UNSPEC then Inl (mkError InvalidArgument)
        else if host = ascii ''*'' then Inr (wildcard_address port)
        else (case inet_pton e family (c_str host) of
                PtonOk bs \<Rightarrow> Inr (if family = AF_INET6 then inet6_address port bs else inet4_address port bs)
              | PtonBad \<Rightarrow> Inl (mkError InvalidArgument)
              | PtonErr err \<Rightarrow> Inl (errnoToError err)))"

lemma parse_tcp:
  "SocketAddress_parse e (ascii ''tcp://'' @ s) hint = tcp_result e (extractFamilyHostAndPort s hint)"
  by (auto simp: SocketAddress_parse_def tryParseAsUnixDomain_def tryParseAsAbstractUnixDomain_def
      tryParseAsTcpAddress_def tryParseAsWildcard_def ascii_prefixes tcp_result_def wildcard_address_def
      inet6_address_def inet4_address_def split: prod.splits pton_result.splits)

lemma parse_cases:
  assumes "SocketAddress_parse e s hint = Inr a"
  obtains path where "s = ascii ''unix:'' @ path" "length path \<le> 107" "a = unix_address path"
  | path where "s = ascii ''unix-abstract:'' @ path" "length path \<le> 106" "a = abstract_address path"
  | t where "s = ascii ''tcp://'' @ t" "tcp_result e (extractFamilyHostAndPort t hint) = Inr a"
proof -
  have split: "\<exists>t. s = p @ t" if "take n s = p" for n p
    using that by (intro exI [of _ "drop n s"]) (metis append_take_drop_id)
  consider "take 5 s = ascii ''unix:''" | "take 14 s = ascii ''unix-abstract:''" | "take 6 s = ascii ''tcp://''"
    using assms by (fastforce simp: SocketAddress_parse_def tryParseAsUnixDomain_def
        tryParseAsAbstractUnixDomain_def tryParseAsTcpAddress_def split: if_splits)
  then show ?thesis
  proof cases
    case 1
    from split [OF this] obtain t where "s = ascii ''unix:'' @ t" by blast
    with assms parse_unix [of e t hint] that(1) [of t] show ?thesis by (auto split: if_splits)
  next
    case 2
    from split [OF this] obtain t where "s = ascii ''unix-abstract:'' @ t" by blast
    with assms parse_abstract [of e t hint] that(2) [of t] show ?thesis by (auto split: if_splits)
  next
    case 3
    from split [OF this] obtain t where "s = ascii ''tcp://'' @ t" by blast
    with assms parse_tcp [of e t hint] that(3) [of t] show ?thesis by auto
  qed
qed


section \<open>Printing and parsing\<close>

text \<open>
  What POSIX promises of the conversions: every address has a text, made of the characters
  of the standard form, that converts back to it; a converted address has its length.
\<close>

definition inet_text_law :: "inet_env \<Rightarrow> bool" where
  "inet_text_law e \<longleftrightarrow>
     (\<forall>bs. length bs = 4 \<longrightarrow> (\<exists>s. inet_ntop e AF_INET bs = Some s \<and> inet_pton e AF_INET s = PtonOk bs
        \<and> s \<noteq> [] \<and> set s \<subseteq> set (ascii ''0123456789.''))) \<and>
     (\<forall>bs. length bs = 16 \<longrightarrow> (\<exists>s. inet_ntop e AF_INET6 bs = Some s \<and> inet_pton e AF_INET6 s = PtonOk bs
        \<and> s \<noteq> [] \<and> set s \<subseteq> set (ascii ''0123456789abcdef:.''))) \<and>
     (\<forall>f s bs. inet_pton e f s = PtonOk bs \<longrightarrow> length bs = (if f = AF_INET6 then 16 else 4))"

lemma ntop4: "inet_text_law e \<Longrightarrow> length bs = 4 \<Longrightarrow> \<exists>s. inet_ntop e AF_INET bs = Some s \<and>
      inet_pton e AF_INET s = PtonOk bs \<and> s \<noteq> [] \<and> set s \<subseteq> set (ascii ''0123456789.'')"
  and ntop6: "inet_text_law e \<Longrightarrow> length bs = 16 \<Longrightarrow> \<exists>s. inet_ntop e AF_INET6 bs = Some s \<and>
      inet_pton e AF_INET6 s = PtonOk bs \<and> s \<noteq> [] \<and> set s \<subseteq> set (ascii ''0123456789abcdef:.'')"
  and pton_length: "inet_text_law e \<Longrightarrow> inet_pton e f s = PtonOk bs \<Longrightarrow> length bs = (if f = AF_INET6 then 16 else 4)"
  unfolding inet_text_law_def by blast+

lemma tcp_result_cases:
  assumes law: "inet_text_law e" and "tcp_result e (extractFamilyHostAndPort t hint) = Inr a"
  obtains port where "a = wildcard_address port"
  | port bs where "length bs = 4" "a = inet4_address port bs"
  | port bs where "length bs = 16" "a = inet6_address port bs"
proof -
  obtain f h p where x: "extractFamilyHostAndPort t hint = (f, h, p)" by (cases "extractFamilyHostAndPort t hint")
  with extract_family [of t hint] have f: "f \<in> {AF_UNSPEC, AF_INET, AF_INET6}" by simp
  show ?thesis
  proof (cases "h = ascii ''*''")
    case True
    with assms(2) x that(1) [of p] show ?thesis by (auto simp: tcp_result_def split: if_splits)
  next
    case False
    with assms(2) x obtain bs where bs: "inet_pton e f (c_str h) = PtonOk bs" "f \<noteq> AF_UNSPEC"
      "a = (if f = AF_INET6 then inet6_address p bs else inet4_address p bs)"
      by (auto simp: tcp_result_def split: if_splits pton_result.splits)
    with pton_length [OF law bs(1)] f that(2) [of bs p] that(3) [of bs p] show ?thesis
      by (cases "f = AF_INET6") simp_all
  qed
qed

lemma parse_wildcard:
  "SocketAddress_parse e (ascii ''tcp://'' @ ascii ''*:'' @ dec_digits (unat p)) hint = Inr (wildcard_address p)"
proof -
  have p: "unat p < 65536" using unsigned_less [of p, where ?'a = nat] by simp
  have "extractFamilyHostAndPort (ascii ''*'' @ ascii '':'' @ dec_digits (unat p)) hint
      = (AF_INET, ascii ''*'', p)"
    using dec_digits_avoid [of 58 "unat p"] p
    by (subst extract_host_port) (simp_all add: ascii_def parse_port_part_dec)
  moreover have "ascii ''*:'' = ascii ''*'' @ ascii '':''" by (simp add: ascii_def)
  ultimately show ?thesis by (simp add: parse_tcp tcp_result_def af_defs)
qed

lemma parse_inet4:
  assumes "inet_pton e AF_INET s = PtonOk bs" "s \<noteq> []" "set s \<subseteq> set (ascii ''0123456789.'')"
  shows "SocketAddress_parse e (ascii ''tcp://'' @ s @ ascii '':'' @ dec_digits (unat p)) hint = Inr (inet4_address p bs)"
proof -
  have p: "unat p < 65536" using unsigned_less [of p, where ?'a = nat] by simp
  have no: "58 \<notin> set s" "0 \<notin> set s" "hd s \<noteq> 91" "s \<noteq> ascii ''*''"
    using assms(2,3) subsetD [OF assms(3) hd_in_set [OF assms(2)]] by (auto simp: ascii_def)
  have "extractFamilyHostAndPort (s @ ascii '':'' @ dec_digits (unat p)) hint = (AF_INET, s, p)"
    using no assms(2) dec_digits_avoid [of 58 "unat p"] p
    by (subst extract_host_port) (simp_all add: parse_port_part_dec)
  with no assms(1) show ?thesis by (simp add: parse_tcp tcp_result_def af_defs)
qed

lemma parse_inet6:
  assumes "inet_pton e AF_INET6 s = PtonOk bs" "s \<noteq> []" "set s \<subseteq> set (ascii ''0123456789abcdef:.'')"
  shows "SocketAddress_parse e (ascii ''tcp://'' @ ascii ''['' @ s @ ascii '']:'' @ dec_digits (unat p)) hint
    = Inr (inet6_address p bs)"
proof -
  have p: "unat p < 65536" using unsigned_less [of p, where ?'a = nat] by simp
  have no: "0 \<notin> set s" "s \<noteq> ascii ''*''"
    using assms(2,3) by (auto simp: ascii_def)
  have "extractFamilyHostAndPort (ascii ''['' @ s @ ascii '']:'' @ dec_digits (unat p)) hint = (AF_INET6, s, p)"
    using dec_digits_avoid [of 93 "unat p"] p
    by (subst extract_brackets) (simp_all add: parse_port_part_dec)
  with no assms(1) show ?thesis by (simp add: parse_tcp tcp_result_def af_defs)
qed

lemma print_parse:
  assumes law: "inet_text_law e" and "SocketAddress_parse e s hint = Inr a" "take 5 s \<noteq> ascii ''unix:''"
  shows "\<exists>t. toString e a = Some t \<and>
    SocketAddress_parse e (if isUnix a then t else ascii ''tcp://'' @ t) hint' = Inr a"
  using assms(2)
proof (cases rule: parse_cases)
  case (1 path)
  with assms(3) show ?thesis by (simp add: ascii_prefixes)
next
  case (2 path)
  note sel = abstract_address_sel [OF 2(2)]
  have "toString e a = Some (ascii ''unix-abstract:'' @ path)"
    using sel 2(2) by (simp add: 2(3) toString_def getUnixPrefixAndPath_def af_defs)
  with 2 sel parse_abstract [of e path hint'] show ?thesis by (simp add: isUnix_def)
next
  case (3 t)
  from law 3(2) show ?thesis
  proof (cases rule: tcp_result_cases)
    case (1 port)
    then have "toString e a = Some (ascii ''*:'' @ dec_digits (unat port))" by (simp add: toString_def)
    with 1 parse_wildcard [of e port hint'] show ?thesis by (simp add: isUnix_def af_defs)
  next
    case (2 port bs)
    from ntop4 [OF law 2(1)] obtain x where x: "inet_ntop e AF_INET bs = Some x" "inet_pton e AF_INET x = PtonOk bs"
      "x \<noteq> []" "set x \<subseteq> set (ascii ''0123456789.'')" by (elim exE conjE)
    have "toString e a = Some (x @ ascii '':'' @ dec_digits (unat port))" using 2 x(1) by (simp add: toString_def)
    with 2 parse_inet4 [OF x(2-4), of port hint'] show ?thesis by (simp add: isUnix_def af_defs)
  next
    case (3 port bs)
    from ntop6 [OF law 3(1)] obtain x where x: "inet_ntop e AF_INET6 bs = Some x" "inet_pton e AF_INET6 x = PtonOk bs"
      "x \<noteq> []" "set x \<subseteq> set (ascii ''0123456789abcdef:.'')" by (elim exE conjE)
    have "toString e a = Some (ascii ''['' @ x @ ascii '']:'' @ dec_digits (unat port))"
      using 3 x(1) by (simp add: toString_def af_defs)
    with 3 parse_inet6 [OF x(2-4), of port hint'] show ?thesis by (simp add: isUnix_def af_defs)
  qed
qed

lemma parsed_wf:
  assumes law: "inet_text_law e" and "SocketAddress_parse e s hint = Inr a"
  shows "length (addr_storage a) = 128 \<and>
    (sa_family a = AF_INET \<and> addr_len a = 16 \<or> sa_family a = AF_INET6 \<and> addr_len a = 28 \<or>
     sa_family a = AF_UNIX \<and> 3 \<le> addr_len a \<and> addr_len a \<le> 110) \<and>
    (is_wildcard a \<longrightarrow> sa_family a = AF_INET6)"
  using assms(2)
proof (cases rule: parse_cases)
  case (1 path)
  with unix_address_sel [of path] show ?thesis by simp
next
  case (2 path)
  with abstract_address_sel [of path] show ?thesis by simp
next
  case (3 t)
  from law 3(2) show ?thesis by (cases rule: tcp_result_cases) simp_all
qed


text \<open>
  Concrete conversions: fixed-width decimal or hexadecimal bytes, each followed by a
  separator.
\<close>

fun text4 :: "byte list \<Rightarrow> byte list" where
  "text4 [] = []"
| "text4 (b # bs) = [of_nat (48 + unat b div 100), of_nat (48 + unat b div 10 mod 10), of_nat (48 + unat b mod 10), 46] @ text4 bs"

fun read4 :: "byte list \<Rightarrow> byte list" where
  "read4 (x # y # z # s # r) = of_nat (100 * digit_val x + 10 * digit_val y + digit_val z) # read4 r"
| "read4 _ = []"

definition hex_digit :: "nat \<Rightarrow> byte" where
  "hex_digit d = (if d < 10 then of_nat (48 + d) else of_nat (87 + d))"

fun text6 :: "byte list \<Rightarrow> byte list" where
  "text6 [] = []"
| "text6 (b # bs) = [hex_digit (unat b div 16), hex_digit (unat b mod 16), 58] @ text6 bs"

fun read6 :: "byte list \<Rightarrow> byte list" where
  "read6 (x # y # s # r) = of_nat (16 * digit_val x + digit_val y) # read6 r"
| "read6 _ = []"

definition demo_inet :: inet_env where
  "demo_inet =
     \<lparr>inet_pton = (\<lambda>f s. if f = AF_INET6 then
          (if length (read6 s) = 16 \<and> text6 (read6 s) = s then PtonOk (read6 s) else PtonBad)
        else (if length (read4 s) = 4 \<and> text4 (read4 s) = s then PtonOk (read4 s) else PtonBad)),
      inet_ntop = (\<lambda>f bs. if f = AF_INET6 then
          (if length bs = 16 then Some (text6 bs) else None)
        else (if length bs = 4 then Some (text4 bs) else None))\<rparr>"

lemma read4_text4: "read4 (text4 bs) = bs"
proof (induction bs)
  case (Cons b bs)
  have b: "unat b < 256" using unsigned_less [of b, where ?'a = nat] by simp
  have v: "100 * (unat b div 100) + 10 * (unat b div 10 mod 10) + unat b mod 10 = unat b"
  proof -
    have "unat b div 100 = unat b div 10 div 10" using div_mult2_eq [of "unat b" 10 10] by simp
    moreover have "10 * (unat b div 10 div 10) + unat b div 10 mod 10 = unat b div 10" by (rule mult_div_mod_eq)
    moreover have "10 * (unat b div 10) + unat b mod 10 = unat b" by (rule mult_div_mod_eq)
    ultimately show ?thesis by linarith
  qed
  have "unat b div 100 < 10" using b by simp
  with v Cons show ?case by (simp only: text4.simps append_Cons append_Nil read4.simps digit_val_digit) simp
qed simp


lemma digit_val_hex: "d < 16 \<Longrightarrow> digit_val (hex_digit d) = d"
proof (cases "d < 10")
  case True
  then show ?thesis by (simp only: hex_digit_def if_True digit_val_digit)
next
  case False
  assume "d < 16"
  then have "unat (of_nat (87 + d) :: byte) = 87 + d" by (simp add: unat_of_nat del: of_nat_add)
  with False \<open>d < 16\<close> show ?thesis
    by (simp only: hex_digit_def if_False digit_val_def word_le_nat_alt) simp
qed

lemma read6_text6: "read6 (text6 bs) = bs"
proof (induction bs)
  case (Cons b bs)
  have "unat b < 256" using unsigned_less [of b, where ?'a = nat] by simp
  then have "unat b div 16 < 16" by simp
  with Cons show ?case
    by (simp only: text6.simps append_Cons append_Nil read6.simps digit_val_hex mod_less_divisor zero_less_numeral
        mult_div_mod_eq) simp
qed simp

lemma digit_set: "d < 10 \<Longrightarrow> (of_nat (48 + d) :: byte) \<in> set (ascii ''0123456789.'')"
  by (auto simp: ascii_def numeral_nat less_Suc_eq)

lemma hex_digit_set: "d < 16 \<Longrightarrow> hex_digit d \<in> set (ascii ''0123456789abcdef:.'')"
  by (auto simp: ascii_def hex_digit_def numeral_nat less_Suc_eq)

lemma text4_set: "set (text4 bs) \<subseteq> set (ascii ''0123456789.'')"
proof (induction bs)
  case (Cons b bs)
  have "unat b < 256" using unsigned_less [of b, where ?'a = nat] by simp
  then have "unat b div 100 < 10" by simp
  from digit_set [OF this] digit_set [of "unat b div 10 mod 10"] digit_set [of "unat b mod 10"]
  have "{of_nat (48 + unat b div 100), of_nat (48 + unat b div 10 mod 10), of_nat (48 + unat b mod 10), 46}
      \<subseteq> set (ascii ''0123456789.'')" by (simp del: of_nat_add) (simp add: ascii_def)
  with Cons show ?case by (simp del: of_nat_add)
qed simp

lemma text6_set: "set (text6 bs) \<subseteq> set (ascii ''0123456789abcdef:.'')"
proof (induction bs)
  case (Cons b bs)
  have "unat b < 256" using unsigned_less [of b, where ?'a = nat] by simp
  then have "unat b div 16 < 16" by simp
  from hex_digit_set [OF this] hex_digit_set [of "unat b mod 16"]
  have "{hex_digit (unat b div 16), hex_digit (unat b mod 16), 58} \<subseteq> set (ascii ''0123456789abcdef:.'')"
    by simp (simp add: ascii_def)
  with Cons show ?case by simp
qed simp

lemma demo_inet_law: "inet_text_law demo_inet"
  unfolding inet_text_law_def
proof (intro conjI allI impI)
  fix bs :: "byte list"
  show "\<exists>s. inet_ntop demo_inet AF_INET bs = Some s \<and> inet_pton demo_inet AF_INET s = PtonOk bs
      \<and> s \<noteq> [] \<and> set s \<subseteq> set (ascii ''0123456789.'')" if "length bs = 4"
    using that text4_set [of bs] by (cases bs) (simp_all add: demo_inet_def af_defs read4_text4 del: text4.simps, simp)
  show "\<exists>s. inet_ntop demo_inet AF_INET6 bs = Some s \<and> inet_pton demo_inet AF_INET6 s = PtonOk bs
      \<and> s \<noteq> [] \<and> set s \<subseteq> set (ascii ''0123456789abcdef:.'')" if "length bs = 16"
    using that text6_set [of bs] by (cases bs) (simp_all add: demo_inet_def read6_text6 del: text6.simps, simp)
  show "length bs = (if f = AF_INET6 then 16 else 4)" if "inet_pton demo_inet f s = PtonOk bs" for f s
    using that by (auto simp: demo_inet_def split: if_splits)
qed




text \<open>
  C38. Addresses are well formed. Every parsed address fills its 128 bytes of storage, has
  one of the three families with the length of its address structure, so that the socket
  calls read inside the storage, and only IPv6 addresses are wildcards.
\<close>

theorem parsed_address_wf:
  assumes "inet_text_law e" "SocketAddress_parse e s hint = Inr a"
  shows "length (addr_storage a) = 128 \<and>
    (sa_family a = AF_INET \<and> addr_len a = 16 \<or> sa_family a = AF_INET6 \<and> addr_len a = 28 \<or>
     sa_family a = AF_UNIX \<and> 3 \<le> addr_len a \<and> addr_len a \<le> 110) \<and>
    (is_wildcard a \<longrightarrow> sa_family a = AF_INET6)"
  by (rule parsed_wf [OF assms])

theorem parsed_address_wf_witness:
  "length (addr_storage (unix_address [120])) = 128 \<and> addr_len (unix_address [120]) = 4"
proof -
  have u: "SocketAddress_parse demo_inet (ascii ''unix:'' @ [120]) 0 = Inr (unix_address [120])"
    by (simp add: parse_unix)
  show ?thesis using parsed_address_wf [OF demo_inet_law u] by (simp add: unix_address_def)
qed

lemma host_port:
  assumes "58 \<notin> set host" "hd (host @ [58]) \<noteq> 91"
  shows "extractFamilyHostAndPort (host @ ascii '':'' @ dec_digits n) hint =
      (if n < 65536 then (AF_INET, host, of_nat n) else (AF_UNSPEC, host, hint))"
    and "0 < p \<Longrightarrow> p < 65536 \<Longrightarrow>
      extractFamilyHostAndPort (host @ ascii '':-'' @ dec_digits (2 ^ 64 - p)) hint = (AF_INET, host, of_nat p)"
proof -
  have colon: "58 \<notin> set (dec_digits m)" for m by (rule dec_digits_avoid) simp
  show "extractFamilyHostAndPort (host @ ascii '':'' @ dec_digits n) hint =
      (if n < 65536 then (AF_INET, host, of_nat n) else (AF_UNSPEC, host, hint))"
    using colon by (simp add: extract_host_port [OF assms] parse_port_part_dec)
  assume p: "0 < p" "p < 65536"
  let ?d = "dec_digits (2 ^ 64 - p)"
  have "0 \<notin> set ?d" by (rule dec_digits_avoid) simp
  then have c: "c_str (45 # ?d) = 45 # ?d" by (intro c_str_id) simp
  have neg: "- of_nat (2 ^ 64 - p) = (of_nat p :: u64)" using p by (simp add: of_nat_diff)
  have big: "\<not> 2 ^ 64 \<le> 2 ^ 64 - p" using p by simp
  have le: "(of_nat p :: u64) \<le> 0xFFFF" using p by (simp add: word_le_nat_alt unat_of_nat)
  have cast: "(ucast (of_nat p :: u64) :: u16) = of_nat p"
    using p by (simp add: word_unat_eq_iff unat_of_nat unsigned_of_nat take_bit_eq_mod)
  have "strtoull (45 # ?d) = (of_nat p, [])" using big neg by (subst strtoull_dec) simp
  then have port: "parse_port_part AF_INET host (45 # ?d) hint = (AF_INET, host, of_nat p)"
    using le cast c by (simp add: parse_port_part_def leD)
  have "ascii '':-'' @ ?d = ascii '':'' @ (45 # ?d)" by (simp add: ascii_def)
  then show "extractFamilyHostAndPort (host @ ascii '':-'' @ ?d) hint = (AF_INET, host, of_nat p)"
    using colon by (simp only: extract_host_port [OF assms] port) simp
qed

text \<open>
  Ports. A decimal port behind a host is taken as its value when it fits 16 bits and
  refused otherwise, numbers too large for \<open>strtoull\<close> included; but a negative number is
  negated modulo $2^{64}$ before the range is checked, so \<open>-n\<close> is accepted as port
  $2^{64} - n$ for the last 65535 values of \<open>n\<close>.
\<close>

theorem port_value:
  assumes "58 \<notin> set host" "hd (host @ [58]) \<noteq> 91"
  shows "extractFamilyHostAndPort (host @ ascii '':'' @ dec_digits n) hint =
      (if n < 65536 then (AF_INET, host, of_nat n) else (AF_UNSPEC, host, hint)) \<and>
    (0 < p \<and> p < 65536 \<longrightarrow>
      extractFamilyHostAndPort (host @ ascii '':-'' @ dec_digits (2 ^ 64 - p)) hint = (AF_INET, host, of_nat p))"
  using host_port [OF assms] by blast

theorem port_value_witness:
  "extractFamilyHostAndPort (ascii ''localhost'' @ ascii '':'' @ dec_digits 70000) 5 = (AF_UNSPEC, ascii ''localhost'', 5) \<and>
   extractFamilyHostAndPort (ascii ''localhost'' @ ascii '':-'' @ dec_digits (2 ^ 64 - 80)) 5 = (AF_INET, ascii ''localhost'', 80)"
proof -
  have h: "58 \<notin> set (ascii ''localhost'')" "hd (ascii ''localhost'' @ [58]) \<noteq> 91" by (simp_all add: ascii_def)
  show ?thesis using port_value [OF h, of 70000 5 80] by simp
qed

text \<open>
  Printing of Unix paths. The length of a parsed \<open>unix:\<close> address counts the NUL byte
  behind the path, and \<open>toString\<close> prints that many bytes: the text ends with a NUL, and an
  empty path is printed as an abstract one.
\<close>

theorem unix_path_printed_with_nul:
  assumes "0 \<notin> set path" "length path \<le> 107"
  shows "SocketAddress_parse e (ascii ''unix:'' @ path) hint = Inr (unix_address path) \<and>
    toString e (unix_address path) =
      Some (if path = [] then ascii ''unix-abstract:'' else ascii ''unix:'' @ path @ [0])"
proof -
  note sel = unix_address_sel [OF assms(2)]
  have cpy: "strncpy path 108 = path @ replicate (108 - length path) 0"
    using assms by (simp add: strncpy_def)
  have "take n (addr_field 2 108 (unix_address path)) = addr_field 2 n (unix_address path)" if "n \<le> 108" for n
    using that by (simp add: addr_field_def min_def)
  then have f: "addr_field 2 n (unix_address path) = take n (path @ replicate (108 - length path) 0)"
    if "n \<le> 108" for n using that by (metis sel(5) cpy)
  have "addr_field 2 (length path + 1) (unix_address path) = path @ [0]"
    using assms(2) by (simp add: f take_replicate min_absorb1)
  moreover have "addr_storage (unix_address path) ! 2 = (if path = [] then 0 else hd path)"
    using sel(4) by (subst storage_nth) (auto simp: f hd_append hd_take)
  moreover have "hd path \<noteq> 0" if "path \<noteq> []" using that assms(1) hd_in_set [OF that] by metis
  ultimately show ?thesis
    using assms sel by (auto simp: parse_unix toString_def getUnixPrefixAndPath_def af_defs addr_field_def)
qed

theorem unix_path_printed_with_nul_witness:
  "toString demo_inet (unix_address (ascii ''/tmp/s'')) = Some (ascii ''unix:/tmp/s'' @ [0]) \<and>
   toString demo_inet (unix_address []) = Some (ascii ''unix-abstract:'')"
  using unix_path_printed_with_nul [of "ascii ''/tmp/s''" demo_inet 0] unix_path_printed_with_nul [of "[]" demo_inet 0]
  by (simp add: ascii_def)


section \<open>Descriptors\<close>

text \<open>
  What the operating system promises about descriptors: \<open>socket\<close> and \<open>accept\<close> open a new
  one when they succeed, \<open>close\<close> closes its argument, and the other calls neither open
  nor close any.
\<close>

definition fd_law :: "('w, 'z) sock_sys_scheme \<Rightarrow> ('w \<Rightarrow> int set) \<Rightarrow> bool" where
  "fd_law sys opened \<longleftrightarrow>
     (\<forall>f t w fd w'. sys_socket sys f t w = (SysOk fd, w') \<longrightarrow>
        0 \<le> fd \<and> fd \<notin> opened w \<and> opened w' = insert fd (opened w)) \<and>
     (\<forall>f t w err w'. sys_socket sys f t w = (SysErr err, w') \<longrightarrow> opened w' = opened w) \<and>
     (\<forall>sfd n w fd bs l w'. sys_accept sys sfd n w = (SysOk (fd, bs, l), w') \<longrightarrow>
        0 \<le> fd \<and> fd \<notin> opened w \<and> opened w' = insert fd (opened w)) \<and>
     (\<forall>sfd n w err w'. sys_accept sys sfd n w = (SysErr err, w') \<longrightarrow> opened w' = opened w) \<and>
     (\<forall>fd w. opened (snd (sys_fcntl_nonblock sys fd w)) = opened w) \<and>
     (\<forall>fd opt v w. opened (snd (sys_setsockopt sys fd opt v w)) = opened w) \<and>
     (\<forall>fd st l w. opened (snd (sys_bind sys fd st l w)) = opened w) \<and>
     (\<forall>fd st l w. opened (snd (sys_connect sys fd st l w)) = opened w) \<and>
     (\<forall>fd n w. opened (snd (sys_listen sys fd n w)) = opened w) \<and>
     (\<forall>fd w. opened (snd (sys_getsockopt_error sys fd w)) = opened w) \<and>
     (\<forall>fd w. opened (sys_close sys fd w) = opened w - {fd})"

lemma fd_lawD:
  assumes "fd_law sys opened"
  shows "sys_socket sys f t w = (SysOk fd, w') \<Longrightarrow> 0 \<le> fd \<and> fd \<notin> opened w \<and> opened w' = insert fd (opened w)"
    "sys_socket sys f t w = (SysErr err, w') \<Longrightarrow> opened w' = opened w"
    "sys_accept sys sfd n w = (SysOk (fd, bs, l), w') \<Longrightarrow> 0 \<le> fd \<and> fd \<notin> opened w \<and> opened w' = insert fd (opened w)"
    "sys_accept sys sfd n w = (SysErr err, w') \<Longrightarrow> opened w' = opened w"
    "opened (snd (sys_fcntl_nonblock sys fd w)) = opened w"
    "opened (snd (sys_setsockopt sys fd opt v w)) = opened w"
    "opened (snd (sys_bind sys fd st l w)) = opened w"
    "opened (snd (sys_connect sys fd st l w)) = opened w"
    "opened (snd (sys_listen sys fd n w)) = opened w"
    "opened (snd (sys_getsockopt_error sys fd w)) = opened w"
    "opened (sys_close sys fd w) = opened w - {fd}"
  using assms unfolding fd_law_def by - (elim conjE, (simp; fail | blast))+

text \<open>A call that keeps the descriptors keeps them when it is retried.\<close>

lemma retry_keeps:
  assumes "posixSyscallError call w = Some (r, w')" "\<And>w. opened (snd (call w)) = opened w"
  shows "opened w' = opened w"
proof -
  from assms(1) obtain k v where "eintr_chain call k w v" "call v = (r, w')"
    by (auto simp: posixSyscallError_Some_iff)
  moreover have "opened v = opened w" if "eintr_chain call k w v" for k v
    using that assms(2) by (induction k arbitrary: w) (auto, metis snd_conv)
  ultimately show ?thesis using assms(2) by (metis snd_conv)
qed

lemma destroy_fresh:
  assumes "fd_law sys opened" "opened w = insert fd X" "fd \<notin> X" "0 \<le> fd"
  shows "opened (OwnedFd_destroy (sys_close sys) fd w) = X"
  using assms by (simp add: OwnedFd_destroy_def OwnedFd_reset_def fd_lawD(11))

lemma configureNoDelay_keeps:
  assumes "fd_law sys opened" "configureNoDelay sys fd w = Some w'"
  shows "opened w' = opened w"
proof -
  from assms(2) obtain r where "posixSyscallError (sys_setsockopt sys fd TCP_NODELAY 1) w = Some (r, w')"
    by (auto simp: configureNoDelay_def)
  then show ?thesis by (rule retry_keeps) (rule fd_lawD(6) [OF assms(1)])
qed

lemma socket_descriptors:
  assumes "fd_law sys opened" "SocketAddress_socket sys ty a w = Some (r, w')"
  shows "case r of Inl _ \<Rightarrow> opened w' = opened w
    | Inr fd \<Rightarrow> 0 \<le> fd \<and> fd \<notin> opened w \<and> opened w' = insert fd (opened w)"
proof -
  let ?s = "sys_socket sys (sa_family a) ty"
  from assms(2) obtain r1 w1 where r1: "posixSyscallError ?s w = Some (r1, w1)"
    by (cases "posixSyscallError ?s w") (auto simp: SocketAddress_socket_def)
  from r1 obtain k v where chain: "eintr_chain ?s k w v" "?s v = (r1, w1)" by (auto simp: posixSyscallError_Some_iff)
  from chain(1) have v: "opened v = opened w"
    by (induction k arbitrary: w) (auto dest: fd_lawD(2) [OF assms(1)])
  show ?thesis
  proof (cases r1)
    case (SysErr err)
    with chain(2) v fd_lawD(2) [OF assms(1)] have "opened w1 = opened w" by metis
    with assms(2) r1 SysErr show ?thesis by (auto simp: SocketAddress_socket_def)
  next
    case (SysOk fd)
    with chain(2) v have fd: "0 \<le> fd" "fd \<notin> opened w" "opened w1 = insert fd (opened w)"
      using fd_lawD(1) [OF assms(1)] by metis+
    from assms(2) r1 SysOk obtain r2 w2 where r2: "posixSyscallError (sys_fcntl_nonblock sys fd) w1 = Some (r2, w2)"
      by (cases "posixSyscallError (sys_fcntl_nonblock sys fd) w1") (auto simp: SocketAddress_socket_def)
    then have w2: "opened w2 = insert fd (opened w)"
      using retry_keeps [where opened = opened, OF r2 fd_lawD(5) [OF assms(1)]] fd(3) by simp
    from assms(2) r1 r2 SysOk show ?thesis
      using destroy_fresh [OF assms(1) w2 fd(2,1)] configureNoDelay_keeps [OF assms(1), of fd w2] w2 fd
      by (cases r2) (auto simp: SocketAddress_socket_def split: if_splits)
  qed
qed

text \<open>\<open>k\<close> temporary failures of \<open>accept\<close> lead from \<open>w\<close> to \<open>v\<close>.\<close>

fun accept_chain :: "('w, 'z) sock_sys_scheme \<Rightarrow> owned_fd \<Rightarrow> nat \<Rightarrow> 'w \<Rightarrow> 'w \<Rightarrow> bool" where
  "accept_chain sys sfd 0 w v \<longleftrightarrow> v = w"
| "accept_chain sys sfd (Suc k) w v \<longleftrightarrow>
     (\<exists>err w'. sys_accept sys sfd 128 w = (SysErr err, w') \<and> accept_chain sys sfd k w' v)"

lemmas accept_induct = SocketAddress_accept.raw_induct [rotated, consumes 1, case_names 1]

lemma accept_chainD:
  assumes "SocketAddress_accept sys sfd a w = Some y"
  shows "\<exists>k v. accept_chain sys sfd k w v \<and>
    ((\<exists>err. sys_accept sys sfd 128 v = (SysErr err, snd (snd y)) \<and> fst (snd y) = None) \<or>
     (\<exists>fd bs l w1 x w2. sys_accept sys sfd 128 v = (SysOk (fd, bs, l), w1) \<and>
        posixSyscallError (sys_fcntl_nonblock sys fd) w1 = Some (x, w2) \<and>
        (case x of SysErr _ \<Rightarrow> fst (snd y) = None \<and> snd (snd y) = OwnedFd_destroy (sys_close sys) fd w2
         | SysOk _ \<Rightarrow> fst (snd y) = Some fd \<and>
             (snd (snd y) = w2 \<or> configureNoDelay sys fd w2 = Some (snd (snd y))))))"
  using assms
proof (induction rule: accept_induct)
  case (1 acc sys sfd a w y)
  show ?case (is "\<exists>k v. ?C k v \<and> (?E v \<or> ?S v)")
  proof (cases "sys_accept sys sfd 128 w")
    case (Pair r1 w1)
    show ?thesis
    proof (cases r1)
      case (SysErr err)
      show ?thesis
      proof (cases "err \<noteq> EAGAIN \<and> accept_retry err")
        case True
        with 1(2) Pair SysErr have "acc sys sfd (a\<lparr>addr_len := 128\<rparr>) w1 = Some y" by simp
        from 1(1) [OF this] obtain k v where kv: "accept_chain sys sfd k w1 v" "?E v \<or> ?S v" by (elim exE conjE)
        then have "?C (Suc k) v" using Pair SysErr by auto
        with kv(2) show ?thesis by (intro exI conjI)
      next
        case False
        with 1(2) Pair SysErr have "?E w" by (auto split: if_splits)
        then have "?C 0 w \<and> (?E w \<or> ?S w)" by simp
        then show ?thesis by (intro exI)
      qed
    next
      case (SysOk z)
      obtain fd bs l where z: "z = (fd, bs, l)" by (cases z)
      from 1(2) Pair SysOk z obtain x w2 where
        r2: "posixSyscallError (sys_fcntl_nonblock sys fd) w1 = Some (x, w2)"
        by (cases "posixSyscallError (sys_fcntl_nonblock sys fd) w1") auto
      have "case x of SysErr _ \<Rightarrow> fst (snd y) = None \<and> snd (snd y) = OwnedFd_destroy (sys_close sys) fd w2
         | SysOk _ \<Rightarrow> fst (snd y) = Some fd \<and>
             (snd (snd y) = w2 \<or> configureNoDelay sys fd w2 = Some (snd (snd y)))"
        using 1(2) Pair SysOk z r2 by (cases x) (auto simp: Let_def split: if_splits)
      with Pair SysOk z r2 have "?S w" by (intro exI conjI) simp_all
      then have "?C 0 w \<and> (?E w \<or> ?S w)" by simp
      then show ?thesis by (intro exI)
    qed
  qed
qed

lemma accept_cases:
  assumes "SocketAddress_accept sys sfd a w = Some (a', r, w')"
  obtains (refused) k v err where "accept_chain sys sfd k w v" "sys_accept sys sfd 128 v = (SysErr err, w')" "r = None"
  | (dropped) k v fd bs l w1 err w2 where "accept_chain sys sfd k w v" "sys_accept sys sfd 128 v = (SysOk (fd, bs, l), w1)"
      "posixSyscallError (sys_fcntl_nonblock sys fd) w1 = Some (SysErr err, w2)" "r = None"
      "w' = OwnedFd_destroy (sys_close sys) fd w2"
  | (accepted) k v fd bs l w1 u w2 where "accept_chain sys sfd k w v" "sys_accept sys sfd 128 v = (SysOk (fd, bs, l), w1)"
      "posixSyscallError (sys_fcntl_nonblock sys fd) w1 = Some (SysOk u, w2)" "r = Some fd"
      "w' = w2 \<or> configureNoDelay sys fd w2 = Some w'"
proof -
  from accept_chainD [OF assms] obtain k v where c: "accept_chain sys sfd k w v"
    and d: "(\<exists>err. sys_accept sys sfd 128 v = (SysErr err, w') \<and> r = None) \<or>
     (\<exists>fd bs l w1 x w2. sys_accept sys sfd 128 v = (SysOk (fd, bs, l), w1) \<and>
        posixSyscallError (sys_fcntl_nonblock sys fd) w1 = Some (x, w2) \<and>
        (case x of SysErr _ \<Rightarrow> r = None \<and> w' = OwnedFd_destroy (sys_close sys) fd w2
         | SysOk _ \<Rightarrow> r = Some fd \<and> (w' = w2 \<or> configureNoDelay sys fd w2 = Some w')))"
    by (simp only: fst_conv snd_conv) (elim exE conjE)
  from d show ?thesis
  proof (elim disjE exE conjE)
    show ?thesis if "sys_accept sys sfd 128 v = (SysErr err, w')" "r = None" for err by (rule refused [OF c that])
    fix fd bs l w1 x w2
    assume a: "sys_accept sys sfd 128 v = (SysOk (fd, bs, l), w1)"
      "posixSyscallError (sys_fcntl_nonblock sys fd) w1 = Some (x, w2)"
      "case x of SysErr _ \<Rightarrow> r = None \<and> w' = OwnedFd_destroy (sys_close sys) fd w2
         | SysOk _ \<Rightarrow> r = Some fd \<and> (w' = w2 \<or> configureNoDelay sys fd w2 = Some w')"
    show ?thesis
    proof (cases x)
      case (SysOk u)
      with a accepted [OF c a(1), of u w2] show ?thesis by simp
    next
      case (SysErr e)
      with a dropped [OF c a(1), of e w2] show ?thesis by simp
    qed
  qed
qed

lemma accept_descriptors:
  assumes law: "fd_law sys opened" and acc: "SocketAddress_accept sys sfd a w = Some (a', r, w')"
  shows "case r of None \<Rightarrow> opened w' = opened w
    | Some fd \<Rightarrow> 0 \<le> fd \<and> fd \<notin> opened w \<and> opened w' = insert fd (opened w)"
proof -
  have chain: "opened v = opened w" if "accept_chain sys sfd k w v" for k v
    using that by (induction k arbitrary: w) (auto dest: fd_lawD(4) [OF law])
  from acc show ?thesis
  proof (cases rule: accept_cases)
    case (refused k v err)
    with chain [OF refused(1)] fd_lawD(4) [OF law refused(2)] show ?thesis by simp
  next
    case (dropped k v fd bs l w1 err w2)
    have fd: "0 \<le> fd" "fd \<notin> opened w" "opened w1 = insert fd (opened w)"
      using chain [OF dropped(1)] fd_lawD(3) [OF law dropped(2)] by simp_all
    have "opened w2 = insert fd (opened w)"
      using retry_keeps [where opened = opened, OF dropped(3) fd_lawD(5) [OF law]] fd(3) by simp
    from destroy_fresh [OF law this fd(2,1)] dropped show ?thesis by simp
  next
    case (accepted k v fd bs l w1 u w2)
    have fd: "0 \<le> fd" "fd \<notin> opened w" "opened w1 = insert fd (opened w)"
      using chain [OF accepted(1)] fd_lawD(3) [OF law accepted(2)] by simp_all
    have "opened w2 = insert fd (opened w)"
      using retry_keeps [where opened = opened, OF accepted(3) fd_lawD(5) [OF law]] fd(3) by simp
    with accepted(4,5) fd configureNoDelay_keeps [OF law, of fd w2 w'] show ?thesis by auto
  qed
qed

end
