(* ===== verification/Gateway.thy ===== *)
theory Gateway
  imports Socket_Buffer Sdk_Error
begin

text \<open>
  What the client and the server router share: \<^verbatim>\<open>src/common/ipc/gateway.hpp\<close> (the gateway
  and its events), \<^verbatim>\<open>src/common/dsdl_helpers.hpp\<close> (\<open>tryPerformOnSerialized\<close>), the routing
  message \<^verbatim>\<open>src/common/dsdl/ocvsmd/common/ipc/Route.0.2.dsdl\<close>, and the shared ownership
  of gateways.

  The code that (de)serializes \<open>Route\<close> is generated by Nunavut and is a parameter
  (\<open>route_codec\<close>); the locale of that name states what is used of it.

  Gateways are \<open>std::shared_ptr\<close> objects. The heap maps the address of every live gateway
  to its fields and its use count; a weak pointer is an address, and \<open>lock\<close> gives nothing
  once the object is gone. Using an object that is gone is undefined behaviour, which the
  router operations show as the outcome \<open>None\<close>. Addresses are not reused, as a weak
  pointer keeps its control block alive.
\<close>

section \<open>Routing messages\<close>

datatype route =
    Route_empty
  | Route_connect u8 u8 dsdl_error
  | Route_channel_msg u64 u64 u64 u64
  | Route_channel_end u64 bool dsdl_error

definition VERSION_MAJOR :: u8 where "VERSION_MAJOR = 0"
definition VERSION_MINOR :: u8 where "VERSION_MINOR = 1"

record route_codec =
  route_serialize :: "route \<Rightarrow> byte list option"
  route_deserialize :: "byte list \<Rightarrow> route option"

text \<open>
  Run an action on the serialized message, or fail with \<open>InvalidArgument\<close>. The three
  overloads of the source differ in where the buffer lives only.
\<close>

definition tryPerformOnSerialized ::
    "('m \<Rightarrow> byte list option) \<Rightarrow> 'm \<Rightarrow> (payload \<Rightarrow> 's \<Rightarrow> opt_error \<times> 's) \<Rightarrow> 's \<Rightarrow> opt_error \<times> 's" where
  "tryPerformOnSerialized serialize message action s =
     (case serialize message of
        None \<Rightarrow> (Some (mkError InvalidArgument), s)
      | Some buffer \<Rightarrow> action (Span buffer) s)"

text \<open>What the routers rely on: a message is read back even with bytes after it.\<close>

locale route_codec_law =
  fixes c :: route_codec
  assumes roundtrip: "route_serialize c r = Some bs \<Longrightarrow> route_deserialize c (bs @ rest) = Some r"

section \<open>Gateway events\<close>

datatype gw_event =
    GwConnected
  | GwMessage u64 "byte list"
  | GwCompleted opt_error bool

section \<open>Shared gateways\<close>

record ('e, 'h) gateway =
  gw_endpoint :: 'e
  gw_next_sequence :: u64
  gw_event_handler :: "'h option"
  gw_completion_opt_error :: opt_error
  gw_use_count :: nat

type_synonym ('e, 'h) gw_heap = "nat \<Rightarrow> ('e, 'h) gateway option"

definition GatewayImpl_create :: "'e \<Rightarrow> ('e, 'h) gateway" where
  "GatewayImpl_create endpoint =
     \<lparr>gw_endpoint = endpoint, gw_next_sequence = 0, gw_event_handler = None,
      gw_completion_opt_error = None, gw_use_count = 1\<rparr>"

text \<open>\<open>weak_ptr::lock\<close>: one more owner, if the object is alive.\<close>

definition heap_lock :: "nat \<Rightarrow> ('e, 'h) gw_heap \<Rightarrow> ('e, 'h) gw_heap option" where
  "heap_lock a heap =
     (case heap a of
        None \<Rightarrow> None
      | Some g \<Rightarrow> Some (heap(a \<mapsto> g\<lparr>gw_use_count := Suc (gw_use_count g)\<rparr>)))"

text \<open>
  The end of a \<open>shared_ptr\<close>: the last owner destroys the object, which is returned for
  its destructor to run.
\<close>

definition heap_release ::
    "nat \<Rightarrow> ('e, 'h) gw_heap \<Rightarrow> (('e, 'h) gateway option \<times> ('e, 'h) gw_heap) option" where
  "heap_release a heap =
     (case heap a of
        None \<Rightarrow> None
      | Some g \<Rightarrow>
          if gw_use_count g \<le> 1 then Some (Some g, heap(a := None))
          else Some (None, heap(a \<mapsto> g\<lparr>gw_use_count := gw_use_count g - 1\<rparr>)))"

section \<open>The ownership invariant\<close>

text \<open>
  \<open>owners\<close> is the multiset of the addresses all owners hold. The use count of a live
  gateway is the number of its owners, and no owner holds a gateway that is gone.
\<close>

fun ref_at :: "nat \<Rightarrow> ('e, 'h) gateway option \<Rightarrow> bool" where
  "ref_at n None \<longleftrightarrow> n = 0"
| "ref_at n (Some g) \<longleftrightarrow> gw_use_count g = n \<and> 0 < n"

definition refs_ok :: "nat multiset \<Rightarrow> ('e, 'h) gw_heap \<Rightarrow> bool" where
  "refs_ok owners heap \<longleftrightarrow> (\<forall>a. ref_at (count owners a) (heap a))"

lemma refs_okD: "refs_ok owners heap \<Longrightarrow> ref_at (count owners a) (heap a)"
  by (simp add: refs_ok_def)

lemma refs_ok_live: "refs_ok owners heap \<Longrightarrow> a \<in># owners \<Longrightarrow> \<exists>g. heap a = Some g"
  using refs_okD [of owners heap a] by (cases "heap a") (auto simp: count_eq_zero_iff)

lemma refs_ok_owned: "refs_ok owners heap \<Longrightarrow> heap a = Some g \<Longrightarrow> a \<in># owners"
  using refs_okD [of owners heap a] by simp

lemma refs_ok_count: "refs_ok owners heap \<Longrightarrow> heap a = Some g \<Longrightarrow> gw_use_count g = count owners a"
  using refs_okD [of owners heap a] by simp

text \<open>
  Changing one cell, by what it needs there; the operations below are instances.
\<close>

lemma refs_ok_cell:
  assumes "refs_ok owners heap" "ref_at (count owners' a) v" "\<And>b. b \<noteq> a \<Longrightarrow> count owners' b = count owners b"
  shows "refs_ok owners' (heap(a := v))"
  unfolding refs_ok_def
proof
  fix b show "ref_at (count owners' b) ((heap(a := v)) b)"
    using assms(2) assms(3) [of b] refs_okD [OF assms(1), of b] by (cases "b = a") simp_all
qed

lemma refs_ok_upd:
  assumes "refs_ok owners heap" "heap a = Some g" "gw_use_count g' = gw_use_count g"
  shows "refs_ok owners (heap(a \<mapsto> g'))"
  using assms refs_okD [OF assms(1), of a] by (intro refs_ok_cell [OF assms(1)]) auto

lemma refs_ok_create:
  assumes "refs_ok owners heap" "heap a = None"
  shows "refs_ok (add_mset a owners) (heap(a \<mapsto> GatewayImpl_create e))"
  using assms refs_okD [OF assms(1), of a]
  by (intro refs_ok_cell [OF assms(1)]) (auto simp: GatewayImpl_create_def)

lemma refs_ok_lock:
  assumes "refs_ok owners heap" "heap_lock a heap = Some heap'"
  shows "refs_ok (add_mset a owners) heap'"
proof -
  from assms(2) obtain g where g: "heap a = Some g"
    "heap' = heap(a \<mapsto> g\<lparr>gw_use_count := Suc (gw_use_count g)\<rparr>)"
    by (auto simp: heap_lock_def split: option.splits)
  with refs_ok_count [OF assms(1) g(1)] show ?thesis
    unfolding g(2) by (intro refs_ok_cell [OF assms(1)]) auto
qed

lemma refs_ok_release:
  assumes "refs_ok (add_mset a owners) heap" "heap_release a heap = Some (d, heap')"
  shows "refs_ok owners heap'"
proof -
  from assms(2) obtain g where g: "heap a = Some g" by (auto simp: heap_release_def split: option.splits)
  with refs_ok_count [OF assms(1) g] have n: "gw_use_count g = Suc (count owners a)" by simp
  show ?thesis
  proof (cases "a \<in># owners")
    case True
    then have "heap' = heap(a \<mapsto> g\<lparr>gw_use_count := count owners a\<rparr>)"
      using g n assms(2) True by (simp add: heap_release_def count_eq_zero_iff)
    with True show ?thesis by (auto intro!: refs_ok_cell [OF assms(1)] simp: not_in_iff)
  next
    case False
    then have "heap' = heap(a := None)" using g n assms(2) by (auto simp: heap_release_def not_in_iff)
    with False show ?thesis by (auto intro!: refs_ok_cell [OF assms(1)] simp: not_in_iff)
  qed
qed

lemma heap_release_owned:
  assumes "refs_ok owners heap" "a \<in># owners"
  obtains d heap' where "heap_release a heap = Some (d, heap')"
  using refs_ok_live [OF assms] that by (cases "heap_release a heap") (auto simp: heap_release_def split: if_splits)

text \<open>The object is destroyed exactly when its last owner lets go.\<close>

lemma heap_release_destroys:
  assumes "refs_ok (add_mset a owners) heap" "heap_release a heap = Some (d, heap')"
  shows "heap' a = None \<longleftrightarrow> a \<notin># owners" "d \<noteq> None \<longleftrightarrow> a \<notin># owners"
    and "d = Some g \<Longrightarrow> heap a = Some g"
proof -
  from assms(2) obtain g0 where g0: "heap a = Some g0" by (auto simp: heap_release_def split: option.splits)
  have "gw_use_count g0 = Suc (count owners a)" using refs_ok_count [OF assms(1) g0] by simp
  then have "gw_use_count g0 \<le> 1 \<longleftrightarrow> a \<notin># owners" by (simp add: not_in_iff)
  then have cases: "a \<notin># owners \<and> d = Some g0 \<and> heap' = heap(a := None) \<or>
      a \<in># owners \<and> d = None \<and> (\<exists>g1. heap' a = Some g1)"
    using g0 assms(2) by (cases "gw_use_count g0 \<le> 1") (auto simp: heap_release_def)
  then show "heap' a = None \<longleftrightarrow> a \<notin># owners" "d \<noteq> None \<longleftrightarrow> a \<notin># owners" by auto
  from cases g0 show "d = Some g \<Longrightarrow> heap a = Some g" by auto
qed

lemma heap_release_other:
  "heap_release a heap = Some (d, heap') \<Longrightarrow> b \<noteq> a \<Longrightarrow> heap' b = heap b"
  by (auto simp: heap_release_def split: option.splits if_splits)

section \<open>The wire layout of the routing message\<close>

text \<open>
  An instance of \<open>route_codec\<close> after the layout the DSDL files prescribe: a union tag, a
  delimiter header before every extensible nested type, little-endian fields. A composite
  shorter than its fields, or one that announces more than there is, is refused.
\<close>

definition error_bytes :: "dsdl_error \<Rightarrow> byte list" where
  "error_bytes e = le_bytes 4 (8 :: u32) @ le_bytes 4 (error_code e) @ le_bytes 4 (raw_errno e)"

fun dsdl_route_bytes :: "route \<Rightarrow> byte list" where
  "dsdl_route_bytes Route_empty = [0]"
| "dsdl_route_bytes (Route_connect major minor e) =
     1 # le_bytes 4 (14 :: u32) @ [major, minor] @ error_bytes e"
| "dsdl_route_bytes (Route_channel_msg tag sequence service_id sz) =
     2 # le_bytes 4 (32 :: u32) @ le_bytes 8 tag @ le_bytes 8 sequence @ le_bytes 8 service_id @ le_bytes 8 sz"
| "dsdl_route_bytes (Route_channel_end tag keep_alive e) =
     3 # le_bytes 4 (21 :: u32) @ le_bytes 8 tag @ [if keep_alive then 1 else 0] @ error_bytes e"

text \<open>Field \<open>n\<close> bytes at offset \<open>i\<close>.\<close>

definition fld :: "nat \<Rightarrow> nat \<Rightarrow> byte list \<Rightarrow> 'a::len word" where
  "fld i n bs = le_word (take n (drop i bs))"

definition error_of_bytes :: "byte list \<Rightarrow> dsdl_error" where
  "error_of_bytes bs = \<lparr>error_code = fld 4 4 bs, raw_errno = fld 8 4 bs\<rparr>"

fun dsdl_route_of_bytes :: "byte list \<Rightarrow> route option" where
  "dsdl_route_of_bytes [] = None"
| "dsdl_route_of_bytes (t # bs) =
     (if t = 0 then Some Route_empty
      else if t = 1 \<and> 18 \<le> length bs then
        Some (Route_connect (bs ! 4) (bs ! 5) (error_of_bytes (drop 6 bs)))
      else if t = 2 \<and> 36 \<le> length bs then
        Some (Route_channel_msg (fld 4 8 bs) (fld 12 8 bs) (fld 20 8 bs) (fld 28 8 bs))
      else if t = 3 \<and> 25 \<le> length bs then
        Some (Route_channel_end (fld 4 8 bs) (bs ! 12 \<noteq> 0) (error_of_bytes (drop 13 bs)))
      else None)"

definition dsdl_codec :: route_codec where
  "dsdl_codec = \<lparr>route_serialize = (\<lambda>r. Some (dsdl_route_bytes r)), route_deserialize = dsdl_route_of_bytes\<rparr>"

lemma fld_append [simp]:
  "i = length pre \<Longrightarrow> LENGTH('a::len) = 8 * n \<Longrightarrow> fld i n (pre @ le_bytes n (w :: 'a word) @ rest) = w"
  by (simp add: fld_def)

lemma error_of_bytes_roundtrip [simp]: "error_of_bytes (error_bytes e @ rest) = e"
proof -
  have "fld 4 4 (le_bytes 4 (8 :: u32) @ le_bytes 4 (error_code e) @ (le_bytes 4 (raw_errno e) @ rest)) = error_code e"
    by (rule fld_append) simp_all
  moreover have "fld 8 4 ((le_bytes 4 (8 :: u32) @ le_bytes 4 (error_code e)) @ le_bytes 4 (raw_errno e) @ rest) = raw_errno e"
    by (rule fld_append) simp_all
  ultimately show ?thesis by (simp add: error_of_bytes_def error_bytes_def)
qed

lemma dsdl_msg_fields:
  "fld 4 8 (le_bytes 4 (32 :: u32) @ le_bytes 8 (a :: u64) @ rest) = a"
  "fld 12 8 (le_bytes 4 (32 :: u32) @ le_bytes 8 (a :: u64) @ le_bytes 8 (b :: u64) @ rest) = b"
  "fld 20 8 (le_bytes 4 (32 :: u32) @ le_bytes 8 (a :: u64) @ le_bytes 8 (b :: u64) @ le_bytes 8 (c :: u64) @ rest) = c"
  "fld 28 8 (le_bytes 4 (32 :: u32) @ le_bytes 8 (a :: u64) @ le_bytes 8 (b :: u64) @ le_bytes 8 (c :: u64)
     @ le_bytes 8 (d :: u64) @ rest) = d"
  "fld 4 8 (le_bytes 4 (21 :: u32) @ le_bytes 8 (a :: u64) @ rest) = a"
  using le_word_bytes [where n = 8 and 'a = 64] by (simp_all add: fld_def)

interpretation dsdl: route_codec_law dsdl_codec
proof
  fix r bs rest assume "route_serialize dsdl_codec r = Some bs"
  then have bs: "bs = dsdl_route_bytes r" by (simp add: dsdl_codec_def)
  have len: "length (error_bytes e) = 12" for e by (simp add: error_bytes_def)
  show "route_deserialize dsdl_codec (bs @ rest) = Some r"
    by (cases r) (simp_all add: bs dsdl_codec_def dsdl_msg_fields nth_append len)
qed

lemma dsdl_codec_read: "route_deserialize dsdl_codec (dsdl_route_bytes r @ rest) = Some r"
  by (rule dsdl.roundtrip) (simp add: dsdl_codec_def)

section \<open>Temporary owners\<close>

text \<open>\<open>c a\<close> more owners for every gateway \<open>a\<close>: how locks and releases cancel.\<close>

definition heap_add :: "(nat \<Rightarrow> nat) \<Rightarrow> ('e, 'h) gw_heap \<Rightarrow> ('e, 'h) gw_heap" where
  "heap_add c heap = (\<lambda>a. map_option (\<lambda>g. g\<lparr>gw_use_count := gw_use_count g + c a\<rparr>) (heap a))"

lemma heap_add_0 [simp]: "heap_add (\<lambda>_. 0) heap = heap"
proof
  fix a show "heap_add (\<lambda>_. 0) heap a = heap a" by (cases "heap a") (auto simp: heap_add_def)
qed

lemma heap_lock_add:
  "heap a = Some g \<Longrightarrow> heap_lock a (heap_add c heap) = Some (heap_add (c(a := Suc (c a))) heap)"
  by (auto simp: heap_lock_def heap_add_def fun_eq_iff)

lemma heap_release_add:
  "heap a = Some g \<Longrightarrow> 0 < gw_use_count g \<Longrightarrow>
   heap_release a (heap_add (c(a := Suc (c a))) heap) = Some (None, heap_add c heap)"
  by (auto simp: heap_release_def heap_add_def fun_eq_iff)

lemma refs_ok_pos: "refs_ok owners heap \<Longrightarrow> heap a = Some g \<Longrightarrow> 0 < gw_use_count g"
  using refs_okD [of owners heap a] by simp

lemma heap_add_handler [simp]: "map_option gw_event_handler (heap_add c heap a) = map_option gw_event_handler (heap a)"
  by (cases "heap a") (simp_all add: heap_add_def)

section \<open>Acting as a temporary owner\<close>

text \<open>
  Outcomes of an operation that may be undefined: \<open>ok2 I x\<close> says that \<open>x\<close> is defined and
  its state satisfies \<open>I\<close>.
\<close>

definition ok2 :: "('s \<Rightarrow> bool) \<Rightarrow> ('r \<times> 's) option \<Rightarrow> bool" where
  "ok2 I x \<longleftrightarrow> (\<exists>r s. x = Some (r, s) \<and> I s)"

definition ok1 :: "('s \<Rightarrow> bool) \<Rightarrow> 's option \<Rightarrow> bool" where
  "ok1 I x \<longleftrightarrow> (\<exists>s. x = Some s \<and> I s)"

lemma ok_simps [simp]:
  "ok2 I (Some rs) \<longleftrightarrow> I (snd rs)" "\<not> ok2 I None" "ok1 I (Some s) \<longleftrightarrow> I s" "\<not> ok1 I None"
  by (cases rs; simp add: ok2_def ok1_def)+

lemma ok_map [simp]:
  "ok2 I (map_option (\<lambda>s. (r, s)) x) = ok1 I x" "ok1 I (map_option snd y) = ok2 I y"
  by (cases x; cases y; simp)+

lemma ok2E: "ok2 I x \<Longrightarrow> (\<And>r s. x = Some (r, s) \<Longrightarrow> I s \<Longrightarrow> P) \<Longrightarrow> P"
  and ok1E: "ok1 I y \<Longrightarrow> (\<And>s. y = Some s \<Longrightarrow> I s \<Longrightarrow> P) \<Longrightarrow> P"
  by (auto simp: ok2_def ok1_def)

text \<open>
  What a router relies on when it locks a weak pointer: the invariant, with the multiset of
  temporary owners as its parameter, follows every lock and every release, and a release
  by an owner is defined.
\<close>

locale shared_owner =
  fixes inv :: "nat multiset \<Rightarrow> 's \<Rightarrow> bool"
    and lock :: "nat \<Rightarrow> 's \<Rightarrow> 's option" and release :: "nat \<Rightarrow> 's \<Rightarrow> 's option"
  assumes lock_inv: "inv L s \<Longrightarrow> lock a s = Some s' \<Longrightarrow> inv (add_mset a L) s'"
    and release_ok: "inv (add_mset a L) s \<Longrightarrow> ok1 (inv L) (release a s)"
begin

lemma bracket_ok:
  assumes "inv L s" "lock a s = Some s1"
    and "inv (add_mset a L) s1 \<Longrightarrow> ok2 (inv (add_mset a L)) (action s1)"
  shows "ok2 (inv L) (do { (r, s2) \<leftarrow> action s1; s3 \<leftarrow> release a s2; Some (r, s3) })"
proof -
  from assms(3) [OF lock_inv [OF assms(1,2)]] obtain r s2 where
    act: "action s1 = Some (r, s2)" "inv (add_mset a L) s2" by (rule ok2E)
  from release_ok [OF act(2)] obtain s3 where "release a s2 = Some s3" "inv L s3" by (rule ok1E)
  with act(1) show ?thesis by simp
qed

end

end
