(* ===== verification/Client_Router.thy ===== *)
theory Client_Router
  imports Gateway
begin

text \<open>
  \<^verbatim>\<open>src/common/ipc/client_router.cpp\<close>: the client-side IPC router, its gateways and the
  dispatch of pipe events.

  The pipe below and the event handlers above are parameters. \<open>client_env\<close> holds the
  route codec, \<open>ClientPipe::send\<close> and the order in which the hash map is iterated; an
  event handler is a name \<open>'h\<close> and a function that runs it on the whole state, so a handler
  may call back into the router (send, complete, drop a channel, make another) as the SDK
  clients do. \<open>cr_app\<close> is the state of the application the handlers belong to.

  Every operation that touches a gateway returns an option: \<open>None\<close> is undefined behaviour
  (an object used after its end, a subspan outside its span).
\<close>

section \<open>State\<close>

type_synonym 'h client_gateway = "(u64, 'h) gateway"

record ('p, 'h, 'a) client_router =
  cr_pipe :: 'p
  cr_next_tag :: u64
  cr_is_connected :: bool
  cr_map_of_gateways :: "(u64, nat) umap"
  cr_heap :: "(u64, 'h) gw_heap"
  cr_next_addr :: nat
  cr_app :: 'a

record 'p client_env =
  ce_codec :: route_codec
  ce_pipe_send :: "socket_buffer \<Rightarrow> 'p \<Rightarrow> opt_error \<times> 'p"
  ce_order :: "(u64 \<times> nat) list \<Rightarrow> (u64 \<times> nat) list"

type_synonym ('p, 'h, 'a) cr_result = "(opt_error \<times> ('p, 'h, 'a) client_router) option"
type_synonym ('p, 'h, 'a) cr_handler =
  "'h \<Rightarrow> gw_event \<Rightarrow> ('p, 'h, 'a) client_router \<Rightarrow> ('p, 'h, 'a) cr_result"

definition ClientRouterImpl_init :: "'p \<Rightarrow> 'a \<Rightarrow> ('p, 'h, 'a) client_router" where
  "ClientRouterImpl_init pipe app =
     \<lparr>cr_pipe = pipe, cr_next_tag = 0, cr_is_connected = False, cr_map_of_gateways = [],
      cr_heap = (\<lambda>_. None), cr_next_addr = 0, cr_app = app\<rparr>"

definition client_pipe_send ::
    "'p client_env \<Rightarrow> socket_buffer \<Rightarrow> ('p, 'h, 'a) client_router \<Rightarrow> opt_error \<times> ('p, 'h, 'a) client_router" where
  "client_pipe_send e b s =
     (let (r, p) = ce_pipe_send e b (cr_pipe s) in (r, s\<lparr>cr_pipe := p\<rparr>))"

text \<open>Serialize a routing message and send it as a message of its own.\<close>

definition client_send_route ::
    "'p client_env \<Rightarrow> route \<Rightarrow> ('p, 'h, 'a) client_router \<Rightarrow> opt_error \<times> ('p, 'h, 'a) client_router" where
  "client_send_route e route s =
     tryPerformOnSerialized (route_serialize (ce_codec e)) route
       (\<lambda>payload. client_pipe_send e (SocketBuffer_of payload)) s"

definition cr_set_gateway ::
    "nat \<Rightarrow> 'h client_gateway \<Rightarrow> ('p, 'h, 'a) client_router \<Rightarrow> ('p, 'h, 'a) client_router" where
  "cr_set_gateway a g s = s\<lparr>cr_heap := (cr_heap s)(a \<mapsto> g)\<rparr>"

section \<open>Gateways\<close>

definition makeGateway :: "('p, 'h, 'a) client_router \<Rightarrow> nat \<times> ('p, 'h, 'a) client_router" where
  "makeGateway s =
     (let tag = cr_next_tag s; a = cr_next_addr s
      in (a, s\<lparr>cr_next_tag := tag + 1,
               cr_heap := (cr_heap s)(a \<mapsto> GatewayImpl_create tag),
               cr_next_addr := Suc a,
               cr_map_of_gateways := um_assign tag a (cr_map_of_gateways s)\<rparr>))"

definition cr_isConnected :: "('p, 'h, 'a) client_router \<Rightarrow> bool" where
  "cr_isConnected s = cr_is_connected s"

definition cr_isRegisteredGateway :: "u64 \<Rightarrow> ('p, 'h, 'a) client_router \<Rightarrow> bool" where
  "cr_isRegisteredGateway tag s = (map_of (cr_map_of_gateways s) tag \<noteq> None)"

definition cr_gw_send ::
    "'p client_env \<Rightarrow> nat \<Rightarrow> u64 \<Rightarrow> socket_buffer \<Rightarrow> ('p, 'h, 'a) client_router \<Rightarrow> ('p, 'h, 'a) cr_result" where
  "cr_gw_send e a service_id sock_buff s = do {
     g \<leftarrow> cr_heap s a;
     if \<not> cr_isConnected s then Some (Some (mkError NotConnected), s)
     else if \<not> cr_isRegisteredGateway (gw_endpoint g) s then Some (Some (mkError Shutdown), s)
     else let route = Route_channel_msg (gw_endpoint g) (gw_next_sequence g) service_id (sb_size sock_buff);
              s' = cr_set_gateway a (g\<lparr>gw_next_sequence := gw_next_sequence g + 1\<rparr>) s
          in Some (tryPerformOnSerialized (route_serialize (ce_codec e)) route
                     (\<lambda>prefix. client_pipe_send e (prepend prefix sock_buff)) s')
   }"

definition cr_gw_complete ::
    "'p client_env \<Rightarrow> nat \<Rightarrow> opt_error \<Rightarrow> bool \<Rightarrow> ('p, 'h, 'a) client_router \<Rightarrow> ('p, 'h, 'a) cr_result" where
  "cr_gw_complete e a opt_error keep_alive s = do {
     g \<leftarrow> cr_heap s a;
     if \<not> cr_isConnected s then Some (Some (mkError NotConnected), s)
     else if \<not> cr_isRegisteredGateway (gw_endpoint g) s then Some (None, s)
     else let s' = cr_set_gateway a (g\<lparr>gw_completion_opt_error := opt_error\<rparr>) s
          in if gw_next_sequence g = 0 then Some (None, s')
             else Some (client_send_route e
                          (Route_channel_end (gw_endpoint g) keep_alive (optErrorToDsdlError opt_error)) s')
   }"

definition cr_gw_event :: "('p, 'h, 'a) cr_handler \<Rightarrow> nat \<Rightarrow> gw_event \<Rightarrow> ('p, 'h, 'a) client_router \<Rightarrow> ('p, 'h, 'a) cr_result" where
  "cr_gw_event h a event s = do {
     g \<leftarrow> cr_heap s a;
     case gw_event_handler g of None \<Rightarrow> Some (None, s) | Some f \<Rightarrow> h f event s
   }"

text \<open>
  Disposal: the tag is erased from the map, and the remote router is told when the gateway
  was registered, had sent something and the router is connected.
\<close>

definition cr_onGatewayDisposal ::
    "'p client_env \<Rightarrow> u64 \<Rightarrow> bool \<Rightarrow> opt_error \<Rightarrow> ('p, 'h, 'a) client_router \<Rightarrow> ('p, 'h, 'a) client_router" where
  "cr_onGatewayDisposal e tag send_ch_end completion_opt_error s =
     (let was_registered = (map_of (cr_map_of_gateways s) tag \<noteq> None);
          s' = s\<lparr>cr_map_of_gateways := um_erase tag (cr_map_of_gateways s)\<rparr>
      in if was_registered \<and> send_ch_end \<and> cr_isConnected s' then
           snd (client_send_route e (Route_channel_end tag False (optErrorToDsdlError completion_opt_error)) s')
         else s')"

definition cr_gw_destroy ::
    "'p client_env \<Rightarrow> 'h client_gateway \<Rightarrow> ('p, 'h, 'a) client_router \<Rightarrow> ('p, 'h, 'a) client_router" where
  "cr_gw_destroy e g s =
     cr_onGatewayDisposal e (gw_endpoint g) (0 < gw_next_sequence g) (gw_completion_opt_error g) s"

text \<open>\<open>lock\<close> of a weak pointer, and the end of a shared pointer.\<close>

definition cr_lock :: "nat \<Rightarrow> ('p, 'h, 'a) client_router \<Rightarrow> ('p, 'h, 'a) client_router option" where
  "cr_lock a s = map_option (\<lambda>heap. s\<lparr>cr_heap := heap\<rparr>) (heap_lock a (cr_heap s))"

definition cr_release :: "'p client_env \<Rightarrow> nat \<Rightarrow> ('p, 'h, 'a) client_router \<Rightarrow> ('p, 'h, 'a) client_router option" where
  "cr_release e a s = do {
     (destroyed, heap) \<leftarrow> heap_release a (cr_heap s);
     let s' = s\<lparr>cr_heap := heap\<rparr>;
     Some (case destroyed of None \<Rightarrow> s' | Some g \<Rightarrow> cr_gw_destroy e g s')
   }"

section \<open>Dispatch\<close>

definition cr_findAndActOnRegisteredGateway ::
    "'p client_env \<Rightarrow> u64 \<Rightarrow> (nat \<Rightarrow> ('p, 'h, 'a) client_router \<Rightarrow> ('p, 'h, 'a) cr_result) \<Rightarrow>
     ('p, 'h, 'a) client_router \<Rightarrow> ('p, 'h, 'a) cr_result" where
  "cr_findAndActOnRegisteredGateway e tag action s =
     (case map_of (cr_map_of_gateways s) tag of
        None \<Rightarrow> Some (None, s)
      | Some a \<Rightarrow>
          (case cr_lock a s of
             None \<Rightarrow> Some (None, s)
           | Some s1 \<Rightarrow> do {
               (r, s2) \<leftarrow> action a s1;
               s3 \<leftarrow> cr_release e a s2;
               Some (r, s3)
             }))"

text \<open>Strong pointers to all live gateways of the map, in its iteration order.\<close>

fun cr_lock_all :: "nat list \<Rightarrow> ('p, 'h, 'a) client_router \<Rightarrow> nat list \<times> ('p, 'h, 'a) client_router" where
  "cr_lock_all [] s = ([], s)"
| "cr_lock_all (a # as) s =
     (case cr_lock a s of
        None \<Rightarrow> cr_lock_all as s
      | Some s' \<Rightarrow> let (bs, s'') = cr_lock_all as s' in (a # bs, s''))"

fun cr_act_all :: "(nat \<Rightarrow> ('p, 'h, 'a) client_router \<Rightarrow> ('p, 'h, 'a) cr_result) \<Rightarrow> nat list \<Rightarrow>
    ('p, 'h, 'a) client_router \<Rightarrow> ('p, 'h, 'a) client_router option" where
  "cr_act_all action [] s = Some s"
| "cr_act_all action (a # as) s = do { (r, s') \<leftarrow> action a s; cr_act_all action as s' }"

fun cr_release_all :: "'p client_env \<Rightarrow> nat list \<Rightarrow> ('p, 'h, 'a) client_router \<Rightarrow> ('p, 'h, 'a) client_router option" where
  "cr_release_all e [] s = Some s"
| "cr_release_all e (a # as) s = do { s' \<leftarrow> cr_release e a s; cr_release_all e as s' }"

definition cr_forEachRegisteredGateway ::
    "'p client_env \<Rightarrow> (nat \<Rightarrow> ('p, 'h, 'a) client_router \<Rightarrow> ('p, 'h, 'a) cr_result) \<Rightarrow>
     ('p, 'h, 'a) client_router \<Rightarrow> ('p, 'h, 'a) client_router option" where
  "cr_forEachRegisteredGateway e action s =
     (let (gateway_ptrs, s1) = cr_lock_all (map snd (ce_order e (cr_map_of_gateways s))) s
      in do { s2 \<leftarrow> cr_act_all action gateway_ptrs s1; cr_release_all e gateway_ptrs s2 })"

definition cr_onGatewaySubscription ::
    "'p client_env \<Rightarrow> ('p, 'h, 'a) cr_handler \<Rightarrow> u64 \<Rightarrow> ('p, 'h, 'a) client_router \<Rightarrow> ('p, 'h, 'a) client_router option" where
  "cr_onGatewaySubscription e h tag s =
     (if cr_is_connected s then
        map_option snd (cr_findAndActOnRegisteredGateway e tag (\<lambda>a. cr_gw_event h a GwConnected) s)
      else Some s)"

definition cr_gw_subscribe ::
    "'p client_env \<Rightarrow> ('p, 'h, 'a) cr_handler \<Rightarrow> nat \<Rightarrow> 'h option \<Rightarrow> ('p, 'h, 'a) client_router \<Rightarrow>
     ('p, 'h, 'a) client_router option" where
  "cr_gw_subscribe e h a event_handler s = do {
     g \<leftarrow> cr_heap s a;
     cr_onGatewaySubscription e h (gw_endpoint g) (cr_set_gateway a (g\<lparr>gw_event_handler := event_handler\<rparr>) s)
   }"

section \<open>Pipe events\<close>

definition cr_handleRouteConnect ::
    "'p client_env \<Rightarrow> ('p, 'h, 'a) cr_handler \<Rightarrow> ('p, 'h, 'a) client_router \<Rightarrow> ('p, 'h, 'a) cr_result" where
  "cr_handleRouteConnect e h s =
     (if \<not> cr_is_connected s then
        map_option (\<lambda>s'. (None, s'))
          (cr_forEachRegisteredGateway e (\<lambda>a. cr_gw_event h a GwConnected) (s\<lparr>cr_is_connected := True\<rparr>))
      else Some (None, s))"

definition cr_handleRouteChannelMsg ::
    "'p client_env \<Rightarrow> ('p, 'h, 'a) cr_handler \<Rightarrow> u64 \<Rightarrow> u64 \<Rightarrow> u64 \<Rightarrow> byte list \<Rightarrow>
     ('p, 'h, 'a) client_router \<Rightarrow> ('p, 'h, 'a) cr_result" where
  "cr_handleRouteChannelMsg e h tag sequence payload_sz payload s = do {
     msg_real_payload \<leftarrow> subspan payload (of_nat (length payload) - payload_sz);
     case map_of (cr_map_of_gateways s) tag of
       None \<Rightarrow> Some (None, s)
     | Some a \<Rightarrow>
         (case cr_lock a s of
            None \<Rightarrow> Some (None, s)
          | Some s1 \<Rightarrow> do {
              (r, s2) \<leftarrow> cr_gw_event h a (GwMessage sequence msg_real_payload) s1;
              s3 \<leftarrow> cr_release e a s2;
              Some (r, s3)
            })
   }"

definition cr_handleRouteChannelEnd ::
    "'p client_env \<Rightarrow> ('p, 'h, 'a) cr_handler \<Rightarrow> u64 \<Rightarrow> bool \<Rightarrow> dsdl_error \<Rightarrow>
     ('p, 'h, 'a) client_router \<Rightarrow> ('p, 'h, 'a) cr_result" where
  "cr_handleRouteChannelEnd e h tag keep_alive err s =
     cr_findAndActOnRegisteredGateway e tag
       (\<lambda>a s. let s' = (if \<not> keep_alive then s\<lparr>cr_map_of_gateways := um_erase tag (cr_map_of_gateways s)\<rparr> else s)
              in cr_gw_event h a (GwCompleted (dsdlErrorToOptError err) keep_alive) s') s"

text \<open>The loop of the disconnect event over the entries swapped out of the map.\<close>

fun cr_notify_disconnected ::
    "'p client_env \<Rightarrow> ('p, 'h, 'a) cr_handler \<Rightarrow> (u64 \<times> nat) list \<Rightarrow> ('p, 'h, 'a) client_router \<Rightarrow>
     ('p, 'h, 'a) client_router option" where
  "cr_notify_disconnected e h [] s = Some s"
| "cr_notify_disconnected e h ((tag, a) # gws) s =
     (case cr_lock a s of
        None \<Rightarrow> cr_notify_disconnected e h gws s
      | Some s1 \<Rightarrow> do {
          (r, s2) \<leftarrow> cr_gw_event h a (GwCompleted (Some (mkError Disconnected)) False) s1;
          s3 \<leftarrow> cr_release e a s2;
          cr_notify_disconnected e h gws s3
        })"

definition cr_handleDisconnected ::
    "'p client_env \<Rightarrow> ('p, 'h, 'a) cr_handler \<Rightarrow> ('p, 'h, 'a) client_router \<Rightarrow> ('p, 'h, 'a) cr_result" where
  "cr_handleDisconnected e h s =
     (if cr_is_connected s then
        map_option (\<lambda>s'. (None, s'))
          (cr_notify_disconnected e h (ce_order e (cr_map_of_gateways s))
             (s\<lparr>cr_is_connected := False, cr_map_of_gateways := []\<rparr>))
      else Some (None, s))"

definition cr_handleConnected ::
    "'p client_env \<Rightarrow> ('p, 'h, 'a) client_router \<Rightarrow> opt_error \<times> ('p, 'h, 'a) client_router" where
  "cr_handleConnected e s =
     client_send_route e (Route_connect VERSION_MAJOR VERSION_MINOR \<lparr>error_code = 0, raw_errno = 0\<rparr>) s"

definition cr_handleMessage ::
    "'p client_env \<Rightarrow> ('p, 'h, 'a) cr_handler \<Rightarrow> byte list \<Rightarrow> ('p, 'h, 'a) client_router \<Rightarrow> ('p, 'h, 'a) cr_result" where
  "cr_handleMessage e h payload s =
     (case route_deserialize (ce_codec e) payload of
        None \<Rightarrow> Some (Some (mkError InvalidArgument), s)
      | Some Route_empty \<Rightarrow> Some (Some (mkError InvalidArgument), s)
      | Some (Route_connect major minor err) \<Rightarrow> cr_handleRouteConnect e h s
      | Some (Route_channel_msg tag sequence service_id sz) \<Rightarrow>
          cr_handleRouteChannelMsg e h tag sequence sz payload s
      | Some (Route_channel_end tag keep_alive err) \<Rightarrow> cr_handleRouteChannelEnd e h tag keep_alive err s)"

datatype client_pipe_event = CP_Connected | CP_Message "byte list" | CP_Disconnected

fun cr_handlePipeEvent ::
    "'p client_env \<Rightarrow> ('p, 'h, 'a) cr_handler \<Rightarrow> client_pipe_event \<Rightarrow> ('p, 'h, 'a) client_router \<Rightarrow>
     ('p, 'h, 'a) cr_result" where
  "cr_handlePipeEvent e h CP_Connected s = Some (cr_handleConnected e s)"
| "cr_handlePipeEvent e h (CP_Message payload) s = cr_handleMessage e h payload s"
| "cr_handlePipeEvent e h CP_Disconnected s = cr_handleDisconnected e h s"

section \<open>The invariant\<close>

text \<open>
  \<open>own app\<close> is the multiset of gateways that the application's channels hold, \<open>L\<close> the
  temporary owners in the middle of an operation. Tags count the gateways made, so for
  \<open>2\<^sup>6\<^sup>4\<close> gateways they are distinct, and then a registered tag always leads to a live
  gateway of that tag.
\<close>

definition cr_inv :: "('a \<Rightarrow> nat multiset) \<Rightarrow> nat multiset \<Rightarrow> ('p, 'h, 'a) client_router \<Rightarrow> bool" where
  "cr_inv own L s \<longleftrightarrow>
     refs_ok (own (cr_app s) + L) (cr_heap s)
     \<and> um_wf (cr_map_of_gateways s)
     \<and> cr_next_tag s = of_nat (cr_next_addr s) \<and> cr_next_addr s \<le> 2 ^ 64
     \<and> (\<forall>a g. cr_heap s a = Some g \<longrightarrow> a < cr_next_addr s \<and> gw_endpoint g = of_nat a)
     \<and> (\<forall>t a. map_of (cr_map_of_gateways s) t = Some a \<longrightarrow> t = of_nat a \<and> cr_heap s a \<noteq> None)"

lemma cr_invD:
  assumes "cr_inv own L s"
  shows "refs_ok (own (cr_app s) + L) (cr_heap s)" "um_wf (cr_map_of_gateways s)"
    and "cr_next_tag s = of_nat (cr_next_addr s)" "cr_next_addr s \<le> 2 ^ 64"
    and "cr_heap s a = Some g \<Longrightarrow> a < cr_next_addr s" "cr_heap s a = Some g \<Longrightarrow> gw_endpoint g = of_nat a"
    and "map_of (cr_map_of_gateways s) t = Some a \<Longrightarrow> t = of_nat a"
    and "map_of (cr_map_of_gateways s) t = Some a \<Longrightarrow> \<exists>g. cr_heap s a = Some g"
  using assms unfolding cr_inv_def by auto

lemma cr_inv_init [simp]: "own app = {#} \<Longrightarrow> cr_inv own {#} (ClientRouterImpl_init p app)"
  by (simp add: cr_inv_def ClientRouterImpl_init_def refs_ok_def)

text \<open>What the invariant does not look at may change freely.\<close>

lemma cr_inv_cong:
  assumes "cr_inv own L s" "cr_heap s' = cr_heap s" "cr_map_of_gateways s' = cr_map_of_gateways s"
    "cr_next_tag s' = cr_next_tag s" "cr_next_addr s' = cr_next_addr s" "own (cr_app s') = own (cr_app s)"
  shows "cr_inv own L s'"
  using assms by (simp add: cr_inv_def)

lemma cr_inv_pipe [simp]: "cr_inv own L (s\<lparr>cr_pipe := p\<rparr>) = cr_inv own L s"
  and cr_inv_connected [simp]: "cr_inv own L (s\<lparr>cr_is_connected := c\<rparr>) = cr_inv own L s"
  by (simp_all add: cr_inv_def)

lemma cr_pipe_frame [simp]:
  "cr_inv own L (snd (client_pipe_send e b s)) = cr_inv own L s"
  "cr_inv own L (snd (client_send_route e r s)) = cr_inv own L s"
  by (simp_all add: client_pipe_send_def client_send_route_def tryPerformOnSerialized_def
      split: prod.splits option.splits)

lemma cr_inv_set_gateway:
  assumes "cr_inv own L s" "cr_heap s a = Some g" "gw_use_count g' = gw_use_count g"
    "gw_endpoint g' = gw_endpoint g"
  shows "cr_inv own L (cr_set_gateway a g' s)"
  using assms unfolding cr_inv_def cr_set_gateway_def by (auto intro: refs_ok_upd)

lemma cr_inv_erase:
  assumes "cr_inv own L s"
  shows "cr_inv own L (s\<lparr>cr_map_of_gateways := um_erase t (cr_map_of_gateways s)\<rparr>)"
  using assms unfolding cr_inv_def by (auto simp: um_simps split: if_splits)

lemma cr_inv_clear: "cr_inv own L s \<Longrightarrow> cr_inv own L (s\<lparr>cr_map_of_gateways := []\<rparr>)"
  unfolding cr_inv_def by auto

lemma cr_inv_lock:
  assumes "cr_inv own L s" "cr_lock a s = Some s'"
  shows "cr_inv own (add_mset a L) s'"
proof -
  from assms(2) obtain heap where heap: "heap_lock a (cr_heap s) = Some heap" "s' = s\<lparr>cr_heap := heap\<rparr>"
    by (auto simp: cr_lock_def)
  with refs_ok_lock [OF cr_invD(1) [OF assms(1)] heap(1)] assms(1) show ?thesis
    unfolding cr_inv_def by (auto simp: heap_lock_def split: option.splits if_splits)
qed

lemma of_nat_addr_inj:
  assumes "cr_inv own L s" "cr_heap s a = Some g" "cr_heap s b = Some g'" "(of_nat a :: u64) = of_nat b"
  shows "a = b"
proof -
  have "a < 2 ^ 64" "b < 2 ^ 64" using cr_invD(4,5) [OF assms(1)] assms(2,3) by force+
  with arg_cong [OF assms(4), of unat] show ?thesis by (simp add: unat_of_nat)
qed

text \<open>A registered tag leads to the live gateway of that tag, and only to it.\<close>

lemma cr_registered_addr:
  assumes "cr_inv own L s" "map_of (cr_map_of_gateways s) t = Some a" "cr_heap s b = Some g" "gw_endpoint g = t"
  shows "a = b"
proof -
  from cr_invD(7,8) [OF assms(1,2)] obtain g' where g': "t = of_nat a" "cr_heap s a = Some g'" by auto
  moreover have "t = of_nat b" using cr_invD(6) [OF assms(1,3)] assms(4) by simp
  ultimately show ?thesis using of_nat_addr_inj [OF assms(1) g'(2) assms(3)] by simp
qed

lemma cr_destroy_frame [simp]:
  "cr_heap (cr_gw_destroy e g s) = cr_heap s" "cr_app (cr_gw_destroy e g s) = cr_app s"
  "cr_is_connected (cr_gw_destroy e g s) = cr_is_connected s"
  "cr_map_of_gateways (cr_gw_destroy e g s) = um_erase (gw_endpoint g) (cr_map_of_gateways s)"
  "cr_next_tag (cr_gw_destroy e g s) = cr_next_tag s" "cr_next_addr (cr_gw_destroy e g s) = cr_next_addr s"
  by (simp_all add: cr_gw_destroy_def cr_onGatewayDisposal_def client_send_route_def tryPerformOnSerialized_def
      client_pipe_send_def Let_def split: option.splits prod.splits)

lemma cr_inv_release:
  assumes "cr_inv own (add_mset a L) s"
  obtains s' where "cr_release e a s = Some s'" "cr_inv own L s'"
proof -
  let ?o = "own (cr_app s) + L"
  have ref: "refs_ok (add_mset a ?o) (cr_heap s)" using cr_invD(1) [OF assms] by simp
  then obtain d heap where rel: "heap_release a (cr_heap s) = Some (d, heap)"
    using heap_release_owned [of "add_mset a ?o" "cr_heap s" a] by auto
  note refs = refs_ok_release [OF ref rel] and other = heap_release_other [OF rel]
  obtain g0 where g0: "cr_heap s a = Some g0" using refs_ok_live [OF ref, of a] by auto
  show thesis
  proof (cases d)
    case None
    then have "heap = (cr_heap s)(a \<mapsto> g0\<lparr>gw_use_count := gw_use_count g0 - 1\<rparr>)"
      using rel g0 by (auto simp: heap_release_def split: if_splits)
    with refs assms g0 have "cr_inv own L (s\<lparr>cr_heap := heap\<rparr>)" unfolding cr_inv_def by auto
    with rel None that show thesis by (simp add: cr_release_def)
  next
    case (Some g)
    with rel g0 have g: "g = g0" "heap = (cr_heap s)(a := None)"
      by (auto simp: heap_release_def split: if_splits)
    have "b \<noteq> a" if "map_of (cr_map_of_gateways s) t = Some b" "t \<noteq> gw_endpoint g" for t b
      using that cr_invD(6) [OF assms g0] cr_invD(7) [OF assms that(1)] g(1) by auto
    with refs assms g have "cr_inv own L (cr_gw_destroy e g (s\<lparr>cr_heap := heap\<rparr>))"
      unfolding cr_inv_def by (auto simp: um_simps split: if_splits)
    with rel Some that show thesis by (simp add: cr_release_def)
  qed
qed

lemma cr_inv_makeGateway:
  assumes "cr_inv own L s" "cr_next_addr s < 2 ^ 64" "makeGateway s = (a, s')"
  shows "cr_inv own (add_mset a L) s'"
proof -
  let ?n = "cr_next_addr s"
  have fresh: "cr_heap s ?n = None" using cr_invD(5) [OF assms(1), of ?n] by (cases "cr_heap s ?n") auto
  from assms(3) have a: "a = ?n" and s': "s' = s\<lparr>cr_next_tag := cr_next_tag s + 1,
      cr_heap := (cr_heap s)(?n \<mapsto> GatewayImpl_create (cr_next_tag s)), cr_next_addr := Suc ?n,
      cr_map_of_gateways := um_assign (cr_next_tag s) ?n (cr_map_of_gateways s)\<rparr>"
    by (auto simp: makeGateway_def Let_def)
  have "refs_ok (own (cr_app s) + add_mset ?n L) (cr_heap s')"
    using refs_ok_create [OF cr_invD(1) [OF assms(1)] fresh] by (simp add: s')
  moreover have "a' \<noteq> ?n" if "map_of (cr_map_of_gateways s) t = Some a'" for t a'
    using cr_invD(8) [OF assms(1) that] fresh by auto
  ultimately show ?thesis
    using assms(1,2) fresh unfolding cr_inv_def a s'
    by (auto simp: um_simps GatewayImpl_create_def less_Suc_eq split: if_splits)
qed

section \<open>Every operation is defined and keeps the invariant\<close>

abbreviation cr_ok :: "('a \<Rightarrow> nat multiset) \<Rightarrow> nat multiset \<Rightarrow> ('r \<times> ('p, 'h, 'a) client_router) option \<Rightarrow> bool" where
  "cr_ok own L \<equiv> ok2 (cr_inv own L)"

abbreviation cr_ok1 :: "('a \<Rightarrow> nat multiset) \<Rightarrow> nat multiset \<Rightarrow> ('p, 'h, 'a) client_router option \<Rightarrow> bool" where
  "cr_ok1 own L \<equiv> ok1 (cr_inv own L)"

lemma cr_gw_send_ok:
  assumes "cr_inv own L s" "cr_heap s a \<noteq> None"
  shows "cr_ok own L (cr_gw_send e a svc b s)"
  using assms cr_inv_set_gateway [OF assms(1)]
  by (auto simp: cr_gw_send_def tryPerformOnSerialized_def Let_def split: option.splits)

lemma cr_gw_complete_ok:
  assumes "cr_inv own L s" "cr_heap s a \<noteq> None"
  shows "cr_ok own L (cr_gw_complete e a err k s)"
  using assms cr_inv_set_gateway [OF assms(1)] by (auto simp: cr_gw_complete_def Let_def)

lemma cr_lock_None_iff: "cr_lock a s = None \<longleftrightarrow> cr_heap s a = None"
  by (simp add: cr_lock_def heap_lock_def split: option.splits)

lemma cr_lock_live: "cr_lock a s = Some s' \<Longrightarrow> cr_heap s' a \<noteq> None"
  by (auto simp: cr_lock_def heap_lock_def split: option.splits)

lemma cr_owner_live: "cr_inv own L s \<Longrightarrow> a \<in># L \<Longrightarrow> cr_heap s a \<noteq> None"
  using refs_ok_live [OF cr_invD(1)] by fastforce

interpretation cr_owner: shared_owner "cr_inv own" cr_lock "cr_release e"
  for own :: "'a \<Rightarrow> nat multiset" and e :: "'p client_env"
proof
  fix a L and s s' :: "('p, 'h, 'a) client_router"
  show "cr_inv own L s \<Longrightarrow> cr_lock a s = Some s' \<Longrightarrow> cr_inv own (add_mset a L) s'" by (rule cr_inv_lock)
  assume "cr_inv own (add_mset a L) s"
  from cr_inv_release [OF this, of e] show "cr_ok1 own L (cr_release e a s)" by (metis ok_simps(3))
qed

lemma cr_findAndAct_ok:
  assumes "cr_inv own L s"
    and "\<And>a s1. cr_inv own (add_mset a L) s1 \<Longrightarrow> cr_ok own (add_mset a L) (action a s1)"
  shows "cr_ok own L (cr_findAndActOnRegisteredGateway e t action s)"
  using assms cr_owner.bracket_ok [OF assms(1), of _ _ "action _"]
  by (auto simp: cr_findAndActOnRegisteredGateway_def split: option.splits)

lemma cr_lock_all_ok:
  "cr_inv own L s \<Longrightarrow> cr_lock_all as s = (bs, s') \<Longrightarrow> cr_inv own (mset bs + L) s'"
proof (induction as arbitrary: L s bs)
  case (Cons a as)
  show ?case
  proof (cases "cr_lock a s")
    case (Some s1)
    with Cons.prems(2) obtain cs where "cr_lock_all as s1 = (cs, s')" "bs = a # cs" by (auto split: prod.splits)
    with Cons.IH [OF cr_inv_lock [OF Cons.prems(1) Some]] show ?thesis by simp
  qed (use Cons in auto)
qed simp

lemma cr_release_all_ok:
  "cr_inv own (mset as + L) s \<Longrightarrow> cr_ok1 own L (cr_release_all e as s)"
proof (induction as arbitrary: s)
  case (Cons a as)
  then have "cr_inv own (add_mset a (mset as + L)) s" by simp
  from cr_inv_release [OF this, of e] obtain s' where "cr_release e a s = Some s'" "cr_inv own (mset as + L) s'" .
  with Cons.IH show ?case by simp
qed simp

lemma cr_act_all_ok:
  assumes "\<And>a s. cr_inv own L s \<Longrightarrow> a \<in># L \<Longrightarrow> cr_ok own L (action a s)"
  shows "cr_inv own L s \<Longrightarrow> set as \<subseteq> set_mset L \<Longrightarrow> cr_ok1 own L (cr_act_all action as s)"
proof (induction as arbitrary: s)
  case (Cons a as)
  with assms [OF Cons.prems(1), of a] obtain r s' where "action a s = Some (r, s')" "cr_inv own L s'"
    by (auto simp: ok2_def)
  with Cons show ?case by simp
qed simp

lemma cr_forEach_ok:
  assumes "cr_inv own L s"
    and "\<And>a L s. cr_inv own L s \<Longrightarrow> a \<in># L \<Longrightarrow> cr_ok own L (action a s)"
  shows "cr_ok1 own L (cr_forEachRegisteredGateway e action s)"
proof -
  obtain bs s1 where locked: "cr_lock_all (map snd (ce_order e (cr_map_of_gateways s))) s = (bs, s1)" by fastforce
  have "cr_inv own (mset bs + L) s1" by (rule cr_lock_all_ok [OF assms(1) locked])
  then have "cr_ok1 own (mset bs + L) (cr_act_all action bs s1)" using assms(2) by (intro cr_act_all_ok) auto
  then obtain s2 where "cr_act_all action bs s1 = Some s2" "cr_inv own (mset bs + L) s2"
    by (auto simp: ok1_def)
  with locked cr_release_all_ok [of own bs L s2] show ?thesis by (simp add: cr_forEachRegisteredGateway_def)
qed

text \<open>
  The contract of event handlers: from a consistent state they return, and leave a
  consistent state; they may use the router but drop no reference they do not own.
\<close>

locale client_handlers =
  fixes own :: "'a \<Rightarrow> nat multiset" and h :: "('p, 'h, 'a) cr_handler"
  assumes handler_ok: "cr_inv own L s \<Longrightarrow> cr_ok own L (h f ev s)"
begin

lemma event_ok: "cr_inv own L s \<Longrightarrow> cr_heap s a \<noteq> None \<Longrightarrow> cr_ok own L (cr_gw_event h a ev s)"
  by (auto simp: cr_gw_event_def handler_ok split: option.splits)

lemma owner_event_ok: "cr_inv own (add_mset a L) s \<Longrightarrow> cr_ok own (add_mset a L) (cr_gw_event h a ev s)"
  by (rule event_ok) (auto simp: cr_owner_live)

lemma subscribe_ok:
  assumes "cr_inv own L s" "cr_heap s a \<noteq> None"
  shows "cr_ok1 own L (cr_gw_subscribe e h a f s)"
proof -
  from assms obtain g where g: "cr_heap s a = Some g" by auto
  have "cr_inv own L (cr_set_gateway a (g\<lparr>gw_event_handler := f\<rparr>) s)"
    by (rule cr_inv_set_gateway [OF assms(1) g]) simp_all
  with g show ?thesis
    by (simp add: cr_gw_subscribe_def cr_onGatewaySubscription_def cr_findAndAct_ok owner_event_ok)
qed

lemma notify_disconnected_ok:
  "cr_inv own L s \<Longrightarrow> cr_ok1 own L (cr_notify_disconnected e h gws s)"
proof (induction gws arbitrary: s)
  case (Cons gw gws)
  obtain t a where gw: "gw = (t, a)" by (cases gw)
  show ?case
  proof (cases "cr_lock a s")
    case (Some s1)
    let ?ev = "GwCompleted (Some (mkError Disconnected)) False"
    have "cr_ok own L (do { (r, s2) \<leftarrow> cr_gw_event h a ?ev s1; s3 \<leftarrow> cr_release e a s2; Some (r, s3) })"
      using cr_owner.bracket_ok [OF Cons.prems Some, of "cr_gw_event h a ?ev"] owner_event_ok by blast
    then obtain r s2 s3 where "cr_gw_event h a ?ev s1 = Some (r, s2)" "cr_release e a s2 = Some s3" "cr_inv own L s3"
      by (auto simp: ok2_def bind_eq_Some_conv split: prod.splits)
    with Cons.IH [of s3] gw Some show ?thesis by simp
  qed (use Cons gw in simp)
qed simp

lemma handleRouteConnect_ok: "cr_inv own L s \<Longrightarrow> cr_ok own L (cr_handleRouteConnect e h s)"
  by (auto simp: cr_handleRouteConnect_def simp flip: not_None_eq intro!: cr_forEach_ok event_ok dest: cr_owner_live)

lemma handleRouteChannelEnd_ok: "cr_inv own L s \<Longrightarrow> cr_ok own L (cr_handleRouteChannelEnd e h t k err s)"
  unfolding cr_handleRouteChannelEnd_def
  by (erule cr_findAndAct_ok) (auto simp: Let_def intro!: owner_event_ok cr_inv_erase)

lemma handleRouteChannelMsg_ok:
  assumes "cr_inv own L s" "subspan p (of_nat (length p) - sz) \<noteq> None"
  shows "cr_ok own L (cr_handleRouteChannelMsg e h t n sz p s)"
  using assms cr_owner.bracket_ok [OF assms(1) _ owner_event_ok]
  by (auto simp: cr_handleRouteChannelMsg_def split: option.splits)

lemma handleDisconnected_ok: "cr_inv own L s \<Longrightarrow> cr_ok own L (cr_handleDisconnected e h s)"
  using cr_inv_clear [of own L "s\<lparr>cr_is_connected := False\<rparr>"]
  by (auto simp: cr_handleDisconnected_def intro!: notify_disconnected_ok)

text \<open>
  The only pipe event with undefined behaviour is a channel message that announces more
  payload than the message has.
\<close>

lemma handlePipeEvent_ok:
  assumes "cr_inv own L s"
    and "\<And>p t n svc sz. ev = CP_Message p \<Longrightarrow>
      route_deserialize (ce_codec e) p = Some (Route_channel_msg t n svc sz) \<Longrightarrow>
      subspan p (of_nat (length p) - sz) \<noteq> None"
  shows "cr_ok own L (cr_handlePipeEvent e h ev s)"
proof (cases ev)
  case (CP_Message p)
  with assms show ?thesis
    by (auto simp: cr_handleMessage_def handleRouteConnect_ok handleRouteChannelEnd_ok
        split: option.splits route.splits intro!: handleRouteChannelMsg_ok)
qed (use assms(1) in \<open>simp_all add: cr_handleConnected_def handleDisconnected_ok\<close>)

end

section \<open>Broadcasts\<close>

text \<open>
  An application that records the events it gets: the handler \<open>f\<close> appends \<open>(f, event)\<close> to
  the log. It owns nothing; the gateways are held by \<open>L\<close>.
\<close>

definition cr_log_handler :: "('p, 'h, ('h \<times> gw_event) list) cr_handler" where
  "cr_log_handler f ev s = Some (None, s\<lparr>cr_app := cr_app s @ [(f, ev)]\<rparr>)"

interpretation cr_log: client_handlers "\<lambda>_. {#}" cr_log_handler
  by unfold_locales (auto simp: cr_log_handler_def intro: cr_inv_cong)

text \<open>The log entries of one event on the gateway at an address.\<close>

definition gw_notes :: "(u64, 'h) gw_heap \<Rightarrow> gw_event \<Rightarrow> nat \<Rightarrow> ('h \<times> gw_event) list" where
  "gw_notes heap ev a =
     (case heap a of Some g \<Rightarrow> (case gw_event_handler g of Some f \<Rightarrow> [(f, ev)] | None \<Rightarrow> []) | None \<Rightarrow> [])"

lemma cr_log_event:
  assumes "cr_heap s = heap_add c heap" "heap a = Some g"
  shows "cr_gw_event cr_log_handler a ev s = Some (None, s\<lparr>cr_app := cr_app s @ gw_notes heap ev a\<rparr>)"
  using assms by (auto simp: cr_gw_event_def cr_log_handler_def gw_notes_def heap_add_def split: option.splits)

lemma cr_lock_add:
  "heap a = Some g \<Longrightarrow> cr_heap s = heap_add c heap \<Longrightarrow>
   cr_lock a s = Some (s\<lparr>cr_heap := heap_add (c(a := Suc (c a))) heap\<rparr>)"
  by (simp add: cr_lock_def heap_lock_add)

lemma cr_release_add:
  "heap a = Some g \<Longrightarrow> 0 < gw_use_count g \<Longrightarrow> cr_heap s = heap_add (c(a := Suc (c a))) heap \<Longrightarrow>
   cr_release e a s = Some (s\<lparr>cr_heap := heap_add c heap\<rparr>)"
  by (simp add: cr_release_def heap_release_add)

lemma cr_notify_disconnected_log:
  assumes "\<And>t a. (t, a) \<in> set gws \<Longrightarrow> \<exists>g. cr_heap s a = Some g \<and> 0 < gw_use_count g"
  shows "cr_notify_disconnected e cr_log_handler gws s =
    Some (s\<lparr>cr_app := cr_app s @
      concat (map (gw_notes (cr_heap s) (GwCompleted (Some (mkError Disconnected)) False)) (map snd gws))\<rparr>)"
  using assms
proof (induction gws arbitrary: s)
  case (Cons gw gws)
  obtain t a where gw: "gw = (t, a)" by (cases gw)
  with Cons.prems obtain g where g: "cr_heap s a = Some g" "0 < gw_use_count g" by auto
  let ?ev = "GwCompleted (Some (mkError Disconnected)) False"
  let ?c = "(\<lambda>_. 0)(a := Suc 0)"
  let ?s1 = "s\<lparr>cr_heap := heap_add ?c (cr_heap s)\<rparr>"
  let ?s3 = "s\<lparr>cr_app := cr_app s @ gw_notes (cr_heap s) ?ev a\<rparr>"
  have "cr_lock a s = Some ?s1" using cr_lock_add [of "cr_heap s" a g s "\<lambda>_. 0"] g by simp
  moreover have "cr_gw_event cr_log_handler a ?ev ?s1 =
      Some (None, ?s1\<lparr>cr_app := cr_app s @ gw_notes (cr_heap s) ?ev a\<rparr>)"
    using cr_log_event [of ?s1 ?c "cr_heap s" a g ?ev] g by simp
  moreover have "cr_release e a (?s1\<lparr>cr_app := cr_app s @ gw_notes (cr_heap s) ?ev a\<rparr>) = Some ?s3"
    using cr_release_add [of "cr_heap s" a g "?s1\<lparr>cr_app := cr_app s @ gw_notes (cr_heap s) ?ev a\<rparr>" "\<lambda>_. 0" e] g by simp
  moreover have "cr_notify_disconnected e cr_log_handler gws ?s3 = Some (?s3\<lparr>cr_app := cr_app ?s3 @
      concat (map (gw_notes (cr_heap s) ?ev) (map snd gws))\<rparr>)"
    by (subst Cons.IH) (use Cons.prems gw in auto)
  ultimately show ?case unfolding gw by (simp only: cr_notify_disconnected.simps) simp
qed simp

lemma cr_lock_all_add:
  assumes "\<forall>a \<in> set as. \<exists>g. heap a = Some g" "cr_heap s = heap_add c heap"
  shows "cr_lock_all as s = (as, s\<lparr>cr_heap := heap_add (\<lambda>a. c a + count_list as a) heap\<rparr>)"
  using assms
proof (induction as arbitrary: s c)
  case (Cons a as)
  from Cons.prems(1) obtain g where g: "heap a = Some g" by auto
  have eq: "(\<lambda>b. (c(a := Suc (c a))) b + count_list as b) = (\<lambda>b. c b + count_list (a # as) b)"
    by (auto simp: fun_eq_iff)
  let ?s = "s\<lparr>cr_heap := heap_add (c(a := Suc (c a))) heap\<rparr>"
  have lock: "cr_lock a s = Some ?s"
    using cr_lock_add [of heap a g s c] g Cons.prems(2) by simp
  have "cr_lock_all as ?s = (as, ?s\<lparr>cr_heap := heap_add (\<lambda>b. (c(a := Suc (c a))) b + count_list as b) heap\<rparr>)"
    by (rule Cons.IH [where c = "c(a := Suc (c a))"]) (use Cons.prems(1) in \<open>auto simp: fun_upd_def\<close>)
  then show ?case unfolding eq using lock by simp
qed simp

lemma cr_release_all_add:
  assumes "\<forall>a \<in> set as. \<exists>g. heap a = Some g \<and> 0 < gw_use_count g"
    "cr_heap s = heap_add (\<lambda>a. c a + count_list as a) heap"
  shows "cr_release_all e as s = Some (s\<lparr>cr_heap := heap_add c heap\<rparr>)"
  using assms
proof (induction as arbitrary: s)
  case (Cons a as)
  from Cons.prems(1) obtain g where g: "heap a = Some g" "0 < gw_use_count g" by auto
  let ?c = "\<lambda>b. c b + count_list as b"
  have "(\<lambda>b. c b + count_list (a # as) b) = ?c(a := Suc (?c a))" by (auto simp: fun_eq_iff)
  then have "cr_release e a s = Some (s\<lparr>cr_heap := heap_add ?c heap\<rparr>)"
    using cr_release_add [of heap a g s ?c e] g Cons.prems(2) by simp
  with Cons show ?case by simp
qed simp

lemma cr_act_all_log:
  assumes "\<forall>a \<in> set as. \<exists>g. heap a = Some g" "cr_heap s = heap_add c heap"
  shows "cr_act_all (\<lambda>a. cr_gw_event cr_log_handler a ev) as s =
    Some (s\<lparr>cr_app := cr_app s @ concat (map (gw_notes heap ev) as)\<rparr>)"
  using assms
proof (induction as arbitrary: s)
  case (Cons a as)
  from Cons.prems(1) obtain g where g: "heap a = Some g" by auto
  from cr_log_event [OF Cons.prems(2) g, of ev] Cons show ?case by simp
qed simp

section \<open>Properties\<close>

text \<open>A pipe that always accepts and records the messages handed to it.\<close>

definition wire_client_env :: "route_codec \<Rightarrow> byte list list client_env" where
  "wire_client_env c =
     \<lparr>ce_codec = c, ce_pipe_send = (\<lambda>b p. (None, p @ [sb_bytes b])), ce_order = (\<lambda>gws. gws)\<rparr>"

text \<open>A router with two subscribed gateways, for the concrete instances below.\<close>

definition two_gateways :: "bool \<Rightarrow> (byte list list, nat, (nat \<times> gw_event) list) client_router" where
  "two_gateways connected =
     (let (a, s1) = makeGateway (ClientRouterImpl_init [] []);
          (b, s2) = makeGateway s1;
          g = (\<lambda>a. (GatewayImpl_create (of_nat a))\<lparr>gw_event_handler := Some (10 + a)\<rparr>)
      in (cr_set_gateway b (g b) (cr_set_gateway a (g a) s2))\<lparr>cr_is_connected := connected\<rparr>)"

lemma two_gateways_simps [simp]:
  "cr_heap (two_gateways c) 0 = Some ((GatewayImpl_create 0)\<lparr>gw_event_handler := Some 10\<rparr>)"
  "cr_heap (two_gateways c) (Suc 0) = Some ((GatewayImpl_create 1)\<lparr>gw_event_handler := Some 11\<rparr>)"
  "cr_map_of_gateways (two_gateways c) = [(0, 0), (1, 1)]" "cr_app (two_gateways c) = []"
  "cr_is_connected (two_gateways c) = c" "cr_pipe (two_gateways c) = []"
  by (simp_all add: two_gateways_def makeGateway_def ClientRouterImpl_init_def cr_set_gateway_def um_assign_def Let_def)

lemma two_gateways_inv: "cr_inv (\<lambda>_. {#}) {#0, 1#} (two_gateways c)"
proof -
  let ?own = "\<lambda>_ :: (nat \<times> gw_event) list. {#} :: nat multiset"
  define s0 :: "(byte list list, nat, (nat \<times> gw_event) list) client_router"
    where "s0 = ClientRouterImpl_init [] []"
  obtain a s1 where 1: "makeGateway s0 = (a, s1)" by fastforce
  obtain b s2 where 2: "makeGateway s1 = (b, s2)" by fastforce
  have ab: "a = 0" "b = 1" "cr_heap s2 0 = Some (GatewayImpl_create 0)" "cr_heap s2 1 = Some (GatewayImpl_create 1)"
    "cr_next_addr s1 = 1"
    using 1 2 by (auto simp: s0_def makeGateway_def ClientRouterImpl_init_def Let_def)
  have "cr_inv ?own {#} s0" by (simp add: s0_def)
  from cr_inv_makeGateway [OF this _ 1] have "cr_inv ?own {#a#} s1" by (simp add: s0_def ClientRouterImpl_init_def)
  from cr_inv_makeGateway [OF this _ 2] have inv2: "cr_inv ?own {#0, 1#} s2" by (simp add: ab add_mset_commute)
  let ?g = "\<lambda>a. (GatewayImpl_create (of_nat a))\<lparr>gw_event_handler := Some (10 + a)\<rparr>"
  have "cr_inv ?own {#0, 1#} (cr_set_gateway 0 (?g 0) s2)"
    by (rule cr_inv_set_gateway [OF inv2 ab(3)]) (simp_all add: GatewayImpl_create_def)
  moreover have "cr_heap (cr_set_gateway 0 (?g 0) s2) 1 = Some (GatewayImpl_create 1)"
    using ab(4) by (simp add: cr_set_gateway_def)
  ultimately have "cr_inv ?own {#0, 1#} (cr_set_gateway 1 (?g 1) (cr_set_gateway 0 (?g 0) s2))"
    by (rule cr_inv_set_gateway) (simp_all add: GatewayImpl_create_def)
  then show ?thesis using 1 2 ab by (simp add: two_gateways_def s0_def)
qed

text \<open>
  Losing the pipe: the router marks itself disconnected and unregisters all gateways
  first, then every gateway that was registered gets exactly one \<open>Completed\<close> event with
  the error \<open>Disconnected\<close> (in some order); nothing is sent and no gateway is lost.
\<close>

theorem client_disconnect_notifies_all:
  assumes "cr_inv (\<lambda>_. {#}) L s" "cr_is_connected s" "is_order (ce_order e)"
  shows "\<exists>gws. mset gws = mset (cr_map_of_gateways s) \<and>
    cr_handlePipeEvent e cr_log_handler CP_Disconnected s =
      Some (None, s\<lparr>cr_is_connected := False, cr_map_of_gateways := [],
        cr_app := cr_app s @ concat (map (gw_notes (cr_heap s)
          (GwCompleted (Some (mkError Disconnected)) False)) (map snd gws))\<rparr>)"
proof -
  let ?gws = "ce_order e (cr_map_of_gateways s)"
  have "\<exists>g. cr_heap s a = Some g \<and> 0 < gw_use_count g" if "(t, a) \<in> set ?gws" for t a
  proof -
    have "map_of (cr_map_of_gateways s) t = Some a"
      using that is_order_set [OF assms(3)] cr_invD(2) [OF assms(1)] by (simp add: map_of_eq_Some_iff)
    with cr_invD(8) [OF assms(1)] refs_ok_pos [OF cr_invD(1) [OF assms(1)]] show ?thesis by blast
  qed
  then have "cr_notify_disconnected e cr_log_handler ?gws (s\<lparr>cr_is_connected := False, cr_map_of_gateways := []\<rparr>) =
      Some (s\<lparr>cr_is_connected := False, cr_map_of_gateways := [], cr_app := cr_app s @ concat (map (gw_notes (cr_heap s)
          (GwCompleted (Some (mkError Disconnected)) False)) (map snd ?gws))\<rparr>)"
    by (subst cr_notify_disconnected_log) auto
  moreover have "mset ?gws = mset (cr_map_of_gateways s)" using assms(3) by (simp add: is_order_def)
  ultimately show ?thesis using assms(2) by (intro exI [of _ ?gws]) (simp add: cr_handleDisconnected_def)
qed

theorem client_disconnect_notifies_all_witness:
  "\<exists>s'. cr_handlePipeEvent (wire_client_env dsdl_codec) cr_log_handler CP_Disconnected (two_gateways True) = Some (None, s')
     \<and> mset (cr_app s') = {#(10, GwCompleted (Some (mkError Disconnected)) False),
                            (11, GwCompleted (Some (mkError Disconnected)) False)#}"
proof -
  have ord: "is_order (ce_order (wire_client_env dsdl_codec))" by (simp add: wire_client_env_def is_order_id)
  from client_disconnect_notifies_all [OF two_gateways_inv [of True] _ ord] obtain gws where
    gws: "mset gws = {#(0 :: u64, 0), (1, 1)#}" and
    ev: "cr_handlePipeEvent (wire_client_env dsdl_codec) cr_log_handler CP_Disconnected (two_gateways True) =
      Some (None, (two_gateways True)\<lparr>cr_is_connected := False, cr_map_of_gateways := [],
        cr_app := concat (map (gw_notes (cr_heap (two_gateways True))
          (GwCompleted (Some (mkError Disconnected)) False)) (map snd gws))\<rparr>)"
    by (simp only: two_gateways_simps append_Nil mset.simps One_nat_def simp_thms) blast
  let ?n = "gw_notes (cr_heap (two_gateways True)) (GwCompleted (Some (mkError Disconnected)) False)"
  have "mset (concat (map ?n (map snd gws))) = (\<Sum>x\<in>#mset gws. mset (?n (snd x)))"
    by (induction gws) simp_all
  with ev gws show ?thesis by (simp add: gw_notes_def)
qed

text \<open>
  Connecting: the first \<open>RouteConnect\<close> response marks the router connected and gives
  every registered gateway exactly one \<open>Connected\<close> event; a further response changes
  nothing and notifies nobody.
\<close>

theorem client_connect_notifies_once:
  assumes "cr_inv (\<lambda>_. {#}) L s" "is_order (ce_order e)"
    and "route_deserialize (ce_codec e) p = Some (Route_connect major minor err)"
  shows "\<exists>gws. mset gws = mset (cr_map_of_gateways s) \<and>
    cr_handlePipeEvent e cr_log_handler (CP_Message p) s =
      Some (None, if cr_is_connected s then s
        else s\<lparr>cr_is_connected := True,
               cr_app := cr_app s @ concat (map (gw_notes (cr_heap s) GwConnected) (map snd gws))\<rparr>)"
proof -
  let ?gws = "ce_order e (cr_map_of_gateways s)"
  let ?as = "map snd ?gws" and ?s = "s\<lparr>cr_is_connected := True\<rparr>"
  have live: "\<forall>a \<in> set ?as. \<exists>g. cr_heap s a = Some g \<and> 0 < gw_use_count g"
  proof
    fix a assume "a \<in> set ?as"
    then obtain t where "map_of (cr_map_of_gateways s) t = Some a"
      using is_order_set [OF assms(2)] cr_invD(2) [OF assms(1)] by (auto simp: map_of_eq_Some_iff)
    with cr_invD(8) [OF assms(1)] refs_ok_pos [OF cr_invD(1) [OF assms(1)]]
    show "\<exists>g. cr_heap s a = Some g \<and> 0 < gw_use_count g" by blast
  qed
  let ?heap = "heap_add (\<lambda>a. 0 + count_list ?as a) (cr_heap s)"
  have lock: "cr_lock_all ?as ?s = (?as, ?s\<lparr>cr_heap := ?heap\<rparr>)"
    by (rule cr_lock_all_add) (use live in auto)
  have act: "cr_act_all (\<lambda>a. cr_gw_event cr_log_handler a GwConnected) ?as (?s\<lparr>cr_heap := ?heap\<rparr>) =
      Some (?s\<lparr>cr_heap := ?heap, cr_app := cr_app s @ concat (map (gw_notes (cr_heap s) GwConnected) ?as)\<rparr>)"
    by (subst cr_act_all_log [where heap = "cr_heap s" and c = "\<lambda>a. 0 + count_list ?as a"]) (use live in auto)
  have release: "cr_release_all e ?as
      (?s\<lparr>cr_heap := ?heap, cr_app := cr_app s @ concat (map (gw_notes (cr_heap s) GwConnected) ?as)\<rparr>) =
      Some (?s\<lparr>cr_app := cr_app s @ concat (map (gw_notes (cr_heap s) GwConnected) ?as)\<rparr>)"
    by (subst cr_release_all_add [where heap = "cr_heap s" and c = "\<lambda>_. 0"]) (use live in auto)
  have "cr_forEachRegisteredGateway e (\<lambda>a. cr_gw_event cr_log_handler a GwConnected) ?s =
      Some (?s\<lparr>cr_app := cr_app s @ concat (map (gw_notes (cr_heap s) GwConnected) ?as)\<rparr>)"
    using lock act release by (simp add: cr_forEachRegisteredGateway_def)
  moreover have "mset ?gws = mset (cr_map_of_gateways s)" using assms(2) by (simp add: is_order_def)
  ultimately show ?thesis
    using assms(3) by (intro exI [of _ ?gws]) (simp add: cr_handleMessage_def cr_handleRouteConnect_def)
qed

theorem client_connect_notifies_once_witness:
  "\<exists>s'. cr_handlePipeEvent (wire_client_env dsdl_codec) cr_log_handler
       (CP_Message (dsdl_route_bytes (Route_connect 0 1 \<lparr>error_code = 0, raw_errno = 0\<rparr>))) (two_gateways False) = Some (None, s')
     \<and> cr_is_connected s' \<and> length (cr_app s') = 2"
proof -
  let ?p = "dsdl_route_bytes (Route_connect 0 1 \<lparr>error_code = 0, raw_errno = 0\<rparr>)"
  let ?e = "wire_client_env dsdl_codec"
  have ord: "is_order (ce_order ?e)" by (simp add: wire_client_env_def is_order_id)
  have "route_deserialize (ce_codec ?e) ?p = Some (Route_connect 0 1 \<lparr>error_code = 0, raw_errno = 0\<rparr>)"
    using dsdl_codec_read [of _ "[]"] by (simp only: wire_client_env_def client_env.simps append_Nil2)
  from client_connect_notifies_once [OF two_gateways_inv [of False] ord this] obtain gws where
    gws: "mset gws = {#(0 :: u64, 0), (1, 1)#}" and
    ev: "cr_handlePipeEvent ?e cr_log_handler (CP_Message ?p) (two_gateways False) =
      Some (None, (two_gateways False)\<lparr>cr_is_connected := True,
        cr_app := concat (map (gw_notes (cr_heap (two_gateways False)) GwConnected) (map snd gws))\<rparr>)"
    by (simp only: two_gateways_simps append_Nil mset.simps One_nat_def simp_thms if_False) blast
  let ?n = "gw_notes (cr_heap (two_gateways False)) GwConnected"
  have "length (concat (map ?n (map snd gws))) = (\<Sum>x\<in>#mset gws. length (?n (snd x)))"
    by (induction gws) simp_all
  with ev gws show ?thesis by (simp add: gw_notes_def)
qed

text \<open>
  Disposal: when the last owner of a gateway lets go, the gateway is gone and its tag
  unregistered, and the remote router gets a \<open>ChannelEnd\<close> (without keep-alive, with the
  completion error) exactly when the gateway was still registered, had sent at least one
  message, and the router is connected; otherwise nothing is sent.
\<close>

theorem client_disposal:
  assumes "cr_inv own (add_mset a L) s" "a \<notin># own (cr_app s) + L" "cr_heap s a = Some g"
    and "route_serialize (ce_codec e)
      (Route_channel_end (gw_endpoint g) False (optErrorToDsdlError (gw_completion_opt_error g))) = Some bs"
  shows "\<exists>s'. cr_release e a s = Some s' \<and> cr_inv own L s' \<and> cr_heap s' a = None
    \<and> \<not> cr_isRegisteredGateway (gw_endpoint g) s'
    \<and> cr_pipe s' =
        (if cr_isRegisteredGateway (gw_endpoint g) s \<and> gw_next_sequence g \<noteq> 0 \<and> cr_is_connected s
         then snd (ce_pipe_send e (SocketBuffer_of (Span bs)) (cr_pipe s)) else cr_pipe s)"
proof -
  obtain s' where s': "cr_release e a s = Some s'" "cr_inv own L s'" using cr_inv_release [OF assms(1)] .
  have "gw_use_count g = count (add_mset a (own (cr_app s) + L)) a"
    using refs_ok_count [OF cr_invD(1) [OF assms(1)] assms(3)] by simp
  with assms(2) have "gw_use_count g \<le> 1" by (simp add: not_in_iff)
  then have "s' = cr_gw_destroy e g (s\<lparr>cr_heap := (cr_heap s)(a := None)\<rparr>)"
    using s'(1) assms(3) by (simp add: cr_release_def heap_release_def)
  with s' assms(4) show ?thesis
    by (auto simp: cr_gw_destroy_def cr_onGatewayDisposal_def client_send_route_def client_pipe_send_def
        tryPerformOnSerialized_def cr_isRegisteredGateway_def cr_isConnected_def Let_def um_simps word_neq_0_conv
        split: prod.splits if_splits)
qed

definition used_gateway :: "(byte list list, unit, unit) client_router" where
  "used_gateway =
     (cr_set_gateway 0 ((GatewayImpl_create 0)\<lparr>gw_next_sequence := 1\<rparr>)
        (snd (makeGateway (ClientRouterImpl_init [] ()))))\<lparr>cr_is_connected := True\<rparr>"

lemma used_gateway_inv: "cr_inv (\<lambda>_. {#}) {#0#} used_gateway"
proof -
  let ?s = "ClientRouterImpl_init [] () :: (byte list list, unit, unit) client_router"
  have "cr_inv (\<lambda>_. {#}) {#0#} (snd (makeGateway ?s))"
    by (rule cr_inv_makeGateway [of "\<lambda>_. {#}" "{#}" ?s])
      (simp_all add: makeGateway_def ClientRouterImpl_init_def Let_def cr_inv_def refs_ok_def)
  moreover have "cr_heap (snd (makeGateway ?s)) 0 = Some (GatewayImpl_create 0)"
    by (simp add: makeGateway_def ClientRouterImpl_init_def Let_def)
  ultimately have "cr_inv (\<lambda>_. {#}) {#0#}
      (cr_set_gateway 0 ((GatewayImpl_create 0)\<lparr>gw_next_sequence := 1\<rparr>) (snd (makeGateway ?s)))"
    by (rule cr_inv_set_gateway) simp_all
  then show ?thesis by (simp add: used_gateway_def)
qed

theorem client_disposal_witness:
  "\<exists>s'. cr_release (wire_client_env dsdl_codec) 0 used_gateway = Some s' \<and> cr_heap s' 0 = None
     \<and> cr_pipe s' = [dsdl_route_bytes (Route_channel_end 0 False \<lparr>error_code = 0, raw_errno = 0\<rparr>)]"
proof -
  let ?e = "wire_client_env dsdl_codec" and ?g = "(GatewayImpl_create 0)\<lparr>gw_next_sequence := 1\<rparr> :: unit client_gateway"
  let ?bs = "dsdl_route_bytes (Route_channel_end 0 False \<lparr>error_code = 0, raw_errno = 0\<rparr>)"
  have g: "cr_heap used_gateway 0 = Some ?g" "cr_map_of_gateways used_gateway = [(0, 0)]"
    "cr_is_connected used_gateway" "cr_pipe used_gateway = []"
    by (simp_all add: used_gateway_def cr_set_gateway_def makeGateway_def ClientRouterImpl_init_def um_assign_def Let_def)
  have ser: "route_serialize (ce_codec ?e) (Route_channel_end (gw_endpoint ?g) False
      (optErrorToDsdlError (gw_completion_opt_error ?g))) = Some ?bs"
    by (simp add: wire_client_env_def dsdl_codec_def GatewayImpl_create_def optErrorToDsdlError_def)
  have inv: "cr_inv (\<lambda>_. {#}) (add_mset 0 {#}) used_gateway" using used_gateway_inv by simp
  have "sb_bytes (SocketBuffer_of (Span ?bs)) = ?bs" by simp
  with client_disposal [OF inv _ g(1) ser] g show ?thesis
    by (auto simp: cr_isRegisteredGateway_def GatewayImpl_create_def wire_client_env_def)
qed

text \<open>
  A peer can drive the client router into undefined behaviour: a channel message whose
  \<open>payload_size\<close> is larger than the whole message makes \<open>subspan\<close> start outside the
  span, whatever the tag and the handlers; every other size is cut correctly.
\<close>

theorem client_oversized_msg_undefined:
  assumes "length p < 2 ^ 64" "route_deserialize (ce_codec e) p = Some (Route_channel_msg tag n svc sz)"
    and "client_handlers own h" "cr_inv own L s"
  shows "cr_handlePipeEvent e h (CP_Message p) s = None \<longleftrightarrow> length p < unat sz"
proof (cases "length p < unat sz")
  case True
  with subspan_defined_iff [OF assms(1), of sz] have "subspan p (of_nat (length p) - sz) = None" by simp
  with True assms(2) show ?thesis by (simp add: cr_handleMessage_def cr_handleRouteChannelMsg_def)
next
  case False
  with subspan_defined_iff [OF assms(1), of sz] have "subspan p (of_nat (length p) - sz) \<noteq> None" by simp
  from client_handlers.handleRouteChannelMsg_ok [OF assms(3,4) this]
  have "cr_ok own L (cr_handlePipeEvent e h (CP_Message p) s)" using assms(2) by (simp add: cr_handleMessage_def)
  with False show ?thesis by (auto simp: ok2_def)
qed

theorem client_oversized_msg_undefined_witness:
  "cr_handlePipeEvent (wire_client_env dsdl_codec) cr_log_handler
     (CP_Message (dsdl_route_bytes (Route_channel_msg 0 0 7 1000))) (two_gateways True) = None"
proof -
  let ?p = "dsdl_route_bytes (Route_channel_msg 0 0 7 1000)"
  have "route_deserialize (ce_codec (wire_client_env dsdl_codec)) ?p = Some (Route_channel_msg 0 0 7 1000)"
    using dsdl_codec_read [of _ "[]"] by (simp only: wire_client_env_def client_env.simps append_Nil2)
  from client_oversized_msg_undefined [OF _ this cr_log.client_handlers_axioms two_gateways_inv] show ?thesis by simp
qed

fun cr_run ::
    "'p client_env \<Rightarrow> ('p, 'h, 'a) cr_handler \<Rightarrow> client_pipe_event list \<Rightarrow> ('p, 'h, 'a) client_router \<Rightarrow>
     ('p, 'h, 'a) client_router option" where
  "cr_run e h [] s = Some s"
| "cr_run e h (ev # evs) s = do { (r, s') \<leftarrow> cr_handlePipeEvent e h ev s; cr_run e h evs s' }"

fun cr_well_sized :: "route_codec \<Rightarrow> client_pipe_event \<Rightarrow> bool" where
  "cr_well_sized c (CP_Message p) =
     (case route_deserialize c p of
        Some (Route_channel_msg t n svc sz) \<Rightarrow> unat sz \<le> length p \<and> length p < 2 ^ 64
      | _ \<Rightarrow> True)"
| "cr_well_sized c _ = True"



end
