(* ===== verification/Server_Router.thy ===== *)
theory Server_Router
  imports Gateway
begin

text \<open>
  \<^verbatim>\<open>src/common/ipc/server_router.cpp\<close> and \<^verbatim>\<open>server_router.hpp\<close>: the server-side IPC router. It
  keeps one map of gateways per connected client and the channel factories by service id.

  As for the client, the pipe below (\<open>ServerPipe::send\<close>) and the code above are
  parameters: event handlers \<open>'h\<close> and channel factories \<open>'f\<close> are names that \<open>h\<close> and \<open>fac\<close>
  run on the whole state. \<open>None\<close> is undefined behaviour.
\<close>

section \<open>State\<close>

type_synonym client_id = u64

datatype sr_endpoint = Endpoint (ep_tag: u64) (ep_client: client_id)

type_synonym 'h server_gateway = "(sr_endpoint, 'h) gateway"
type_synonym map_of_weak_gateways = "(u64, nat) umap"

record ('p, 'f, 'h, 'a) server_router =
  sr_pipe :: 'p
  sr_clients :: "(client_id, map_of_weak_gateways) umap"
  sr_factories :: "(u64, 'f) umap"
  sr_heap :: "(sr_endpoint, 'h) gw_heap"
  sr_next_addr :: nat
  sr_app :: 'a

record 'p server_env =
  se_codec :: route_codec
  se_pipe_send :: "client_id \<Rightarrow> socket_buffer \<Rightarrow> 'p \<Rightarrow> opt_error \<times> 'p"
  se_order :: "(u64 \<times> nat) list \<Rightarrow> (u64 \<times> nat) list"

type_synonym ('p, 'f, 'h, 'a) sr_result = "(opt_error \<times> ('p, 'f, 'h, 'a) server_router) option"
type_synonym ('p, 'f, 'h, 'a) sr_handler =
  "'h \<Rightarrow> gw_event \<Rightarrow> ('p, 'f, 'h, 'a) server_router \<Rightarrow> ('p, 'f, 'h, 'a) sr_result"
type_synonym ('p, 'f, 'h, 'a) sr_factory =
  "'f \<Rightarrow> nat \<Rightarrow> byte list \<Rightarrow> ('p, 'f, 'h, 'a) server_router \<Rightarrow> ('p, 'f, 'h, 'a) server_router option"

definition ServerRouterImpl_init :: "'p \<Rightarrow> 'a \<Rightarrow> ('p, 'f, 'h, 'a) server_router" where
  "ServerRouterImpl_init pipe app =
     \<lparr>sr_pipe = pipe, sr_clients = [], sr_factories = [], sr_heap = (\<lambda>_. None), sr_next_addr = 0, sr_app = app\<rparr>"

definition registerChannelFactory ::
    "u64 \<Rightarrow> 'f \<Rightarrow> ('p, 'f, 'h, 'a) server_router \<Rightarrow> ('p, 'f, 'h, 'a) server_router" where
  "registerChannelFactory service_id channel_factory s =
     s\<lparr>sr_factories := um_assign service_id channel_factory (sr_factories s)\<rparr>"

definition server_pipe_send ::
    "'p server_env \<Rightarrow> client_id \<Rightarrow> socket_buffer \<Rightarrow> ('p, 'f, 'h, 'a) server_router \<Rightarrow>
     opt_error \<times> ('p, 'f, 'h, 'a) server_router" where
  "server_pipe_send e cl b s = (let (r, p) = se_pipe_send e cl b (sr_pipe s) in (r, s\<lparr>sr_pipe := p\<rparr>))"

definition server_send_route ::
    "'p server_env \<Rightarrow> client_id \<Rightarrow> route \<Rightarrow> ('p, 'f, 'h, 'a) server_router \<Rightarrow>
     opt_error \<times> ('p, 'f, 'h, 'a) server_router" where
  "server_send_route e cl route s =
     tryPerformOnSerialized (route_serialize (se_codec e)) route
       (\<lambda>payload. server_pipe_send e cl (SocketBuffer_of payload)) s"

definition sr_set_gateway ::
    "nat \<Rightarrow> 'h server_gateway \<Rightarrow> ('p, 'f, 'h, 'a) server_router \<Rightarrow> ('p, 'f, 'h, 'a) server_router" where
  "sr_set_gateway a g s = s\<lparr>sr_heap := (sr_heap s)(a \<mapsto> g)\<rparr>"

section \<open>Gateways\<close>

definition sr_isConnected :: "sr_endpoint \<Rightarrow> ('p, 'f, 'h, 'a) server_router \<Rightarrow> bool" where
  "sr_isConnected endpoint s = (map_of (sr_clients s) (ep_client endpoint) \<noteq> None)"

text \<open>The registered gateway of an endpoint.\<close>

definition sr_lookup :: "sr_endpoint \<Rightarrow> ('p, 'f, 'h, 'a) server_router \<Rightarrow> nat option" where
  "sr_lookup endpoint s =
     (case map_of (sr_clients s) (ep_client endpoint) of
        None \<Rightarrow> None
      | Some map_of_gws \<Rightarrow> map_of map_of_gws (ep_tag endpoint))"

definition sr_isRegisteredGateway :: "sr_endpoint \<Rightarrow> ('p, 'f, 'h, 'a) server_router \<Rightarrow> bool" where
  "sr_isRegisteredGateway endpoint s = (sr_lookup endpoint s \<noteq> None)"

text \<open>Change the map of gateways of a client that has one.\<close>

definition sr_upd_client ::
    "client_id \<Rightarrow> (map_of_weak_gateways \<Rightarrow> map_of_weak_gateways) \<Rightarrow> ('p, 'f, 'h, 'a) server_router \<Rightarrow>
     ('p, 'f, 'h, 'a) server_router" where
  "sr_upd_client cl f s =
     (case map_of (sr_clients s) cl of
        None \<Rightarrow> s
      | Some m \<Rightarrow> s\<lparr>sr_clients := um_assign cl (f m) (sr_clients s)\<rparr>)"

definition sr_gw_send ::
    "'p server_env \<Rightarrow> nat \<Rightarrow> u64 \<Rightarrow> socket_buffer \<Rightarrow> ('p, 'f, 'h, 'a) server_router \<Rightarrow> ('p, 'f, 'h, 'a) sr_result" where
  "sr_gw_send e a service_id sock_buff s = do {
     g \<leftarrow> sr_heap s a;
     if \<not> sr_isConnected (gw_endpoint g) s then Some (Some (mkError NotConnected), s)
     else if \<not> sr_isRegisteredGateway (gw_endpoint g) s then Some (Some (mkError Shutdown), s)
     else let route = Route_channel_msg (ep_tag (gw_endpoint g)) (gw_next_sequence g) service_id (sb_size sock_buff);
              s' = sr_set_gateway a (g\<lparr>gw_next_sequence := gw_next_sequence g + 1\<rparr>) s
          in Some (tryPerformOnSerialized (route_serialize (se_codec e)) route
                     (\<lambda>prefix. server_pipe_send e (ep_client (gw_endpoint g)) (prepend prefix sock_buff)) s')
   }"

definition sr_gw_complete ::
    "'p server_env \<Rightarrow> nat \<Rightarrow> opt_error \<Rightarrow> bool \<Rightarrow> ('p, 'f, 'h, 'a) server_router \<Rightarrow> ('p, 'f, 'h, 'a) sr_result" where
  "sr_gw_complete e a opt_error keep_alive s = do {
     g \<leftarrow> sr_heap s a;
     if \<not> sr_isConnected (gw_endpoint g) s then Some (Some (mkError NotConnected), s)
     else if \<not> sr_isRegisteredGateway (gw_endpoint g) s then Some (None, s)
     else let s' = sr_set_gateway a (g\<lparr>gw_completion_opt_error := opt_error\<rparr>) s
          in Some (server_send_route e (ep_client (gw_endpoint g))
                     (Route_channel_end (ep_tag (gw_endpoint g)) keep_alive (optErrorToDsdlError opt_error)) s')
   }"

definition sr_gw_event ::
    "('p, 'f, 'h, 'a) sr_handler \<Rightarrow> nat \<Rightarrow> gw_event \<Rightarrow> ('p, 'f, 'h, 'a) server_router \<Rightarrow> ('p, 'f, 'h, 'a) sr_result" where
  "sr_gw_event h a event s = do {
     g \<leftarrow> sr_heap s a;
     case gw_event_handler g of None \<Rightarrow> Some (None, s) | Some f \<Rightarrow> h f event s
   }"

definition sr_onGatewayDisposal ::
    "'p server_env \<Rightarrow> sr_endpoint \<Rightarrow> opt_error \<Rightarrow> ('p, 'f, 'h, 'a) server_router \<Rightarrow> ('p, 'f, 'h, 'a) server_router" where
  "sr_onGatewayDisposal e endpoint completion_opt_error s =
     (case map_of (sr_clients s) (ep_client endpoint) of
        None \<Rightarrow> s
      | Some map_of_gws \<Rightarrow>
          let was_registered = (map_of map_of_gws (ep_tag endpoint) \<noteq> None);
              s' = sr_upd_client (ep_client endpoint) (um_erase (ep_tag endpoint)) s
          in if was_registered \<and> sr_isConnected endpoint s' then
               snd (server_send_route e (ep_client endpoint)
                      (Route_channel_end (ep_tag endpoint) False (optErrorToDsdlError completion_opt_error)) s')
             else s')"

definition sr_gw_destroy ::
    "'p server_env \<Rightarrow> 'h server_gateway \<Rightarrow> ('p, 'f, 'h, 'a) server_router \<Rightarrow> ('p, 'f, 'h, 'a) server_router" where
  "sr_gw_destroy e g s = sr_onGatewayDisposal e (gw_endpoint g) (gw_completion_opt_error g) s"

definition sr_lock :: "nat \<Rightarrow> ('p, 'f, 'h, 'a) server_router \<Rightarrow> ('p, 'f, 'h, 'a) server_router option" where
  "sr_lock a s = map_option (\<lambda>heap. s\<lparr>sr_heap := heap\<rparr>) (heap_lock a (sr_heap s))"

definition sr_release :: "'p server_env \<Rightarrow> nat \<Rightarrow> ('p, 'f, 'h, 'a) server_router \<Rightarrow> ('p, 'f, 'h, 'a) server_router option" where
  "sr_release e a s = do {
     (destroyed, heap) \<leftarrow> heap_release a (sr_heap s);
     let s' = s\<lparr>sr_heap := heap\<rparr>;
     Some (case destroyed of None \<Rightarrow> s' | Some g \<Rightarrow> sr_gw_destroy e g s')
   }"

section \<open>Dispatch\<close>

text \<open>Act on a gateway through a locked weak pointer; nothing when it is gone.\<close>

definition sr_act_locked ::
    "'p server_env \<Rightarrow> nat \<Rightarrow> (('p, 'f, 'h, 'a) server_router \<Rightarrow> ('p, 'f, 'h, 'a) sr_result) \<Rightarrow>
     ('p, 'f, 'h, 'a) server_router \<Rightarrow> ('p, 'f, 'h, 'a) sr_result" where
  "sr_act_locked e a action s =
     (case sr_lock a s of
        None \<Rightarrow> Some (None, s)
      | Some s1 \<Rightarrow> do {
          (r, s2) \<leftarrow> action s1;
          s3 \<leftarrow> sr_release e a s2;
          Some (r, s3)
        })"

definition sr_findAndActOnRegisteredGateway ::
    "'p server_env \<Rightarrow> sr_endpoint \<Rightarrow> (nat \<Rightarrow> ('p, 'f, 'h, 'a) server_router \<Rightarrow> ('p, 'f, 'h, 'a) sr_result) \<Rightarrow>
     ('p, 'f, 'h, 'a) server_router \<Rightarrow> ('p, 'f, 'h, 'a) sr_result" where
  "sr_findAndActOnRegisteredGateway e endpoint action s =
     (case sr_lookup endpoint s of None \<Rightarrow> Some (None, s) | Some a \<Rightarrow> sr_act_locked e a (action a) s)"

definition sr_onGatewaySubscription ::
    "'p server_env \<Rightarrow> ('p, 'f, 'h, 'a) sr_handler \<Rightarrow> sr_endpoint \<Rightarrow> ('p, 'f, 'h, 'a) server_router \<Rightarrow>
     ('p, 'f, 'h, 'a) server_router option" where
  "sr_onGatewaySubscription e h endpoint s =
     (if sr_isConnected endpoint s then
        map_option snd (sr_findAndActOnRegisteredGateway e endpoint (\<lambda>a. sr_gw_event h a GwConnected) s)
      else Some s)"

definition sr_gw_subscribe ::
    "'p server_env \<Rightarrow> ('p, 'f, 'h, 'a) sr_handler \<Rightarrow> nat \<Rightarrow> 'h option \<Rightarrow> ('p, 'f, 'h, 'a) server_router \<Rightarrow>
     ('p, 'f, 'h, 'a) server_router option" where
  "sr_gw_subscribe e h a event_handler s = do {
     g \<leftarrow> sr_heap s a;
     sr_onGatewaySubscription e h (gw_endpoint g) (sr_set_gateway a (g\<lparr>gw_event_handler := event_handler\<rparr>) s)
   }"

section \<open>Pipe events\<close>

definition sr_handleConnected ::
    "client_id \<Rightarrow> ('p, 'f, 'h, 'a) server_router \<Rightarrow> opt_error \<times> ('p, 'f, 'h, 'a) server_router" where
  "sr_handleConnected cl s = (None, s)"

definition sr_handleRouteConnect ::
    "'p server_env \<Rightarrow> client_id \<Rightarrow> ('p, 'f, 'h, 'a) server_router \<Rightarrow> opt_error \<times> ('p, 'f, 'h, 'a) server_router" where
  "sr_handleRouteConnect e cl s =
     (let (opt_error, s') = server_send_route e cl
            (Route_connect VERSION_MAJOR VERSION_MINOR (optErrorToDsdlError None)) s
      in (opt_error, if opt_error = None then s'\<lparr>sr_clients := um_emplace cl [] (sr_clients s')\<rparr> else s'))"

text \<open>
  Make a gateway for the first message of a channel, register it, and call the factory
  with a copy of the pointer; the local pointer ends with the function.
\<close>

definition sr_open_channel ::
    "'p server_env \<Rightarrow> ('p, 'f, 'h, 'a) sr_factory \<Rightarrow> sr_endpoint \<Rightarrow> 'f \<Rightarrow> byte list \<Rightarrow>
     ('p, 'f, 'h, 'a) server_router \<Rightarrow> ('p, 'f, 'h, 'a) sr_result" where
  "sr_open_channel e fac endpoint f payload s =
     (let a = sr_next_addr s;
          s1 = s\<lparr>sr_heap := (sr_heap s)(a \<mapsto> GatewayImpl_create endpoint), sr_next_addr := Suc a\<rparr>;
          s2 = sr_upd_client (ep_client endpoint) (um_assign (ep_tag endpoint) a) s1
      in do {
        s3 \<leftarrow> sr_lock a s2;
        s4 \<leftarrow> fac f a payload s3;
        s5 \<leftarrow> sr_release e a s4;
        s6 \<leftarrow> sr_release e a s5;
        Some (None, s6)
      })"

definition sr_handleRouteChannelMsg ::
    "'p server_env \<Rightarrow> ('p, 'f, 'h, 'a) sr_handler \<Rightarrow> ('p, 'f, 'h, 'a) sr_factory \<Rightarrow> client_id \<Rightarrow>
     u64 \<Rightarrow> u64 \<Rightarrow> u64 \<Rightarrow> u64 \<Rightarrow> byte list \<Rightarrow> ('p, 'f, 'h, 'a) server_router \<Rightarrow> ('p, 'f, 'h, 'a) sr_result" where
  "sr_handleRouteChannelMsg e h fac cl tag sequence service_id payload_sz payload s = do {
     msg_real_payload \<leftarrow> subspan payload (of_nat (length payload) - payload_sz);
     let open_first = (if sequence = 0 then
            (case map_of (sr_factories s) service_id of
               Some f \<Rightarrow> sr_open_channel e fac (Endpoint tag cl) f msg_real_payload s
             | None \<Rightarrow> Some (None, s))
          else Some (None, s));
     case map_of (sr_clients s) cl of
       None \<Rightarrow> Some (None, s)
     | Some map_of_gws \<Rightarrow>
         (case map_of map_of_gws tag of
            None \<Rightarrow> open_first
          | Some a \<Rightarrow>
              (case sr_lock a s of
                 None \<Rightarrow> open_first
               | Some s1 \<Rightarrow> do {
                   (r, s2) \<leftarrow> sr_gw_event h a (GwMessage sequence msg_real_payload) s1;
                   s3 \<leftarrow> sr_release e a s2;
                   Some (r, s3)
                 }))
   }"

definition sr_handleRouteChannelEnd ::
    "'p server_env \<Rightarrow> ('p, 'f, 'h, 'a) sr_handler \<Rightarrow> client_id \<Rightarrow> u64 \<Rightarrow> bool \<Rightarrow> dsdl_error \<Rightarrow>
     ('p, 'f, 'h, 'a) server_router \<Rightarrow> ('p, 'f, 'h, 'a) sr_result" where
  "sr_handleRouteChannelEnd e h cl tag keep_alive err s =
     (case map_of (sr_clients s) cl of
        None \<Rightarrow> Some (None, s)
      | Some _ \<Rightarrow>
          sr_findAndActOnRegisteredGateway e (Endpoint tag cl)
            (\<lambda>a s. let s' = (if \<not> keep_alive then sr_upd_client cl (um_erase tag) s else s)
                   in sr_gw_event h a (GwCompleted (dsdlErrorToOptError err) keep_alive) s') s)"

fun sr_notify_disconnected ::
    "'p server_env \<Rightarrow> ('p, 'f, 'h, 'a) sr_handler \<Rightarrow> (u64 \<times> nat) list \<Rightarrow> ('p, 'f, 'h, 'a) server_router \<Rightarrow>
     ('p, 'f, 'h, 'a) server_router option" where
  "sr_notify_disconnected e h [] s = Some s"
| "sr_notify_disconnected e h ((tag, a) # gws) s = do {
     (r, s') \<leftarrow> sr_act_locked e a (sr_gw_event h a (GwCompleted (Some (mkError Disconnected)) False)) s;
     sr_notify_disconnected e h gws s'
   }"

definition sr_handleDisconnected ::
    "'p server_env \<Rightarrow> ('p, 'f, 'h, 'a) sr_handler \<Rightarrow> client_id \<Rightarrow> ('p, 'f, 'h, 'a) server_router \<Rightarrow>
     ('p, 'f, 'h, 'a) sr_result" where
  "sr_handleDisconnected e h cl s =
     (case map_of (sr_clients s) cl of
        None \<Rightarrow> Some (None, s)
      | Some local_map_of_gateways \<Rightarrow>
          map_option (\<lambda>s'. (None, s'))
            (sr_notify_disconnected e h (se_order e local_map_of_gateways)
               (s\<lparr>sr_clients := um_erase cl (sr_clients s)\<rparr>)))"

definition sr_handleMessage ::
    "'p server_env \<Rightarrow> ('p, 'f, 'h, 'a) sr_handler \<Rightarrow> ('p, 'f, 'h, 'a) sr_factory \<Rightarrow> client_id \<Rightarrow> byte list \<Rightarrow>
     ('p, 'f, 'h, 'a) server_router \<Rightarrow> ('p, 'f, 'h, 'a) sr_result" where
  "sr_handleMessage e h fac cl payload s =
     (case route_deserialize (se_codec e) payload of
        None \<Rightarrow> Some (Some (mkError InvalidArgument), s)
      | Some Route_empty \<Rightarrow> Some (Some (mkError InvalidArgument), s)
      | Some (Route_connect major minor err) \<Rightarrow> Some (sr_handleRouteConnect e cl s)
      | Some (Route_channel_msg tag sequence service_id sz) \<Rightarrow>
          sr_handleRouteChannelMsg e h fac cl tag sequence service_id sz payload s
      | Some (Route_channel_end tag keep_alive err) \<Rightarrow> sr_handleRouteChannelEnd e h cl tag keep_alive err s)"

datatype server_pipe_event =
    SP_Connected client_id | SP_Message client_id "byte list" | SP_Disconnected client_id

fun sr_handlePipeEvent ::
    "'p server_env \<Rightarrow> ('p, 'f, 'h, 'a) sr_handler \<Rightarrow> ('p, 'f, 'h, 'a) sr_factory \<Rightarrow> server_pipe_event \<Rightarrow>
     ('p, 'f, 'h, 'a) server_router \<Rightarrow> ('p, 'f, 'h, 'a) sr_result" where
  "sr_handlePipeEvent e h fac (SP_Connected cl) s = Some (sr_handleConnected cl s)"
| "sr_handlePipeEvent e h fac (SP_Message cl payload) s = sr_handleMessage e h fac cl payload s"
| "sr_handlePipeEvent e h fac (SP_Disconnected cl) s = sr_handleDisconnected e h cl s"

section \<open>Channels of a service\<close>

text \<open>
  \<open>ServerRouter::registerChannel\<close> wraps the handler of a service into a factory: the first
  payload is deserialized, and the handler gets a channel that holds a copy of the gateway
  pointer; a payload that cannot be read drops the gateway.
\<close>

definition channel_factory ::
    "(byte list \<Rightarrow> 'i option) \<Rightarrow> (nat \<Rightarrow> 'i \<Rightarrow> ('p, 'f, 'h, 'a) server_router \<Rightarrow> ('p, 'f, 'h, 'a) server_router option) \<Rightarrow>
     nat \<Rightarrow> byte list \<Rightarrow> ('p, 'f, 'h, 'a) server_router \<Rightarrow> ('p, 'f, 'h, 'a) server_router option" where
  "channel_factory deserialize new_ch_handler a payload s =
     (case deserialize payload of
        None \<Rightarrow> Some s
      | Some input \<Rightarrow> do { s' \<leftarrow> sr_lock a s; new_ch_handler a input s' })"

section \<open>The invariant\<close>

text \<open>
  Use counts agree with the owners; a registered endpoint always leads to a live gateway
  made for that very endpoint. (The converse fails: an endpoint may have several live
  gateways, at most one of them registered.)
\<close>

definition sr_inv :: "('a \<Rightarrow> nat multiset) \<Rightarrow> nat multiset \<Rightarrow> ('p, 'f, 'h, 'a) server_router \<Rightarrow> bool" where
  "sr_inv own L s \<longleftrightarrow>
     refs_ok (own (sr_app s) + L) (sr_heap s)
     \<and> um_wf (sr_clients s) \<and> (\<forall>cl m. map_of (sr_clients s) cl = Some m \<longrightarrow> um_wf m)
     \<and> (\<forall>a g. sr_heap s a = Some g \<longrightarrow> a < sr_next_addr s)
     \<and> (\<forall>ep a. sr_lookup ep s = Some a \<longrightarrow> (\<exists>g. sr_heap s a = Some g \<and> gw_endpoint g = ep))"

abbreviation sr_ok :: "('a \<Rightarrow> nat multiset) \<Rightarrow> nat multiset \<Rightarrow> ('r \<times> ('p, 'f, 'h, 'a) server_router) option \<Rightarrow> bool" where
  "sr_ok own L \<equiv> ok2 (sr_inv own L)"

abbreviation sr_ok1 :: "('a \<Rightarrow> nat multiset) \<Rightarrow> nat multiset \<Rightarrow> ('p, 'f, 'h, 'a) server_router option \<Rightarrow> bool" where
  "sr_ok1 own L \<equiv> ok1 (sr_inv own L)"

lemma sr_invD:
  assumes "sr_inv own L s"
  shows "refs_ok (own (sr_app s) + L) (sr_heap s)" "um_wf (sr_clients s)"
    and "map_of (sr_clients s) cl = Some m \<Longrightarrow> um_wf m"
    and "sr_heap s a = Some g \<Longrightarrow> a < sr_next_addr s"
    and "sr_lookup ep s = Some a \<Longrightarrow> \<exists>g. sr_heap s a = Some g \<and> gw_endpoint g = ep"
  using assms unfolding sr_inv_def by auto

lemma sr_invI:
  assumes "refs_ok (own (sr_app s) + L) (sr_heap s)" "um_wf (sr_clients s)"
    and "\<And>cl m. map_of (sr_clients s) cl = Some m \<Longrightarrow> um_wf m"
    and "\<And>a g. sr_heap s a = Some g \<Longrightarrow> a < sr_next_addr s"
    and "\<And>ep a. sr_lookup ep s = Some a \<Longrightarrow> \<exists>g. sr_heap s a = Some g \<and> gw_endpoint g = ep"
  shows "sr_inv own L s"
  using assms unfolding sr_inv_def by blast

lemma sr_lookup_erase [simp]:
  "sr_lookup ep (sr_upd_client cl (um_erase t) s) = (if ep = Endpoint t cl then None else sr_lookup ep s)"
  by (cases ep) (simp add: sr_lookup_def sr_upd_client_def um_simps split: option.splits)

lemma sr_lookup_assign [simp]:
  "sr_lookup ep (sr_upd_client cl (um_assign t a) s) =
     (if ep = Endpoint t cl \<and> map_of (sr_clients s) cl \<noteq> None then Some a else sr_lookup ep s)"
  by (cases ep) (simp add: sr_lookup_def sr_upd_client_def um_simps split: option.splits)

lemma sr_upd_client_frame [simp]:
  "sr_heap (sr_upd_client cl f s) = sr_heap s" "sr_app (sr_upd_client cl f s) = sr_app s"
  "sr_next_addr (sr_upd_client cl f s) = sr_next_addr s" "sr_pipe (sr_upd_client cl f s) = sr_pipe s"
  "sr_factories (sr_upd_client cl f s) = sr_factories s"
  "(map_of (sr_clients (sr_upd_client cl f s)) c = None) = (map_of (sr_clients s) c = None)"
  by (simp_all add: sr_upd_client_def um_simps split: option.splits)

lemma sr_lookup_frame [simp]:
  "sr_lookup ep (s\<lparr>sr_pipe := p\<rparr>) = sr_lookup ep s" "sr_lookup ep (s\<lparr>sr_heap := hp\<rparr>) = sr_lookup ep s"
  "sr_lookup ep (s\<lparr>sr_app := x\<rparr>) = sr_lookup ep s" "sr_lookup ep (s\<lparr>sr_next_addr := n\<rparr>) = sr_lookup ep s"
  "sr_lookup ep (s\<lparr>sr_factories := fs\<rparr>) = sr_lookup ep s"
  by (simp_all add: sr_lookup_def)

lemma sr_clients_wf_upd:
  assumes "um_wf (sr_clients s)" "\<And>cl m. map_of (sr_clients s) cl = Some m \<Longrightarrow> um_wf m" "\<And>m. um_wf m \<Longrightarrow> um_wf (f m)"
  shows "um_wf (sr_clients (sr_upd_client cl f s))"
    and "map_of (sr_clients (sr_upd_client cl f s)) c = Some m \<Longrightarrow> um_wf m"
  using assms by (auto simp: sr_upd_client_def um_simps split: option.splits if_splits)

lemma sr_inv_init [simp]: "own app = {#} \<Longrightarrow> sr_inv own {#} (ServerRouterImpl_init p app)"
  by (simp add: sr_inv_def ServerRouterImpl_init_def refs_ok_def sr_lookup_def)

lemma sr_inv_pipe [simp]: "sr_inv own L (s\<lparr>sr_pipe := p\<rparr>) = sr_inv own L s"
  and sr_inv_factories [simp]: "sr_inv own L (s\<lparr>sr_factories := fs\<rparr>) = sr_inv own L s"
  by (simp_all add: sr_inv_def)

lemma sr_inv_register [simp]: "sr_inv own L (registerChannelFactory i f s) = sr_inv own L s"
  by (simp add: registerChannelFactory_def)

lemma sr_pipe_frame [simp]:
  "sr_inv own L (snd (server_pipe_send e cl b s)) = sr_inv own L s"
  "sr_inv own L (snd (server_send_route e cl r s)) = sr_inv own L s"
  by (simp_all add: server_pipe_send_def server_send_route_def tryPerformOnSerialized_def
      split: prod.splits option.splits)

text \<open>Only the heap changes: what is left to show.\<close>

lemma sr_inv_heap:
  assumes "sr_inv own L s" "refs_ok (own (sr_app s) + L') heap"
    and "\<And>a g. heap a = Some g \<Longrightarrow> a < sr_next_addr s"
    and "\<And>ep a g. sr_lookup ep s = Some a \<Longrightarrow> sr_heap s a = Some g \<Longrightarrow> gw_endpoint g = ep \<Longrightarrow>
      \<exists>g'. heap a = Some g' \<and> gw_endpoint g' = ep"
  shows "sr_inv own L' (s\<lparr>sr_heap := heap\<rparr>)"
proof (rule sr_invI)
  show "\<exists>g. sr_heap (s\<lparr>sr_heap := heap\<rparr>) a = Some g \<and> gw_endpoint g = ep"
    if "sr_lookup ep (s\<lparr>sr_heap := heap\<rparr>) = Some a" for ep a
    using that assms(4) sr_invD(5) [OF assms(1), of ep a] by auto
qed (use assms(2,3) sr_invD(2,3) [OF assms(1)] in auto)

lemma sr_inv_set_gateway:
  assumes "sr_inv own L s" "sr_heap s a = Some g" "gw_use_count g' = gw_use_count g"
    "gw_endpoint g' = gw_endpoint g"
  shows "sr_inv own L (sr_set_gateway a g' s)"
  unfolding sr_set_gateway_def
  by (rule sr_inv_heap [OF assms(1) refs_ok_upd [OF sr_invD(1) [OF assms(1)] assms(2,3)]])
    (use assms(2,4) sr_invD(4) [OF assms(1)] in \<open>auto split: if_splits\<close>)

lemma sr_inv_erase:
  assumes "sr_inv own L s"
  shows "sr_inv own L (sr_upd_client cl (um_erase t) s)"
proof (rule sr_invI)
  show "um_wf (sr_clients (sr_upd_client cl (um_erase t) s))"
    by (rule sr_clients_wf_upd(1)) (use sr_invD(2,3) [OF assms] in \<open>auto simp: um_wf_erase\<close>)
  show "um_wf m" if "map_of (sr_clients (sr_upd_client cl (um_erase t) s)) c = Some m" for c m
    by (rule sr_clients_wf_upd(2) [OF _ _ _ that]) (use sr_invD(2,3) [OF assms] in \<open>auto simp: um_wf_erase\<close>)
qed (use sr_invD(1,4,5) [OF assms] in \<open>auto split: if_splits\<close>)

lemma sr_inv_drop_client:
  assumes "sr_inv own L s"
  shows "sr_inv own L (s\<lparr>sr_clients := um_erase cl (sr_clients s)\<rparr>)"
proof (rule sr_invI)
  have "sr_lookup ep s = Some a" if "sr_lookup ep (s\<lparr>sr_clients := um_erase cl (sr_clients s)\<rparr>) = Some a" for ep a
    using that by (simp add: sr_lookup_def um_simps split: if_splits)
  with sr_invD(5) [OF assms] show "\<exists>g. sr_heap (s\<lparr>sr_clients := um_erase cl (sr_clients s)\<rparr>) a = Some g \<and> gw_endpoint g = ep"
    if "sr_lookup ep (s\<lparr>sr_clients := um_erase cl (sr_clients s)\<rparr>) = Some a" for ep a
    using that by simp
qed (use sr_invD(1-4) [OF assms] in \<open>auto simp: um_simps split: if_splits\<close>)

lemma sr_inv_add_client:
  assumes "sr_inv own L s"
  shows "sr_inv own L (s\<lparr>sr_clients := um_emplace cl [] (sr_clients s)\<rparr>)"
proof (rule sr_invI)
  have "sr_lookup ep s = Some a" if "sr_lookup ep (s\<lparr>sr_clients := um_emplace cl [] (sr_clients s)\<rparr>) = Some a" for ep a
    using that by (simp add: sr_lookup_def um_simps split: if_splits option.splits)
  with sr_invD(5) [OF assms] show "\<exists>g. sr_heap (s\<lparr>sr_clients := um_emplace cl [] (sr_clients s)\<rparr>) a = Some g \<and> gw_endpoint g = ep"
    if "sr_lookup ep (s\<lparr>sr_clients := um_emplace cl [] (sr_clients s)\<rparr>) = Some a" for ep a
    using that by simp
qed (use sr_invD(1-4) [OF assms] in \<open>auto simp: um_simps split: if_splits option.splits\<close>)

lemma sr_inv_lock:
  assumes "sr_inv own L s" "sr_lock a s = Some s'"
  shows "sr_inv own (add_mset a L) s'"
proof -
  from assms(2) obtain heap where heap: "heap_lock a (sr_heap s) = Some heap" "s' = s\<lparr>sr_heap := heap\<rparr>"
    by (auto simp: sr_lock_def)
  have "refs_ok (own (sr_app s) + add_mset a L) heap"
    using refs_ok_lock [OF sr_invD(1) [OF assms(1)] heap(1)] by simp
  then show ?thesis unfolding heap(2)
    by (rule sr_inv_heap [OF assms(1)])
      (use heap(1) sr_invD(4) [OF assms(1)] in \<open>auto simp: heap_lock_def split: option.splits if_splits\<close>)
qed

text \<open>The destructor: only the client maps and the pipe change.\<close>

lemma server_send_route_pipe: "\<exists>p. snd (server_send_route e cl r s) = s\<lparr>sr_pipe := p\<rparr>"
  by (auto simp: server_send_route_def tryPerformOnSerialized_def server_pipe_send_def
      split: option.splits prod.splits intro: exI [of _ "sr_pipe s"])

lemma sr_destroy_eq:
  "\<exists>p. sr_gw_destroy e g s =
     (sr_upd_client (ep_client (gw_endpoint g)) (um_erase (ep_tag (gw_endpoint g))) s)\<lparr>sr_pipe := p\<rparr>"
proof -
  let ?s = "sr_upd_client (ep_client (gw_endpoint g)) (um_erase (ep_tag (gw_endpoint g))) s"
  have same: "\<exists>p. ?s = ?s\<lparr>sr_pipe := p\<rparr>" by (rule exI [of _ "sr_pipe ?s"]) simp
  have if_case: "\<exists>p. (if b then snd (server_send_route e cl r ?s) else ?s) = ?s\<lparr>sr_pipe := p\<rparr>" for b cl r
    using server_send_route_pipe [of e cl r ?s] same by (cases b) auto
  show ?thesis
  proof (cases "map_of (sr_clients s) (ep_client (gw_endpoint g))")
    case None
    then have "?s = s" by (simp add: sr_upd_client_def)
    with None same show ?thesis by (simp add: sr_gw_destroy_def sr_onGatewayDisposal_def)
  next
    case (Some m)
    show ?thesis
      unfolding sr_gw_destroy_def sr_onGatewayDisposal_def Some option.case Let_def by (rule if_case)
  qed
qed

lemma sr_inv_release:
  assumes "sr_inv own (add_mset a L) s"
  shows "sr_ok1 own L (sr_release e a s)"
proof -
  let ?o = "own (sr_app s) + L"
  have ref: "refs_ok (add_mset a ?o) (sr_heap s)" using sr_invD(1) [OF assms] by simp
  then obtain d heap where rel: "heap_release a (sr_heap s) = Some (d, heap)"
    using heap_release_owned [of "add_mset a ?o" "sr_heap s" a] by auto
  note refs = refs_ok_release [OF ref rel]
  obtain g0 where g0: "sr_heap s a = Some g0" using refs_ok_live [OF ref, of a] by auto
  show ?thesis
  proof (cases d)
    case None
    then have "heap = (sr_heap s)(a \<mapsto> g0\<lparr>gw_use_count := gw_use_count g0 - 1\<rparr>)"
      using rel g0 by (auto simp: heap_release_def split: if_splits)
    then have "sr_inv own L (s\<lparr>sr_heap := heap\<rparr>)"
      by (intro sr_inv_heap [OF assms refs]) (use g0 sr_invD(4) [OF assms] in \<open>auto split: if_splits\<close>)
    with rel None show ?thesis by (simp add: sr_release_def)
  next
    case (Some g)
    with rel g0 have g: "g = g0" "heap = (sr_heap s)(a := None)"
      by (auto simp: heap_release_def split: if_splits)
    let ?ep = "gw_endpoint g"
    let ?s = "sr_upd_client (ep_client ?ep) (um_erase (ep_tag ?ep)) s"
    have "sr_inv own (add_mset a L) ?s" by (rule sr_inv_erase [OF assms])
    moreover have "b \<noteq> a" if "sr_lookup ep ?s = Some b" for ep b
      using that sr_invD(5) [OF assms, of ep b] g0 g(1) by (cases ?ep) (auto split: if_splits)
    ultimately have "sr_inv own L (?s\<lparr>sr_heap := heap\<rparr>)"
      using refs by (intro sr_inv_heap [of own "add_mset a L" ?s])
        (use g(2) sr_invD(4) [OF assms] in \<open>auto split: if_splits\<close>)
    moreover have "?s\<lparr>sr_heap := heap\<rparr> = sr_upd_client (ep_client ?ep) (um_erase (ep_tag ?ep)) (s\<lparr>sr_heap := heap\<rparr>)"
      by (simp add: sr_upd_client_def split: option.splits)
    moreover obtain p where "sr_gw_destroy e g (s\<lparr>sr_heap := heap\<rparr>) =
        (sr_upd_client (ep_client ?ep) (um_erase (ep_tag ?ep)) (s\<lparr>sr_heap := heap\<rparr>))\<lparr>sr_pipe := p\<rparr>"
      using sr_destroy_eq [of e g "s\<lparr>sr_heap := heap\<rparr>"] by (elim exE)
    ultimately have "sr_inv own L (sr_gw_destroy e g (s\<lparr>sr_heap := heap\<rparr>))" by simp
    with rel Some show ?thesis by (simp add: sr_release_def)
  qed
qed

interpretation sr_owner: shared_owner "sr_inv own" sr_lock "sr_release e"
  for own :: "'a \<Rightarrow> nat multiset" and e :: "'p server_env"
  by unfold_locales (rule sr_inv_lock, assumption+, rule sr_inv_release)

section \<open>Every operation is defined and keeps the invariant\<close>

lemma sr_gw_send_ok:
  assumes "sr_inv own L s" "sr_heap s a \<noteq> None"
  shows "sr_ok own L (sr_gw_send e a svc b s)"
  using assms sr_inv_set_gateway [OF assms(1)]
  by (auto simp: sr_gw_send_def tryPerformOnSerialized_def Let_def split: option.splits)

lemma sr_gw_complete_ok:
  assumes "sr_inv own L s" "sr_heap s a \<noteq> None"
  shows "sr_ok own L (sr_gw_complete e a err k s)"
  using assms sr_inv_set_gateway [OF assms(1)] by (auto simp: sr_gw_complete_def Let_def)

lemma sr_owner_live: "sr_inv own L s \<Longrightarrow> a \<in># L \<Longrightarrow> sr_heap s a \<noteq> None"
  using refs_ok_live [OF sr_invD(1)] by fastforce

lemma sr_act_locked_ok:
  assumes "sr_inv own L s"
    and "\<And>s1. sr_inv own (add_mset a L) s1 \<Longrightarrow> sr_ok own (add_mset a L) (action s1)"
  shows "sr_ok own L (sr_act_locked e a action s)"
  using assms sr_owner.bracket_ok [OF assms(1), of a _ action]
  by (auto simp: sr_act_locked_def split: option.splits)

lemma sr_findAndAct_ok:
  assumes "sr_inv own L s"
    and "\<And>a s1. sr_inv own (add_mset a L) s1 \<Longrightarrow> sr_ok own (add_mset a L) (action a s1)"
  shows "sr_ok own L (sr_findAndActOnRegisteredGateway e ep action s)"
  using assms by (auto simp: sr_findAndActOnRegisteredGateway_def sr_act_locked_ok split: option.splits)

lemma sr_handleRouteConnect_ok: "sr_inv own L s \<Longrightarrow> sr_inv own L (snd (sr_handleRouteConnect e cl s))"
  using sr_pipe_frame(2) [of own L e cl "Route_connect VERSION_MAJOR VERSION_MINOR (optErrorToDsdlError None)" s]
  by (auto simp: sr_handleRouteConnect_def Let_def sr_inv_add_client split: prod.splits simp del: sr_pipe_frame)

text \<open>A new gateway, registered for an endpoint that has no registered one.\<close>

lemma sr_inv_open:
  assumes "sr_inv own L s" "sr_lookup ep s = None"
  defines "a \<equiv> sr_next_addr s"
  defines "s1 \<equiv> s\<lparr>sr_heap := (sr_heap s)(a \<mapsto> GatewayImpl_create ep), sr_next_addr := Suc a\<rparr>"
  shows "sr_inv own (add_mset a L) (sr_upd_client (ep_client ep) (um_assign (ep_tag ep) a) s1)"
proof (rule sr_invI)
  let ?s = "sr_upd_client (ep_client ep) (um_assign (ep_tag ep) a) s1"
  have fresh: "sr_heap s a = None" using sr_invD(4) [OF assms(1), of a] by (cases "sr_heap s a") (auto simp: a_def)
  have "refs_ok (add_mset a (own (sr_app s) + L)) ((sr_heap s)(a \<mapsto> GatewayImpl_create ep))"
    using refs_ok_create [OF sr_invD(1) [OF assms(1)] fresh] .
  then show "refs_ok (own (sr_app ?s) + add_mset a L) (sr_heap ?s)" by (simp add: s1_def)
  have wf: "um_wf (sr_clients s1)" "\<And>c m. map_of (sr_clients s1) c = Some m \<Longrightarrow> um_wf m"
    using sr_invD(2,3) [OF assms(1)] by (auto simp: s1_def)
  show "um_wf (sr_clients ?s)" by (rule sr_clients_wf_upd(1)) (use wf in \<open>auto simp: um_wf_assign\<close>)
  show "um_wf m" if "map_of (sr_clients ?s) c = Some m" for c m
    by (rule sr_clients_wf_upd(2) [OF _ _ _ that]) (use wf in \<open>auto simp: um_wf_assign\<close>)
  show "b < sr_next_addr ?s" if "sr_heap ?s b = Some g" for b g
    using that sr_invD(4) [OF assms(1), of b g] by (auto simp: s1_def a_def split: if_splits)
  show "\<exists>g. sr_heap ?s b = Some g \<and> gw_endpoint g = ep'" if "sr_lookup ep' ?s = Some b" for ep' b
  proof (cases "b = a")
    case True
    moreover have "sr_lookup ep' s \<noteq> Some a" using sr_invD(5) [OF assms(1), of ep' a] fresh by auto
    ultimately have "ep' = ep" using that by (auto simp: s1_def split: if_splits)
    with True show ?thesis by (simp add: s1_def GatewayImpl_create_def)
  next
    case False
    with that have "sr_lookup ep' s = Some b" by (auto simp: s1_def split: if_splits)
    from sr_invD(5) [OF assms(1) this] fresh show ?thesis by (auto simp: s1_def)
  qed
qed

text \<open>
  The contract of the services above: event handlers and factories return and keep the
  invariant; a factory gets the gateway from an owner and may take a share of its own.
\<close>

locale server_event_handlers =
  fixes own :: "'a \<Rightarrow> nat multiset" and h :: "('p, 'f, 'h, 'a) sr_handler"
  assumes handler_ok: "sr_inv own L s \<Longrightarrow> sr_ok own L (h f ev s)"
begin

lemma owner_event_ok: "sr_inv own (add_mset a L) s \<Longrightarrow> sr_ok own (add_mset a L) (sr_gw_event h a ev s)"
  using sr_owner_live [of own "add_mset a L" s a]
  by (auto simp: sr_gw_event_def handler_ok split: option.splits)

lemma subscribe_ok:
  assumes "sr_inv own L s" "sr_heap s a \<noteq> None"
  shows "sr_ok1 own L (sr_gw_subscribe e h a f s)"
proof -
  from assms obtain g where g: "sr_heap s a = Some g" by auto
  have "sr_inv own L (sr_set_gateway a (g\<lparr>gw_event_handler := f\<rparr>) s)"
    by (rule sr_inv_set_gateway [OF assms(1) g]) simp_all
  with g show ?thesis
    by (simp add: sr_gw_subscribe_def sr_onGatewaySubscription_def sr_findAndAct_ok owner_event_ok)
qed

lemma notify_disconnected_ok:
  "sr_inv own L s \<Longrightarrow> sr_ok1 own L (sr_notify_disconnected e h gws s)"
proof (induction gws arbitrary: s)
  case (Cons gw gws)
  obtain t a where gw: "gw = (t, a)" by (cases gw)
  let ?ev = "GwCompleted (Some (mkError Disconnected)) False"
  from sr_act_locked_ok [OF Cons.prems owner_event_ok] obtain r s' where
    "sr_act_locked e a (sr_gw_event h a ?ev) s = Some (r, s')" "sr_inv own L s'" by (rule ok2E)
  with Cons.IH gw show ?case by simp
qed simp

lemma handleDisconnected_ok: "sr_inv own L s \<Longrightarrow> sr_ok own L (sr_handleDisconnected e h cl s)"
  by (auto simp: sr_handleDisconnected_def notify_disconnected_ok sr_inv_drop_client split: option.splits)

lemma handleRouteChannelEnd_ok: "sr_inv own L s \<Longrightarrow> sr_ok own L (sr_handleRouteChannelEnd e h cl t k err s)"
  by (auto simp: sr_handleRouteChannelEnd_def Let_def split: option.splits
      intro!: sr_findAndAct_ok owner_event_ok sr_inv_erase)

end

locale server_handlers = server_event_handlers own h
  for own :: "'a \<Rightarrow> nat multiset" and h :: "('p, 'f, 'h, 'a) sr_handler" +
  fixes fac :: "('p, 'f, 'h, 'a) sr_factory"
  assumes factory_ok: "sr_inv own L s \<Longrightarrow> a \<in># L \<Longrightarrow> sr_ok1 own L (fac k a p s)"
begin

lemma open_channel_ok:
  assumes "sr_inv own L s" "sr_lookup ep s = None"
  shows "sr_ok own L (sr_open_channel e fac ep f p s)"
proof -
  let ?a = "sr_next_addr s"
  let ?s1 = "s\<lparr>sr_heap := (sr_heap s)(?a \<mapsto> GatewayImpl_create ep), sr_next_addr := Suc ?a\<rparr>"
  let ?s2 = "sr_upd_client (ep_client ep) (um_assign (ep_tag ep) ?a) ?s1"
  have inv2: "sr_inv own (add_mset ?a L) ?s2" by (rule sr_inv_open [OF assms])
  obtain s3 where s3: "sr_lock ?a ?s2 = Some s3" by (auto simp: sr_lock_def heap_lock_def)
  from sr_inv_lock [OF inv2 s3] have "sr_inv own (add_mset ?a (add_mset ?a L)) s3" .
  then obtain s4 where s4: "fac f ?a p s3 = Some s4" "sr_inv own (add_mset ?a (add_mset ?a L)) s4"
    using factory_ok [of "add_mset ?a (add_mset ?a L)" s3 ?a f p] by (auto elim: ok1E)
  from sr_inv_release [OF s4(2)] obtain s5 where s5: "sr_release e ?a s4 = Some s5" "sr_inv own (add_mset ?a L) s5"
    by (rule ok1E)
  from sr_inv_release [OF s5(2)] obtain s6 where "sr_release e ?a s5 = Some s6" "sr_inv own L s6" by (rule ok1E)
  with s3 s4(1) s5(1) show ?thesis by (simp add: sr_open_channel_def Let_def)
qed

lemma handleRouteChannelMsg_ok:
  assumes "sr_inv own L s" "subspan p (of_nat (length p) - sz) \<noteq> None"
  shows "sr_ok own L (sr_handleRouteChannelMsg e h fac cl t n svc sz p s)"
proof (cases "sr_lookup (Endpoint t cl) s")
  case None
  with open_channel_ok [OF assms(1) None] assms show ?thesis
    by (auto simp: sr_handleRouteChannelMsg_def Let_def sr_lookup_def split: option.splits)
next
  case (Some a)
  then obtain m where m: "map_of (sr_clients s) cl = Some m" "map_of m t = Some a"
    by (auto simp: sr_lookup_def split: option.splits)
  from sr_invD(5) [OF assms(1) Some] obtain s1 where lock: "sr_lock a s = Some s1"
    by (auto simp: sr_lock_def heap_lock_def)
  with sr_owner.bracket_ok [OF assms(1) lock owner_event_ok] m assms(2) show ?thesis
    by (auto simp: sr_handleRouteChannelMsg_def)
qed

lemma handlePipeEvent_ok:
  assumes "sr_inv own L s"
    and "\<And>cl p t n svc sz. ev = SP_Message cl p \<Longrightarrow>
      route_deserialize (se_codec e) p = Some (Route_channel_msg t n svc sz) \<Longrightarrow>
      subspan p (of_nat (length p) - sz) \<noteq> None"
  shows "sr_ok own L (sr_handlePipeEvent e h fac ev s)"
proof (cases ev)
  case (SP_Message cl p)
  with assms show ?thesis
    by (auto simp: sr_handleMessage_def sr_handleRouteConnect_ok handleRouteChannelEnd_ok
        split: option.splits route.splits intro!: handleRouteChannelMsg_ok)
qed (use assms(1) in \<open>simp_all add: sr_handleConnected_def handleDisconnected_ok\<close>)

end

section \<open>A service that keeps its channels\<close>

text \<open>
  An application that takes every new channel, subscribes to it and records what happens:
  its state is the list of gateways its channels hold and the log. The handler of a
  channel is named by its gateway.
\<close>

datatype 'f sr_note = Opened 'f nat "byte list" | Noted nat gw_event

type_synonym 'f keeper = "nat list \<times> 'f sr_note list"

definition keep_own :: "'f keeper \<Rightarrow> nat multiset" where
  "keep_own app = mset (fst app)"

definition keep_handler :: "('p, 'f, nat, 'f keeper) sr_handler" where
  "keep_handler a ev s = Some (None, s\<lparr>sr_app := (fst (sr_app s), snd (sr_app s) @ [Noted a ev])\<rparr>)"

definition keep_factory :: "'p server_env \<Rightarrow> ('p, 'f, nat, 'f keeper) sr_factory" where
  "keep_factory e f =
     channel_factory Some
       (\<lambda>a input s. sr_gw_subscribe e keep_handler a (Some a)
          (s\<lparr>sr_app := (a # fst (sr_app s), snd (sr_app s) @ [Opened f a input])\<rparr>))"

lemma sr_inv_app:
  assumes "sr_inv own L s" "own x + L' = own (sr_app s) + L"
  shows "sr_inv own L' (s\<lparr>sr_app := x\<rparr>)"
  using assms(1) unfolding sr_inv_def by (simp add: assms(2))

interpretation keep_ev: server_event_handlers keep_own keep_handler
  by unfold_locales (auto simp: keep_handler_def keep_own_def intro!: sr_inv_app)

lemma keep_factory_ok:
  assumes inv: "sr_inv keep_own L s" and a: "a \<in># L"
  shows "sr_ok1 keep_own L (keep_factory e k a p s)"
proof -
  from sr_owner_live [OF assms] obtain s1 where lock: "sr_lock a s = Some s1"
    by (auto simp: sr_lock_def heap_lock_def)
  have inv1: "sr_inv keep_own (add_mset a L) s1" by (rule sr_inv_lock [OF inv lock])
  let ?s2 = "s1\<lparr>sr_app := (a # fst (sr_app s1), snd (sr_app s1) @ [Opened k a p])\<rparr>"
  have "sr_inv keep_own L ?s2" using inv1 by (rule sr_inv_app) (simp add: keep_own_def)
  moreover have "sr_heap ?s2 a \<noteq> None" using sr_owner_live [OF inv1] by simp
  ultimately have "sr_ok1 keep_own L (sr_gw_subscribe e keep_handler a (Some a) ?s2)"
    by (rule keep_ev.subscribe_ok)
  with lock show ?thesis by (simp add: keep_factory_def channel_factory_def)
qed

interpretation keep: server_handlers keep_own keep_handler "keep_factory e" for e :: "'p server_env"
  by unfold_locales (rule keep_factory_ok)

text \<open>Locking, telling a keeper and releasing leaves only the log changed.\<close>

lemma sr_keep_event:
  assumes "sr_heap s a = Some g" "0 < gw_use_count g" "gw_event_handler g = Some k"
  shows "sr_act_locked e a (sr_gw_event keep_handler a ev) s =
    Some (None, s\<lparr>sr_app := (fst (sr_app s), snd (sr_app s) @ [Noted k ev])\<rparr>)"
proof -
  have "(sr_heap s)(a \<mapsto> g) = sr_heap s" using assms(1) by auto
  with assms show ?thesis
    by (simp add: sr_act_locked_def sr_lock_def heap_lock_def sr_gw_event_def keep_handler_def sr_release_def
        heap_release_def)
qed

text \<open>The message handler on a registered channel, and on the first message of a new one.\<close>

lemma sr_keep_message:
  assumes "sr_lookup (Endpoint t cl) s = Some a" "sr_heap s a = Some g" "0 < gw_use_count g"
    "gw_event_handler g = Some k" "subspan p (of_nat (length p) - sz) = Some m"
  shows "sr_handleRouteChannelMsg e keep_handler fac cl t n svc sz p s =
    Some (None, s\<lparr>sr_app := (fst (sr_app s), snd (sr_app s) @ [Noted k (GwMessage n m)])\<rparr>)"
proof -
  obtain mp where "map_of (sr_clients s) cl = Some mp" "map_of mp t = Some a"
    using assms(1) by (auto simp: sr_lookup_def split: option.splits)
  with sr_keep_event [OF assms(2-4), of e "GwMessage n m"] assms(5) show ?thesis
    by (auto simp: sr_handleRouteChannelMsg_def sr_act_locked_def sr_lock_def heap_lock_def assms(2) Let_def)
qed

lemma sr_keep_open:
  assumes "map_of (sr_clients s) cl = Some mp" "map_of mp t = None" "map_of (sr_factories s) svc = Some f"
    "subspan p (of_nat (length p) - sz) = Some m"
  defines "a \<equiv> sr_next_addr s"
  defines "g \<equiv> (GatewayImpl_create (Endpoint t cl))\<lparr>gw_event_handler := Some (sr_next_addr s)\<rparr>"
  shows "sr_handleRouteChannelMsg e keep_handler (keep_factory e) cl t 0 svc sz p s =
    Some (None, (sr_upd_client cl (um_assign t a) s)\<lparr>
      sr_heap := (sr_heap s)(a \<mapsto> g), sr_next_addr := Suc a,
      sr_app := (a # fst (sr_app s), snd (sr_app s) @ [Opened f a m, Noted a GwConnected])\<rparr>)"
proof -
  have upd: "sr_upd_client cl (um_assign t a) x = x\<lparr>sr_clients := um_assign cl (um_assign t a mp) (sr_clients x)\<rparr>"
    if "sr_clients x = sr_clients s" for x :: "('a, 'b, nat, 'b keeper) server_router"
    using assms(1) that by (simp add: sr_upd_client_def)
  show ?thesis
    using assms(1-4)
    by (simp add: sr_handleRouteChannelMsg_def Let_def sr_open_channel_def upd sr_lock_def heap_lock_def
        keep_factory_def channel_factory_def sr_gw_subscribe_def sr_onGatewaySubscription_def sr_isConnected_def
        sr_findAndActOnRegisteredGateway_def sr_lookup_def um_simps sr_set_gateway_def sr_act_locked_def
        sr_gw_event_def keep_handler_def sr_release_def heap_release_def GatewayImpl_create_def
        flip: a_def) (simp add: g_def a_def GatewayImpl_create_def)
qed

section \<open>Properties\<close>

text \<open>A pipe that always accepts and records the messages by client.\<close>

definition wire_server_env :: "route_codec \<Rightarrow> (client_id \<times> byte list) list server_env" where
  "wire_server_env c =
     \<lparr>se_codec = c, se_pipe_send = (\<lambda>cl b p. (None, p @ [(cl, sb_bytes b)])), se_order = (\<lambda>gws. gws)\<rparr>"

text \<open>A server with one service, \<open>7\<close>, and one connected client, \<open>3\<close>.\<close>

definition served :: "((client_id \<times> byte list) list, nat, nat, nat keeper) server_router" where
  "served = (registerChannelFactory 7 70 (ServerRouterImpl_init [] ([], [])))\<lparr>sr_clients := [(3, [])]\<rparr>"

lemma served_inv: "sr_inv keep_own {#} served"
  by (rule sr_invI) (auto simp: served_def registerChannelFactory_def ServerRouterImpl_init_def keep_own_def
      refs_ok_def sr_lookup_def split: if_splits)

text \<open>Pipe events one after the other; the pipe logs and drops the errors.\<close>

fun sr_run ::
    "'p server_env \<Rightarrow> ('p, 'f, 'h, 'a) sr_handler \<Rightarrow> ('p, 'f, 'h, 'a) sr_factory \<Rightarrow> server_pipe_event list \<Rightarrow>
     ('p, 'f, 'h, 'a) server_router \<Rightarrow> ('p, 'f, 'h, 'a) server_router option" where
  "sr_run e h fac [] s = Some s"
| "sr_run e h fac (ev # evs) s = do { (r, s') \<leftarrow> sr_handlePipeEvent e h fac ev s; sr_run e h fac evs s' }"

text \<open>A channel message announces no more payload than it has.\<close>

fun sr_well_sized :: "route_codec \<Rightarrow> server_pipe_event \<Rightarrow> bool" where
  "sr_well_sized c (SP_Message cl p) =
     (case route_deserialize c p of
        Some (Route_channel_msg t n svc sz) \<Rightarrow> unat sz \<le> length p \<and> length p < 2 ^ 64
      | _ \<Rightarrow> True)"
| "sr_well_sized c _ = True"

lemma sr_well_sized_subspan:
  "sr_well_sized c (SP_Message cl p) \<Longrightarrow> route_deserialize c p = Some (Route_channel_msg t n svc sz) \<Longrightarrow>
   subspan p (of_nat (length p) - sz) \<noteq> None"
  using subspan_defined_iff [of p sz] by auto



text \<open>
  C39. A peer can drive the server router into undefined behaviour with one message: a
  \<open>payload_size\<close> larger than the message makes \<open>subspan\<close> leave the buffer, even from a
  client that has not connected; with any other size the message is handled.
\<close>

theorem server_oversized_msg_undefined:
  assumes "length p < 2 ^ 64" "route_deserialize (se_codec e) p = Some (Route_channel_msg tag n svc sz)"
    and "server_handlers own h fac" "sr_inv own L s"
  shows "sr_handlePipeEvent e h fac (SP_Message cl p) s = None \<longleftrightarrow> length p < unat sz"
proof (cases "length p < unat sz")
  case True
  with subspan_defined_iff [OF assms(1), of sz] have "subspan p (of_nat (length p) - sz) = None" by simp
  with True assms(2) show ?thesis by (simp add: sr_handleMessage_def sr_handleRouteChannelMsg_def)
next
  case False
  with subspan_defined_iff [OF assms(1), of sz] have "subspan p (of_nat (length p) - sz) \<noteq> None" by simp
  from server_handlers.handleRouteChannelMsg_ok [OF assms(3,4) this]
  have "sr_ok own L (sr_handlePipeEvent e h fac (SP_Message cl p) s)" using assms(2) by (simp add: sr_handleMessage_def)
  with False show ?thesis by (auto simp: ok2_def)
qed

theorem server_oversized_msg_undefined_witness:
  "sr_handlePipeEvent (wire_server_env dsdl_codec) keep_handler (keep_factory (wire_server_env dsdl_codec))
     (SP_Message 99 (dsdl_route_bytes (Route_channel_msg 0 0 7 1000))) served = None"
proof -
  have "route_deserialize (se_codec (wire_server_env dsdl_codec)) (dsdl_route_bytes (Route_channel_msg 0 0 7 1000))
      = Some (Route_channel_msg 0 0 7 1000)"
    using dsdl_codec_read [of _ "[]"] by (simp only: wire_server_env_def server_env.simps append_Nil2)
  from server_oversized_msg_undefined [OF _ this keep.server_handlers_axioms served_inv] show ?thesis by simp
qed

text \<open>
  Only the first message of a channel opens it: a message from a client that has not
  connected, or for no registered gateway and with a sequence number other than zero or an
  unknown service id, is ignored without any effect.
\<close>

theorem server_ignores_unsolicited:
  assumes "route_deserialize (se_codec e) p = Some (Route_channel_msg tag n svc sz)"
    and "unat sz \<le> length p" "length p < 2 ^ 64"
    and "map_of (sr_clients s) cl = None \<or>
      sr_lookup (Endpoint tag cl) s = None \<and> (n \<noteq> 0 \<or> map_of (sr_factories s) svc = None)"
  shows "sr_handlePipeEvent e h fac (SP_Message cl p) s = Some (None, s)"
proof -
  obtain m where "subspan p (of_nat (length p) - sz) = Some m"
    using subspan_defined_iff [OF assms(3), of sz] assms(2) by auto
  with assms(1,4) show ?thesis
    by (auto simp: sr_handleMessage_def sr_handleRouteChannelMsg_def sr_lookup_def Let_def split: option.splits)
qed

theorem server_ignores_unsolicited_witness:
  "sr_handlePipeEvent (wire_server_env dsdl_codec) keep_handler (keep_factory (wire_server_env dsdl_codec))
     (SP_Message 3 (dsdl_route_bytes (Route_channel_msg 5 1 7 0))) served = Some (None, served)"
proof -
  have "route_deserialize (se_codec (wire_server_env dsdl_codec)) (dsdl_route_bytes (Route_channel_msg 5 1 7 0))
      = Some (Route_channel_msg 5 1 7 0)"
    using dsdl_codec_read [of _ "[]"] by (simp only: wire_server_env_def server_env.simps append_Nil2)
  then show ?thesis
    by (rule server_ignores_unsolicited) (simp_all add: served_def sr_lookup_def registerChannelFactory_def ServerRouterImpl_init_def)
qed

text \<open>The log entry of one event on the gateway at an address.\<close>

definition keep_notes :: "(sr_endpoint, nat) gw_heap \<Rightarrow> gw_event \<Rightarrow> nat \<Rightarrow> 'f sr_note list" where
  "keep_notes heap ev a =
     (case heap a of Some g \<Rightarrow> (case gw_event_handler g of Some k \<Rightarrow> [Noted k ev] | None \<Rightarrow> []) | None \<Rightarrow> [])"

lemma sr_notify_keep:
  assumes "\<And>t a. (t, a) \<in> set gws \<Longrightarrow> \<exists>g. sr_heap s a = Some g \<and> 0 < gw_use_count g"
  shows "sr_notify_disconnected e keep_handler gws s =
    Some (s\<lparr>sr_app := (fst (sr_app s), snd (sr_app s) @
      concat (map (keep_notes (sr_heap s) (GwCompleted (Some (mkError Disconnected)) False)) (map snd gws)))\<rparr>)"
  using assms
proof (induction gws arbitrary: s)
  case (Cons gw gws)
  obtain t a where gw: "gw = (t, a)" by (cases gw)
  with Cons.prems obtain g where g: "sr_heap s a = Some g" "0 < gw_use_count g" by auto
  let ?ev = "GwCompleted (Some (mkError Disconnected)) False"
  let ?s = "s\<lparr>sr_app := (fst (sr_app s), snd (sr_app s) @ keep_notes (sr_heap s) ?ev a)\<rparr>"
  have "sr_act_locked e a (sr_gw_event keep_handler a ?ev) s = Some (None, ?s)"
  proof (cases "gw_event_handler g")
    case None
    have "(sr_heap s)(a \<mapsto> g) = sr_heap s" using g by auto
    with None g show ?thesis
      by (simp add: keep_notes_def sr_act_locked_def sr_lock_def heap_lock_def sr_gw_event_def sr_release_def
          heap_release_def)
  next
    case (Some k)
    with sr_keep_event [OF g Some] g show ?thesis by (simp add: keep_notes_def)
  qed
  moreover have "sr_notify_disconnected e keep_handler gws ?s = Some (?s\<lparr>sr_app := (fst (sr_app ?s), snd (sr_app ?s) @
      concat (map (keep_notes (sr_heap ?s) ?ev) (map snd gws)))\<rparr>)"
    by (rule Cons.IH) (use Cons.prems gw in auto)
  ultimately show ?case by (simp add: gw)
qed simp

text \<open>
  When a client goes away, its map of gateways is removed first, then each of its
  gateways, and no gateway of another client, gets exactly one \<open>Completed\<close> event with the
  error \<open>Disconnected\<close>; the maps of the other clients are untouched and nothing is sent.
\<close>

theorem server_disconnect_notifies_client:
  assumes "sr_inv keep_own L s" "map_of (sr_clients s) cl = Some m" "is_order (se_order e)"
  shows "\<exists>gws. mset gws = mset m \<and> sr_handlePipeEvent e keep_handler fac (SP_Disconnected cl) s =
    Some (None, s\<lparr>sr_clients := um_erase cl (sr_clients s),
      sr_app := (fst (sr_app s), snd (sr_app s) @
        concat (map (keep_notes (sr_heap s) (GwCompleted (Some (mkError Disconnected)) False)) (map snd gws)))\<rparr>)"
proof -
  let ?gws = "se_order e m"
  have live: "\<exists>g. sr_heap s a = Some g \<and> 0 < gw_use_count g" if "(t, a) \<in> set ?gws" for t a
  proof -
    have "map_of m t = Some a"
      using that is_order_set [OF assms(3)] sr_invD(3) [OF assms(1,2)] by (simp add: map_of_eq_Some_iff)
    then have "sr_lookup (Endpoint t cl) s = Some a" using assms(2) by (simp add: sr_lookup_def)
    with sr_invD(5) [OF assms(1)] refs_ok_pos [OF sr_invD(1) [OF assms(1)]] show ?thesis by blast
  qed
  have "sr_notify_disconnected e keep_handler ?gws (s\<lparr>sr_clients := um_erase cl (sr_clients s)\<rparr>) =
      Some (s\<lparr>sr_clients := um_erase cl (sr_clients s), sr_app := (fst (sr_app s), snd (sr_app s) @
        concat (map (keep_notes (sr_heap s) (GwCompleted (Some (mkError Disconnected)) False)) (map snd ?gws)))\<rparr>)"
    by (subst sr_notify_keep) (use live in auto)
  moreover have "mset ?gws = mset m" using assms(3) by (simp add: is_order_def)
  ultimately show ?thesis
    using assms(2) by (intro exI [of _ ?gws]) (simp add: sr_handleDisconnected_def)
qed

theorem server_disconnect_notifies_client_witness:
  "sr_handlePipeEvent (wire_server_env dsdl_codec) keep_handler (keep_factory (wire_server_env dsdl_codec))
     (SP_Disconnected 3) served = Some (None, served\<lparr>sr_clients := []\<rparr>)"
proof -
  let ?e = "wire_server_env dsdl_codec"
  have *: "map_of (sr_clients served) 3 = Some []" "um_erase 3 (sr_clients served) = []"
    by (simp_all add: served_def)
  have ord: "is_order (se_order ?e)" by (simp add: wire_server_env_def is_order_id)
  obtain gws where "mset gws = mset ([] :: (u64 \<times> nat) list)"
    "sr_handlePipeEvent ?e keep_handler (keep_factory ?e) (SP_Disconnected 3) served =
      Some (None, served\<lparr>sr_clients := [], sr_app := (fst (sr_app served), snd (sr_app served) @
        concat (map (keep_notes (sr_heap served) (GwCompleted (Some (mkError Disconnected)) False)) (map snd gws)))\<rparr>)"
    using server_disconnect_notifies_client [OF served_inv *(1) ord, of "keep_factory ?e"] unfolding *(2) by blast
  then show ?thesis by simp
qed

text \<open>
  A stale gateway takes a newer one down: when two live gateways were made for the
  same endpoint and the newer one is registered, the end of the older one unregisters the
  newer and tells the client that the channel has ended; the newer gateway can no longer
  send although nobody closed it.
\<close>

theorem stale_disposal_unregisters_new:
  assumes "sr_inv own (add_mset a L) s" "a \<notin># own (sr_app s) + L" "b \<noteq> a"
    and "sr_heap s a = Some g" "sr_lookup (gw_endpoint g) s = Some b"
    and "route_serialize (se_codec e) (Route_channel_end (ep_tag (gw_endpoint g)) False
      (optErrorToDsdlError (gw_completion_opt_error g))) = Some bs"
  shows "\<exists>s'. sr_release e a s = Some s' \<and> sr_lookup (gw_endpoint g) s' = None
    \<and> sr_pipe s' = snd (se_pipe_send e (ep_client (gw_endpoint g)) (SocketBuffer_of (Span bs)) (sr_pipe s))
    \<and> (\<forall>svc buf. sr_gw_send e b svc buf s' = Some (Some (mkError Shutdown), s'))"
proof -
  let ?ep = "gw_endpoint g"
  have "gw_use_count g = count (add_mset a (own (sr_app s) + L)) a"
    using refs_ok_count [OF sr_invD(1) [OF assms(1)] assms(4)] by simp
  with assms(2) have one: "gw_use_count g \<le> 1" by (simp add: not_in_iff)
  obtain m where m: "map_of (sr_clients s) (ep_client ?ep) = Some m" "map_of m (ep_tag ?ep) = Some b"
    using assms(5) by (auto simp: sr_lookup_def split: option.splits)
  from sr_invD(5) [OF assms(1,5)] obtain gb where gb: "sr_heap s b = Some gb" "gw_endpoint gb = ?ep" by blast
  define t where "t = sr_upd_client (ep_client ?ep) (um_erase (ep_tag ?ep)) (s\<lparr>sr_heap := (sr_heap s)(a := None)\<rparr>)"
  let ?s' = "t\<lparr>sr_pipe := snd (se_pipe_send e (ep_client ?ep) (SocketBuffer_of (Span bs)) (sr_pipe s))\<rparr>"
  have t: "sr_pipe t = sr_pipe s" "sr_heap t b = Some gb" "sr_lookup ?ep t = None"
    "map_of (sr_clients t) (ep_client ?ep) \<noteq> None"
    using gb assms(3) m by (simp_all add: t_def)
  have "sr_release e a s = Some ?s'"
    using one assms(4,6) m t
    by (simp add: sr_release_def heap_release_def sr_gw_destroy_def sr_onGatewayDisposal_def Let_def
        sr_isConnected_def server_send_route_def tryPerformOnSerialized_def server_pipe_send_def
        split: prod.splits flip: t_def)
  moreover have "sr_gw_send e b svc buf ?s' = Some (Some (mkError Shutdown), ?s')" for svc buf
    using t gb(2) by (simp add: sr_gw_send_def sr_isConnected_def sr_isRegisteredGateway_def)
  ultimately show ?thesis using t by simp
qed

definition two_of_an_endpoint :: "((client_id \<times> byte list) list, unit, unit, unit) server_router" where
  "two_of_an_endpoint =
     \<lparr>sr_pipe = [], sr_clients = [(3, [(5, 1)])], sr_factories = [],
      sr_heap = [0 \<mapsto> GatewayImpl_create (Endpoint 5 3), 1 \<mapsto> GatewayImpl_create (Endpoint 5 3)],
      sr_next_addr = 2, sr_app = ()\<rparr>"

lemma two_of_an_endpoint_inv: "sr_inv (\<lambda>_. {#}) {#0, 1#} two_of_an_endpoint"
proof -
  have "refs_ok {#} (\<lambda>_. None :: (sr_endpoint, unit) gateway option)" by (simp add: refs_ok_def)
  from refs_ok_create [OF this, of 0 "Endpoint 5 3"]
  have "refs_ok {#0#} [0 \<mapsto> GatewayImpl_create (Endpoint 5 3) :: (sr_endpoint, unit) gateway]" by simp
  from refs_ok_create [OF this, of 1 "Endpoint 5 3"]
  have "refs_ok {#0, 1#} (sr_heap two_of_an_endpoint)" by (simp add: two_of_an_endpoint_def add_mset_commute)
  then show ?thesis
    by (intro sr_invI) (auto simp: two_of_an_endpoint_def sr_lookup_def GatewayImpl_create_def split: if_splits
        intro: sr_endpoint.expand)
qed

theorem stale_disposal_unregisters_new_witness:
  "\<exists>s'. sr_release (wire_server_env dsdl_codec) 0 two_of_an_endpoint = Some s' \<and>
     sr_gw_send (wire_server_env dsdl_codec) 1 7 SocketBuffer_empty s' = Some (Some (mkError Shutdown), s')"
proof -
  let ?g = "GatewayImpl_create (Endpoint 5 3) :: unit server_gateway"
  have heap: "sr_heap two_of_an_endpoint 0 = Some ?g" "sr_lookup (gw_endpoint ?g) two_of_an_endpoint = Some 1"
    by (simp_all add: two_of_an_endpoint_def sr_lookup_def GatewayImpl_create_def)
  have inv: "sr_inv (\<lambda>_. {#}) (add_mset 0 {#1#}) two_of_an_endpoint"
    using two_of_an_endpoint_inv by simp
  have "\<exists>bs. route_serialize (se_codec (wire_server_env dsdl_codec)) (Route_channel_end (ep_tag (gw_endpoint ?g)) False
      (optErrorToDsdlError (gw_completion_opt_error ?g))) = Some bs"
    by (simp add: wire_server_env_def dsdl_codec_def)
  then obtain bs where ser: "route_serialize (se_codec (wire_server_env dsdl_codec))
      (Route_channel_end (ep_tag (gw_endpoint ?g)) False
      (optErrorToDsdlError (gw_completion_opt_error ?g))) = Some bs" by blast
  from stale_disposal_unregisters_new [OF inv _ _ heap ser] show ?thesis by auto
qed

end
