(* ===== verification/Socket_Pipes.thy ===== *)
theory Socket_Pipes
  imports Socket_Base Socket_Address Client_Router Server_Router
begin

text \<open>
  \<^verbatim>\<open>src/common/ipc/pipe/socket_client.cpp\<close>, \<^verbatim>\<open>socket_server.cpp\<close> and \<^verbatim>\<open>client_context.hpp\<close>: the
  two ends of the IPC stream.

  The executor calls a registered callback when its descriptor is ready; \<open>client_ready\<close>
  and \<open>server_ready\<close> are such calls. Every handler calls the event handler of the router
  at most once, as its last action and with its state stored, so a handler returns the
  event, which the router then takes (\<open>cr_handlePipeEvent\<close>, \<open>sr_handlePipeEvent\<close>). \<open>None\<close>
  is a system call that is interrupted for ever, or the use of a null pointer.
\<close>

record 'w pipe_sys = "'w sock_sys" +
  sys_recv :: "'w recv_call"
  sys_send :: "'w send_call"

section \<open>The client\<close>

text \<open>What \<open>socket_callback_\<close> waits for, with the descriptor it was registered for.\<close>

datatype client_callback = AwaitConnect int | AwaitReceive int

record socket_client =
  sc_address :: socket_address
  sc_io :: io_state
  sc_callback :: "client_callback option"

definition SocketClient_make :: "socket_address \<Rightarrow> socket_client" where
  "SocketClient_make address = \<lparr>sc_address = address, sc_io = IoState_init, sc_callback = None\<rparr>"

definition SocketClient_makeSocketHandle ::
    "('w, 'z) pipe_sys_scheme \<Rightarrow> socket_client \<Rightarrow> 'w \<Rightarrow> (opt_error \<times> socket_client \<times> 'w) option" where
  "SocketClient_makeSocketHandle sys c w =
     (case SocketAddress_socket sys SOCK_STREAM (sc_address c) w of
        None \<Rightarrow> None
      | Some (Inl failure, w1) \<Rightarrow> Some (Some failure, c, w1)
      | Some (Inr socket_fd, w1) \<Rightarrow>
          (case SocketAddress_connect sys socket_fd (sc_address c) w1 of
             None \<Rightarrow> None
           | Some (opt_error, w2) \<Rightarrow>
               if (case opt_error of Some e \<Rightarrow> OperationInProgress \<noteq> getCode e | None \<Rightarrow> False)
               then Some (opt_error, c, OwnedFd_destroy (sys_close sys) socket_fd w2)
               else let (fd, rest, w3) = OwnedFd_move_assign (sys_close sys) (io_fd (sc_io c)) socket_fd w2
                    in Some (None, c\<lparr>sc_io := (sc_io c)\<lparr>io_fd := fd\<rparr>\<rparr>, OwnedFd_destroy (sys_close sys) rest w3)))"

definition SocketClient_start ::
    "('w, 'z) pipe_sys_scheme \<Rightarrow> socket_client \<Rightarrow> 'w \<Rightarrow> (opt_error \<times> socket_client \<times> 'w) option" where
  "SocketClient_start sys c w =
     (case SocketClient_makeSocketHandle sys c w of
        None \<Rightarrow> None
      | Some (Some e, c1, w1) \<Rightarrow> Some (Some e, c1, w1)
      | Some (None, c1, w1) \<Rightarrow> Some (None, c1\<lparr>sc_callback := Some (AwaitConnect (io_fd (sc_io c1)))\<rparr>, w1))"

definition SocketClient_send ::
    "('w, 'z) pipe_sys_scheme \<Rightarrow> socket_client \<Rightarrow> socket_buffer \<Rightarrow> 'w \<Rightarrow> (opt_error \<times> socket_buffer \<times> 'w) option" where
  "SocketClient_send sys c sock_buff w = SocketBase_send (sys_send sys) (sc_io c) sock_buff w"

text \<open>A second way to connect, with a raw address; nothing calls it.\<close>

definition SocketClient_connectSocket ::
    "('w, 'z) pipe_sys_scheme \<Rightarrow> int \<Rightarrow> byte list \<Rightarrow> nat \<Rightarrow> 'w \<Rightarrow> (opt_error \<times> 'w) option" where
  "SocketClient_connectSocket sys fd addr addr_size w =
     map_option (\<lambda>(r, w'). (case r of
          SysErr err \<Rightarrow> if err \<noteq> EINPROGRESS then Some (errnoToError err) else None
        | SysOk _ \<Rightarrow> None, w'))
       (posixSyscallError (sys_connect sys fd addr addr_size) w)"

definition SocketClient_handleDisconnect ::
    "('w, 'z) pipe_sys_scheme \<Rightarrow> socket_client \<Rightarrow> 'w \<Rightarrow> client_pipe_event \<times> socket_client \<times> 'w" where
  "SocketClient_handleDisconnect sys c w =
     (let (fd, w') = OwnedFd_reset (sys_close sys) (io_fd (sc_io c)) w
      in (CP_Disconnected,
          c\<lparr>sc_callback := None,
            sc_io := (sc_io c)\<lparr>io_fd := fd, rx_partial_size := 0, rx_msg_part := MsgHeader_init\<rparr>\<rparr>, w'))"

definition SocketClient_handleConnect ::
    "('w, 'z) pipe_sys_scheme \<Rightarrow> socket_client \<Rightarrow> 'w \<Rightarrow> (client_pipe_event \<times> socket_client \<times> 'w) option" where
  "SocketClient_handleConnect sys c w =
     (let c0 = c\<lparr>sc_callback := None\<rparr>
      in case posixSyscallError (sys_getsockopt_error sys (io_fd (sc_io c0))) w of
           None \<Rightarrow> None
         | Some (r, w1) \<Rightarrow>
             let so_error = (case r of SysErr err \<Rightarrow> err | SysOk pending \<Rightarrow> pending)
             in if so_error \<noteq> 0 then Some (SocketClient_handleDisconnect sys c0 w1)
                else Some (CP_Connected, c0\<lparr>sc_callback := Some (AwaitReceive (io_fd (sc_io c0)))\<rparr>, w1))"

definition SocketClient_handleReceive ::
    "('w, 'z) pipe_sys_scheme \<Rightarrow> socket_client \<Rightarrow> 'w \<Rightarrow> (client_pipe_event option \<times> socket_client \<times> 'w) option" where
  "SocketClient_handleReceive sys c w =
     (case receiveData (sys_recv sys) (sc_io c) w of
        None \<Rightarrow> None
      | Some (Some e, io', dlv, w') \<Rightarrow>
          Some (apfst Some (SocketClient_handleDisconnect sys (c\<lparr>sc_io := io'\<rparr>) w'))
      | Some (None, io', dlv, w') \<Rightarrow> Some (map_option CP_Message dlv, c\<lparr>sc_io := io'\<rparr>, w'))"

text \<open>The executor finds the descriptor of the registered callback ready.\<close>

definition client_ready ::
    "('w, 'z) pipe_sys_scheme \<Rightarrow> socket_client \<Rightarrow> 'w \<Rightarrow> (client_pipe_event option \<times> socket_client \<times> 'w) option" where
  "client_ready sys c w =
     (case sc_callback c of
        None \<Rightarrow> Some (None, c, w)
      | Some (AwaitConnect fd) \<Rightarrow> map_option (apfst Some) (SocketClient_handleConnect sys c w)
      | Some (AwaitReceive fd) \<Rightarrow> SocketClient_handleReceive sys c w)"

fun client_session ::
    "('w, 'z) pipe_sys_scheme \<Rightarrow> nat \<Rightarrow> socket_client \<Rightarrow> 'w \<Rightarrow> (client_pipe_event list \<times> socket_client \<times> 'w) option" where
  "client_session sys 0 c w = Some ([], c, w)"
| "client_session sys (Suc n) c w = do {
     (ev, c', w') \<leftarrow> client_ready sys c w;
     (evs, c'', w'') \<leftarrow> client_session sys n c' w';
     Some ((case ev of None \<Rightarrow> [] | Some x \<Rightarrow> [x]) @ evs, c'', w'')
   }"

section \<open>The server\<close>

record client_context =
  cc_id :: client_id
  cc_io :: io_state
  cc_callback :: "int option"

record socket_server =
  ss_fd :: owned_fd
  ss_address :: socket_address
  ss_unique_client_id_counter :: client_id
  ss_accept_callback :: "int option"
  ss_clients :: "(client_id, client_context) umap"

definition MaxConnections :: nat where "MaxConnections = 32"

definition ClientContext_make :: "client_id \<Rightarrow> owned_fd \<Rightarrow> client_context" where
  "ClientContext_make cid fd = \<lparr>cc_id = cid, cc_io = IoState_init\<lparr>io_fd := fd\<rparr>, cc_callback = None\<rparr>"

definition setCallback :: "int option \<Rightarrow> client_context \<Rightarrow> client_context" where
  "setCallback fd_callback cc = cc\<lparr>cc_callback := fd_callback\<rparr>"

text \<open>The end of a context: its callback is unregistered and its descriptor closed.\<close>

definition ClientContext_destroy :: "('w, 'z) pipe_sys_scheme \<Rightarrow> client_context \<Rightarrow> 'w \<Rightarrow> 'w" where
  "ClientContext_destroy sys cc w = OwnedFd_destroy (sys_close sys) (io_fd (cc_io cc)) w"

definition SocketServer_make :: "socket_address \<Rightarrow> socket_server" where
  "SocketServer_make address =
     \<lparr>ss_fd = OwnedFd_empty, ss_address = address, ss_unique_client_id_counter = 0,
      ss_accept_callback = None, ss_clients = []\<rparr>"

definition SocketServer_makeSocketHandle ::
    "('w, 'z) pipe_sys_scheme \<Rightarrow> socket_server \<Rightarrow> 'w \<Rightarrow> (opt_error \<times> socket_server \<times> 'w) option" where
  "SocketServer_makeSocketHandle sys s w =
     (case SocketAddress_socket sys SOCK_STREAM (ss_address s) w of
        None \<Rightarrow> None
      | Some (Inl failure, w1) \<Rightarrow> Some (Some failure, s, w1)
      | Some (Inr socket_fd, w1) \<Rightarrow>
          (case posixSyscallError (sys_setsockopt sys socket_fd SO_REUSEADDR 1) w1 of
             None \<Rightarrow> None
           | Some (SysErr err, w2) \<Rightarrow>
               Some (Some (errnoToError err), s, OwnedFd_destroy (sys_close sys) socket_fd w2)
           | Some (SysOk _, w2) \<Rightarrow>
               (case SocketAddress_bind sys socket_fd (ss_address s) w2 of
                  None \<Rightarrow> None
                | Some (Some e, w3) \<Rightarrow> Some (Some e, s, OwnedFd_destroy (sys_close sys) socket_fd w3)
                | Some (None, w3) \<Rightarrow>
                    let (fd, rest, w4) = OwnedFd_move_assign (sys_close sys) (ss_fd s) socket_fd w3
                    in Some (None, s\<lparr>ss_fd := fd\<rparr>, OwnedFd_destroy (sys_close sys) rest w4))))"

definition SocketServer_start ::
    "('w, 'z) pipe_sys_scheme \<Rightarrow> socket_server \<Rightarrow> 'w \<Rightarrow> (opt_error \<times> socket_server \<times> 'w) option" where
  "SocketServer_start sys s w =
     (case SocketServer_makeSocketHandle sys s w of
        None \<Rightarrow> None
      | Some (Some e, s1, w1) \<Rightarrow> Some (Some e, s1, w1)
      | Some (None, s1, w1) \<Rightarrow>
          (case posixSyscallError (sys_listen sys (ss_fd s1) MaxConnections) w1 of
             None \<Rightarrow> None
           | Some (SysErr err, w2) \<Rightarrow> Some (Some (errnoToError err), s1, w2)
           | Some (SysOk _, w2) \<Rightarrow> Some (None, s1\<lparr>ss_accept_callback := Some (ss_fd s1)\<rparr>, w2)))"

definition tryFindClientContext :: "client_id \<Rightarrow> socket_server \<Rightarrow> client_context option" where
  "tryFindClientContext client_id s = map_of (ss_clients s) client_id"

definition SocketServer_send ::
    "('w, 'z) pipe_sys_scheme \<Rightarrow> client_id \<Rightarrow> socket_buffer \<Rightarrow> socket_server \<Rightarrow> 'w \<Rightarrow>
     (opt_error \<times> socket_buffer \<times> 'w) option" where
  "SocketServer_send sys client_id sock_buff s w =
     (case tryFindClientContext client_id s of
        Some client_context \<Rightarrow> SocketBase_send (sys_send sys) (cc_io client_context) sock_buff w
      | None \<Rightarrow> Some (Some (mkError InvalidArgument), sock_buff, w))"

definition SocketServer_handleAccept ::
    "('w, 'z) pipe_sys_scheme \<Rightarrow> socket_server \<Rightarrow> 'w \<Rightarrow> (server_pipe_event option \<times> socket_server \<times> 'w) option" where
  "SocketServer_handleAccept sys s w =
     (case SocketAddress_accept sys (ss_fd s) SocketAddress_init w of
        None \<Rightarrow> None
      | Some (client_address, None, w1) \<Rightarrow> Some (None, s, w1)
      | Some (client_address, Some client_fd, w1) \<Rightarrow>
          let new_client_id = ss_unique_client_id_counter s + 1;
              client_context = setCallback (Some client_fd) (ClientContext_make new_client_id client_fd);
              w2 = (if map_of (ss_clients s) new_client_id = None then w1
                    else ClientContext_destroy sys client_context w1)
          in Some (Some (SP_Connected new_client_id),
                   s\<lparr>ss_unique_client_id_counter := new_client_id,
                     ss_clients := um_emplace new_client_id client_context (ss_clients s)\<rparr>, w2))"

definition SocketServer_handleClientRequest ::
    "('w, 'z) pipe_sys_scheme \<Rightarrow> client_id \<Rightarrow> socket_server \<Rightarrow> 'w \<Rightarrow> (server_pipe_event option \<times> socket_server \<times> 'w) option" where
  "SocketServer_handleClientRequest sys client_id s w =
     (case tryFindClientContext client_id s of
        None \<Rightarrow> None
      | Some client_context \<Rightarrow>
          (case receiveData (sys_recv sys) (cc_io client_context) w of
             None \<Rightarrow> None
           | Some (Some e, io', dlv, w1) \<Rightarrow>
               Some (Some (SP_Disconnected client_id),
                     s\<lparr>ss_clients := um_erase client_id (ss_clients s)\<rparr>,
                     ClientContext_destroy sys (client_context\<lparr>cc_io := io'\<rparr>) w1)
           | Some (None, io', dlv, w1) \<Rightarrow>
               Some (map_option (SP_Message client_id) dlv,
                     s\<lparr>ss_clients := um_assign client_id (client_context\<lparr>cc_io := io'\<rparr>) (ss_clients s)\<rparr>, w1)))"

text \<open>
  The executor finds the listening socket or the socket of a client ready; only registered
  callbacks are called.
\<close>

datatype server_trigger = AcceptReady | ClientReady client_id

fun server_ready ::
    "('w, 'z) pipe_sys_scheme \<Rightarrow> server_trigger \<Rightarrow> socket_server \<Rightarrow> 'w \<Rightarrow>
     (server_pipe_event option \<times> socket_server \<times> 'w) option" where
  "server_ready sys AcceptReady s w =
     (if ss_accept_callback s = None then Some (None, s, w) else SocketServer_handleAccept sys s w)"
| "server_ready sys (ClientReady cl) s w =
     (case map_of (ss_clients s) cl of
        Some cc \<Rightarrow> if cc_callback cc = None then Some (None, s, w) else SocketServer_handleClientRequest sys cl s w
      | None \<Rightarrow> Some (None, s, w))"

fun server_session ::
    "('w, 'z) pipe_sys_scheme \<Rightarrow> server_trigger list \<Rightarrow> socket_server \<Rightarrow> 'w \<Rightarrow>
     (server_pipe_event list \<times> socket_server \<times> 'w) option" where
  "server_session sys [] s w = Some ([], s, w)"
| "server_session sys (tr # trs) s w = do {
     (ev, s', w') \<leftarrow> server_ready sys tr s w;
     (evs, s'', w'') \<leftarrow> server_session sys trs s' w';
     Some ((case ev of None \<Rightarrow> [] | Some x \<Rightarrow> [x]) @ evs, s'', w'')
   }"


section \<open>What the pipes rely on\<close>

text \<open>
  No system call is interrupted for ever, and \<open>accept\<close> does not fail with a temporary
  error for ever.
\<close>

definition returns_law :: "('w, 'z) pipe_sys_scheme \<Rightarrow> bool" where
  "returns_law sys \<longleftrightarrow>
     (\<forall>f t w. posixSyscallError (sys_socket sys f t) w \<noteq> None) \<and>
     (\<forall>fd w. posixSyscallError (sys_fcntl_nonblock sys fd) w \<noteq> None) \<and>
     (\<forall>fd opt v w. posixSyscallError (sys_setsockopt sys fd opt v) w \<noteq> None) \<and>
     (\<forall>fd st l w. posixSyscallError (sys_connect sys fd st l) w \<noteq> None) \<and>
     (\<forall>fd w. posixSyscallError (sys_getsockopt_error sys fd) w \<noteq> None) \<and>
     (\<forall>fd n w. posixSyscallError (sys_recv sys fd n) w \<noteq> None) \<and>
     (\<forall>fd a w. SocketAddress_accept sys fd a w \<noteq> None) \<and>
     (\<forall>fd st l w. posixSyscallError (sys_bind sys fd st l) w \<noteq> None) \<and>
     (\<forall>fd n w. posixSyscallError (sys_listen sys fd n) w \<noteq> None)"

text \<open>
  Stream sockets: \<open>strm fd w\<close> are the bytes still to come on a descriptor. \<open>recv\<close> takes the
  next ones of its own descriptor; the other calls touch no stream of an open descriptor.
\<close>

definition stream_law :: "('w, 'z) pipe_sys_scheme \<Rightarrow> ('w \<Rightarrow> int set) \<Rightarrow> (int \<Rightarrow> 'w \<Rightarrow> byte list) \<Rightarrow> bool" where
  "stream_law sys opened strm \<longleftrightarrow>
     (\<forall>fd n w. opened (snd (sys_recv sys fd n w)) = opened w) \<and>
     (\<forall>fd n w bs w'. sys_recv sys fd n w = (SysOk bs, w') \<longrightarrow> length bs \<le> n \<and> strm fd w = bs @ strm fd w') \<and>
     (\<forall>fd n w err w'. sys_recv sys fd n w = (SysErr err, w') \<longrightarrow> strm fd w' = strm fd w) \<and>
     (\<forall>fd fd' n w. fd' \<noteq> fd \<longrightarrow> strm fd' (snd (sys_recv sys fd n w)) = strm fd' w) \<and>
     (\<forall>sfd n w fd'. fd' \<in> opened w \<longrightarrow> strm fd' (snd (sys_accept sys sfd n w)) = strm fd' w) \<and>
     (\<forall>fd w fd'. strm fd' (snd (sys_fcntl_nonblock sys fd w)) = strm fd' w) \<and>
     (\<forall>fd opt v w fd'. strm fd' (snd (sys_setsockopt sys fd opt v w)) = strm fd' w) \<and>
     (\<forall>fd w fd'. fd' \<noteq> fd \<longrightarrow> strm fd' (sys_close sys fd w) = strm fd' w) \<and>
     (\<forall>fd w fd'. strm fd' (snd (sys_getsockopt_error sys fd w)) = strm fd' w)"

lemma returns_lawD:
  assumes "returns_law sys"
  shows "posixSyscallError (sys_socket sys f t) w \<noteq> None"
    "posixSyscallError (sys_fcntl_nonblock sys fd) w \<noteq> None"
    "posixSyscallError (sys_setsockopt sys fd opt v) w \<noteq> None"
    "posixSyscallError (sys_connect sys fd st l) w \<noteq> None"
    "posixSyscallError (sys_getsockopt_error sys fd) w \<noteq> None"
    "posixSyscallError (sys_recv sys fd n) w \<noteq> None"
    "SocketAddress_accept sys fd a w \<noteq> None"
    "posixSyscallError (sys_bind sys fd st l) w \<noteq> None"
    "posixSyscallError (sys_listen sys fd n) w \<noteq> None"
  using assms unfolding returns_law_def by simp_all

lemma stream_lawD:
  assumes "stream_law sys opened strm"
  shows "opened (snd (sys_recv sys fd n w)) = opened w"
    "sys_recv sys fd n w = (SysOk bs, w') \<Longrightarrow> length bs \<le> n \<and> strm fd w = bs @ strm fd w'"
    "sys_recv sys fd n w = (SysErr err, w') \<Longrightarrow> strm fd w' = strm fd w"
    "fd' \<noteq> fd \<Longrightarrow> strm fd' (snd (sys_recv sys fd n w)) = strm fd' w"
    "fd' \<in> opened w \<Longrightarrow> strm fd' (snd (sys_accept sys sfd n w)) = strm fd' w"
    "strm fd' (snd (sys_fcntl_nonblock sys fd w)) = strm fd' w"
    "strm fd' (snd (sys_setsockopt sys fd opt v w)) = strm fd' w"
    "fd' \<noteq> fd \<Longrightarrow> strm fd' (sys_close sys fd w) = strm fd' w"
    "strm fd' (snd (sys_getsockopt_error sys fd w)) = strm fd' w"
  using assms unfolding stream_law_def by - (elim conjE, (simp; fail | blast))+

section \<open>One call of receiveData\<close>

lemma receive_header_frame:
  assumes "receive_header r io h w = Some (x, io', w')" "\<And>fd n w. P (snd (r fd n w)) = P w"
  shows "io_fd io' = io_fd io" "P w' = P w"
proof -
  have call: "P w2 = P w1" if "posixSyscallError (r (io_fd io) n) w1 = Some (y, w2)" for n w1 y w2
    by (rule retry_keeps [where opened = P, OF that]) (rule assms(2))
  show "io_fd io' = io_fd io" "P w' = P w"
    using assms(1) call
    by (auto simp: receive_header_def Let_def split: if_splits option.splits prod.splits sysret.splits)
qed

lemma receive_payload_frame:
  assumes "receive_payload r io sz buf w = Some (e, io', d, w')" "\<And>fd n w. P (snd (r fd n w)) = P w"
  shows "io_fd io' = io_fd io" "P w' = P w" "e \<noteq> None \<Longrightarrow> d = None"
proof -
  have call: "P w2 = P w1" if "posixSyscallError (r (io_fd io) n) w1 = Some (y, w2)" for n w1 y w2
    by (rule retry_keeps [where opened = P, OF that]) (rule assms(2))
  show "io_fd io' = io_fd io" "P w' = P w" "e \<noteq> None \<Longrightarrow> d = None"
    using assms(1) call
    by (auto simp: receive_payload_def Let_def split: if_splits option.splits prod.splits sysret.splits)
qed

lemma receiveData_frame:
  assumes "receiveData r io w = Some (e, io', d, w')" "\<And>fd n w. P (snd (r fd n w)) = P w"
  shows "io_fd io' = io_fd io" "P w' = P w" "e \<noteq> None \<Longrightarrow> d = None"
  using assms(1) receive_header_frame [where P = P, OF _ assms(2)] receive_payload_frame [where P = P, OF _ assms(2)]
  by (auto simp: receiveData_def split: msg_part.splits option.splits prod.splits part_result.splits)

lemma receiveData_returns:
  assumes "\<And>n w. posixSyscallError (r (io_fd io) n) w \<noteq> None"
  shows "\<exists>e io' d w'. receiveData r io w = Some (e, io', d, w')"
proof -
  have h: "receive_header r io h w \<noteq> None" for h w
    using assms [of "8 - rx_partial_size io" w] by (auto simp: receive_header_def Let_def split: option.splits prod.splits sysret.splits)
  have p: "receive_payload r io' sz buf w \<noteq> None" if "io_fd io' = io_fd io" for io' sz buf w
    using assms [of "unat sz - rx_partial_size io'" w] that by (auto simp: receive_payload_def Let_def split: option.splits prod.splits sysret.splits)
  have fd: "io_fd io' = io_fd io" if "receive_header r io h w = Some (x, io', w')" for h w x io' w'
    by (rule receive_header_frame(1) [OF that, of "\<lambda>_. ()"]) simp
  have "receiveData r io w \<noteq> None"
  proof (cases "rx_msg_part io")
    case (MsgHeader hd)
    with h [of hd w] obtain x io' w' where "receive_header r io hd w = Some (x, io', w')" by auto
    with MsgHeader p [OF fd [OF this], of _ _ w'] show ?thesis
      by (simp add: receiveData_def split: msg_part.split part_result.split)
  next
    case (MsgPayload sz buf)
    with p [of io sz buf w] show ?thesis by (simp add: receiveData_def)
  qed
  then show ?thesis by (cases "receiveData r io w") auto
qed


lemma receiveData_own_fd: "receiveData (\<lambda>_. r (io_fd io)) io w = receiveData r io w"
proof -
  have h: "receive_header (\<lambda>_. r (io_fd io)) io hd w = receive_header r io hd w" for hd
    by (simp add: receive_header_def)
  have fd: "io_fd io' = io_fd io" if "receive_header r io hd w = Some (x, io', w')" for hd x io' w'
    by (rule receive_header_frame(1) [OF that, of "\<lambda>_. ()"]) simp
  have p: "receive_payload (\<lambda>_. r (io_fd io)) io' sz buf w = receive_payload r io' sz buf w"
    if "io_fd io' = io_fd io" for io' sz buf w
    using that by (simp add: receive_payload_def)
  show ?thesis
    by (auto simp: receiveData_def h p dest: fd
        split: msg_part.split option.split prod.split part_result.split)
qed

lemma stream_of_fd:
  assumes "stream_law sys opened strm"
  shows "stream_socket (\<lambda>_. sys_recv sys fd) (strm fd)"
  by unfold_locales (use stream_lawD(2,3) [OF assms] in blast)+

lemma receive_stream:
  assumes "stream_law sys opened strm" "receiveData (sys_recv sys) io w = Some (None, io', d, w')" "io_wf io"
  shows "io_wf io' \<and> consumed io @ strm (io_fd io) w =
    frames (case d of None \<Rightarrow> [] | Some m \<Rightarrow> [m]) @ consumed io' @ strm (io_fd io) w' \<and> (\<forall>m. d = Some m \<longrightarrow> msg_ok m)"
  by (rule stream_socket.receiveData_conserves [OF stream_of_fd [OF assms(1), of "io_fd io"]])
    (use assms(2,3) in \<open>simp_all add: receiveData_own_fd\<close>)

section \<open>Streams of other descriptors\<close>

lemma configureNoDelay_stream:
  assumes "stream_law sys opened strm" "configureNoDelay sys fd w = Some w'"
  shows "strm fd' w' = strm fd' w"
proof -
  from assms(2) obtain r where "posixSyscallError (sys_setsockopt sys fd TCP_NODELAY 1) w = Some (r, w')"
    by (auto simp: configureNoDelay_def)
  then show ?thesis by (rule retry_keeps) (rule stream_lawD(7) [OF assms(1)])
qed

lemma accept_stream:
  assumes law: "fd_law sys opened" "stream_law sys opened strm"
    and acc: "SocketAddress_accept sys sfd a w = Some (a', r, w')" and fd': "fd' \<in> opened w"
  shows "strm fd' w' = strm fd' w"
proof -
  have chain: "opened v = opened w \<and> strm fd' v = strm fd' w" if "accept_chain sys sfd k w v" "fd' \<in> opened w" for k v
    using that
  proof (induction k arbitrary: w)
    case (Suc k)
    then obtain err w1 where w1: "sys_accept sys sfd 128 w = (SysErr err, w1)" "accept_chain sys sfd k w1 v" by auto
    with Suc.IH [of w1] Suc.prems(2) fd_lawD(4) [OF law(1) w1(1)] stream_lawD(5) [OF law(2) Suc.prems(2), of sfd 128]
    show ?case by simp
  qed simp
  have acc1: "strm fd' w1 = strm fd' w" if "accept_chain sys sfd k w v" "sys_accept sys sfd 128 v = (x, w1)" for k v x w1
    using chain [OF that(1) fd'] stream_lawD(5) [OF law(2), of fd' v sfd 128] that(2) fd' by simp
  have fcntl: "strm fd' w2 = strm fd' w1" if "posixSyscallError (sys_fcntl_nonblock sys fd) w1 = Some (x, w2)" for fd w1 x w2
    by (rule retry_keeps [where opened = "strm fd'", OF that]) (rule stream_lawD(6) [OF law(2)])
  from acc show ?thesis
  proof (cases rule: accept_cases)
    case (refused k v err)
    with acc1 show ?thesis by blast
  next
    case (dropped k v fd bs l w1 err w2)
    have "fd \<noteq> fd'" using chain [OF dropped(1) fd'] fd_lawD(3) [OF law(1) dropped(2)] fd' by auto
    then have "strm fd' w' = strm fd' w2"
      using dropped(5) stream_lawD(8) [OF law(2), of fd' fd w2] by (simp add: OwnedFd_destroy_def OwnedFd_reset_def)
    with acc1 [OF dropped(1,2)] fcntl [OF dropped(3)] show ?thesis by simp
  next
    case (accepted k v fd bs l w1 u w2)
    with acc1 [OF accepted(1,2)] fcntl [OF accepted(3)] configureNoDelay_stream [OF law(2), of fd w2 w' fd']
    show ?thesis by auto
  qed
qed

section \<open>The server's invariant\<close>

definition fd_of :: "socket_server \<Rightarrow> client_id \<Rightarrow> int option" where
  "fd_of s cl = map_option (\<lambda>cc. io_fd (cc_io cc)) (map_of (ss_clients s) cl)"

text \<open>
  Every client has a context under its own id, with a callback for its own descriptor;
  descriptors belong to one client each; the open descriptors are those of the rest of the
  process (\<open>base\<close>), the listening one and the clients' ones.
\<close>

definition ss_inv :: "('w \<Rightarrow> int set) \<Rightarrow> int set \<Rightarrow> socket_server \<Rightarrow> 'w \<Rightarrow> bool" where
  "ss_inv opened base s w \<longleftrightarrow>
     um_wf (ss_clients s) \<and>
     (\<forall>cl cc. map_of (ss_clients s) cl = Some cc \<longrightarrow>
        cc_id cc = cl \<and> cc_callback cc = Some (io_fd (cc_io cc)) \<and> 0 \<le> io_fd (cc_io cc) \<and>
        io_wf (cc_io cc) \<and> 0 < unat cl \<and> unat cl \<le> unat (ss_unique_client_id_counter s)) \<and>
     inj_on (fd_of s) (dom (fd_of s)) \<and>
     opened w = base \<union> {ss_fd s} \<union> ran (fd_of s) \<and>
     ss_fd s \<notin> base \<and> ran (fd_of s) \<inter> (base \<union> {ss_fd s}) = {} \<and>
     ss_accept_callback s = Some (ss_fd s)"

lemma fd_of_upd [simp]:
  "fd_of (s\<lparr>ss_clients := um_erase cl (ss_clients s)\<rparr>) = (fd_of s)(cl := None)"
  "fd_of (s\<lparr>ss_clients := um_assign cl cc (ss_clients s)\<rparr>) = (fd_of s)(cl \<mapsto> io_fd (cc_io cc))"
  "map_of (ss_clients s) cl = None \<Longrightarrow>
     fd_of (s\<lparr>ss_unique_client_id_counter := n, ss_clients := um_emplace cl cc (ss_clients s)\<rparr>) = (fd_of s)(cl \<mapsto> io_fd (cc_io cc))"
  by (auto simp: fd_of_def um_simps fun_eq_iff)

lemma dom_fd_of: "dom (fd_of s) = dom (map_of (ss_clients s))"
  by (auto simp: fd_of_def dom_def)

lemma IoState_init_fd [simp]: "io_wf (IoState_init\<lparr>io_fd := fd\<rparr>)" "consumed (IoState_init\<lparr>io_fd := fd\<rparr>) = []"
  by (simp_all add: IoState_init_def io_wf_def consumed_def MsgHeader_init_def)

lemma ss_inv_client:
  assumes "ss_inv opened base s w" "map_of (ss_clients s) cl = Some cc"
  shows "cc_id cc = cl" "cc_callback cc = Some (io_fd (cc_io cc))" "0 \<le> io_fd (cc_io cc)"
    "0 < unat cl" "unat cl \<le> unat (ss_unique_client_id_counter s)" "io_fd (cc_io cc) \<in> opened w"
    "io_wf (cc_io cc)"
  using assms unfolding ss_inv_def by (auto simp: fd_of_def intro!: ranI)

lemma ss_inv_accept:
  assumes inv: "ss_inv opened base s w" and fd: "0 \<le> fd" "fd \<notin> opened w" "opened w' = insert fd (opened w)"
    and room: "Suc (unat (ss_unique_client_id_counter s)) < 2 ^ 64"
    and cl: "cl = ss_unique_client_id_counter s + 1"
  shows "map_of (ss_clients s) cl = None"
    and "ss_inv opened base (s\<lparr>ss_unique_client_id_counter := cl,
       ss_clients := um_emplace cl (setCallback (Some fd) (ClientContext_make cl fd)) (ss_clients s)\<rparr>) w'"
proof -
  have n: "unat cl = Suc (unat (ss_unique_client_id_counter s))"
    using room by (simp add: cl unat_word_ariths)
  show none: "map_of (ss_clients s) cl = None"
  proof (cases "map_of (ss_clients s) cl")
    case (Some cc)
    with ss_inv_client(5) [OF inv Some] n show ?thesis by simp
  qed
  let ?F = "(fd_of s)(cl \<mapsto> fd)"
  have noran: "fd \<notin> ran (fd_of s)" using inv fd(2) by (auto simp: ss_inv_def)
  have nodom: "cl \<notin> dom (fd_of s)" using none by (simp add: dom_fd_of domIff)
  have inj: "inj_on ?F (dom ?F)"
    using inv noran nodom by (auto simp: ss_inv_def inj_on_def ran_def dom_def split: if_splits)
  have ran: "ran ?F = insert fd (ran (fd_of s))" using nodom by (simp add: domIff)
  have io: "io_fd (cc_io (setCallback (Some fd) (ClientContext_make cl fd))) = fd"
    by (simp add: setCallback_def ClientContext_make_def)
  show "ss_inv opened base (s\<lparr>ss_unique_client_id_counter := cl,
       ss_clients := um_emplace cl (setCallback (Some fd) (ClientContext_make cl fd)) (ss_clients s)\<rparr>) w'"
    unfolding ss_inv_def fd_of_upd(3) [OF none] io
    using inv fd inj ran none n
    by (auto simp: ss_inv_def um_simps setCallback_def ClientContext_make_def IoState_init_fd split: if_splits intro: le_SucI)
qed

lemma ss_inv_receive:
  assumes inv: "ss_inv opened base s w" and cc: "map_of (ss_clients s) cl = Some cc"
    and io: "io_fd io' = io_fd (cc_io cc)" and w': "opened w' = opened w" and wf: "io_wf io'"
  shows "ss_inv opened base (s\<lparr>ss_clients := um_assign cl (cc\<lparr>cc_io := io'\<rparr>) (ss_clients s)\<rparr>) w'"
proof -
  have F: "(fd_of s)(cl \<mapsto> io_fd (cc_io cc)) = fd_of s" using cc by (auto simp: fd_of_def)
  show ?thesis
    using inv cc w' wf by (auto simp: ss_inv_def F io um_simps split: if_splits)
qed

lemma ss_inv_disconnect:
  assumes inv: "ss_inv opened base s w" and cc: "map_of (ss_clients s) cl = Some cc"
    and w': "opened w' = opened w - {io_fd (cc_io cc)}"
  shows "ss_inv opened base (s\<lparr>ss_clients := um_erase cl (ss_clients s)\<rparr>) w'"
proof -
  let ?fd = "io_fd (cc_io cc)"
  have cl: "fd_of s cl = Some ?fd" using cc by (simp add: fd_of_def)
  have inj: "inj_on (fd_of s) (dom (fd_of s))" using inv by (simp add: ss_inv_def)
  have "ran ((fd_of s)(cl := None)) = ran (fd_of s) - {?fd}"
    using cl inj by (auto simp: ran_def inj_on_def dom_def) (metis option.inject)
  moreover have "inj_on ((fd_of s)(cl := None)) (dom ((fd_of s)(cl := None)))"
    using inj by (auto simp: inj_on_def dom_def)
  moreover have "?fd \<notin> base \<union> {ss_fd s}" using inv cl by (auto simp: ss_inv_def ran_def)
  ultimately show ?thesis
    using inv w' by (auto simp: ss_inv_def um_simps split: if_splits)
qed


section \<open>The server pipe as an abstract machine\<close>

text \<open>
  What a server pipe promises its router: the state is the set of connected clients and
  the last id given out; ids are given out in order, messages come from connected clients
  only, and a client is disconnected once. \<open>None\<close> is an event the machine does not allow.
\<close>

fun pipe_trace :: "client_id set \<times> client_id \<Rightarrow> server_pipe_event list \<Rightarrow> (client_id set \<times> client_id) option" where
  "pipe_trace (C, n) [] = Some (C, n)"
| "pipe_trace (C, n) (SP_Connected cl # evs) =
     (if cl = n + 1 \<and> cl \<notin> C then pipe_trace (insert cl C, cl) evs else None)"
| "pipe_trace (C, n) (SP_Message cl m # evs) = (if cl \<in> C then pipe_trace (C, n) evs else None)"
| "pipe_trace (C, n) (SP_Disconnected cl # evs) = (if cl \<in> C then pipe_trace (C - {cl}, n) evs else None)"

definition pipe_state :: "socket_server \<Rightarrow> client_id set \<times> client_id" where
  "pipe_state s = (dom (map_of (ss_clients s)), ss_unique_client_id_counter s)"

lemma pipe_trace_append:
  "pipe_trace cn (xs @ ys) = Option.bind (pipe_trace cn xs) (\<lambda>cn'. pipe_trace cn' ys)"
  by (induction cn xs rule: pipe_trace.induct) auto

abbreviation ev_list :: "'e option \<Rightarrow> 'e list" where
  "ev_list ev \<equiv> case ev of None \<Rightarrow> [] | Some x \<Rightarrow> [x]"

lemma handleAccept_step:
  assumes law: "returns_law sys" "fd_law sys opened" and inv: "ss_inv opened base s w"
    and room: "Suc (unat (ss_unique_client_id_counter s)) < 2 ^ 64"
  shows "\<exists>ev s' w'. SocketServer_handleAccept sys s w = Some (ev, s', w') \<and> ss_inv opened base s' w' \<and>
    pipe_trace (pipe_state s) (ev_list ev) = Some (pipe_state s') \<and> ss_fd s' = ss_fd s \<and>
    unat (ss_unique_client_id_counter s') \<le> Suc (unat (ss_unique_client_id_counter s))"
proof -
  let ?n = "ss_unique_client_id_counter s"
  obtain a r w1 where acc: "SocketAddress_accept sys (ss_fd s) SocketAddress_init w = Some (a, r, w1)"
    using returns_lawD(7) [OF law(1), of "ss_fd s" SocketAddress_init w] by auto
  note fds = accept_descriptors [OF law(2) acc]
  show ?thesis
  proof (cases r)
    case None
    with fds inv have "ss_inv opened base s w1" by (simp add: ss_inv_def)
    with acc None show ?thesis by (simp add: SocketServer_handleAccept_def pipe_state_def)
  next
    case (Some fd)
    with fds have fd: "0 \<le> fd" "fd \<notin> opened w" "opened w1 = insert fd (opened w)" by simp_all
    note new = ss_inv_accept [OF inv fd room refl]
    have "unat (?n + 1) = Suc (unat ?n)" using room by (simp add: unat_word_ariths)
    moreover have "?n + 1 \<notin> dom (map_of (ss_clients s))" using new(1) by (simp add: domIff)
    ultimately show ?thesis
      using acc Some new by (simp add: SocketServer_handleAccept_def pipe_state_def Let_def um_simps)
  qed
qed

lemma handleClientRequest_step:
  assumes law: "returns_law sys" "fd_law sys opened" "stream_law sys opened strm" and inv: "ss_inv opened base s w"
    and cc: "map_of (ss_clients s) cl = Some cc"
  shows "\<exists>ev s' w'. SocketServer_handleClientRequest sys cl s w = Some (ev, s', w') \<and> ss_inv opened base s' w' \<and>
    pipe_trace (pipe_state s) (ev_list ev) = Some (pipe_state s') \<and> ss_fd s' = ss_fd s \<and>
    ss_unique_client_id_counter s' = ss_unique_client_id_counter s"
proof -
  note client = ss_inv_client [OF inv cc]
  obtain e io' d w1 where rx: "receiveData (sys_recv sys) (cc_io cc) w = Some (e, io', d, w1)"
    using receiveData_returns [of "sys_recv sys" "cc_io cc" w] returns_lawD(6) [OF law(1)] by blast
  note frame = receiveData_frame [where P = opened, OF rx stream_lawD(1) [OF law(3)]]
  have in_dom: "cl \<in> dom (map_of (ss_clients s))" using cc by auto
  show ?thesis
  proof (cases e)
    case None
    have "io_wf io'" using receive_stream [OF law(3) rx [unfolded None] client(7)] by simp
    then have "ss_inv opened base (s\<lparr>ss_clients := um_assign cl (cc\<lparr>cc_io := io'\<rparr>) (ss_clients s)\<rparr>) w1"
      by (rule ss_inv_receive [OF inv cc frame(1,2)])
    with rx cc None in_dom show ?thesis
      by (auto simp: SocketServer_handleClientRequest_def tryFindClientContext_def pipe_state_def um_simps
          insert_absorb split: option.split)
  next
    case (Some err)
    let ?w = "ClientContext_destroy sys (cc\<lparr>cc_io := io'\<rparr>) w1"
    have "opened ?w = opened w - {io_fd (cc_io cc)}"
      using client(3) frame(1,2)
      by (simp add: ClientContext_destroy_def OwnedFd_destroy_def OwnedFd_reset_def fd_lawD(11) [OF law(2)])
    then have "ss_inv opened base (s\<lparr>ss_clients := um_erase cl (ss_clients s)\<rparr>) ?w"
      by (rule ss_inv_disconnect [OF inv cc])
    with rx cc Some in_dom show ?thesis
      by (auto simp: SocketServer_handleClientRequest_def tryFindClientContext_def pipe_state_def um_simps)
  qed
qed

lemma server_ready_step:
  assumes law: "returns_law sys" "fd_law sys opened" "stream_law sys opened strm" and inv: "ss_inv opened base s w"
    and room: "Suc (unat (ss_unique_client_id_counter s)) < 2 ^ 64"
  shows "\<exists>ev s' w'. server_ready sys tr s w = Some (ev, s', w') \<and> ss_inv opened base s' w' \<and>
    pipe_trace (pipe_state s) (ev_list ev) = Some (pipe_state s') \<and> ss_fd s' = ss_fd s \<and>
    unat (ss_unique_client_id_counter s') \<le> Suc (unat (ss_unique_client_id_counter s))"
proof (cases tr)
  case AcceptReady
  have "ss_accept_callback s = Some (ss_fd s)" using inv by (simp add: ss_inv_def)
  with AcceptReady have "server_ready sys tr s w = SocketServer_handleAccept sys s w" by simp
  with handleAccept_step [OF law(1,2) inv room] show ?thesis by simp
next
  case (ClientReady cl)
  show ?thesis
  proof (cases "map_of (ss_clients s) cl")
    case None
    with ClientReady inv show ?thesis by (simp add: pipe_state_def)
  next
    case (Some cc)
    with ClientReady ss_inv_client(2) [OF inv Some]
    have "server_ready sys tr s w = SocketServer_handleClientRequest sys cl s w" by simp
    with handleClientRequest_step [OF law inv Some] show ?thesis by (auto intro: le_SucI)
  qed
qed

lemma server_session_step:
  assumes law: "returns_law sys" "fd_law sys opened" "stream_law sys opened strm" and inv: "ss_inv opened base s w"
    and room: "unat (ss_unique_client_id_counter s) + length trs < 2 ^ 64"
  shows "\<exists>evs s' w'. server_session sys trs s w = Some (evs, s', w') \<and> ss_inv opened base s' w' \<and>
    pipe_trace (pipe_state s) evs = Some (pipe_state s') \<and> ss_fd s' = ss_fd s"
  using inv room
proof (induction trs arbitrary: s w)
  case (Cons tr trs)
  then have "Suc (unat (ss_unique_client_id_counter s)) < 2 ^ 64" by simp
  from server_ready_step [OF law Cons.prems(1) this, of tr] obtain ev s1 w1 where
    step: "server_ready sys tr s w = Some (ev, s1, w1)" "ss_inv opened base s1 w1"
      "pipe_trace (pipe_state s) (ev_list ev) = Some (pipe_state s1)" "ss_fd s1 = ss_fd s"
      "unat (ss_unique_client_id_counter s1) \<le> Suc (unat (ss_unique_client_id_counter s))"
    by (elim exE conjE)
  from Cons.IH [OF step(2)] step(5) Cons.prems(2) obtain evs s' w' where
    rest: "server_session sys trs s1 w1 = Some (evs, s', w')" "ss_inv opened base s' w'"
      "pipe_trace (pipe_state s1) evs = Some (pipe_state s')" "ss_fd s' = ss_fd s1" by auto
  with step show ?case by (simp add: pipe_trace_append)
qed (simp add: pipe_state_def)


section \<open>Start\<close>

lemma socket_returns:
  assumes "returns_law sys"
  shows "\<exists>r w'. SocketAddress_socket sys ty a w = Some (r, w')"
proof -
  obtain r1 w1 where r1: "posixSyscallError (sys_socket sys (sa_family a) ty) w = Some (r1, w1)"
    using returns_lawD(1) [OF assms, of "sa_family a" ty w] by auto
  show ?thesis
  proof (cases r1)
    case (SysOk fd)
    obtain r2 w2 where r2: "posixSyscallError (sys_fcntl_nonblock sys fd) w1 = Some (r2, w2)"
      using returns_lawD(2) [OF assms, of fd w1] by auto
    obtain r3 w3 where "posixSyscallError (sys_setsockopt sys fd TCP_NODELAY 1) w2 = Some (r3, w3)"
      using returns_lawD(3) [OF assms, of fd TCP_NODELAY 1 w2] by auto
    with r1 r2 SysOk show ?thesis
      by (cases r2) (auto simp: SocketAddress_socket_def configureNoDelay_def)
  qed (use r1 in \<open>simp add: SocketAddress_socket_def\<close>)
qed

lemma bind_keeps:
  assumes "returns_law sys" "fd_law sys opened"
  shows "\<exists>e w'. SocketAddress_bind sys fd a w = Some (e, w') \<and> opened w' = opened w"
proof -
  have b: "\<exists>r w'. posixSyscallError (sys_bind sys fd st l) w = Some (r, w') \<and> opened w' = opened w" for st l w
  proof -
    obtain r w' where c: "posixSyscallError (sys_bind sys fd st l) w = Some (r, w')"
      using returns_lawD(8) [OF assms(1), of fd st l w] by auto
    with retry_keeps [where opened = opened, OF c fd_lawD(7) [OF assms(2)]] show ?thesis by simp
  qed
  have o: "\<exists>r w'. posixSyscallError (sys_setsockopt sys fd IPV6_V6ONLY 0) w = Some (r, w') \<and> opened w' = opened w"
  proof -
    obtain r w' where c: "posixSyscallError (sys_setsockopt sys fd IPV6_V6ONLY 0) w = Some (r, w')"
      using returns_lawD(3) [OF assms(1), of fd IPV6_V6ONLY 0 w] by auto
    with retry_keeps [where opened = opened, OF c fd_lawD(6) [OF assms(2)]] show ?thesis by simp
  qed
  from o obtain r1 w1 where o1: "posixSyscallError (sys_setsockopt sys fd IPV6_V6ONLY 0) w = Some (r1, w1)" "opened w1 = opened w"
    by blast
  from b [of "addr_storage a" "addr_len a" w] obtain r2 w2 where
    b1: "posixSyscallError (sys_bind sys fd (addr_storage a) (addr_len a)) w = Some (r2, w2)" "opened w2 = opened w" by blast
  from b [of "addr_storage a" "addr_len a" w1] obtain r3 w3 where
    b2: "posixSyscallError (sys_bind sys fd (addr_storage a) (addr_len a)) w1 = Some (r3, w3)" "opened w3 = opened w1" by blast
  show ?thesis
    using o1 b1 b2 by (cases r1) (simp_all add: SocketAddress_bind_def Let_def)
qed

text \<open>
  A start that succeeds sets the invariant up; one that fails leaves no descriptor behind
  that the server does not own.
\<close>

lemma server_start:
  assumes law: "returns_law sys" "fd_law sys opened" 
  shows "\<exists>e s w'. SocketServer_start sys (SocketServer_make a) w = Some (e, s, w') \<and>
    (if e = None then ss_inv opened (opened w) s w' \<and> pipe_state s = ({}, 0)
     else opened w' = opened w \<union> (if ss_fd s = -1 then {} else {ss_fd s}) \<and> ss_clients s = [])"
proof -
  let ?s = "SocketServer_make a"
  obtain r w1 where so: "SocketAddress_socket sys SOCK_STREAM a w = Some (r, w1)"
    using socket_returns [OF law(1)] by blast
  note fds = socket_descriptors [OF law(2) so]
  show ?thesis
  proof (cases r)
    case (Inl e)
    with so fds show ?thesis
      by (simp add: SocketServer_start_def SocketServer_makeSocketHandle_def SocketServer_make_def OwnedFd_empty_def)
  next
    case (Inr fd)
    with fds have fd: "0 \<le> fd" "fd \<notin> opened w" "opened w1 = insert fd (opened w)" by simp_all
    obtain r2 w2 where r2: "posixSyscallError (sys_setsockopt sys fd SO_REUSEADDR 1) w1 = Some (r2, w2)"
      using returns_lawD(3) [OF law(1), of fd SO_REUSEADDR 1 w1] by auto
    have w2: "opened w2 = insert fd (opened w)"
      using retry_keeps [where opened = opened, OF r2 fd_lawD(6) [OF law(2)]] fd(3) by simp
    obtain e3 w3 where b: "SocketAddress_bind sys fd a w2 = Some (e3, w3)" and w3': "opened w3 = opened w2"
      using bind_keeps [OF law] by blast
    then have w3: "opened w3 = insert fd (opened w)" using w2 by simp
    obtain r4 w4 where l: "posixSyscallError (sys_listen sys fd MaxConnections) w3 = Some (r4, w4)"
      using returns_lawD(9) [OF law(1), of fd MaxConnections w3] by auto
    have w4: "opened w4 = insert fd (opened w)"
      using retry_keeps [where opened = opened, OF l fd_lawD(9) [OF law(2)]] w3 by simp
    note defs = SocketServer_start_def SocketServer_makeSocketHandle_def SocketServer_make_def OwnedFd_empty_def
      OwnedFd_move_assign_def OwnedFd_move_def OwnedFd_destroy_def OwnedFd_reset_def
    consider (reuse) err where "r2 = SysErr err" | (bind) u e where "r2 = SysOk u" "e3 = Some e"
      | (listen) u err where "r2 = SysOk u" "e3 = None" "r4 = SysErr err"
      | (ok) u v where "r2 = SysOk u" "e3 = None" "r4 = SysOk v"
      by (cases r2; cases e3; cases r4) auto
    then show ?thesis
    proof cases
      case reuse
      with so Inr r2 fd w2 show ?thesis by (simp add: defs fd_lawD(11) [OF law(2)])
    next
      case bind
      with so Inr r2 b fd w3 show ?thesis by (simp add: defs fd_lawD(11) [OF law(2)])
    next
      case listen
      with so Inr r2 b l fd w4 show ?thesis by (auto simp: defs)
    next
      case ok
      with so Inr r2 b l fd w4 show ?thesis
        by (simp add: defs ss_inv_def pipe_state_def) (auto simp: fd_of_def ran_def inj_on_def dom_def)
    qed
  qed
qed


section \<open>Each client has its own stream\<close>

fun msgs_of :: "client_id \<Rightarrow> server_pipe_event list \<Rightarrow> byte list list" where
  "msgs_of cl [] = []"
| "msgs_of cl (SP_Message c m # evs) = (if c = cl then m # msgs_of cl evs else msgs_of cl evs)"
| "msgs_of cl (_ # evs) = msgs_of cl evs"

lemma msgs_of_append [simp]: "msgs_of cl (xs @ ys) = msgs_of cl xs @ msgs_of cl ys"
  by (induction cl xs rule: msgs_of.induct) auto

text \<open>What a step does to a client that is connected before it.\<close>

lemma server_ready_stream:
  assumes law: "fd_law sys opened" "stream_law sys opened strm" and inv: "ss_inv opened base s w"
    and room: "Suc (unat (ss_unique_client_id_counter s)) < 2 ^ 64"
    and step: "server_ready sys tr s w = Some (ev, s', w')"
    and cc: "map_of (ss_clients s) cl = Some cc"
  shows "map_of (ss_clients s') cl = None \<and> msgs_of cl (ev_list ev) = [] \<or>
    (\<exists>cc'. map_of (ss_clients s') cl = Some cc' \<and> io_fd (cc_io cc') = io_fd (cc_io cc) \<and>
      list_all msg_ok (msgs_of cl (ev_list ev)) \<and>
      consumed (cc_io cc) @ strm (io_fd (cc_io cc)) w =
        frames (msgs_of cl (ev_list ev)) @ consumed (cc_io cc') @ strm (io_fd (cc_io cc)) w')"
proof -
  let ?fd = "io_fd (cc_io cc)"
  have quiet: ?thesis if "map_of (ss_clients s') cl = Some cc" "msgs_of cl (ev_list ev) = []" "strm ?fd w' = strm ?fd w"
    using that by simp
  note wf = ss_inv_client(7) [OF inv cc]
  show ?thesis
  proof (cases tr)
    case AcceptReady
    have "ss_accept_callback s = Some (ss_fd s)" using inv by (simp add: ss_inv_def)
    with step AcceptReady have acc: "SocketServer_handleAccept sys s w = Some (ev, s', w')" by simp
    from acc obtain a r w1 where a: "SocketAddress_accept sys (ss_fd s) SocketAddress_init w = Some (a, r, w1)"
      by (auto simp: SocketServer_handleAccept_def split: option.splits)
    have st: "strm ?fd w1 = strm ?fd w"
      by (rule accept_stream [OF law a ss_inv_client(6) [OF inv cc]])
    show ?thesis
    proof (cases r)
      case None
      with acc a st cc show ?thesis by (intro quiet) (auto simp: SocketServer_handleAccept_def)
    next
      case (Some fd)
      with accept_descriptors [OF law(1) a] have "0 \<le> fd" "fd \<notin> opened w" "opened w1 = insert fd (opened w)" by simp_all
      note new = ss_inv_accept(1) [OF inv this room refl]
      with acc a Some st cc show ?thesis
        by (intro quiet) (auto simp: SocketServer_handleAccept_def Let_def um_simps)
    qed
  next
    case (ClientReady c)
    show ?thesis
    proof (cases "map_of (ss_clients s) c")
      case None
      with step ClientReady cc show ?thesis by (intro quiet) auto
    next
      case (Some d)
      note client = ss_inv_client [OF inv Some]
      with step ClientReady Some have req: "SocketServer_handleClientRequest sys c s w = Some (ev, s', w')" by simp
      then obtain e io' dlv w1 where rx: "receiveData (sys_recv sys) (cc_io d) w = Some (e, io', dlv, w1)"
        using Some by (auto simp: SocketServer_handleClientRequest_def tryFindClientContext_def split: option.splits)
      note defs = SocketServer_handleClientRequest_def tryFindClientContext_def um_simps
      have io': "io_fd io' = io_fd (cc_io d)"
        by (rule receiveData_frame(1) [OF rx, of "\<lambda>_. ()"]) simp
      show ?thesis
      proof (cases "c = cl")
        case True
        with Some cc have d: "d = cc" by simp
        show ?thesis
        proof (cases e)
          case None
          with receive_stream [OF law(2) rx [unfolded None]] wf d have
            "io_wf io'" "consumed (cc_io cc) @ strm ?fd w =
              frames (case dlv of None \<Rightarrow> [] | Some m \<Rightarrow> [m]) @ consumed io' @ strm ?fd w1"
            "\<forall>m. dlv = Some m \<longrightarrow> msg_ok m" by simp_all
          with req None rx Some True d io' show ?thesis by (auto simp: defs split: option.splits)
        next
          case (Some err)
          with req rx True \<open>map_of (ss_clients s) c = Some d\<close> show ?thesis by (auto simp: defs)
        qed
      next
        case False
        have "io_fd (cc_io d) \<noteq> ?fd"
        proof
          assume "io_fd (cc_io d) = ?fd"
          then have "fd_of s c = fd_of s cl" using Some cc by (simp add: fd_of_def)
          moreover have "c \<in> dom (fd_of s)" "cl \<in> dom (fd_of s)" using Some cc by (auto simp: fd_of_def)
          ultimately show False using inv False by (auto simp: ss_inv_def dest: inj_onD)
        qed
        then have other: "?fd \<noteq> io_fd (cc_io d)" by simp
        have w1: "strm ?fd w1 = strm ?fd w"
        proof (rule receiveData_frame(2) [where P = "strm ?fd" and r = "\<lambda>_. sys_recv sys (io_fd (cc_io d))"])
          show "receiveData (\<lambda>_. sys_recv sys (io_fd (cc_io d))) (cc_io d) w = Some (e, io', dlv, w1)"
            using rx by (simp add: receiveData_own_fd)
        qed (rule stream_lawD(4) [OF law(2) other])
        have "strm ?fd (ClientContext_destroy sys (d\<lparr>cc_io := io'\<rparr>) w1) = strm ?fd w1"
          using io' stream_lawD(8) [OF law(2) other] by (simp add: ClientContext_destroy_def OwnedFd_destroy_def OwnedFd_reset_def)
        with req rx Some False cc w1 show ?thesis
          by (intro quiet) (auto simp: defs split: option.splits)
      qed
    qed
  qed
qed


lemma server_session_length: "server_session sys trs s w = Some (evs, s', w') \<Longrightarrow> length evs \<le> length trs"
proof (induction trs arbitrary: s w evs)
  case (Cons tr trs)
  then obtain ev s1 w1 evs1 where "server_ready sys tr s w = Some (ev, s1, w1)"
    "server_session sys trs s1 w1 = Some (evs1, s', w')" "evs = ev_list ev @ evs1"
    by (auto simp: bind_eq_Some_conv)
  with Cons.IH [of s1 w1 evs1] show ?case by (simp split: option.split)
qed simp

text \<open>A client that has gone is not heard of again.\<close>

lemma trace_gone:
  "pipe_trace (C, n) evs = Some (C', n') \<Longrightarrow> cl \<notin> C \<Longrightarrow> unat cl \<le> unat n \<Longrightarrow>
   unat n + length evs < 2 ^ 64 \<Longrightarrow> msgs_of cl evs = [] \<and> cl \<notin> C'"
proof (induction evs arbitrary: C n)
  case (Cons ev evs)
  show ?case
  proof (cases ev)
    case (SP_Connected c)
    with Cons.prems have c: "c = n + 1" "pipe_trace (insert c C, c) evs = Some (C', n')" by (simp_all split: if_splits)
    have "unat c = Suc (unat n)" using Cons.prems(4) c(1) by (simp add: unat_word_ariths)
    moreover from this Cons.prems(3) have "cl \<noteq> c" by auto
    ultimately show ?thesis using Cons.IH [OF c(2)] Cons.prems SP_Connected by simp
  next
    case (SP_Message c m)
    with Cons.prems Cons.IH [of C n] show ?thesis by (auto split: if_splits)
  next
    case (SP_Disconnected c)
    with Cons.prems Cons.IH [of "C - {c}" n] show ?thesis by (auto split: if_splits)
  qed
qed simp

lemma pipe_trace_counter: "pipe_trace (C, n) evs = Some (C', n') \<Longrightarrow> unat n' \<le> unat n + length evs"
proof (induction evs arbitrary: C n)
  case (Cons ev evs)
  have inc: "unat (n + 1) \<le> Suc (unat n)" by (simp add: unat_word_ariths)
  from Cons show ?case
  proof (cases ev)
    case (SP_Connected c)
    with Cons.prems have "pipe_trace (insert c C, n + 1) evs = Some (C', n')" by (auto split: if_splits)
    from Cons.IH [OF this] inc show ?thesis by simp
  qed (use Cons in \<open>fastforce split: if_splits\<close>)+
qed simp

lemma server_session_stream:
  assumes law: "returns_law sys" "fd_law sys opened" "stream_law sys opened strm"
    and "ss_inv opened base s w" "unat (ss_unique_client_id_counter s) + length trs < 2 ^ 64"
    and "server_session sys trs s w = Some (evs, s', w')" "map_of (ss_clients s) cl = Some cc"
  shows "list_all msg_ok (msgs_of cl evs) \<and>
    (\<exists>rest. consumed (cc_io cc) @ strm (io_fd (cc_io cc)) w = frames (msgs_of cl evs) @ rest \<and>
      (\<forall>cc'. map_of (ss_clients s') cl = Some cc' \<longrightarrow>
         io_fd (cc_io cc') = io_fd (cc_io cc) \<and> rest = consumed (cc_io cc') @ strm (io_fd (cc_io cc)) w'))"
  using assms(4-)
proof (induction trs arbitrary: s w evs cc)
  case (Cons tr trs)
  let ?fd = "io_fd (cc_io cc)"
  from Cons.prems(2) have room: "Suc (unat (ss_unique_client_id_counter s)) < 2 ^ 64" by simp
  from server_ready_step [OF law Cons.prems(1) room, of tr] obtain ev s1 w1 where
    step: "server_ready sys tr s w = Some (ev, s1, w1)" "ss_inv opened base s1 w1"
      "pipe_trace (pipe_state s) (ev_list ev) = Some (pipe_state s1)"
      "unat (ss_unique_client_id_counter s1) \<le> Suc (unat (ss_unique_client_id_counter s))" by (elim exE conjE)
  then obtain evs1 where rest: "server_session sys trs s1 w1 = Some (evs1, s', w')" "evs = ev_list ev @ evs1"
    using Cons.prems(3) by (auto simp: bind_eq_Some_conv)
  have room1: "unat (ss_unique_client_id_counter s1) + length trs < 2 ^ 64" using step(4) Cons.prems(2) by simp
  from server_ready_stream [OF law(2,3) Cons.prems(1) room step(1) Cons.prems(4)]
  show ?case
  proof (elim disjE exE conjE)
    assume gone: "map_of (ss_clients s1) cl = None" "msgs_of cl (ev_list ev) = []"
    from server_session_step [OF law step(2) room1] rest(1)
    have tr: "pipe_trace (dom (map_of (ss_clients s1)), ss_unique_client_id_counter s1) evs1
        = Some (dom (map_of (ss_clients s')), ss_unique_client_id_counter s')" by (auto simp: pipe_state_def)
    have "unat (ss_unique_client_id_counter s + 1) = Suc (unat (ss_unique_client_id_counter s))"
      using room by (simp add: unat_word_ariths)
    then have mono: "unat (ss_unique_client_id_counter s) \<le> unat (ss_unique_client_id_counter s1)"
      using step(3) by (cases ev rule: option.exhaust; cases "the ev") (auto simp: pipe_state_def split: if_splits)
    have "msgs_of cl evs1 = [] \<and> cl \<notin> dom (map_of (ss_clients s'))"
      by (rule trace_gone [OF tr]) (use gone ss_inv_client(5) [OF Cons.prems(1,4)] mono room1
        server_session_length [OF rest(1)] in \<open>auto simp: domIff\<close>)
    with gone rest(2) show ?thesis by (auto simp: domIff)
  next
    fix cc1
    assume on: "map_of (ss_clients s1) cl = Some cc1" "io_fd (cc_io cc1) = ?fd"
      "list_all msg_ok (msgs_of cl (ev_list ev))"
      "consumed (cc_io cc) @ strm ?fd w = frames (msgs_of cl (ev_list ev)) @ consumed (cc_io cc1) @ strm ?fd w1"
    from Cons.IH [OF step(2) room1 rest(1) on(1)] on rest(2) show ?thesis by auto
  qed
qed auto


section \<open>The client pipe as an abstract machine\<close>

datatype client_phase = Connecting | Online | Offline

fun client_trace :: "client_phase \<Rightarrow> client_pipe_event list \<Rightarrow> client_phase option" where
  "client_trace p [] = Some p"
| "client_trace Connecting (CP_Connected # evs) = client_trace Online evs"
| "client_trace Connecting (CP_Disconnected # evs) = client_trace Offline evs"
| "client_trace Online (CP_Message m # evs) = client_trace Online evs"
| "client_trace Online (CP_Disconnected # evs) = client_trace Offline evs"
| "client_trace _ (_ # evs) = None"

definition phase_of :: "socket_client \<Rightarrow> client_phase" where
  "phase_of c = (case sc_callback c of None \<Rightarrow> Offline | Some (AwaitConnect _) \<Rightarrow> Connecting | Some (AwaitReceive _) \<Rightarrow> Online)"

fun client_msgs :: "client_pipe_event list \<Rightarrow> byte list list" where
  "client_msgs [] = []"
| "client_msgs (CP_Message m # evs) = m # client_msgs evs"
| "client_msgs (_ # evs) = client_msgs evs"

lemma client_trace_append: "client_trace p (xs @ ys) = Option.bind (client_trace p xs) (\<lambda>q. client_trace q ys)"
  by (induction p xs rule: client_trace.induct) auto

lemma client_msgs_append [simp]: "client_msgs (xs @ ys) = client_msgs xs @ client_msgs ys"
  by (induction xs rule: client_msgs.induct) auto

definition sc_inv :: "('w \<Rightarrow> int set) \<Rightarrow> int set \<Rightarrow> socket_client \<Rightarrow> 'w \<Rightarrow> bool" where
  "sc_inv opened base c w \<longleftrightarrow> io_wf (sc_io c) \<and>
     (case sc_callback c of
        None \<Rightarrow> io_fd (sc_io c) = -1 \<and> opened w = base
      | Some cb \<Rightarrow> 0 \<le> io_fd (sc_io c) \<and> io_fd (sc_io c) \<notin> base \<and> opened w = insert (io_fd (sc_io c)) base \<and>
          cb \<in> {AwaitConnect (io_fd (sc_io c)), AwaitReceive (io_fd (sc_io c))})"

lemma sc_inv_disconnect:
  assumes "fd_law sys opened" "0 \<le> io_fd (sc_io c)" "io_fd (sc_io c) \<notin> base" "opened w = insert (io_fd (sc_io c)) base"
    and "SocketClient_handleDisconnect sys c w = (ev, c', w')"
  shows "ev = CP_Disconnected" "sc_inv opened base c' w'" "phase_of c' = Offline"
  using assms by (auto simp: SocketClient_handleDisconnect_def OwnedFd_reset_def sc_inv_def phase_of_def fd_lawD(11) [OF assms(1)])

lemma client_ready_step:
  assumes law: "returns_law sys" "fd_law sys opened" "stream_law sys opened strm" and inv: "sc_inv opened base c w"
  shows "\<exists>ev c' w'. client_ready sys c w = Some (ev, c', w') \<and> sc_inv opened base c' w' \<and>
    client_trace (phase_of c) (ev_list ev) = Some (phase_of c') \<and> list_all msg_ok (client_msgs (ev_list ev)) \<and>
    (\<exists>rest. consumed (sc_io c) @ strm (io_fd (sc_io c)) w = frames (client_msgs (ev_list ev)) @ rest \<and>
      (phase_of c' \<noteq> Offline \<longrightarrow>
         io_fd (sc_io c') = io_fd (sc_io c) \<and> rest = consumed (sc_io c') @ strm (io_fd (sc_io c)) w'))"
proof (cases "sc_callback c")
  case None
  with inv show ?thesis by (simp add: client_ready_def phase_of_def)
next
  case (Some cb)
  let ?fd = "io_fd (sc_io c)"
  from inv Some have fd: "0 \<le> ?fd" "?fd \<notin> base" "opened w = insert ?fd base" and wf: "io_wf (sc_io c)"
    and cb: "cb = AwaitConnect ?fd \<or> cb = AwaitReceive ?fd" by (auto simp: sc_inv_def)
  from cb show ?thesis
  proof
    assume cb: "cb = AwaitConnect ?fd"
    obtain r w1 where r: "posixSyscallError (sys_getsockopt_error sys ?fd) w = Some (r, w1)"
      using returns_lawD(5) [OF law(1), of ?fd w] by auto
    have w1: "opened w1 = opened w" "strm ?fd w1 = strm ?fd w"
      using retry_keeps [where opened = opened, OF r fd_lawD(10) [OF law(2)]]
        retry_keeps [where opened = "strm ?fd", OF r stream_lawD(9) [OF law(3)]] by simp_all
    let ?so = "case r of SysErr err \<Rightarrow> err | SysOk pending \<Rightarrow> pending"
    show ?thesis
    proof (cases "?so = 0")
      case True
      let ?c = "c\<lparr>sc_callback := Some (AwaitReceive ?fd)\<rparr>"
      have "client_ready sys c w = Some (Some CP_Connected, ?c, w1)"
        using Some cb r True by (simp add: client_ready_def SocketClient_handleConnect_def Let_def)
      moreover have "sc_inv opened base ?c w1" using fd wf w1 by (simp add: sc_inv_def)
      ultimately show ?thesis using Some cb w1 by (simp add: phase_of_def)
    next
      case False
      obtain ev c' w' where d: "SocketClient_handleDisconnect sys (c\<lparr>sc_callback := None\<rparr>) w1 = (ev, c', w')"
        by (cases "SocketClient_handleDisconnect sys (c\<lparr>sc_callback := None\<rparr>) w1")
      have "client_ready sys c w = Some (Some ev, c', w')"
        using Some cb r False d by (simp add: client_ready_def SocketClient_handleConnect_def Let_def)
      with sc_inv_disconnect [OF law(2) _ _ _ d, of base] fd w1 Some cb show ?thesis by (simp add: phase_of_def)
    qed
  next
    assume cb: "cb = AwaitReceive ?fd"
    obtain e io' d w1 where rx: "receiveData (sys_recv sys) (sc_io c) w = Some (e, io', d, w1)"
      using receiveData_returns [of "sys_recv sys" "sc_io c" w] returns_lawD(6) [OF law(1)] by blast
    note frame = receiveData_frame [where P = opened, OF rx stream_lawD(1) [OF law(3)]]
    show ?thesis
    proof (cases e)
      case None
      let ?c = "c\<lparr>sc_io := io'\<rparr>"
      have "client_ready sys c w = Some (map_option CP_Message d, ?c, w1)"
        using Some cb rx None by (simp add: client_ready_def SocketClient_handleReceive_def)
      moreover note st = receive_stream [OF law(3) rx [unfolded None] wf]
      moreover have "sc_inv opened base ?c w1" using Some cb fd frame st by (simp add: sc_inv_def)
      ultimately show ?thesis using Some cb frame by (cases d) (simp_all add: phase_of_def)
    next
      case err: (Some err)
      obtain ev c' w' where dc: "SocketClient_handleDisconnect sys (c\<lparr>sc_io := io'\<rparr>) w1 = (ev, c', w')"
        by (cases "SocketClient_handleDisconnect sys (c\<lparr>sc_io := io'\<rparr>) w1")
      have "client_ready sys c w = Some (Some ev, c', w')"
        using Some cb rx err dc by (simp add: client_ready_def SocketClient_handleReceive_def)
      with sc_inv_disconnect [OF law(2) _ _ _ dc, of base] fd frame Some cb show ?thesis by (simp add: phase_of_def)
    qed
  qed
qed

lemma client_session_step:
  assumes law: "returns_law sys" "fd_law sys opened" "stream_law sys opened strm" and inv: "sc_inv opened base c w"
  shows "\<exists>evs c' w'. client_session sys n c w = Some (evs, c', w') \<and> sc_inv opened base c' w' \<and>
    client_trace (phase_of c) evs = Some (phase_of c') \<and> list_all msg_ok (client_msgs evs) \<and>
    (\<exists>rest. consumed (sc_io c) @ strm (io_fd (sc_io c)) w = frames (client_msgs evs) @ rest \<and>
      (phase_of c' \<noteq> Offline \<longrightarrow>
         io_fd (sc_io c') = io_fd (sc_io c) \<and> rest = consumed (sc_io c') @ strm (io_fd (sc_io c)) w'))"
  using inv
proof (induction n arbitrary: c w)
  case (Suc n)
  from client_ready_step [OF law Suc.prems] obtain ev c1 w1 rest1 where
    step: "client_ready sys c w = Some (ev, c1, w1)" "sc_inv opened base c1 w1"
      "client_trace (phase_of c) (ev_list ev) = Some (phase_of c1)" "list_all msg_ok (client_msgs (ev_list ev))"
      "consumed (sc_io c) @ strm (io_fd (sc_io c)) w = frames (client_msgs (ev_list ev)) @ rest1"
      "phase_of c1 \<noteq> Offline \<longrightarrow>
         io_fd (sc_io c1) = io_fd (sc_io c) \<and> rest1 = consumed (sc_io c1) @ strm (io_fd (sc_io c)) w1"
    by (elim exE conjE)
  from Suc.IH [OF step(2)] obtain evs c' w' rest where
    rest: "client_session sys n c1 w1 = Some (evs, c', w')" "sc_inv opened base c' w'"
      "client_trace (phase_of c1) evs = Some (phase_of c')" "list_all msg_ok (client_msgs evs)"
      "consumed (sc_io c1) @ strm (io_fd (sc_io c1)) w1 = frames (client_msgs evs) @ rest"
      "phase_of c' \<noteq> Offline \<longrightarrow>
         io_fd (sc_io c') = io_fd (sc_io c1) \<and> rest = consumed (sc_io c') @ strm (io_fd (sc_io c1)) w'"
    by (elim exE conjE)
  have run: "client_session sys (Suc n) c w = Some (ev_list ev @ evs, c', w')" using step(1) rest(1) by simp
  show ?case
  proof (cases "phase_of c1 = Offline")
    case True
    with rest(3) have "evs = [] \<and> phase_of c' = Offline" by (cases evs) auto
    with run rest(2) step True show ?thesis by (simp del: client_session.simps)
  next
    case False
    with run rest step show ?thesis by (simp add: client_trace_append)
  qed
qed auto


lemma client_start:
  assumes law: "returns_law sys" "fd_law sys opened"
  shows "\<exists>e c w'. SocketClient_start sys (SocketClient_make a) w = Some (e, c, w') \<and>
    (if e = None then sc_inv opened (opened w) c w' \<and> phase_of c = Connecting \<and> consumed (sc_io c) = []
     else opened w' = opened w \<and> c = SocketClient_make a)"
proof -
  obtain r w1 where so: "SocketAddress_socket sys SOCK_STREAM a w = Some (r, w1)"
    using socket_returns [OF law(1)] by blast
  note fds = socket_descriptors [OF law(2) so]
  note defs = SocketClient_start_def SocketClient_makeSocketHandle_def SocketClient_make_def
      OwnedFd_move_assign_def OwnedFd_move_def OwnedFd_destroy_def OwnedFd_reset_def
  show ?thesis
  proof (cases r)
    case (Inl e)
    with so fds show ?thesis by (simp add: defs)
  next
    case (Inr fd)
    with fds have fd: "0 \<le> fd" "fd \<notin> opened w" "opened w1 = insert fd (opened w)" by simp_all
    obtain r2 w2 where r2: "posixSyscallError (sys_connect sys fd (addr_storage a) (addr_len a)) w1 = Some (r2, w2)"
      using returns_lawD(4) [OF law(1), of fd "addr_storage a" "addr_len a" w1] by auto
    have w2: "opened w2 = insert fd (opened w)"
      using retry_keeps [where opened = opened, OF r2 fd_lawD(8) [OF law(2)]] fd(3) by simp
    define e where "e = (case r2 of SysErr err \<Rightarrow> if err = EINPROGRESS then None else Some (errnoToError err) | SysOk _ \<Rightarrow> None)"
    have con: "SocketAddress_connect sys fd a w1 = Some (e, w2)"
      using r2 by (simp add: SocketAddress_connect_def e_def)
    have code: "getCode x \<noteq> OperationInProgress" if "e = Some x" for x
      using that by (auto simp: e_def errnoToError_def errno_simps split: sysret.splits if_splits)
    show ?thesis
    proof (cases e)
      case None
      with so Inr con fd w2 show ?thesis
        by (simp add: defs IoState_init_def) (simp add: sc_inv_def phase_of_def io_wf_def consumed_def MsgHeader_init_def)
    next
      case (Some x)
      with so Inr con code [OF Some] fd w2 show ?thesis by (auto simp: defs fd_lawD(11) [OF law(2)])
    qed
  qed
qed

section \<open>A concrete operating system\<close>

text \<open>
  Open descriptors, the bytes still to come on each, the streams of the clients that wait
  to be accepted. Nothing fails; a stream that is used up has ended.
\<close>

record demo_world =
  dw_open :: "int list"
  dw_strm :: "int \<Rightarrow> byte list"
  dw_pending :: "byte list list"

definition dw_fresh :: "demo_world \<Rightarrow> int" where
  "dw_fresh w = Max (insert 0 (set (dw_open w))) + 1"

definition demo_sys :: "demo_world pipe_sys" where
  "demo_sys =
     \<lparr>sys_socket = (\<lambda>f t w. (SysOk (dw_fresh w), w\<lparr>dw_open := dw_fresh w # dw_open w\<rparr>)),
      sys_fcntl_nonblock = (\<lambda>fd w. (SysOk (), w)),
      sys_setsockopt = (\<lambda>fd opt v w. (SysOk (), w)),
      sys_bind = (\<lambda>fd st l w. (SysOk (), w)),
      sys_connect = (\<lambda>fd st l w. (SysErr EINPROGRESS, w)),
      sys_listen = (\<lambda>fd n w. (SysOk (), w)),
      sys_accept = (\<lambda>sfd n w. case dw_pending w of
          [] \<Rightarrow> (SysErr EAGAIN, w)
        | bs # pend \<Rightarrow> (SysOk (dw_fresh w, le_bytes 2 AF_UNIX, 2),
            w\<lparr>dw_open := dw_fresh w # dw_open w, dw_strm := (dw_strm w)(dw_fresh w := bs), dw_pending := pend\<rparr>)),
      sys_getsockopt_error = (\<lambda>fd w. (SysOk 0, w)),
      sys_close = (\<lambda>fd w. w\<lparr>dw_open := removeAll fd (dw_open w)\<rparr>),
      sys_recv = (\<lambda>fd n w. (SysOk (take n (dw_strm w fd)), w\<lparr>dw_strm := (dw_strm w)(fd := drop n (dw_strm w fd))\<rparr>)),
      sys_send = (\<lambda>fd bs w. (SysOk (length bs), w))\<rparr>"

definition demo_start :: demo_world where
  "demo_start = \<lparr>dw_open = [0], dw_strm = (\<lambda>_. frame [7]), dw_pending = [frame [1, 2], frame [3]]\<rparr>"

lemma dw_fresh: "dw_fresh w \<notin> set (dw_open w)" "0 \<le> dw_fresh w"
proof -
  have "x \<le> Max (insert 0 (set (dw_open w)))" if "x \<in> insert 0 (set (dw_open w))" for x
    using that by (intro Max_ge) auto
  from this [of "dw_fresh w"] this [of 0] show "dw_fresh w \<notin> set (dw_open w)" "0 \<le> dw_fresh w"
    by (auto simp: dw_fresh_def)
qed

lemma demo_fd_law: "fd_law demo_sys (\<lambda>w. set (dw_open w))"
  unfolding fd_law_def using dw_fresh by (auto simp: demo_sys_def split: list.splits)

lemma demo_stream_law: "stream_law demo_sys (\<lambda>w. set (dw_open w)) (\<lambda>fd w. dw_strm w fd)"
  unfolding stream_law_def using dw_fresh by (auto simp: demo_sys_def split: list.split)

lemma posixSyscallError_direct: "fst (call w) \<noteq> SysErr EINTR \<Longrightarrow> posixSyscallError call w = Some (call w)"
  using posixSyscallError_now [of call w "fst (call w)" "snd (call w)"] by simp

lemma demo_returns_law: "returns_law demo_sys"
proof -
  have acc: "SocketAddress_accept demo_sys fd a w \<noteq> None" for fd a w
    by (subst SocketAddress_accept.simps)
      (simp add: demo_sys_def posixSyscallError_direct configureNoDelay_def Let_def split: list.split)
  show ?thesis
    unfolding returns_law_def
    by (intro conjI allI; (rule acc | simp add: demo_sys_def posixSyscallError_direct errno_simps))
qed


lemma demo_accept:
  "SocketAddress_accept demo_sys fd SocketAddress_init w =
     (case dw_pending w of
        [] \<Rightarrow> Some (SocketAddress_init\<lparr>addr_len := 128\<rparr>, None, w)
      | bs # pend \<Rightarrow> Some ((set_field 0 (le_bytes 2 AF_UNIX) SocketAddress_init)\<lparr>addr_len := 2\<rparr>, Some (dw_fresh w),
            w\<lparr>dw_open := dw_fresh w # dw_open w, dw_strm := (dw_strm w)(dw_fresh w := bs), dw_pending := pend\<rparr>))"
proof -
  have "\<not> isAnyInet ((set_field 0 (le_bytes 2 AF_UNIX) SocketAddress_init)\<lparr>addr_len := 2\<rparr>)"
    by (simp add: isAnyInet_def Let_def sa_family_def field_set) (simp add: af_defs)
  then show ?thesis
    by (subst SocketAddress_accept.simps) (simp add: demo_sys_def posixSyscallError_direct Let_def split: list.split)
qed

definition demo_server :: socket_server where
  "demo_server = \<lparr>ss_fd = 1, ss_address = unix_address [120], ss_unique_client_id_counter = 0,
     ss_accept_callback = Some 1, ss_clients = []\<rparr>"

lemma demo_server_start:
  "SocketServer_start demo_sys (SocketServer_make (unix_address [120])) demo_start =
     Some (None, demo_server, demo_start\<lparr>dw_open := [1, 0]\<rparr>)"
proof -
  have fam: "\<not> isAnyInet (unix_address [120])" "\<not> is_wildcard (unix_address [120])"
    using unix_address_sel [of "[120]"] by (simp_all add: isAnyInet_def af_defs)
  have "dw_fresh demo_start = 1" by (simp add: dw_fresh_def demo_start_def)
  with fam show ?thesis
    by (simp add: SocketServer_start_def SocketServer_makeSocketHandle_def SocketServer_make_def
        SocketAddress_socket_def SocketAddress_bind_def demo_sys_def posixSyscallError_direct OwnedFd_empty_def
        OwnedFd_move_assign_def OwnedFd_move_def OwnedFd_destroy_def OwnedFd_reset_def demo_server_def)
      (simp add: demo_start_def)
qed

section \<open>The pipes refine their contracts\<close>

text \<open>
  C6. The server pipe. Started on any address, the server gets through every sequence of
  ready sockets, and the events it hands to the router are those of the abstract pipe:
  ids are given out in order and never twice, messages come from connected clients only,
  every client is disconnected at most once. The open descriptors are at every moment
  those that were open before, the listening one and exactly one for each connected
  client: none leaks and none is closed twice.
\<close>

theorem server_pipe_refines:
  assumes law: "returns_law sys" "fd_law sys opened" "stream_law sys opened strm"
    and start: "SocketServer_start sys (SocketServer_make a) w0 = Some (None, s, w)"
    and "length trs < 2 ^ 64"
  shows "\<exists>evs s' w'. server_session sys trs s w = Some (evs, s', w') \<and>
    pipe_trace ({}, 0) evs = Some (pipe_state s') \<and>
    opened w' = opened w0 \<union> {ss_fd s'} \<union> ran (fd_of s') \<and>
    ran (fd_of s') \<inter> (opened w0 \<union> {ss_fd s'}) = {} \<and> inj_on (fd_of s') (dom (map_of (ss_clients s')))"
proof -
  from server_start [OF law(1,2), of a w0] start
  have inv: "ss_inv opened (opened w0) s w" and st: "pipe_state s = ({}, 0)" by simp_all
  then have "unat (ss_unique_client_id_counter s) + length trs < 2 ^ 64" using assms(5) by (simp add: pipe_state_def)
  from server_session_step [OF law inv this] st show ?thesis
    by (auto simp: ss_inv_def dom_fd_of)
qed

theorem server_pipe_refines_witness:
  "\<exists>evs s' w'. server_session demo_sys [AcceptReady, ClientReady 1, AcceptReady, ClientReady 2, ClientReady 1]
       demo_server (demo_start\<lparr>dw_open := [1, 0]\<rparr>) = Some (evs, s', w') \<and>
     pipe_trace ({}, 0) evs = Some (pipe_state s') \<and> set (dw_open w') = {0} \<union> {ss_fd s'} \<union> ran (fd_of s')"
proof -
  have "length [AcceptReady, ClientReady 1, AcceptReady, ClientReady 2, ClientReady 1] < 2 ^ 64" by simp
  from server_pipe_refines [OF demo_returns_law demo_fd_law demo_stream_law demo_server_start this]
  show ?thesis by (auto simp: demo_start_def)
qed

text \<open>
  C7. Clients do not disturb each other. In every state the server can get to, and for
  every further sequence of ready sockets, the messages reported for a client are the
  frames at the beginning of what was still to come from that very client, each complete
  and within the size limit, in order; as long as it is connected nothing of its stream is
  lost. The traffic, arrival and end of the other clients make no difference.
\<close>

theorem clients_isolated:
  assumes law: "returns_law sys" "fd_law sys opened" "stream_law sys opened strm"
    and start: "SocketServer_start sys (SocketServer_make a) w0 = Some (None, s0, w1)"
    and reach: "server_session sys trs0 s0 w1 = Some (evs0, s, w)" "length trs0 + length trs < 2 ^ 64"
    and client: "map_of (ss_clients s) cl = Some cc"
    and run: "server_session sys trs s w = Some (evs, s', w')"
  shows "list_all msg_ok (msgs_of cl evs) \<and>
    (\<exists>rest. consumed (cc_io cc) @ strm (io_fd (cc_io cc)) w = frames (msgs_of cl evs) @ rest \<and>
      (\<forall>cc'. map_of (ss_clients s') cl = Some cc' \<longrightarrow>
         io_fd (cc_io cc') = io_fd (cc_io cc) \<and> rest = consumed (cc_io cc') @ strm (io_fd (cc_io cc)) w'))"
proof -
  from server_start [OF law(1,2), of a w0] start
  have inv: "ss_inv opened (opened w0) s0 w1" and st: "pipe_state s0 = ({}, 0)" by simp_all
  then have "unat (ss_unique_client_id_counter s0) + length trs0 < 2 ^ 64" using reach(2) by (simp add: pipe_state_def)
  from server_session_step [OF law inv this] reach(1) st
  have inv': "ss_inv opened (opened w0) s w" and tr: "pipe_trace ({}, 0) evs0 = Some (pipe_state s)" by auto
  have "unat (ss_unique_client_id_counter s) \<le> length evs0"
    using pipe_trace_counter [OF tr [unfolded pipe_state_def]] by simp
  then have "unat (ss_unique_client_id_counter s) + length trs < 2 ^ 64"
    using server_session_length [OF reach(1)] reach(2) by simp
  from server_session_stream [OF law inv' this run client] show ?thesis .
qed

theorem clients_isolated_witness:
  "\<exists>s w evs s' w' rest. server_session demo_sys [AcceptReady] demo_server (demo_start\<lparr>dw_open := [1, 0]\<rparr>) =
       Some ([SP_Connected 1], s, w) \<and>
     server_session demo_sys [ClientReady 1, AcceptReady, ClientReady 2] s w = Some (evs, s', w') \<and>
     frame [1, 2] = frames (msgs_of 1 evs) @ rest"
proof -
  let ?cc = "setCallback (Some 2) (ClientContext_make 1 2)"
  let ?s = "demo_server\<lparr>ss_unique_client_id_counter := 1, ss_clients := [(1, ?cc)]\<rparr>"
  let ?w = "demo_start\<lparr>dw_open := [2, 1, 0], dw_strm := (dw_strm demo_start)(2 := frame [1, 2]), dw_pending := [frame [3]]\<rparr>"
  have "dw_fresh (demo_start\<lparr>dw_open := [1, 0]\<rparr>) = 2" by (simp add: dw_fresh_def)
  then have reach: "server_session demo_sys [AcceptReady] demo_server (demo_start\<lparr>dw_open := [1, 0]\<rparr>) =
      Some ([SP_Connected 1], ?s, ?w)"
    by (simp add: demo_server_def SocketServer_handleAccept_def demo_accept Let_def)
      (simp add: demo_start_def um_emplace_def)
  note law = demo_returns_law demo_fd_law demo_stream_law
  have "ss_inv (\<lambda>w. set (dw_open w)) {0} demo_server (demo_start\<lparr>dw_open := [1, 0]\<rparr>)"
    using server_start [OF law(1,2), of "unix_address [120]" demo_start] demo_server_start by (simp add: demo_start_def)
  from server_session_step [OF law this, of "[AcceptReady]"] reach
  have "ss_inv (\<lambda>w. set (dw_open w)) {0} ?s ?w" by (simp add: demo_server_def)
  moreover have "unat (ss_unique_client_id_counter ?s) + length [ClientReady 1, AcceptReady, ClientReady 2] < 2 ^ 64" by simp
  ultimately obtain evs s' w' where
    run: "server_session demo_sys [ClientReady 1, AcceptReady, ClientReady 2] ?s ?w = Some (evs, s', w')"
    using server_session_step [OF law] by blast
  have client: "map_of (ss_clients ?s) 1 = Some ?cc" by simp
  have len: "length [AcceptReady] + length [ClientReady 1, AcceptReady, ClientReady 2] < 2 ^ 64" by simp
  have io: "consumed (cc_io ?cc) = []" "io_fd (cc_io ?cc) = 2" by (simp_all add: setCallback_def ClientContext_make_def)
  from clients_isolated [OF law demo_server_start reach len client run] io
  obtain rest where "frame [1, 2] = frames (msgs_of 1 evs) @ rest" by auto
  with reach run show ?thesis by blast
qed

text \<open>
  C31. The client pipe. A started client reports, over any number of calls from the
  executor, at most one connection, then messages, then at most one disconnection, and
  nothing after that; the messages are the frames at the beginning of the server's stream;
  its descriptor is open exactly until it is disconnected.
\<close>

theorem client_pipe_refines:
  assumes law: "returns_law sys" "fd_law sys opened" "stream_law sys opened strm"
    and start: "SocketClient_start sys (SocketClient_make a) w0 = Some (None, c, w)"
  shows "\<exists>evs c' w' rest. client_session sys n c w = Some (evs, c', w') \<and>
    client_trace Connecting evs = Some (phase_of c') \<and>
    list_all msg_ok (client_msgs evs) \<and> strm (io_fd (sc_io c)) w = frames (client_msgs evs) @ rest \<and>
    opened w' = (if phase_of c' = Offline then opened w0 else insert (io_fd (sc_io c)) (opened w0))"
proof -
  from client_start [OF law(1,2), of a w0] start
  have inv: "sc_inv opened (opened w0) c w" and ph: "phase_of c = Connecting" "consumed (sc_io c) = []" by simp_all
  from client_session_step [OF law inv, of n] obtain evs c' w' rest where
    run: "client_session sys n c w = Some (evs, c', w')" "sc_inv opened (opened w0) c' w'"
      "client_trace (phase_of c) evs = Some (phase_of c')" "list_all msg_ok (client_msgs evs)"
      "consumed (sc_io c) @ strm (io_fd (sc_io c)) w = frames (client_msgs evs) @ rest"
      "phase_of c' \<noteq> Offline \<longrightarrow>
         io_fd (sc_io c') = io_fd (sc_io c) \<and> rest = consumed (sc_io c') @ strm (io_fd (sc_io c)) w'"
    by (elim exE conjE)
  have "opened w' = (if phase_of c' = Offline then opened w0 else insert (io_fd (sc_io c)) (opened w0))"
    using run(2,6) by (auto simp: sc_inv_def phase_of_def split: option.splits client_callback.splits)
  with run ph show ?thesis by (intro exI conjI) simp_all
qed


theorem client_pipe_refines_witness:
  "\<exists>c w evs c' w' rest. SocketClient_start demo_sys (SocketClient_make (unix_address [120])) demo_start = Some (None, c, w) \<and>
     client_session demo_sys 5 c w = Some (evs, c', w') \<and> client_trace Connecting evs = Some (phase_of c') \<and>
     frame [7] = frames (client_msgs evs) @ rest"
proof -
  have fam: "\<not> isAnyInet (unix_address [120])"
    using unix_address_sel [of "[120]"] by (simp add: isAnyInet_def af_defs)
  let ?c = "(SocketClient_make (unix_address [120]))\<lparr>sc_io := IoState_init\<lparr>io_fd := 1\<rparr>, sc_callback := Some (AwaitConnect 1)\<rparr>"
  have "dw_fresh demo_start = 1" by (simp add: dw_fresh_def demo_start_def)
  with fam have start: "SocketClient_start demo_sys (SocketClient_make (unix_address [120])) demo_start =
      Some (None, ?c, demo_start\<lparr>dw_open := [1, 0]\<rparr>)"
    by (simp add: SocketClient_start_def SocketClient_makeSocketHandle_def SocketClient_make_def
        SocketAddress_socket_def SocketAddress_connect_def demo_sys_def posixSyscallError_direct errno_simps
        OwnedFd_move_assign_def OwnedFd_move_def OwnedFd_destroy_def OwnedFd_reset_def IoState_init_def)
      (simp add: demo_start_def)
  from client_pipe_refines [OF demo_returns_law demo_fd_law demo_stream_law start, of 5]
  obtain evs c' w' rest where run: "client_session demo_sys 5 ?c (demo_start\<lparr>dw_open := [1, 0]\<rparr>) = Some (evs, c', w')"
    "client_trace Connecting evs = Some (phase_of c')"
    "dw_strm (demo_start\<lparr>dw_open := [1, 0]\<rparr>) (io_fd (sc_io ?c)) = frames (client_msgs evs) @ rest"
    by (elim exE conjE)
  have "frame [7] = frames (client_msgs evs) @ rest" using run(3) by (simp add: demo_start_def)
  with start run(1,2) show ?thesis by (intro exI conjI)
qed

end
