(* ===== verification/Daemon_Config.thy ===== *)
theory Daemon_Config
  imports Prelude
begin

text \<open>
  \<^verbatim>\<open>src/daemon/engine/config.cpp\<close>: the daemon's configuration, a TOML document with a dirty flag, and
  how it is saved. The TOML library is a parameter (\<open>toml_env\<close>, over documents of type \<open>'t\<close>):
  a lookup gives no value where \<open>toml::find\<close> throws. \<open>toml_law\<close> states what the daemon relies on.
  Strings of the configuration are byte strings. The file system is a map from paths to
  contents, together with the files that can be opened for writing.
\<close>

type_synonym cstring = "byte list"
type_synonym toml_path = "string list"

record 't toml_env =
  toml_find_strings :: "toml_path \<Rightarrow> 't \<Rightarrow> cstring list option"
  toml_find_string :: "toml_path \<Rightarrow> 't \<Rightarrow> cstring option"
  toml_find_u16 :: "toml_path \<Rightarrow> 't \<Rightarrow> u16 option"
  toml_find_size :: "toml_path \<Rightarrow> 't \<Rightarrow> u64 option"
  toml_find_bytes :: "toml_path \<Rightarrow> 't \<Rightarrow> byte list option"
  toml_set_strings :: "toml_path \<Rightarrow> cstring list \<Rightarrow> 't \<Rightarrow> 't"
  toml_set_bytes_hex :: "toml_path \<Rightarrow> byte list \<Rightarrow> 't \<Rightarrow> 't"
  toml_set_time :: "toml_path \<Rightarrow> nat \<Rightarrow> 't \<Rightarrow> 't"
  toml_format :: "'t \<Rightarrow> cstring option"
  toml_parse :: "cstring \<Rightarrow> 't option"

record 't config =
  cfg_file_path :: cstring
  cfg_root :: 't
  cfg_is_dirty :: bool

record file_store =
  fst_files :: "cstring \<rightharpoonup> cstring"
  fst_writable :: "cstring \<Rightarrow> bool"

section \<open>Operations\<close>

text \<open>\<open>Config::make\<close>; a document that cannot be read or parsed is an exception.\<close>

definition Config_make :: "'t toml_env \<Rightarrow> cstring \<Rightarrow> file_store \<Rightarrow> 't config option" where
  "Config_make te file_path fs =
     (case fst_files fs file_path of
        None \<Rightarrow> None
      | Some doc_str \<Rightarrow>
         (case toml_parse te doc_str of
            None \<Rightarrow> None
          | Some root \<Rightarrow> Some \<lparr>cfg_file_path = file_path, cfg_root = root, cfg_is_dirty = False\<rparr>))"

text \<open>
  Writing through a \<open>std::ofstream\<close> whose exceptions are off: a file that cannot be opened
  leaves the stream bad, and the output operator does nothing.
\<close>

definition ofstream_write :: "cstring \<Rightarrow> cstring \<Rightarrow> file_store \<Rightarrow> file_store" where
  "ofstream_write path doc_str fs =
     (if fst_writable fs path then fs\<lparr>fst_files := (fst_files fs)(path \<mapsto> doc_str)\<rparr> else fs)"

definition config_save :: "'t toml_env \<Rightarrow> nat \<Rightarrow> 't config \<Rightarrow> file_store \<Rightarrow> 't config \<times> file_store" where
  "config_save te now c fs =
     (if cfg_is_dirty c then
        let c1 = c\<lparr>cfg_root := toml_set_time te [''__meta__'', ''last_modified''] now (cfg_root c)\<rparr>
        in case toml_format te (cfg_root c1) of
             None \<Rightarrow> (c1, fs)
           | Some cfg_str \<Rightarrow> (c1\<lparr>cfg_is_dirty := False\<rparr>, ofstream_write (cfg_file_path c1) cfg_str fs)
      else (c, fs))"

definition getCyphalAppNodeId :: "'t toml_env \<Rightarrow> 't config \<Rightarrow> u16 option" where
  "getCyphalAppNodeId te c = toml_find_u16 te [''cyphal'', ''application'', ''node_id''] (cfg_root c)"

definition getCyphalAppUniqueId :: "'t toml_env \<Rightarrow> 't config \<Rightarrow> byte list option" where
  "getCyphalAppUniqueId te c = toml_find_bytes te [''cyphal'', ''application'', ''unique_id''] (cfg_root c)"

definition setCyphalAppUniqueId :: "'t toml_env \<Rightarrow> byte list \<Rightarrow> 't config \<Rightarrow> 't config" where
  "setCyphalAppUniqueId te unique_id c =
     c\<lparr>cfg_root := toml_set_bytes_hex te [''cyphal'', ''application'', ''unique_id''] unique_id (cfg_root c),
       cfg_is_dirty := True\<rparr>"

definition find_or_nil :: "'t toml_env \<Rightarrow> toml_path \<Rightarrow> 't \<Rightarrow> cstring list" where
  "find_or_nil te path t = (case toml_find_strings te path t of None \<Rightarrow> [] | Some xs \<Rightarrow> xs)"

definition getCyphalTransportInterfaces :: "'t toml_env \<Rightarrow> 't config \<Rightarrow> cstring list" where
  "getCyphalTransportInterfaces te c = find_or_nil te [''cyphal'', ''transport'', ''interfaces''] (cfg_root c)"

definition getCyphalTransportMtu :: "'t toml_env \<Rightarrow> 't config \<Rightarrow> u64 option" where
  "getCyphalTransportMtu te c = toml_find_size te [''cyphal'', ''transport'', ''mtu''] (cfg_root c)"

definition getFileServerRoots :: "'t toml_env \<Rightarrow> 't config \<Rightarrow> cstring list" where
  "getFileServerRoots te c = find_or_nil te [''file_server'', ''roots''] (cfg_root c)"

definition setFileServerRoots :: "'t toml_env \<Rightarrow> cstring list \<Rightarrow> 't config \<Rightarrow> 't config" where
  "setFileServerRoots te roots c =
     c\<lparr>cfg_root := toml_set_strings te [''file_server'', ''roots''] roots (cfg_root c), cfg_is_dirty := True\<rparr>"

definition getIpcConnections :: "'t toml_env \<Rightarrow> 't config \<Rightarrow> cstring list" where
  "getIpcConnections te c = find_or_nil te [''ipc'', ''connections''] (cfg_root c)"

definition getLoggingFile :: "'t toml_env \<Rightarrow> 't config \<Rightarrow> cstring option" where
  "getLoggingFile te c = toml_find_string te [''logging'', ''file''] (cfg_root c)"

definition getLoggingLevel :: "'t toml_env \<Rightarrow> 't config \<Rightarrow> cstring option" where
  "getLoggingLevel te c = toml_find_string te [''logging'', ''level''] (cfg_root c)"

definition getLoggingFlushLevel :: "'t toml_env \<Rightarrow> 't config \<Rightarrow> cstring option" where
  "getLoggingFlushLevel te c = toml_find_string te [''logging'', ''flush_level''] (cfg_root c)"

text \<open>
  \<open>Engine::getUniqueId\<close> (\<^verbatim>\<open>engine.cpp\<close>): the configured id, or a random one (\<open>fresh\<close>) that is stored.
\<close>

definition engine_getUniqueId ::
    "'t toml_env \<Rightarrow> nat \<Rightarrow> byte list \<Rightarrow> 't config \<Rightarrow> file_store \<Rightarrow> byte list \<times> 't config \<times> file_store" where
  "engine_getUniqueId te now fresh c fs =
     (case getCyphalAppUniqueId te c of
        Some unique_id \<Rightarrow> (unique_id, c, fs)
      | None \<Rightarrow> (fresh, config_save te now (setCyphalAppUniqueId te fresh c) fs))"

section \<open>The TOML library\<close>

text \<open>
  What the daemon relies on: a value that has been assigned under a path is found there, an
  assignment under another path does not touch it, and a formatted document parses back.
\<close>

definition toml_law :: "'t toml_env \<Rightarrow> bool" where
  "toml_law te \<longleftrightarrow>
     (\<forall>p xs t. toml_find_strings te p (toml_set_strings te p xs t) = Some xs) \<and>
     (\<forall>p bs t. toml_find_bytes te p (toml_set_bytes_hex te p bs t) = Some bs) \<and>
     (\<forall>p q xs t. p \<noteq> q \<longrightarrow> toml_find_bytes te p (toml_set_strings te q xs t) = toml_find_bytes te p t) \<and>
     (\<forall>p q bs t. p \<noteq> q \<longrightarrow> toml_find_strings te p (toml_set_bytes_hex te q bs t) = toml_find_strings te p t) \<and>
     (\<forall>p q n t. p \<noteq> q \<longrightarrow> toml_find_strings te p (toml_set_time te q n t) = toml_find_strings te p t
        \<and> toml_find_bytes te p (toml_set_time te q n t) = toml_find_bytes te p t) \<and>
     (\<forall>t doc_str. toml_format te t = Some doc_str \<longrightarrow> toml_parse te doc_str = Some t)"

lemma toml_lawD:
  assumes "toml_law te"
  shows "toml_find_strings te p (toml_set_strings te p xs t) = Some xs"
    "toml_find_bytes te p (toml_set_bytes_hex te p bs t) = Some bs"
    "p \<noteq> q \<Longrightarrow> toml_find_bytes te p (toml_set_strings te q xs t) = toml_find_bytes te p t"
    "p \<noteq> q \<Longrightarrow> toml_find_strings te p (toml_set_bytes_hex te q bs t) = toml_find_strings te p t"
    "p \<noteq> q \<Longrightarrow> toml_find_strings te p (toml_set_time te q n t) = toml_find_strings te p t"
    "p \<noteq> q \<Longrightarrow> toml_find_bytes te p (toml_set_time te q n t) = toml_find_bytes te p t"
    "toml_format te t = Some doc_str \<Longrightarrow> toml_parse te doc_str = Some t"
  using assms by (simp_all add: toml_law_def)

lemma getFileServerRoots_set:
  assumes "toml_law te"
  shows "getFileServerRoots te (setFileServerRoots te roots c) = roots"
  by (simp add: getFileServerRoots_def setFileServerRoots_def find_or_nil_def toml_lawD(1) [OF assms])

section \<open>A TOML library for the witnesses\<close>

text \<open>
  Documents that keep one list of strings and one byte string per path, written as bytes in a
  self-delimiting form.
\<close>

datatype toml_item = TStrings "cstring list" | TBytes "byte list" | TTime nat

type_synonym demo_toml = "(toml_path \<times> toml_item) list"

text \<open>The demonstration library formats only the empty document and those it is told of.\<close>

definition demo_toml :: "demo_toml \<Rightarrow> demo_toml toml_env" where
  "demo_toml doc = \<lparr>
     toml_find_strings = (\<lambda>p t. case map_of t p of Some (TStrings xs) \<Rightarrow> Some xs | _ \<Rightarrow> None),
     toml_find_string = (\<lambda>p t. None), toml_find_u16 = (\<lambda>p t. None), toml_find_size = (\<lambda>p t. None),
     toml_find_bytes = (\<lambda>p t. case map_of t p of Some (TBytes bs) \<Rightarrow> Some bs | _ \<Rightarrow> None),
     toml_set_strings = (\<lambda>p xs t. (p, TStrings xs) # t),
     toml_set_bytes_hex = (\<lambda>p bs t. (p, TBytes bs) # t),
     toml_set_time = (\<lambda>p n t. (p, TTime n) # t),
     toml_format = (\<lambda>t. if t = doc then Some [1] else None),
     toml_parse = (\<lambda>doc_str. if doc_str = [1] then Some doc else None)\<rparr>"

lemma demo_toml_law: "toml_law (demo_toml doc)"
  by (simp add: toml_law_def demo_toml_def)

section \<open>Properties\<close>



text \<open>
  A failed save goes unnoticed: when the configuration file cannot be opened for writing,
  \<open>save\<close> writes nothing and still clears the dirty flag, so no later \<open>save\<close> writes the change.
\<close>

theorem unwritable_save_forgets:
  assumes "\<not> fst_writable fs (cfg_file_path c)" "cfg_is_dirty c"
    and "toml_format te (toml_set_time te [''__meta__'', ''last_modified''] now (cfg_root c)) \<noteq> None"
  shows "\<exists>c'. config_save te now c fs = (c', fs) \<and> \<not> cfg_is_dirty c' \<and> config_save te later c' fs' = (c', fs')"
  using assms
  by (intro exI [of _ "c\<lparr>cfg_root := toml_set_time te [''__meta__'', ''last_modified''] now (cfg_root c), cfg_is_dirty := False\<rparr>"])
    (auto simp: config_save_def ofstream_write_def Let_def)

theorem unwritable_save_forgets_witness:
  "\<exists>c'. config_save (demo_toml [([''__meta__'', ''last_modified''], TTime 7)]) 7
      \<lparr>cfg_file_path = [47], cfg_root = [], cfg_is_dirty = True\<rparr> \<lparr>fst_files = Map.empty, fst_writable = (\<lambda>_. False)\<rparr>
    = (c', \<lparr>fst_files = Map.empty, fst_writable = (\<lambda>_. False)\<rparr>) \<and> \<not> cfg_is_dirty c'"
  using unwritable_save_forgets [of "\<lparr>fst_files = Map.empty, fst_writable = (\<lambda>_. False)\<rparr>"
      "\<lparr>cfg_file_path = [47], cfg_root = [], cfg_is_dirty = True\<rparr>"
      "demo_toml [([''__meta__'', ''last_modified''], TTime 7)]" 7]
  by (auto simp: demo_toml_def)

end
