(* ===== verification/File_Provider.thy ===== *)
theory File_Provider
  imports Daemon_Config Sdk_Error
begin

text \<open>
  \<^verbatim>\<open>src/daemon/engine/cyphal/file_provider.cpp\<close>: the file server of the daemon's Cyphal node. It keeps a
  list of root directories (mirrored in the configuration) and serves \<open>GetInfo\<close> and \<open>Read\<close>
  requests for paths relative to them.

  A \<open>std::string\<close> is a byte string. The operating system is a parameter (\<open>file_env\<close>): \<open>realpath\<close>,
  \<open>stat\<close>, \<open>access\<close> and the contents a file stream reads. All of them take C strings, so they see a
  \<open>std::string\<close> up to its first NUL byte (\<open>c_str\<close>). The capacity of the data field of a \<open>Read\<close>
  response comes from the public DSDL types and is a parameter too. \<open>None\<close> as the result of \<open>popRoot\<close>
  is undefined behaviour: an iterator before the beginning of the vector.
\<close>

section \<open>State\<close>

record file_stat =
  st_size :: u64
  st_mtime :: u64
  st_is_dir :: bool

record file_env =
  fe_realpath :: "cstring \<Rightarrow> cstring option"
  fe_stat :: "cstring \<Rightarrow> file_stat option"
  fe_access_R :: "cstring \<Rightarrow> bool"
  fe_access_W :: "cstring \<Rightarrow> bool"
  fe_contents :: "cstring \<Rightarrow> byte list option"
  fe_failure_code :: "errno"
  fe_max_data :: nat

datatype file_error =
    File_OK | UNKNOWN_ERROR | NOT_FOUND | IO_ERROR | ACCESS_DENIED | IS_DIRECTORY | INVALID_VALUE
  | FILE_TOO_LARGE | OUT_OF_SPACE | NOT_SUPPORTED

record get_info_response =
  gi_error :: file_error
  gi_size :: u64
  gi_mtime :: u64
  gi_is_file_not_directory :: bool
  gi_is_link :: bool
  gi_is_readable :: bool
  gi_is_writeable :: bool

record read_response =
  rd_error :: file_error
  rd_data :: "byte list"

record 't file_provider =
  fp_roots :: "cstring list"
  fp_config :: "'t config"

abbreviation slash :: byte where "slash \<equiv> 47"

section \<open>Construction\<close>

definition FileProviderImpl_init :: "'t toml_env \<Rightarrow> 't config \<Rightarrow> 't file_provider" where
  "FileProviderImpl_init te c = \<lparr>fp_roots = getFileServerRoots te c, fp_config = c\<rparr>"

text \<open>\<open>make\<close>: both Cyphal servers have to come up.\<close>

definition makeServer :: "cy_failure option \<Rightarrow> bool" where
  "makeServer failure = (case failure of Some _ \<Rightarrow> False | None \<Rightarrow> True)"

definition FileProvider_make ::
    "'t toml_env \<Rightarrow> cy_failure option \<Rightarrow> cy_failure option \<Rightarrow> 't config \<Rightarrow> 't file_provider option" where
  "FileProvider_make te read_srv get_info_srv c =
     (if \<not> makeServer read_srv \<or> \<not> makeServer get_info_srv then None else Some (FileProviderImpl_init te c))"

section \<open>The list of roots\<close>

definition getListOfRoots :: "'t file_provider \<Rightarrow> cstring list" where
  "getListOfRoots p = fp_roots p"

text \<open>\<open>std::find\<close>: the index of the first match, the length when there is none.\<close>

fun std_find :: "'a \<Rightarrow> 'a list \<Rightarrow> nat" where
  "std_find x [] = 0"
| "std_find x (y # ys) = (if y = x then 0 else Suc (std_find x ys))"

definition vector_erase :: "nat \<Rightarrow> 'a list \<Rightarrow> 'a list" where
  "vector_erase i xs = take i xs @ drop (Suc i) xs"

text \<open>
  The reverse search finds the position \<open>k\<close> from the end; \<open>base() - 1\<close> is the index
  \<open>length - k - 1\<close>, which does not exist when nothing was found.
\<close>

definition popRoot :: "'t toml_env \<Rightarrow> cstring \<Rightarrow> bool \<Rightarrow> 't file_provider \<Rightarrow> 't file_provider option" where
  "popRoot te path back p = (
     let roots = fp_roots p;
         it = (if back
               then (let k = std_find path (rev roots)
                     in if k < length roots then Some (length roots - k - 1) else None)
               else Some (std_find path roots))
     in case it of
          None \<Rightarrow> None
        | Some i \<Rightarrow>
            if i \<noteq> length roots then
              let roots' = vector_erase i roots
              in Some (p\<lparr>fp_roots := roots', fp_config := setFileServerRoots te roots' (fp_config p)\<rparr>)
            else Some p)"

definition pushRoot :: "'t toml_env \<Rightarrow> cstring \<Rightarrow> bool \<Rightarrow> 't file_provider \<Rightarrow> 't file_provider" where
  "pushRoot te path back p = (
     let roots' = (if back then fp_roots p @ [path] else path # fp_roots p)
     in p\<lparr>fp_roots := roots', fp_config := setFileServerRoots te roots' (fp_config p)\<rparr>)"

section \<open>Requests\<close>

definition convertErrorCode :: "errno \<Rightarrow> file_error" where
  "convertErrorCode code = (
     if code = EIO \<or> code = EPERM then IO_ERROR
     else if code = ENOENT then NOT_FOUND
     else if code = EISDIR then IS_DIRECTORY
     else if code = ENOSPC then OUT_OF_SPACE
     else if code = EACCES then ACCESS_DENIED
     else if code = EINVAL then INVALID_VALUE
     else if code = ENOTSUP then NOT_SUPPORTED
     else if code = E2BIG then FILE_TOO_LARGE
     else UNKNOWN_ERROR)"

definition canonicalizePath :: "file_env \<Rightarrow> cstring \<Rightarrow> cstring option" where
  "canonicalizePath e path = fe_realpath e (c_str path)"

text \<open>\<open>operator[]\<close> of a \<open>std::string\<close>: NUL at its length.\<close>

definition string_at :: "cstring \<Rightarrow> nat \<Rightarrow> byte" where
  "string_at s i = (if i < length s then s ! i else 0)"

definition buildAndValidateRootWithPath :: "file_env \<Rightarrow> cstring \<Rightarrow> cstring \<Rightarrow> cstring option" where
  "buildAndValidateRootWithPath e root file =
     (case canonicalizePath e root of
        None \<Rightarrow> None
      | Some root_path \<Rightarrow>
         (case canonicalizePath e (root @ [slash] @ file) of
            None \<Rightarrow> None
          | Some file_path \<Rightarrow>
              let root_len = length root_path
              in if take root_len file_path = root_path \<and> string_at file_path root_len = slash
                 then Some file_path else None))"

fun findFirstValidFile :: "file_env \<Rightarrow> cstring \<Rightarrow> cstring list \<Rightarrow> (cstring \<times> file_stat) option" where
  "findFirstValidFile e request_path [] = None"
| "findFirstValidFile e request_path (root # roots) =
     (case buildAndValidateRootWithPath e root request_path of
        None \<Rightarrow> findFirstValidFile e request_path roots
      | Some real_path \<Rightarrow>
         (case fe_stat e (c_str real_path) of
            None \<Rightarrow> findFirstValidFile e request_path roots
          | Some file_stat \<Rightarrow> Some (real_path, file_stat)))"

definition serveGetInfoRequest :: "file_env \<Rightarrow> cstring \<Rightarrow> 't file_provider \<Rightarrow> get_info_response" where
  "serveGetInfoRequest e request_path p =
     (case findFirstValidFile e request_path (fp_roots p) of
        None \<Rightarrow> \<lparr>gi_error = NOT_FOUND, gi_size = 0, gi_mtime = 0, gi_is_file_not_directory = False, gi_is_link = False,
                  gi_is_readable = False, gi_is_writeable = False\<rparr>
      | Some (file_path, file_stat) \<Rightarrow>
          \<lparr>gi_error = File_OK, gi_size = st_size file_stat, gi_mtime = st_mtime file_stat,
           gi_is_file_not_directory = (\<not> st_is_dir file_stat), gi_is_link = False,
           gi_is_readable = fe_access_R e (c_str file_path), gi_is_writeable = fe_access_W e (c_str file_path)\<rparr>)"

text \<open>
  A \<open>std::ifstream\<close> with exceptions on: opening, seeking and reading either give all the bytes
  asked for or throw; a short read sets the fail bit and throws as well.
\<close>

definition ifstream_read :: "file_env \<Rightarrow> cstring \<Rightarrow> nat \<Rightarrow> nat \<Rightarrow> byte list option" where
  "ifstream_read e path off n =
     (case fe_contents e path of
        None \<Rightarrow> None
      | Some bs \<Rightarrow> (if off + n \<le> length bs then Some (take n (drop off bs)) else None))"

definition serveReadRequest :: "file_env \<Rightarrow> cstring \<Rightarrow> u64 \<Rightarrow> 't file_provider \<Rightarrow> read_response" where
  "serveReadRequest e request_path offset p =
     (case findFirstValidFile e request_path (fp_roots p) of
        None \<Rightarrow> \<lparr>rd_error = NOT_FOUND, rd_data = []\<rparr>
      | Some (file_path, file_stat) \<Rightarrow>
          if offset \<ge> st_size file_stat then \<lparr>rd_error = File_OK, rd_data = []\<rparr>
          else
            let bytes_to_read = min (unat (st_size file_stat - offset)) (fe_max_data e)
            in case ifstream_read e (c_str file_path) (unat offset) bytes_to_read of
                 Some data \<Rightarrow> \<lparr>rd_error = File_OK, rd_data = data\<rparr>
               | None \<Rightarrow> \<lparr>rd_error = convertErrorCode (fe_failure_code e), rd_data = []\<rparr>)"

section \<open>The list of roots as a double-ended list\<close>

datatype root_op = PushRoot cstring bool | PopRoot cstring bool

text \<open>What the operations promise: a push at either end, the removal of the first or the last match.\<close>

fun root_spec :: "root_op \<Rightarrow> cstring list \<Rightarrow> cstring list" where
  "root_spec (PushRoot path bk) rs = (if bk then rs @ [path] else path # rs)"
| "root_spec (PopRoot path bk) rs = (if bk then rev (remove1 path (rev rs)) else remove1 path rs)"

text \<open>The operations that are defined: a pop from the back of a path that is there.\<close>

fun root_op_ok :: "root_op \<Rightarrow> cstring list \<Rightarrow> bool" where
  "root_op_ok (PushRoot path bk) rs \<longleftrightarrow> True"
| "root_op_ok (PopRoot path bk) rs \<longleftrightarrow> (bk \<longrightarrow> path \<in> set rs)"

fun root_ops_ok :: "root_op list \<Rightarrow> cstring list \<Rightarrow> bool" where
  "root_ops_ok [] rs \<longleftrightarrow> True"
| "root_ops_ok (rop # rops) rs \<longleftrightarrow> root_op_ok rop rs \<and> root_ops_ok rops (root_spec rop rs)"

fun root_ops_run ::
    "(cstring \<Rightarrow> bool \<Rightarrow> 's \<Rightarrow> 's) \<Rightarrow> (cstring \<Rightarrow> bool \<Rightarrow> 's \<Rightarrow> 's option) \<Rightarrow> root_op list \<Rightarrow> 's \<Rightarrow> 's option" where
  "root_ops_run push pop [] s = Some s"
| "root_ops_run push pop (PushRoot path bk # rops) s = root_ops_run push pop rops (push path bk s)"
| "root_ops_run push pop (PopRoot path bk # rops) s =
     do { s' \<leftarrow> pop path bk s; root_ops_run push pop rops s' }"

locale root_provider =
  fixes roots :: "'s \<Rightarrow> cstring list"
    and push :: "cstring \<Rightarrow> bool \<Rightarrow> 's \<Rightarrow> 's"
    and pop :: "cstring \<Rightarrow> bool \<Rightarrow> 's \<Rightarrow> 's option"
    and synced :: "'s \<Rightarrow> bool"
  assumes roots_push: "roots (push path bk s) = root_spec (PushRoot path bk) (roots s)"
    and roots_pop: "pop path bk s = Some s' \<Longrightarrow> roots s' = root_spec (PopRoot path bk) (roots s)"
    and pop_defined: "pop path bk s = None \<longleftrightarrow> \<not> root_op_ok (PopRoot path bk) (roots s)"
    and synced_push: "synced s \<Longrightarrow> synced (push path bk s)"
    and synced_pop: "synced s \<Longrightarrow> pop path bk s = Some s' \<Longrightarrow> synced s'"
begin

lemma run_defined: "root_ops_run push pop rops s = None \<longleftrightarrow> \<not> root_ops_ok rops (roots s)"
proof (induction rops arbitrary: s)
  case (Cons rop rops)
  show ?case
  proof (cases rop)
    case (PushRoot path bk)
    with Cons show ?thesis using roots_push by (simp del: root_spec.simps)
  next
    case (PopRoot path bk)
    show ?thesis
    proof (cases "pop path bk s")
      case None
      with PopRoot pop_defined [of path bk s] show ?thesis by (simp del: root_spec.simps root_op_ok.simps)
    next
      case (Some s')
      with PopRoot pop_defined [of path bk s] Cons roots_pop [OF Some] show ?thesis
        by (simp del: root_spec.simps root_op_ok.simps)
    qed
  qed
qed simp

lemma run_refines:
  "root_ops_run push pop rops s = Some s' \<Longrightarrow> synced s \<Longrightarrow> roots s' = fold root_spec rops (roots s) \<and> synced s'"
proof (induction rops arbitrary: s)
  case (Cons rop rops)
  show ?case
  proof (cases rop)
    case (PushRoot path bk)
    with Cons.IH [of "push path bk s"] Cons.prems synced_push roots_push show ?thesis by (simp del: root_spec.simps)
  next
    case (PopRoot path bk)
    with Cons.prems obtain t where "pop path bk s = Some t" "root_ops_run push pop rops t = Some s'"
      by (auto simp: bind_eq_Some_conv)
    with Cons.IH [of t] Cons.prems(2) synced_pop roots_pop PopRoot show ?thesis by (simp del: root_spec.simps)
  qed
qed simp

end

subsection \<open>The provider implements it\<close>

lemma std_find_le: "std_find x xs \<le> length xs"
  by (induction xs) auto

lemma std_find_less_iff: "std_find x xs < length xs \<longleftrightarrow> x \<in> set xs"
  by (induction xs) auto

lemma erase_std_find: "vector_erase (std_find x xs) xs = remove1 x xs"
  by (induction xs) (auto simp: vector_erase_def)

lemma vector_erase_rev:
  assumes "k < length xs"
  shows "vector_erase (length xs - k - 1) xs = rev (vector_erase k (rev xs))"
proof -
  have "Suc (length xs - k - 1) = length xs - k" using assms by simp
  then show ?thesis using assms by (simp add: vector_erase_def rev_take rev_drop)
qed

lemma popRoot_back:
  "popRoot te path True p =
     (if path \<in> set (fp_roots p)
      then (let roots' = rev (remove1 path (rev (fp_roots p)))
            in Some (p\<lparr>fp_roots := roots', fp_config := setFileServerRoots te roots' (fp_config p)\<rparr>))
      else None)"
proof -
  have "std_find path (rev (fp_roots p)) < length (fp_roots p) \<longleftrightarrow> path \<in> set (fp_roots p)"
    using std_find_less_iff [of path "rev (fp_roots p)"] by simp
  then show ?thesis
    using vector_erase_rev [of "std_find path (rev (fp_roots p))" "fp_roots p"]
    by (auto simp: popRoot_def Let_def erase_std_find)
qed

lemma popRoot_front:
  "popRoot te path False p =
     (if path \<in> set (fp_roots p)
      then (let roots' = remove1 path (fp_roots p)
            in Some (p\<lparr>fp_roots := roots', fp_config := setFileServerRoots te roots' (fp_config p)\<rparr>))
      else Some p)"
  using std_find_less_iff [of path "fp_roots p"] std_find_le [of path "fp_roots p"]
  by (auto simp: popRoot_def Let_def erase_std_find)

definition roots_synced :: "'t toml_env \<Rightarrow> 't file_provider \<Rightarrow> bool" where
  "roots_synced te p \<longleftrightarrow> getFileServerRoots te (fp_config p) = fp_roots p"

text \<open>The interpretation is for configurations whose TOML library keeps its law.\<close>

definition roots_kept :: "'t toml_env \<Rightarrow> 't file_provider \<Rightarrow> bool" where
  "roots_kept te p \<longleftrightarrow> (toml_law te \<longrightarrow> roots_synced te p)"

interpretation fpr: root_provider getListOfRoots "pushRoot te" "popRoot te" "roots_kept te" for te :: "'t toml_env"
proof
  fix path :: cstring and bk :: bool and s s' :: "'t file_provider"
  show "getListOfRoots (pushRoot te path bk s) = root_spec (PushRoot path bk) (getListOfRoots s)"
    by (simp add: getListOfRoots_def pushRoot_def Let_def)
  show "popRoot te path bk s = None \<longleftrightarrow> \<not> root_op_ok (PopRoot path bk) (getListOfRoots s)"
    by (cases bk) (auto simp: getListOfRoots_def popRoot_back popRoot_front Let_def)
  show "roots_kept te (pushRoot te path bk s)"
    by (simp add: roots_kept_def roots_synced_def pushRoot_def Let_def getFileServerRoots_set)
  show "getListOfRoots s' = root_spec (PopRoot path bk) (getListOfRoots s)" if "popRoot te path bk s = Some s'"
    using that by (cases bk) (auto simp: getListOfRoots_def popRoot_back popRoot_front Let_def remove1_idem split: if_splits)
  show "roots_kept te s'" if "roots_kept te s" "popRoot te path bk s = Some s'"
    using that by (cases bk) (auto simp: popRoot_back popRoot_front Let_def roots_kept_def roots_synced_def
        getFileServerRoots_set split: if_splits)
qed

section \<open>Paths\<close>

text \<open>
  The documented result of \<open>realpath\<close>: an absolute path without empty components, \<open>.\<close> or \<open>..\<close>.
  \<open>path_of\<close> joins components; no components are the root directory.
\<close>

definition path_component :: "cstring \<Rightarrow> bool" where
  "path_component c \<longleftrightarrow> c \<noteq> [] \<and> slash \<notin> set c \<and> c \<noteq> [46] \<and> c \<noteq> [46, 46] \<and> 0 \<notin> set c"

definition path_of :: "cstring list \<Rightarrow> cstring" where
  "path_of cs = (if cs = [] then [slash] else concat (map ((#) slash) cs))"

definition realpath_law :: "file_env \<Rightarrow> bool" where
  "realpath_law e \<longleftrightarrow> (\<forall>s p. fe_realpath e s = Some p \<longrightarrow> (\<exists>cs. p = path_of cs \<and> list_all path_component cs))"

lemma slash_split:
  assumes "c @ A = r @ slash # B" "slash \<notin> set c" "slash \<notin> set r" "A = [] \<or> hd A = slash"
  shows "c = r \<and> A = slash # B"
proof -
  have A: "takeWhile (\<lambda>b. b \<noteq> slash) A = []" using assms(4) by (cases A) auto
  have "takeWhile (\<lambda>b. b \<noteq> slash) (c @ A) = c"
    using assms(2) A by (subst takeWhile_append2) auto
  moreover have "takeWhile (\<lambda>b. b \<noteq> slash) (r @ slash # B) = r"
    using assms(3) by (subst takeWhile_append2) auto
  ultimately show ?thesis using assms(1) by simp
qed

lemma components_prefix:
  assumes "list_all path_component cs" "list_all path_component rs"
    and "concat (map ((#) slash) cs) = concat (map ((#) slash) rs) @ slash # x"
  shows "\<exists>ext. ext \<noteq> [] \<and> cs = rs @ ext"
  using assms
proof (induction rs arbitrary: cs)
  case (Cons r rs)
  then obtain c cs' where cs: "cs = c # cs'" by (cases cs) auto
  let ?A = "concat (map ((#) slash) cs')"
  obtain B where B: "concat (map ((#) slash) rs) @ slash # x = slash # B" by (cases rs) auto
  have "?A = [] \<or> hd ?A = slash" by (cases cs') auto
  moreover have "c @ ?A = r @ slash # B" using Cons.prems(3) cs B by simp
  ultimately have "c = r" "?A = slash # B"
    using Cons.prems(1,2) cs slash_split [of c ?A r B] by (auto simp: path_component_def)
  moreover from this have "\<exists>ext. ext \<noteq> [] \<and> cs' = rs @ ext"
    using Cons.IH [of cs'] Cons.prems(1,2) cs B by simp
  ultimately show ?case using cs by auto
qed auto

lemma path_under:
  assumes "list_all path_component cs" "list_all path_component rs"
    and "take (length (path_of rs)) (path_of cs) = path_of rs" "string_at (path_of cs) (length (path_of rs)) = slash"
  shows "rs \<noteq> [] \<and> (\<exists>ext. ext \<noteq> [] \<and> cs = rs @ ext)"
proof -
  let ?n = "length (path_of rs)"
  have less: "?n < length (path_of cs)" "path_of cs ! ?n = slash"
    using assms(4) by (auto simp: string_at_def split: if_splits)
  have split: "path_of cs = path_of rs @ slash # drop (Suc ?n) (path_of cs)"
    using id_take_nth_drop [OF less(1)] assms(3) less(2) by simp
  show ?thesis
  proof (cases rs)
    case Nil
    with less(1) split assms(1) obtain c cs' where cs: "cs = c # cs'" "path_component c" by (cases cs) (auto simp: path_of_def)
    with split Nil have "c @ concat (map ((#) slash) cs') = slash # drop (Suc ?n) (path_of cs)" by (simp add: path_of_def)
    with cs(2) show ?thesis by (cases c) (auto simp: path_component_def)
  next
    case (Cons r rs')
    with split less(1) have "cs \<noteq> []" by (cases cs) (auto simp: path_of_def)
    with split Cons have "concat (map ((#) slash) cs) = concat (map ((#) slash) rs) @ slash # drop (Suc ?n) (path_of cs)"
      by (simp add: path_of_def)
    from components_prefix [OF assms(1,2) this] Cons show ?thesis by simp
  qed
qed

lemma findFirstValidFile_SomeD:
  assumes "findFirstValidFile e q roots = Some (p, st)"
  obtains pre root post where "roots = pre @ root # post" "buildAndValidateRootWithPath e root q = Some p"
    "fe_stat e (c_str p) = Some st"
    "\<And>r p'. r \<in> set pre \<Longrightarrow> buildAndValidateRootWithPath e r q = Some p' \<Longrightarrow> fe_stat e (c_str p') = None"
  using assms
proof (induction roots arbitrary: thesis)
  case (Cons r roots)
  show ?case
  proof (cases "\<exists>p' st'. buildAndValidateRootWithPath e r q = Some p' \<and> fe_stat e (c_str p') = Some st'")
    case True
    with Cons.prems(2) show ?thesis by (intro Cons.prems(1) [of "[]"]) auto
  next
    case False
    with Cons.prems(2) have rest: "findFirstValidFile e q roots = Some (p, st)" by (auto split: option.splits)
    show ?thesis
    proof (rule Cons.IH [OF _ rest])
      fix pre root post
      assume "roots = pre @ root # post" "buildAndValidateRootWithPath e root q = Some p" "fe_stat e (c_str p) = Some st"
        "\<And>r p'. r \<in> set pre \<Longrightarrow> buildAndValidateRootWithPath e r q = Some p' \<Longrightarrow> fe_stat e (c_str p') = None"
      with False show ?thesis by (intro Cons.prems(1) [of "r # pre" root post]) auto
    qed
  qed
qed simp

text \<open>A file system for the witnesses: \<^verbatim>\<open>/a\<close> and \<^verbatim>\<open>/a/b\<close>, with the contents of the latter.\<close>

definition demo_files :: file_env where
  "demo_files =
     \<lparr>fe_realpath = (\<lambda>s. if s = [47, 97] then Some [47, 97] else if s = [47, 97, 47, 98] then Some [47, 97, 47, 98] else
                          if s = [47] then Some [47] else if s = [47, 47, 97] then Some [47, 97] else None),
      fe_stat = (\<lambda>s. Some \<lparr>st_size = 3, st_mtime = 9, st_is_dir = False\<rparr>), fe_access_R = (\<lambda>_. True), fe_access_W = (\<lambda>_. False),
      fe_contents = (\<lambda>s. Some [1, 2, 3]), fe_failure_code = 1, fe_max_data = 2\<rparr>"

lemma demo_files_law: "realpath_law demo_files"
proof -
  have "[47, 97] = path_of [[97]]" "[47, 97, 47, 98] = path_of [[97], [98]]" "[47] = path_of []"
    "list_all path_component [[97]]" "list_all path_component [[97], [98]]" "list_all path_component []"
    by (simp_all add: path_of_def path_component_def)
  then show ?thesis unfolding realpath_law_def demo_files_def by (auto split: if_splits intro: exI [of _ "[]"])
qed

section \<open>Properties\<close>

text \<open>
  C15. The file server never leaves its roots: a file that is served lies strictly under the
  real directory of one of the roots, component by component (so neither \<open>..\<close>, nor symbolic
  links, nor a sibling directory whose name extends that of the root get out), whatever path
  the remote node asks for.
\<close>

theorem served_file_under_root:
  assumes "realpath_law e" "findFirstValidFile e request_path roots = Some (p, st)"
  shows "\<exists>root\<in>set roots. \<exists>rs ext. fe_realpath e (c_str root) = Some (path_of rs) \<and> rs \<noteq> [] \<and> ext \<noteq> []
    \<and> p = path_of (rs @ ext) \<and> list_all path_component (rs @ ext)"
proof -
  obtain pre root post where f: "roots = pre @ root # post" "buildAndValidateRootWithPath e root request_path = Some p"
    using assms(2) by (rule findFirstValidFile_SomeD)
  from f(2) obtain r where r: "fe_realpath e (c_str root) = Some r" "take (length r) p = r" "string_at p (length r) = slash"
    "fe_realpath e (c_str (root @ [slash] @ request_path)) = Some p"
    by (auto simp: buildAndValidateRootWithPath_def canonicalizePath_def Let_def split: option.splits if_splits)
  from assms(1) r(1) obtain rs where rs: "r = path_of rs" "list_all path_component rs" unfolding realpath_law_def by blast
  from assms(1) r(4) obtain cs where cs: "p = path_of cs" "list_all path_component cs" unfolding realpath_law_def by blast
  obtain ext where "rs \<noteq> []" "ext \<noteq> []" "cs = rs @ ext"
    using path_under [OF cs(2) rs(2)] r(2,3) rs(1) cs(1) by blast
  with f(1) r(1) rs(1) cs show ?thesis by auto
qed

theorem served_file_under_root_witness:
  "\<exists>root\<in>set [[47, 97]]. \<exists>rs. fe_realpath demo_files (c_str root) = Some (path_of rs) \<and> rs \<noteq> []"
proof -
  have "findFirstValidFile demo_files [98] [[47, 97]] = Some ([47, 97, 47, 98], \<lparr>st_size = 3, st_mtime = 9, st_is_dir = False\<rparr>)"
    by (simp add: demo_files_def buildAndValidateRootWithPath_def canonicalizePath_def c_str_def string_at_def)
  from served_file_under_root [OF demo_files_law this] show ?thesis by blast
qed

text \<open>
  Roots have priority in their order: the file of a request is the one under the first root
  that has such a file which can be examined, and there is none exactly when no root has one.
\<close>

theorem first_root_wins:
  shows "findFirstValidFile e q roots = Some (p, st) \<longleftrightarrow>
    (\<exists>pre root post. roots = pre @ root # post \<and> buildAndValidateRootWithPath e root q = Some p \<and> fe_stat e (c_str p) = Some st
      \<and> findFirstValidFile e q pre = None)"
proof
  assume "findFirstValidFile e q roots = Some (p, st)"
  then obtain pre root post where f: "roots = pre @ root # post" "buildAndValidateRootWithPath e root q = Some p"
    "fe_stat e (c_str p) = Some st"
    and no: "\<And>r p'. r \<in> set pre \<Longrightarrow> buildAndValidateRootWithPath e r q = Some p' \<Longrightarrow> fe_stat e (c_str p') = None"
    by (rule findFirstValidFile_SomeD) blast
  have "findFirstValidFile e q pre = None"
  proof (rule ccontr)
    assume "findFirstValidFile e q pre \<noteq> None"
    then obtain p' st' where "findFirstValidFile e q pre = Some (p', st')" by auto
    then show False
    proof (rule findFirstValidFile_SomeD)
      fix pre' root' post' assume "pre = pre' @ root' # post'" "buildAndValidateRootWithPath e root' q = Some p'"
        "fe_stat e (c_str p') = Some st'"
      with no [of root' p'] show False by simp
    qed
  qed
  with f show "\<exists>pre root post. roots = pre @ root # post \<and> buildAndValidateRootWithPath e root q = Some p
      \<and> fe_stat e (c_str p) = Some st \<and> findFirstValidFile e q pre = None" by blast
next
  have "findFirstValidFile e q (pre @ roots') = findFirstValidFile e q roots'" if "findFirstValidFile e q pre = None" for pre roots'
    using that by (induction pre) (auto split: option.splits)
  then show "findFirstValidFile e q roots = Some (p, st)"
    if "\<exists>pre root post. roots = pre @ root # post \<and> buildAndValidateRootWithPath e root q = Some p
      \<and> fe_stat e (c_str p) = Some st \<and> findFirstValidFile e q pre = None" using that by auto
qed

text \<open>
  The root directory as a root serves nothing: its canonical path ends in the slash that the
  check expects behind it.
\<close>

theorem root_directory_serves_nothing:
  assumes "realpath_law e" "fe_realpath e (c_str root) = Some [slash]"
  shows "buildAndValidateRootWithPath e root file = None"
proof (rule ccontr)
  assume "buildAndValidateRootWithPath e root file \<noteq> None"
  then obtain p where p: "fe_realpath e (c_str (root @ [slash] @ file)) = Some p" "take 1 p = [slash]" "string_at p 1 = slash"
    using assms(2) by (auto simp: buildAndValidateRootWithPath_def canonicalizePath_def Let_def split: option.splits if_splits)
  from assms(1) p(1) obtain cs where cs: "p = path_of cs" "list_all path_component cs" unfolding realpath_law_def by blast
  have "path_of [] = [slash]" by (simp add: path_of_def)
  with path_under [OF cs(2), of "[]"] p(2,3) cs(1) show False by simp
qed

theorem root_directory_serves_nothing_witness:
  "buildAndValidateRootWithPath demo_files [47] [97] = None"
  by (rule root_directory_serves_nothing [OF demo_files_law]) (simp add: demo_files_def c_str_def)

text \<open>
  A remote node that fetches a file: it reads chunk after chunk, each at the offset it has
  reached, until an empty one. \<open>None\<close> is an error, or more than \<open>n\<close> requests.
\<close>

fun fetch_file :: "nat \<Rightarrow> file_env \<Rightarrow> cstring \<Rightarrow> 't file_provider \<Rightarrow> u64 \<Rightarrow> byte list option" where
  "fetch_file 0 e q p off = None"
| "fetch_file (Suc n) e q p off = (
     let r = serveReadRequest e q off p
     in if rd_error r \<noteq> File_OK then None
        else if rd_data r = [] then Some []
        else map_option ((@) (rd_data r)) (fetch_file n e q p (off + of_nat (length (rd_data r)))))"

lemma serveReadRequest_chunk:
  assumes "findFirstValidFile e q (fp_roots p) = Some (f, st)" "fe_contents e (c_str f) = Some bs"
    and "st_size st = of_nat (length bs)" "length bs < 2 ^ 64" "k \<le> length bs"
  shows "serveReadRequest e q (of_nat k) p = \<lparr>rd_error = File_OK, rd_data = take (fe_max_data e) (drop k bs)\<rparr>"
proof (cases "k = length bs")
  case True
  with assms show ?thesis by (simp add: serveReadRequest_def)
next
  case False
  with assms(5) have k: "k < length bs" by simp
  have u: "unat (of_nat k :: u64) = k" "unat (of_nat (length bs) :: u64) = length bs"
    using assms(4) k by (simp_all add: unat_of_nat take_bit_eq_mod)
  then have lt: "(of_nat k :: u64) < of_nat (length bs)" using k by (simp add: word_less_nat_alt)
  have "unat (of_nat (length bs) - of_nat k :: u64) = length bs - k"
    using u lt by (simp add: unat_sub_if' less_imp_le k)
  moreover have "k + min (length bs - k) (fe_max_data e) \<le> length bs" using k by simp
  moreover have "take (min (length bs - k) (fe_max_data e)) (drop k bs) = take (fe_max_data e) (drop k bs)"
    by (simp add: min_def)
  ultimately show ?thesis
    using assms(1-3) u lt by (simp add: serveReadRequest_def ifstream_read_def Let_def not_le)
qed

text \<open>
  C19. A file comes over intact: fetching a file chunk by chunk gives its contents, byte for byte,
  and ends within one request more than there are bytes, whatever the chunk capacity is.
\<close>

theorem fetch_file_roundtrip:
  assumes "findFirstValidFile e q (fp_roots p) = Some (f, st)" "fe_contents e (c_str f) = Some bs"
    and "st_size st = of_nat (length bs)" "length bs < 2 ^ 64" "0 < fe_max_data e" "length bs < n"
  shows "fetch_file n e q p 0 = Some bs"
proof -
  have "fetch_file n e q p (of_nat k) = Some (drop k bs)" if "k \<le> length bs" "length bs - k < n" for k n
    using that
  proof (induction n arbitrary: k)
    case (Suc n)
    let ?d = "take (fe_max_data e) (drop k bs)"
    note r = serveReadRequest_chunk [OF assms(1-4) Suc.prems(1)]
    show ?case
    proof (cases "k = length bs")
      case True
      with r show ?thesis by simp
    next
      case False
      with Suc.prems assms(5) have d: "0 < length ?d" "k + length ?d \<le> length bs" by auto
      have "length bs - (k + length ?d) < n" using d Suc.prems(2) by linarith
      with d(2) have "fetch_file n e q p (of_nat (k + length ?d)) = Some (drop (k + length ?d) bs)" by (rule Suc.IH)
      moreover have "?d @ drop (k + length ?d) bs = drop k bs"
        using append_take_drop_id [of "length ?d" "drop k bs"] by (simp add: min_def add.commute split: if_splits)
      ultimately show ?thesis using r d(1) by (simp add: Let_def)
    qed
  qed simp
  from this [of 0 n] assms(6) show ?thesis by simp
qed

theorem fetch_file_roundtrip_witness:
  "fetch_file 4 demo_files [98] (FileProviderImpl_init (demo_toml []) \<lparr>cfg_file_path = [],
     cfg_root = [([''file_server'', ''roots''], TStrings [[47, 97]])], cfg_is_dirty = False\<rparr>) 0 = Some [1, 2, 3]"
proof (rule fetch_file_roundtrip)
  let ?p = "FileProviderImpl_init (demo_toml []) \<lparr>cfg_file_path = [],
     cfg_root = [([''file_server'', ''roots''], TStrings [[47, 97]])], cfg_is_dirty = False\<rparr>"
  have "fp_roots ?p = [[47, 97]]"
    by (simp add: FileProviderImpl_init_def getFileServerRoots_def find_or_nil_def demo_toml_def)
  then show "findFirstValidFile demo_files [98] (fp_roots ?p) = Some ([47, 97, 47, 98], \<lparr>st_size = 3, st_mtime = 9, st_is_dir = False\<rparr>)"
    by (simp add: demo_files_def buildAndValidateRootWithPath_def canonicalizePath_def c_str_def string_at_def)
qed (simp_all add: demo_files_def)

text \<open>
  The list of roots is a double-ended list that the configuration follows: under any sequence
  of pushes and pops, as long as the pops from the back find their path, the roots are the ones
  of the list model, and the configuration holds exactly them.
\<close>

theorem roots_refine_list:
  assumes "toml_law te" "root_ops_ok rops (getFileServerRoots te c)"
  shows "\<exists>p. root_ops_run (pushRoot te) (popRoot te) rops (FileProviderImpl_init te c) = Some p
    \<and> getListOfRoots p = fold root_spec rops (getFileServerRoots te c)
    \<and> getFileServerRoots te (fp_config p) = getListOfRoots p"
proof -
  let ?p = "FileProviderImpl_init te c"
  have init: "getListOfRoots ?p = getFileServerRoots te c" "roots_kept te ?p"
    by (simp_all add: FileProviderImpl_init_def getListOfRoots_def roots_kept_def roots_synced_def)
  then obtain p where p: "root_ops_run (pushRoot te) (popRoot te) rops ?p = Some p"
    using fpr.run_defined [of te rops ?p] assms(2) by auto
  from fpr.run_refines [OF p init(2)] init(1) assms(1) p show ?thesis
    by (auto simp: roots_kept_def roots_synced_def getListOfRoots_def)
qed

theorem roots_refine_list_witness:
  "\<exists>p. root_ops_run (pushRoot (demo_toml [])) (popRoot (demo_toml []))
      [PushRoot [1] True, PushRoot [2] False, PushRoot [1] False, PopRoot [1] True]
      (FileProviderImpl_init (demo_toml []) \<lparr>cfg_file_path = [], cfg_root = [], cfg_is_dirty = False\<rparr>) = Some p
    \<and> getListOfRoots p = [[1], [2]]"
proof -
  let ?c = "\<lparr>cfg_file_path = [], cfg_root = [], cfg_is_dirty = False\<rparr>"
  have r: "getFileServerRoots (demo_toml []) ?c = []"
    by (simp add: getFileServerRoots_def find_or_nil_def demo_toml_def)
  have "root_ops_ok [PushRoot [1] True, PushRoot [2] False, PushRoot [1] False, PopRoot [1] True] (getFileServerRoots (demo_toml []) ?c)"
    unfolding r by simp
  from roots_refine_list [OF demo_toml_law this] show ?thesis unfolding r by auto
qed

text \<open>
  Removing from the back a path that is not a root is undefined: \<open>popRoot\<close> then decrements the
  begin iterator and erases there; no other call is undefined.
\<close>

theorem popRoot_undefined_iff:
  "popRoot te path from_back p = None \<longleftrightarrow> from_back \<and> path \<notin> set (getListOfRoots p)"
  by (cases from_back) (auto simp: popRoot_back popRoot_front getListOfRoots_def Let_def)

end
