(* ===== verification/Service_Channel.thy ===== *)
theory Service_Channel
  imports Gateway
begin

text \<open>
  What the daemon services of \<^verbatim>\<open>src/daemon/engine/svc/\<close> share: the calls a service makes on the
  IPC channels of its state machines, and the Cyphal network it talks to.

  A service only logs the errors of \<open>Channel::send\<close> and \<open>Channel::complete\<close>, so its behaviour
  does not depend on them; its calls are recorded in order as \<open>ch_action\<close>s, with the state
  machine's id as the name of its channel. \<open>ChRelease\<close> is the end of the state machine and
  with it of the channel. The Cyphal presentation layer (libcyphal) is a parameter:
  \<open>cy_makeClient\<close> and \<open>cy_request\<close> report a failure or none and may change the state \<open>'w\<close>
  of the network; responses arrive later as calls of the promise callbacks.
\<close>

datatype 'r ch_action =
    ChSend u64 'r
  | ChComplete u64 opt_error bool
  | ChRelease u64

record ('req, 'w) cy_net =
  cy_makeClient :: "u16 \<Rightarrow> 'w \<Rightarrow> cy_failure option \<times> 'w"
  cy_request :: "u16 \<Rightarrow> u64 \<Rightarrow> 'req \<Rightarrow> 'w \<Rightarrow> cy_failure option \<times> 'w"
  cy_now :: "'w \<Rightarrow> u64"
  cy_order :: "u16 list \<Rightarrow> u16 list"

text \<open>Insertions that keep the first value of a key, one after the other.\<close>

definition um_emplace_all :: "'k list \<Rightarrow> 'v \<Rightarrow> ('k, 'v) umap \<Rightarrow> ('k, 'v) umap" where
  "um_emplace_all ks v m = fold (\<lambda>k. um_emplace k v) ks m"

lemma um_emplace_all_simps [um_simps]:
  "um_wf m \<Longrightarrow> um_wf (um_emplace_all ks v m)"
  "set (um_keys (um_emplace_all ks v m)) = set ks \<union> set (um_keys m)"
  by (induction ks arbitrary: m) (simp_all add: um_emplace_all_def um_simps)

lemmas keys_um_emplace_all [um_simps] = um_emplace_all_simps(2) [unfolded set_map]

lemma map_of_emplace_all:
  "map_of (um_emplace_all ks v m) k = Some c \<Longrightarrow> c = v \<or> map_of m k = Some c"
  by (induction ks arbitrary: m) (fastforce simp: um_emplace_all_def um_simps split: option.splits if_splits)+

text \<open>The requests of the channel actions, by state machine.\<close>

definition sends_of :: "u64 \<Rightarrow> 'r ch_action list \<Rightarrow> 'r list" where
  "sends_of i out = concat (map (\<lambda>a. case a of ChSend j r \<Rightarrow> (if i = j then [r] else []) | _ \<Rightarrow> []) out)"

lemma sends_of_simps [simp]:
  "sends_of i [] = []" "sends_of i (out @ out') = sends_of i out @ sends_of i out'"
  "sends_of i (ChSend j r # out) = (if i = j then [r] else []) @ sends_of i out"
  "sends_of i (ChComplete j err k # out) = sends_of i out"
  "sends_of i (ChRelease j # out) = sends_of i out"
  by (simp_all add: sends_of_def)

end
