(* ===== verification/Ipc_Channel.thy ===== *)
theory Ipc_Channel
  imports Service_Channel
begin

text \<open>
  \<^verbatim>\<open>src/common/ipc/channel.hpp\<close>: the typed channel that services and clients use. It serializes what is
  sent on its gateway and turns gateway events into channel events. The gateway is a
  parameter of the operations (\<open>gw_send\<close>, \<open>gw_complete\<close>: those of either router), with \<open>None\<close>
  for undefined behaviour; the generated code of the message types is the record \<open>msg_codec\<close>.
  The handler of a channel is a function on the state, as that of a gateway is.
\<close>

record 'm msg_codec =
  msg_serialize :: "'m \<Rightarrow> byte list option"
  msg_deserialize :: "byte list \<Rightarrow> 'm option"

datatype 'i ch_event =
    ChConnected
  | ChInput 'i "byte list"
  | ChCompleted opt_error bool

section \<open>Operations\<close>

text \<open>The service id: a CRC over the name of the service, or of the message type.\<close>

definition getServiceDesc :: "(string \<Rightarrow> u64) \<Rightarrow> string \<Rightarrow> string \<Rightarrow> u64 \<times> string" where
  "getServiceDesc crc64 message_full_name service_name =
     (let srv_or_msg_name = (if service_name \<noteq> [] then service_name else message_full_name)
      in (crc64 srv_or_msg_name, srv_or_msg_name))"

type_synonym 's gw_result = "(opt_error \<times> 's) option"

definition channel_send ::
    "'o msg_codec \<Rightarrow> (u64 \<Rightarrow> socket_buffer \<Rightarrow> 's \<Rightarrow> 's gw_result) \<Rightarrow> u64 \<Rightarrow> 'o \<Rightarrow> socket_buffer \<Rightarrow> 's \<Rightarrow> 's gw_result" where
  "channel_send mc gw_send service_id output sock_buff s =
     (case msg_serialize mc output of
        None \<Rightarrow> Some (Some (mkError InvalidArgument), s)
      | Some buffer \<Rightarrow> gw_send service_id (prepend (Span buffer) sock_buff) s)"

definition channel_send_msg ::
    "'o msg_codec \<Rightarrow> (u64 \<Rightarrow> socket_buffer \<Rightarrow> 's \<Rightarrow> 's gw_result) \<Rightarrow> u64 \<Rightarrow> 'o \<Rightarrow> 's \<Rightarrow> 's gw_result" where
  "channel_send_msg mc gw_send service_id output s = channel_send mc gw_send service_id output SocketBuffer_empty s"

definition channel_complete :: "(opt_error \<Rightarrow> bool \<Rightarrow> 's \<Rightarrow> 's gw_result) \<Rightarrow> opt_error \<Rightarrow> bool \<Rightarrow> 's \<Rightarrow> 's gw_result" where
  "channel_complete gw_complete opt_error keep_alive s = gw_complete opt_error keep_alive s"

text \<open>The adapter between the events of the gateway and those of the channel.\<close>

fun channel_adapter :: "'i msg_codec \<Rightarrow> ('i ch_event \<Rightarrow> 's \<Rightarrow> 's option) \<Rightarrow> gw_event \<Rightarrow> 's \<Rightarrow> 's gw_result" where
  "channel_adapter mc h GwConnected s = map_option (Pair None) (h ChConnected s)"
| "channel_adapter mc h (GwMessage sequence payload) s =
     (case msg_deserialize mc payload of
        None \<Rightarrow> Some (Some (mkError InvalidArgument), s)
      | Some input \<Rightarrow> map_option (Pair None) (h (ChInput input payload) s))"
| "channel_adapter mc h (GwCompleted opt_error keep_alive) s =
     map_option (Pair None) (h (ChCompleted opt_error keep_alive) s)"

text \<open>\<open>registerChannel\<close> (\<^verbatim>\<open>server_router.hpp\<close>): the factory of a typed channel ignores a first message it cannot read.\<close>

definition typed_factory :: "'i msg_codec \<Rightarrow> ('i \<Rightarrow> byte list \<Rightarrow> 's \<Rightarrow> 's option) \<Rightarrow> byte list \<Rightarrow> 's \<Rightarrow> 's option" where
  "typed_factory mc new_ch_handler payload s =
     (case msg_deserialize mc payload of None \<Rightarrow> Some s | Some input \<Rightarrow> new_ch_handler input payload s)"

section \<open>Typed delivery\<close>

text \<open>
  What the two ends of a channel rely on: a message that can be serialized is read back
  from its own bytes.
\<close>

definition msg_codec_law :: "'m msg_codec \<Rightarrow> bool" where
  "msg_codec_law mc \<longleftrightarrow> (\<forall>m bs. msg_serialize mc m = Some bs \<longrightarrow> msg_deserialize mc bs = Some m)"

lemma adapter_input:
  assumes "msg_codec_law mc" "msg_serialize mc m = Some bs"
  shows "channel_adapter mc h (GwMessage q bs) s = map_option (Pair None) (h (ChInput m bs) s)"
    "typed_factory mc h' bs s = h' m bs s"
  using assms by (simp_all add: msg_codec_law_def typed_factory_def)

lemma channel_send_msg_Some:
  assumes "msg_serialize mc m = Some bs"
  shows "channel_send_msg mc gw_send svc m s = gw_send svc (SocketBuffer_of (Span bs)) s"
proof -
  have "prepend (Span bs) SocketBuffer_empty = SocketBuffer_of (Span bs)"
    by (simp add: prepend_def SocketBuffer_of_def append_payload_def SocketBuffer_empty_def)
  with assms show ?thesis by (simp add: channel_send_msg_def channel_send_def)
qed

section \<open>The channel as its owner sees it\<close>

record ('o, 'c) ch_ops =
  chs_send :: "'o \<Rightarrow> 'c \<Rightarrow> 'c gw_result"
  chs_complete :: "opt_error \<Rightarrow> bool \<Rightarrow> 'c \<Rightarrow> 'c gw_result"

text \<open>A channel over the gateway operations of a router.\<close>

definition gateway_ch_ops ::
    "'o msg_codec \<Rightarrow> (u64 \<Rightarrow> socket_buffer \<Rightarrow> 's \<Rightarrow> 's gw_result) \<Rightarrow> (opt_error \<Rightarrow> bool \<Rightarrow> 's \<Rightarrow> 's gw_result) \<Rightarrow> u64 \<Rightarrow>
     ('o, 's) ch_ops" where
  "gateway_ch_ops mc gw_send gw_complete service_id =
     \<lparr>chs_send = channel_send_msg mc gw_send service_id, chs_complete = channel_complete gw_complete\<rparr>"

text \<open>A channel that takes everything and keeps a record of it.\<close>

datatype 'o ch_call = ClSend 'o | ClComplete opt_error bool

definition recording_ops :: "('o, 'o ch_call list) ch_ops" where
  "recording_ops =
     \<lparr>chs_send = (\<lambda>q c. Some (None, c @ [ClSend q])), chs_complete = (\<lambda>err k c. Some (None, c @ [ClComplete err k]))\<rparr>"

lemma recording_ops_simps [simp]:
  "chs_send recording_ops q c = Some (None, c @ [ClSend q])"
  "chs_complete recording_ops err k c = Some (None, c @ [ClComplete err k])"
  by (simp_all add: recording_ops_def)

text \<open>The events that the calls of a service on its channel are for the client.\<close>

fun ch_events_of :: "u64 \<Rightarrow> 'r ch_action list \<Rightarrow> 'r ch_event list" where
  "ch_events_of i [] = []"
| "ch_events_of i (ChSend j r # acts) = (if i = j then [ChInput r []] else []) @ ch_events_of i acts"
| "ch_events_of i (ChComplete j err k # acts) = (if i = j then [ChCompleted err k] else []) @ ch_events_of i acts"
| "ch_events_of i (ChRelease j # acts) = ch_events_of i acts"

lemma ch_events_of_append [simp]: "ch_events_of i (as @ bs) = ch_events_of i as @ ch_events_of i bs"
  by (induction i as rule: ch_events_of.induct) auto

lemma ch_events_of_sends [simp]: "ch_events_of i (map (ChSend i) rs) = map (\<lambda>r. ChInput r []) rs"
  by (induction rs) auto

text \<open>Events handed to a handler one by one.\<close>

fun feed_events :: "('e \<Rightarrow> 's \<Rightarrow> 's option) \<Rightarrow> 'e list \<Rightarrow> 's \<Rightarrow> 's option" where
  "feed_events h [] s = Some s"
| "feed_events h (ev # evs) s = do { s' \<leftarrow> h ev s; feed_events h evs s' }"

end
