(* ===== verification/File_Server.thy ===== *)
theory File_Server
  imports File_Provider Ipc_Channel
begin

text \<open>
  The management of the file server's roots, from the SDK call to the file provider and back:
  the services of \<^verbatim>\<open>src/daemon/engine/svc/file_server/\<close> (\<open>ListRoots\<close>, \<open>PopRoot\<close>, \<open>PushRoot\<close>), their SDK
  clients of \<^verbatim>\<open>src/sdk/svc/file_server/\<close>, and the calls of \<^verbatim>\<open>src/sdk/file_server.cpp\<close>.

  The services are stateless functions on the file provider whose channel ends with the
  call; their calls on it are returned as \<open>ch_action\<close>s. \<open>max_path\<close> is the capacity of the path
  field of the public DSDL type. The clients keep the calls of their receiver in order.
\<close>

section \<open>Services\<close>

record root_request =
  rrq_path :: cstring
  rrq_is_back :: bool

fun list_roots_sends :: "nat \<Rightarrow> u64 \<Rightarrow> cstring list \<Rightarrow> cstring ch_action list" where
  "list_roots_sends max_path i [] = []"
| "list_roots_sends max_path i (root # roots) =
     (if length root > max_path then list_roots_sends max_path i roots
      else ChSend i root # list_roots_sends max_path i roots)"

definition list_roots_service :: "nat \<Rightarrow> u64 \<Rightarrow> 't file_provider \<Rightarrow> cstring ch_action list" where
  "list_roots_service max_path i p =
     list_roots_sends max_path i (getListOfRoots p) @ [ChComplete i None False, ChRelease i]"

definition pop_root_service ::
    "'t toml_env \<Rightarrow> u64 \<Rightarrow> root_request \<Rightarrow> 't file_provider \<Rightarrow> (unit ch_action list \<times> 't file_provider) option" where
  "pop_root_service te i request p = do {
     p' \<leftarrow> popRoot te (rrq_path request) (rrq_is_back request) p;
     Some ([ChComplete i None False, ChRelease i], p')
   }"

definition push_root_service ::
    "'t toml_env \<Rightarrow> u64 \<Rightarrow> root_request \<Rightarrow> 't file_provider \<Rightarrow> unit ch_action list \<times> 't file_provider" where
  "push_root_service te i request p =
     ([ChComplete i None False, ChRelease i], pushRoot te (rrq_path request) (rrq_is_back request) p)"

section \<open>Clients\<close>

record ('q, 'a, 'c) root_client =
  rcl_request :: 'q
  rcl_channel :: 'c
  rcl_received :: "(sdk_error + 'a) list"
  rcl_items :: 'a

definition rcl_receive :: "sdk_error + 'a \<Rightarrow> ('q, 'a, 'c) root_client \<Rightarrow> ('q, 'a, 'c) root_client" where
  "rcl_receive result s = s\<lparr>rcl_received := rcl_received s @ [result]\<rparr>"

definition rcl_handleConnected :: "('q, 'c) ch_ops \<Rightarrow> ('q, 'a, 'c) root_client \<Rightarrow> ('q, 'a, 'c) root_client option" where
  "rcl_handleConnected cops s = do {
     (opt_error, c) \<leftarrow> chs_send cops (rcl_request s) (rcl_channel s);
     let s1 = s\<lparr>rcl_channel := c\<rparr>;
     Some (case opt_error of Some err \<Rightarrow> rcl_receive (Inl err) s1 | None \<Rightarrow> s1)
   }"

fun list_roots_client_handleEvent ::
    "(unit, 'c) ch_ops \<Rightarrow> cstring ch_event \<Rightarrow> (unit, cstring list, 'c) root_client \<Rightarrow> (unit, cstring list, 'c) root_client option" where
  "list_roots_client_handleEvent cops ChConnected s = rcl_handleConnected cops s"
| "list_roots_client_handleEvent cops (ChInput item _) s = Some (s\<lparr>rcl_items := rcl_items s @ [item]\<rparr>)"
| "list_roots_client_handleEvent cops (ChCompleted opt_error _) s =
     Some (case opt_error of
             Some err \<Rightarrow> rcl_receive (Inl err) s
           | None \<Rightarrow> (rcl_receive (Inr (rcl_items s)) s)\<lparr>rcl_items := []\<rparr>)"

fun pop_root_client_handleEvent ::
    "(root_request, 'c) ch_ops \<Rightarrow> unit ch_event \<Rightarrow> (root_request, unit, 'c) root_client \<Rightarrow> (root_request, unit, 'c) root_client option" where
  "pop_root_client_handleEvent cops ChConnected s = rcl_handleConnected cops s"
| "pop_root_client_handleEvent cops (ChInput _ _) s = Some s"
| "pop_root_client_handleEvent cops (ChCompleted opt_error _) s =
     Some (rcl_receive (case opt_error of Some err \<Rightarrow> Inl err | None \<Rightarrow> Inr ()) s)"

fun push_root_client_handleEvent ::
    "(root_request, 'c) ch_ops \<Rightarrow> unit ch_event \<Rightarrow> (root_request, unit, 'c) root_client \<Rightarrow> (root_request, unit, 'c) root_client option" where
  "push_root_client_handleEvent cops ChConnected s = rcl_handleConnected cops s"
| "push_root_client_handleEvent cops (ChInput _ _) s = Some s"
| "push_root_client_handleEvent cops (ChCompleted opt_error _) s =
     Some (rcl_receive (case opt_error of Some err \<Rightarrow> Inl err | None \<Rightarrow> Inr ()) s)"

section \<open>SDK calls\<close>

text \<open>A call gives a ready result (\<open>Inl\<close>) or a client to submit (\<open>Inr\<close>).\<close>

definition file_server_listRoots :: "'c \<Rightarrow> (unit, cstring list, 'c) root_client" where
  "file_server_listRoots c = \<lparr>rcl_request = (), rcl_channel = c, rcl_received = [], rcl_items = []\<rparr>"

definition file_server_popRoot :: "nat \<Rightarrow> cstring \<Rightarrow> bool \<Rightarrow> 'c \<Rightarrow> (sdk_error + unit) + (root_request, unit, 'c) root_client" where
  "file_server_popRoot max_path path is_back c =
     (if length path > max_path then Inl (Inl (mkError InvalidArgument))
      else Inr \<lparr>rcl_request = \<lparr>rrq_path = path, rrq_is_back = is_back\<rparr>, rcl_channel = c, rcl_received = [], rcl_items = ()\<rparr>)"

definition file_server_pushRoot :: "nat \<Rightarrow> cstring \<Rightarrow> bool \<Rightarrow> 'c \<Rightarrow> (sdk_error + unit) + (root_request, unit, 'c) root_client" where
  "file_server_pushRoot max_path path is_back c =
     (if length path > max_path then Inl (Inl (mkError InvalidArgument))
      else Inr \<lparr>rcl_request = \<lparr>rrq_path = path, rrq_is_back = is_back\<rparr>, rcl_channel = c, rcl_received = [], rcl_items = ()\<rparr>)"

section \<open>A call and its execution\<close>

datatype fs_call = FsListRoots | FsPushRoot cstring bool | FsPopRoot cstring bool

datatype fs_result = FsRoots "(sdk_error + cstring list) list" | FsDone "(sdk_error + unit) list"

text \<open>The request a client has sent, taken from its record.\<close>

definition sent_request :: "'q ch_call list \<Rightarrow> 'q option" where
  "sent_request calls = (case calls of [ClSend q] \<Rightarrow> Some q | _ \<Rightarrow> None)"

fun fs_execute :: "'t toml_env \<Rightarrow> nat \<Rightarrow> u64 \<Rightarrow> fs_call \<Rightarrow> 't file_provider \<Rightarrow> (fs_result \<times> 't file_provider) option" where
  "fs_execute te max_path i FsListRoots p = do {
     c1 \<leftarrow> list_roots_client_handleEvent recording_ops ChConnected (file_server_listRoots []);
     _ \<leftarrow> sent_request (rcl_channel c1);
     c2 \<leftarrow> feed_events (list_roots_client_handleEvent recording_ops) (ch_events_of i (list_roots_service max_path i p)) c1;
     Some (FsRoots (rcl_received c2), p)
   }"
| "fs_execute te max_path i (FsPushRoot path is_back) p =
     (case file_server_pushRoot max_path path is_back [] of
        Inl r \<Rightarrow> Some (FsDone [r], p)
      | Inr c \<Rightarrow> do {
          c1 \<leftarrow> push_root_client_handleEvent recording_ops ChConnected c;
          q \<leftarrow> sent_request (rcl_channel c1);
          let (acts, p') = push_root_service te i q p;
          c2 \<leftarrow> feed_events (push_root_client_handleEvent recording_ops) (ch_events_of i acts) c1;
          Some (FsDone (rcl_received c2), p')
        })"
| "fs_execute te max_path i (FsPopRoot path is_back) p =
     (case file_server_popRoot max_path path is_back [] of
        Inl r \<Rightarrow> Some (FsDone [r], p)
      | Inr c \<Rightarrow> do {
          c1 \<leftarrow> pop_root_client_handleEvent recording_ops ChConnected c;
          q \<leftarrow> sent_request (rcl_channel c1);
          (acts, p') \<leftarrow> pop_root_service te i q p;
          c2 \<leftarrow> feed_events (pop_root_client_handleEvent recording_ops) (ch_events_of i acts) c1;
          Some (FsDone (rcl_received c2), p')
        })"

fun fs_session :: "'t toml_env \<Rightarrow> nat \<Rightarrow> u64 \<Rightarrow> fs_call list \<Rightarrow> 't file_provider \<Rightarrow> (fs_result list \<times> 't file_provider) option" where
  "fs_session te max_path i [] p = Some ([], p)"
| "fs_session te max_path i (call # calls) p = do {
     (r, p') \<leftarrow> fs_execute te max_path i call p;
     (rs, p'') \<leftarrow> fs_session te max_path i calls p';
     Some (r # rs, p'')
   }"

section \<open>The list model of a session\<close>

fun fs_op :: "nat \<Rightarrow> fs_call \<Rightarrow> root_op option" where
  "fs_op max_path FsListRoots = None"
| "fs_op max_path (FsPushRoot path is_back) = (if length path > max_path then None else Some (PushRoot path is_back))"
| "fs_op max_path (FsPopRoot path is_back) = (if length path > max_path then None else Some (PopRoot path is_back))"

definition fs_spec_next :: "nat \<Rightarrow> fs_call \<Rightarrow> cstring list \<Rightarrow> cstring list" where
  "fs_spec_next max_path call roots = (case fs_op max_path call of None \<Rightarrow> roots | Some rop \<Rightarrow> root_spec rop roots)"

fun fs_spec_result :: "nat \<Rightarrow> fs_call \<Rightarrow> cstring list \<Rightarrow> fs_result" where
  "fs_spec_result max_path FsListRoots roots = FsRoots [Inr (filter (\<lambda>r. length r \<le> max_path) roots)]"
| "fs_spec_result max_path (FsPushRoot path is_back) roots =
     FsDone [if length path > max_path then Inl (mkError InvalidArgument) else Inr ()]"
| "fs_spec_result max_path (FsPopRoot path is_back) roots =
     FsDone [if length path > max_path then Inl (mkError InvalidArgument) else Inr ()]"

fun fs_spec :: "nat \<Rightarrow> fs_call list \<Rightarrow> cstring list \<Rightarrow> fs_result list \<times> cstring list" where
  "fs_spec max_path [] roots = ([], roots)"
| "fs_spec max_path (call # calls) roots =
     (let (rs, roots') = fs_spec max_path calls (fs_spec_next max_path call roots)
      in (fs_spec_result max_path call roots # rs, roots'))"

text \<open>The sessions in which no pop from the back misses.\<close>

fun fs_session_ok :: "nat \<Rightarrow> fs_call list \<Rightarrow> cstring list \<Rightarrow> bool" where
  "fs_session_ok max_path [] roots \<longleftrightarrow> True"
| "fs_session_ok max_path (call # calls) roots \<longleftrightarrow>
     (case fs_op max_path call of None \<Rightarrow> True | Some rop \<Rightarrow> root_op_ok rop roots)
     \<and> fs_session_ok max_path calls (fs_spec_next max_path call roots)"

lemma list_roots_sends_filter:
  "list_roots_sends max_path i roots = map (ChSend i) (filter (\<lambda>r. length r \<le> max_path) roots)"
  by (induction roots) auto

lemma feed_events_append: "feed_events h (evs @ evs') s = (feed_events h evs s \<bind> feed_events h evs')"
proof (induction evs arbitrary: s)
  case (Cons ev evs)
  then show ?case by (cases "h ev s") simp_all
qed simp

lemma feed_list_inputs:
  "feed_events (list_roots_client_handleEvent cops) (map (\<lambda>r. ChInput r []) rs) s = Some (s\<lparr>rcl_items := rcl_items s @ rs\<rparr>)"
  by (induction rs arbitrary: s) simp_all

lemma fs_execute_spec:
  assumes "case fs_op max_path call of None \<Rightarrow> True | Some rop \<Rightarrow> root_op_ok rop (getListOfRoots p)" "roots_kept te p"
  shows "\<exists>p'. fs_execute te max_path i call p = Some (fs_spec_result max_path call (getListOfRoots p), p')
    \<and> getListOfRoots p' = fs_spec_next max_path call (getListOfRoots p) \<and> roots_kept te p'"
proof (cases call)
  case FsListRoots
  then show ?thesis using assms(2)
    by (simp add: rcl_handleConnected_def file_server_listRoots_def sent_request_def list_roots_service_def
        list_roots_sends_filter feed_events_append feed_list_inputs rcl_receive_def fs_spec_next_def)
next
  case (FsPushRoot path is_back)
  then show ?thesis using assms(2) fpr.roots_push [of te path is_back p] fpr.synced_push [OF assms(2), of path is_back]
    by (simp add: rcl_handleConnected_def file_server_pushRoot_def sent_request_def push_root_service_def
        rcl_receive_def fs_spec_next_def del: root_spec.simps)
next
  case (FsPopRoot path is_back)
  show ?thesis
  proof (cases "length path > max_path")
    case True
    with FsPopRoot assms(2) show ?thesis by (simp add: file_server_popRoot_def fs_spec_next_def)
  next
    case False
    with FsPopRoot assms(1) obtain p' where p': "popRoot te path is_back p = Some p'"
      using fpr.pop_defined [of te path is_back p] by (auto simp del: root_op_ok.simps)
    with False FsPopRoot fpr.roots_pop [OF p'] fpr.synced_pop [OF assms(2) p'] show ?thesis
      by (simp add: rcl_handleConnected_def file_server_popRoot_def sent_request_def pop_root_service_def
          rcl_receive_def fs_spec_next_def del: root_spec.simps)
  qed
qed

section \<open>Properties\<close>

text \<open>
  C20. The file server's roots behave as a double-ended list all the way from the SDK: under any
  session of calls in which no pop from the back misses, every call is answered exactly
  once, a list call with the roots (those that fit a response) in their order, a push or pop
  with success, and a path too long for a request with \<open>InvalidArgument\<close> and no effect; the
  roots afterwards are those of the list model.
\<close>

theorem file_server_session_refines:
  assumes "fs_session_ok max_path calls (getFileServerRoots te c)"
  shows "\<exists>p. fs_session te max_path i calls (FileProviderImpl_init te c) =
      Some (fst (fs_spec max_path calls (getFileServerRoots te c)), p)
    \<and> getListOfRoots p = snd (fs_spec max_path calls (getFileServerRoots te c))"
proof -
  have "\<exists>p'. fs_session te max_path i calls p = Some (fst (fs_spec max_path calls (getListOfRoots p)), p')
      \<and> getListOfRoots p' = snd (fs_spec max_path calls (getListOfRoots p))"
    if "fs_session_ok max_path calls (getListOfRoots p)" "roots_kept te p" for p
    using that
  proof (induction calls arbitrary: p)
    case (Cons call calls)
    from Cons.prems obtain p1 where p1: "fs_execute te max_path i call p = Some (fs_spec_result max_path call (getListOfRoots p), p1)"
      "getListOfRoots p1 = fs_spec_next max_path call (getListOfRoots p)" "roots_kept te p1"
      using fs_execute_spec [where max_path = max_path and call = call and p = p and te = te and i = i] by auto
    from Cons.IH [of p1] Cons.prems(1) p1 show ?case by (auto simp: split_beta)
  qed simp
  from this [of "FileProviderImpl_init te c"] assms show ?thesis
    by (simp add: FileProviderImpl_init_def getListOfRoots_def roots_kept_def roots_synced_def)
qed

theorem file_server_session_refines_witness:
  "\<exists>p. fs_session (demo_toml []) 3 0 [FsPushRoot [1] True, FsPushRoot [2, 2, 2, 2] True, FsPushRoot [3] False, FsListRoots, FsPopRoot [1] True]
      (FileProviderImpl_init (demo_toml []) \<lparr>cfg_file_path = [], cfg_root = [], cfg_is_dirty = False\<rparr>) =
    Some ([FsDone [Inr ()], FsDone [Inl (mkError InvalidArgument)], FsDone [Inr ()], FsRoots [Inr [[3], [1]]], FsDone [Inr ()]], p)
    \<and> getListOfRoots p = [[3]]"
proof -
  let ?calls = "[FsPushRoot [1] True, FsPushRoot [2, 2, 2, 2] True, FsPushRoot [3] False, FsListRoots, FsPopRoot [1] True]"
  let ?c = "\<lparr>cfg_file_path = [], cfg_root = [], cfg_is_dirty = False\<rparr>"
  have r: "getFileServerRoots (demo_toml []) ?c = []"
    by (simp add: getFileServerRoots_def find_or_nil_def demo_toml_def)
  have ok: "fs_session_ok 3 ?calls (getFileServerRoots (demo_toml []) ?c)" unfolding r by (simp add: fs_spec_next_def)
  have spec: "fs_spec 3 ?calls [] =
    ([FsDone [Inr ()], FsDone [Inl (mkError InvalidArgument)], FsDone [Inr ()], FsRoots [Inr [[3], [1]]], FsDone [Inr ()]], [[3]])"
    by (simp add: fs_spec_next_def)
  from file_server_session_refines [OF ok, of 0] show ?thesis unfolding r spec by simp
qed

end
