(* ===== verification/Relay_Services.thy ===== *)
theory Relay_Services
  imports Ipc_Channel
begin

text \<open>
  The relay services of \<^verbatim>\<open>src/daemon/engine/svc/relay/\<close>: \<open>raw_subscriber_service.cpp\<close>,
  \<open>raw_publisher_service.cpp\<close> and \<open>raw_rpc_client_service.cpp\<close>, with the messages of
  \<^verbatim>\<open>src/common/dsdl/ocvsmd/common/svc/relay/\<close>. They pass raw Cyphal payloads between the network and an
  IPC channel: the payload follows the serialized IPC message.

  A service keeps one state machine per channel; a Cyphal port object (subscriber,
  publisher, client, response promise) is a handle of the network, which is a parameter, as
  are the channels: \<open>rc_send\<close> and \<open>rc_complete\<close> report an error or none. \<open>None\<close> of an operation is
  undefined behaviour (a state machine used after its end, a subspan outside the payload).
\<close>

section \<open>Messages\<close>

datatype subscriber_request = SubEmpty | SubCreate u64 u16
datatype subscriber_response = SubRespEmpty | SubReceive u8 "u16 list" u64

datatype publisher_request = PubEmpty | PubCreate u16 | PubConfig "u8 list" | PubPublish u64 u64
datatype publisher_response = PubRespEmpty | PubError dsdl_error

datatype rpc_request = RpcEmpty | RpcCreate u64 u16 u16 | RpcConfig "u8 list" | RpcCall u64 u64 u64
datatype rpc_response = RpcRespEmpty | RpcReceive u8 u16 u64 | RpcError dsdl_error

section \<open>Surroundings\<close>

record ('q, 'c) relay_ch =
  rc_send :: "u64 \<Rightarrow> 'q \<Rightarrow> socket_buffer \<Rightarrow> 'c \<Rightarrow> opt_error \<times> 'c"
  rc_complete :: "u64 \<Rightarrow> opt_error \<Rightarrow> 'c \<Rightarrow> opt_error \<times> 'c"
  rc_release :: "u64 \<Rightarrow> 'c \<Rightarrow> 'c"

record 'w cy_relay =
  cyr_makeSubscriber :: "u16 \<Rightarrow> u64 \<Rightarrow> 'w \<Rightarrow> (cy_failure + nat) \<times> 'w"
  cyr_makePublisher :: "u16 \<Rightarrow> 'w \<Rightarrow> (cy_failure + nat) \<times> 'w"
  cyr_makeClient :: "u16 \<Rightarrow> u16 \<Rightarrow> u64 \<Rightarrow> 'w \<Rightarrow> (cy_failure + nat) \<times> 'w"
  cyr_setPriority :: "nat \<Rightarrow> u8 \<Rightarrow> 'w \<Rightarrow> 'w"
  cyr_publish :: "nat \<Rightarrow> u64 \<Rightarrow> byte list \<Rightarrow> 'w \<Rightarrow> cy_failure option \<times> 'w"
  cyr_request :: "nat \<Rightarrow> u64 \<Rightarrow> byte list \<Rightarrow> u64 \<Rightarrow> 'w \<Rightarrow> (cy_failure + nat) \<times> 'w"
  cyr_drop :: "nat \<Rightarrow> 'w \<Rightarrow> 'w"
  cyr_now :: "'w \<Rightarrow> u64"

text \<open>The state of a service: its state machines by id, its channels, the network.\<close>

record ('f, 'c, 'w) relay_service =
  rs_next_fsm_id :: u64
  rs_id_to_fsm :: "(u64, 'f) umap"
  rs_chan :: 'c
  rs_net :: 'w

definition cyr_reset :: "'w cy_relay \<Rightarrow> nat option \<Rightarrow> 'w \<Rightarrow> 'w" where
  "cyr_reset cy h w = (case h of None \<Rightarrow> w | Some p \<Rightarrow> cyr_drop cy p w)"

text \<open>\<open>releaseFsmBy\<close>: the state machine ends, and its channel with it.\<close>

definition relay_releaseFsmBy :: "('q, 'c) relay_ch \<Rightarrow> u64 \<Rightarrow> ('f, 'c, 'w) relay_service \<Rightarrow> ('f, 'c, 'w) relay_service" where
  "relay_releaseFsmBy ch i s = s\<lparr>rs_id_to_fsm := um_erase i (rs_id_to_fsm s), rs_chan := rc_release ch i (rs_chan s)\<rparr>"

definition relay_set_fsm :: "u64 \<Rightarrow> 'f \<Rightarrow> ('f, 'c, 'w) relay_service \<Rightarrow> ('f, 'c, 'w) relay_service" where
  "relay_set_fsm i f s = s\<lparr>rs_id_to_fsm := um_assign i f (rs_id_to_fsm s)\<rparr>"

section \<open>Raw subscriber\<close>

type_synonym sub_fsm = "nat option"

definition sub_complete ::
    "(subscriber_response, 'c) relay_ch \<Rightarrow> 'w cy_relay \<Rightarrow> u64 \<Rightarrow> opt_error \<Rightarrow> (sub_fsm, 'c, 'w) relay_service \<Rightarrow>
     (sub_fsm, 'c, 'w) relay_service option" where
  "sub_complete ch cy i completion_opt_error s = do {
     cy_raw_subscriber \<leftarrow> map_of (rs_id_to_fsm s) i;
     let s1 = s\<lparr>rs_net := cyr_reset cy cy_raw_subscriber (rs_net s)\<rparr>;
     let s2 = s1\<lparr>rs_chan := snd (rc_complete ch i completion_opt_error (rs_chan s1))\<rparr>;
     Some (relay_releaseFsmBy ch i s2)
   }"

definition makeCySubscriber ::
    "(subscriber_response, 'c) relay_ch \<Rightarrow> 'w cy_relay \<Rightarrow> u64 \<Rightarrow> u16 \<Rightarrow> u64 \<Rightarrow> (sub_fsm, 'c, 'w) relay_service \<Rightarrow>
     (bool \<times> (sub_fsm, 'c, 'w) relay_service) option" where
  "makeCySubscriber ch cy i subject_id extent_bytes s =
     (case cyr_makeSubscriber cy subject_id extent_bytes (rs_net s) of
        (Inl cy_failure, w) \<Rightarrow>
          map_option (Pair False) (sub_complete ch cy i (cyFailureToOptError cy_failure) (s\<lparr>rs_net := w\<rparr>))
      | (Inr h, w) \<Rightarrow> Some (True, relay_set_fsm i (Some h) (s\<lparr>rs_net := w\<rparr>)))"

definition sub_start ::
    "(subscriber_response, 'c) relay_ch \<Rightarrow> 'w cy_relay \<Rightarrow> u64 \<Rightarrow> subscriber_request \<Rightarrow> (sub_fsm, 'c, 'w) relay_service \<Rightarrow>
     (sub_fsm, 'c, 'w) relay_service option" where
  "sub_start ch cy i request s =
     (case request of
        SubCreate extent_size subject_id \<Rightarrow> do {
          (made, s1) \<leftarrow> makeCySubscriber ch cy i subject_id extent_size s;
          if made then
            (let (opt_error, c) = rc_send ch i SubRespEmpty SocketBuffer_empty (rs_chan s1); s2 = s1\<lparr>rs_chan := c\<rparr>
             in if opt_error \<noteq> None then sub_complete ch cy i opt_error s2 else Some s2)
          else Some s1
        }
      | SubEmpty \<Rightarrow> Some s)"

definition RawSubscriberServiceImpl ::
    "(subscriber_response, 'c) relay_ch \<Rightarrow> 'w cy_relay \<Rightarrow> subscriber_request \<Rightarrow> (sub_fsm, 'c, 'w) relay_service \<Rightarrow>
     (sub_fsm, 'c, 'w) relay_service option" where
  "RawSubscriberServiceImpl ch cy request s =
     (let fsm_id = rs_next_fsm_id s
      in sub_start ch cy fsm_id request (relay_set_fsm fsm_id None (s\<lparr>rs_next_fsm_id := fsm_id + 1\<rparr>)))"

definition sub_handleEvent ::
    "(subscriber_response, 'c) relay_ch \<Rightarrow> 'w cy_relay \<Rightarrow> u64 \<Rightarrow> subscriber_request ch_event \<Rightarrow>
     (sub_fsm, 'c, 'w) relay_service \<Rightarrow> (sub_fsm, 'c, 'w) relay_service option" where
  "sub_handleEvent ch cy i event s =
     (case event of
        ChConnected \<Rightarrow> Some s
      | ChInput _ _ \<Rightarrow> Some s
      | ChCompleted opt_error keep_alive \<Rightarrow>
          if \<not> keep_alive then sub_complete ch cy i (Some (mkError Canceled)) s else Some s)"

text \<open>The callback of the Cyphal subscriber: priority, publisher (unless anonymous), fragments.\<close>

definition sub_handleNodeMessage ::
    "(subscriber_response, 'c) relay_ch \<Rightarrow> u64 \<Rightarrow> u8 \<Rightarrow> u16 option \<Rightarrow> byte list list \<Rightarrow>
     (sub_fsm, 'c, 'w) relay_service \<Rightarrow> (sub_fsm, 'c, 'w) relay_service" where
  "sub_handleNodeMessage ch i priority publisher_node_id raw_msg_buff s =
     (let ipc_response = SubReceive priority (case publisher_node_id of None \<Rightarrow> [] | Some n \<Rightarrow> [n])
                           (of_nat (length (concat raw_msg_buff)));
          sock_buff = SocketBuffer_scattered (map Span raw_msg_buff)
      in s\<lparr>rs_chan := snd (rc_send ch i ipc_response sock_buff (rs_chan s))\<rparr>)"

section \<open>Raw publisher\<close>

type_synonym pub_fsm = "nat option"

definition pub_complete ::
    "(publisher_response, 'c) relay_ch \<Rightarrow> 'w cy_relay \<Rightarrow> u64 \<Rightarrow> opt_error \<Rightarrow> (pub_fsm, 'c, 'w) relay_service \<Rightarrow>
     (pub_fsm, 'c, 'w) relay_service option" where
  "pub_complete ch cy i completion_opt_error s = do {
     cy_raw_publisher \<leftarrow> map_of (rs_id_to_fsm s) i;
     let s1 = s\<lparr>rs_net := cyr_reset cy cy_raw_publisher (rs_net s)\<rparr>;
     let s2 = s1\<lparr>rs_chan := snd (rc_complete ch i completion_opt_error (rs_chan s1))\<rparr>;
     Some (relay_releaseFsmBy ch i s2)
   }"

definition makeCyPublisher ::
    "(publisher_response, 'c) relay_ch \<Rightarrow> 'w cy_relay \<Rightarrow> u64 \<Rightarrow> u16 \<Rightarrow> (pub_fsm, 'c, 'w) relay_service \<Rightarrow>
     (bool \<times> (pub_fsm, 'c, 'w) relay_service) option" where
  "makeCyPublisher ch cy i subject_id s =
     (case cyr_makePublisher cy subject_id (rs_net s) of
        (Inl cy_failure, w) \<Rightarrow>
          map_option (Pair False) (pub_complete ch cy i (cyFailureToOptError cy_failure) (s\<lparr>rs_net := w\<rparr>))
      | (Inr h, w) \<Rightarrow> Some (True, relay_set_fsm i (Some h) (s\<lparr>rs_net := w\<rparr>)))"

definition pub_start ::
    "(publisher_response, 'c) relay_ch \<Rightarrow> 'w cy_relay \<Rightarrow> u64 \<Rightarrow> publisher_request \<Rightarrow> (pub_fsm, 'c, 'w) relay_service \<Rightarrow>
     (pub_fsm, 'c, 'w) relay_service option" where
  "pub_start ch cy i request s =
     (case request of
        PubCreate subject_id \<Rightarrow> do {
          (made, s1) \<leftarrow> makeCyPublisher ch cy i subject_id s;
          if made then
            (let (opt_error, c) = rc_send ch i PubRespEmpty SocketBuffer_empty (rs_chan s1); s2 = s1\<lparr>rs_chan := c\<rparr>
             in if opt_error \<noteq> None then pub_complete ch cy i opt_error s2 else Some s2)
          else Some s1
        }
      | _ \<Rightarrow> Some s)"

definition RawPublisherServiceImpl ::
    "(publisher_response, 'c) relay_ch \<Rightarrow> 'w cy_relay \<Rightarrow> publisher_request \<Rightarrow> (pub_fsm, 'c, 'w) relay_service \<Rightarrow>
     (pub_fsm, 'c, 'w) relay_service option" where
  "RawPublisherServiceImpl ch cy request s =
     (let fsm_id = rs_next_fsm_id s
      in pub_start ch cy fsm_id request (relay_set_fsm fsm_id None (s\<lparr>rs_next_fsm_id := fsm_id + 1\<rparr>)))"

definition sendPublishResponse ::
    "(publisher_response, 'c) relay_ch \<Rightarrow> u64 \<Rightarrow> opt_error \<Rightarrow> (pub_fsm, 'c, 'w) relay_service \<Rightarrow> (pub_fsm, 'c, 'w) relay_service" where
  "sendPublishResponse ch i opt_error s =
     s\<lparr>rs_chan := snd (rc_send ch i (PubError (optErrorToDsdlError opt_error)) SocketBuffer_empty (rs_chan s))\<rparr>"

definition pub_handleConfig ::
    "(publisher_response, 'c) relay_ch \<Rightarrow> 'w cy_relay \<Rightarrow> u64 \<Rightarrow> u8 list \<Rightarrow> (pub_fsm, 'c, 'w) relay_service \<Rightarrow>
     (pub_fsm, 'c, 'w) relay_service option" where
  "pub_handleConfig ch cy i priority s = do {
     cy_raw_publisher \<leftarrow> map_of (rs_id_to_fsm s) i;
     case cy_raw_publisher of
       None \<Rightarrow> pub_complete ch cy i (Some (mkError Canceled)) s
     | Some h \<Rightarrow> Some (case priority of [] \<Rightarrow> s | p # _ \<Rightarrow> s\<lparr>rs_net := cyr_setPriority cy h p (rs_net s)\<rparr>)
   }"

definition pub_handlePublish ::
    "(publisher_response, 'c) relay_ch \<Rightarrow> 'w cy_relay \<Rightarrow> u64 \<Rightarrow> u64 \<Rightarrow> u64 \<Rightarrow> byte list \<Rightarrow>
     (pub_fsm, 'c, 'w) relay_service \<Rightarrow> (pub_fsm, 'c, 'w) relay_service option" where
  "pub_handlePublish ch cy i timeout_us raw_size payload s = do {
     cy_raw_publisher \<leftarrow> map_of (rs_id_to_fsm s) i;
     case cy_raw_publisher of
       None \<Rightarrow> pub_complete ch cy i (Some (mkError Canceled)) s
     | Some h \<Rightarrow> do {
         let deadline = cyr_now cy (rs_net s) + timeout_us;
         raw_msg_payload \<leftarrow> subspan payload (of_nat (length payload) - raw_size);
         let (cy_failure, w) = cyr_publish cy h deadline raw_msg_payload (rs_net s);
         let opt_error = (case cy_failure of None \<Rightarrow> None | Some f \<Rightarrow> cyFailureToOptError f);
         Some (sendPublishResponse ch i opt_error (s\<lparr>rs_net := w\<rparr>))
       }
   }"

definition pub_handleEvent ::
    "(publisher_response, 'c) relay_ch \<Rightarrow> 'w cy_relay \<Rightarrow> u64 \<Rightarrow> publisher_request ch_event \<Rightarrow>
     (pub_fsm, 'c, 'w) relay_service \<Rightarrow> (pub_fsm, 'c, 'w) relay_service option" where
  "pub_handleEvent ch cy i event s =
     (case event of
        ChConnected \<Rightarrow> Some s
      | ChInput input payload \<Rightarrow>
          (case input of
             PubConfig priority \<Rightarrow> pub_handleConfig ch cy i priority s
           | PubPublish timeout_us sz \<Rightarrow> pub_handlePublish ch cy i timeout_us sz payload s
           | PubCreate _ \<Rightarrow> Some s
           | PubEmpty \<Rightarrow> Some s)
      | ChCompleted opt_error keep_alive \<Rightarrow>
          if \<not> keep_alive then pub_complete ch cy i opt_error s else Some s)"

section \<open>Raw RPC client\<close>

record rpc_fsm =
  rf_client :: "nat option"
  rf_promise :: "nat option"

definition rpc_complete ::
    "(rpc_response, 'c) relay_ch \<Rightarrow> 'w cy_relay \<Rightarrow> u64 \<Rightarrow> opt_error \<Rightarrow> (rpc_fsm, 'c, 'w) relay_service \<Rightarrow>
     (rpc_fsm, 'c, 'w) relay_service option" where
  "rpc_complete ch cy i completion_opt_error s = do {
     f \<leftarrow> map_of (rs_id_to_fsm s) i;
     let s1 = s\<lparr>rs_net := cyr_reset cy (rf_client f) (cyr_reset cy (rf_promise f) (rs_net s))\<rparr>;
     let s2 = s1\<lparr>rs_chan := snd (rc_complete ch i completion_opt_error (rs_chan s1))\<rparr>;
     Some (relay_releaseFsmBy ch i s2)
   }"

definition rpc_reply ::
    "(rpc_response, 'c) relay_ch \<Rightarrow> 'w cy_relay \<Rightarrow> u64 \<Rightarrow> rpc_response \<Rightarrow> bool \<Rightarrow> (rpc_fsm, 'c, 'w) relay_service \<Rightarrow>
     (rpc_fsm, 'c, 'w) relay_service option" where
  "rpc_reply ch cy i ipc_response complete_of_failure s =
     (let (opt_error, c) = rc_send ch i ipc_response SocketBuffer_empty (rs_chan s); s1 = s\<lparr>rs_chan := c\<rparr>
      in if opt_error \<noteq> None \<and> complete_of_failure then rpc_complete ch cy i opt_error s1 else Some s1)"

definition rpc_reply_raw ::
    "(rpc_response, 'c) relay_ch \<Rightarrow> u64 \<Rightarrow> rpc_response \<Rightarrow> socket_buffer \<Rightarrow> (rpc_fsm, 'c, 'w) relay_service \<Rightarrow>
     (rpc_fsm, 'c, 'w) relay_service" where
  "rpc_reply_raw ch i ipc_response sock_buff s = s\<lparr>rs_chan := snd (rc_send ch i ipc_response sock_buff (rs_chan s))\<rparr>"

definition makeCySvcClient ::
    "(rpc_response, 'c) relay_ch \<Rightarrow> 'w cy_relay \<Rightarrow> u64 \<Rightarrow> u16 \<Rightarrow> u16 \<Rightarrow> u64 \<Rightarrow> (rpc_fsm, 'c, 'w) relay_service \<Rightarrow>
     (bool \<times> (rpc_fsm, 'c, 'w) relay_service) option" where
  "makeCySvcClient ch cy i server_node_id service_id extent_bytes s =
     (case cyr_makeClient cy server_node_id service_id extent_bytes (rs_net s) of
        (Inl cy_failure, w) \<Rightarrow>
          map_option (Pair False) (rpc_complete ch cy i (cyFailureToOptError cy_failure) (s\<lparr>rs_net := w\<rparr>))
      | (Inr h, w) \<Rightarrow> do {
          f \<leftarrow> map_of (rs_id_to_fsm s) i;
          Some (True, relay_set_fsm i (f\<lparr>rf_client := Some h\<rparr>) (s\<lparr>rs_net := w\<rparr>))
        })"

definition rpc_start ::
    "(rpc_response, 'c) relay_ch \<Rightarrow> 'w cy_relay \<Rightarrow> u64 \<Rightarrow> rpc_request \<Rightarrow> (rpc_fsm, 'c, 'w) relay_service \<Rightarrow>
     (rpc_fsm, 'c, 'w) relay_service option" where
  "rpc_start ch cy i request s =
     (case request of
        RpcCreate extent_size service_id server_node_id \<Rightarrow> do {
          (made, s1) \<leftarrow> makeCySvcClient ch cy i server_node_id service_id extent_size s;
          if made then rpc_reply ch cy i RpcRespEmpty True s1 else Some s1
        }
      | _ \<Rightarrow> Some s)"

definition RawRpcClientServiceImpl ::
    "(rpc_response, 'c) relay_ch \<Rightarrow> 'w cy_relay \<Rightarrow> rpc_request \<Rightarrow> (rpc_fsm, 'c, 'w) relay_service \<Rightarrow>
     (rpc_fsm, 'c, 'w) relay_service option" where
  "RawRpcClientServiceImpl ch cy request s =
     (let fsm_id = rs_next_fsm_id s
      in rpc_start ch cy fsm_id request
           (relay_set_fsm fsm_id \<lparr>rf_client = None, rf_promise = None\<rparr> (s\<lparr>rs_next_fsm_id := fsm_id + 1\<rparr>)))"

definition rpc_handleConfig ::
    "(rpc_response, 'c) relay_ch \<Rightarrow> 'w cy_relay \<Rightarrow> u64 \<Rightarrow> u8 list \<Rightarrow> (rpc_fsm, 'c, 'w) relay_service \<Rightarrow>
     (rpc_fsm, 'c, 'w) relay_service option" where
  "rpc_handleConfig ch cy i priority s = do {
     f \<leftarrow> map_of (rs_id_to_fsm s) i;
     case rf_client f of
       None \<Rightarrow> rpc_complete ch cy i (Some (mkError Canceled)) s
     | Some h \<Rightarrow> Some (case priority of [] \<Rightarrow> s | p # _ \<Rightarrow> s\<lparr>rs_net := cyr_setPriority cy h p (rs_net s)\<rparr>)
   }"

text \<open>A new call replaces the promise of the one before, which is dropped with its callback.\<close>

definition rpc_handleCall ::
    "(rpc_response, 'c) relay_ch \<Rightarrow> 'w cy_relay \<Rightarrow> u64 \<Rightarrow> u64 \<Rightarrow> u64 \<Rightarrow> u64 \<Rightarrow> byte list \<Rightarrow>
     (rpc_fsm, 'c, 'w) relay_service \<Rightarrow> (rpc_fsm, 'c, 'w) relay_service option" where
  "rpc_handleCall ch cy i request_timeout_us response_timeout_us raw_size payload s = do {
     f \<leftarrow> map_of (rs_id_to_fsm s) i;
     case rf_client f of
       None \<Rightarrow> rpc_complete ch cy i (Some (mkError Canceled)) s
     | Some h \<Rightarrow> do {
         let now = cyr_now cy (rs_net s);
         let request_deadline = now + request_timeout_us;
         let response_deadline = now + response_timeout_us;
         raw_msg_payload \<leftarrow> subspan payload (of_nat (length payload) - raw_size);
         case cyr_request cy h request_deadline raw_msg_payload response_deadline (rs_net s) of
           (Inl cy_failure, w) \<Rightarrow>
             rpc_reply ch cy i (RpcError (optErrorToDsdlError (cyFailureToOptError cy_failure))) False (s\<lparr>rs_net := w\<rparr>)
         | (Inr p, w) \<Rightarrow>
             Some (relay_set_fsm i (f\<lparr>rf_promise := Some p\<rparr>) (s\<lparr>rs_net := cyr_reset cy (rf_promise f) w\<rparr>))
       }
   }"

definition rpc_handleEvent ::
    "(rpc_response, 'c) relay_ch \<Rightarrow> 'w cy_relay \<Rightarrow> u64 \<Rightarrow> rpc_request ch_event \<Rightarrow>
     (rpc_fsm, 'c, 'w) relay_service \<Rightarrow> (rpc_fsm, 'c, 'w) relay_service option" where
  "rpc_handleEvent ch cy i event s =
     (case event of
        ChConnected \<Rightarrow> Some s
      | ChInput input payload \<Rightarrow>
          (case input of
             RpcConfig priority \<Rightarrow> rpc_handleConfig ch cy i priority s
           | RpcCall request_timeout_us response_timeout_us sz \<Rightarrow>
               rpc_handleCall ch cy i request_timeout_us response_timeout_us sz payload s
           | RpcCreate _ _ _ \<Rightarrow> Some s
           | RpcEmpty \<Rightarrow> Some s)
      | ChCompleted opt_error keep_alive \<Rightarrow>
          if \<not> keep_alive then rpc_complete ch cy i opt_error s else Some s)"

text \<open>The result of a promise: priority, node and fragments of the response, or a failure.\<close>

definition handleRpcResponse ::
    "(rpc_response, 'c) relay_ch \<Rightarrow> 'w cy_relay \<Rightarrow> u64 \<Rightarrow> cy_failure + u8 \<times> u16 \<times> byte list list \<Rightarrow>
     (rpc_fsm, 'c, 'w) relay_service \<Rightarrow> (rpc_fsm, 'c, 'w) relay_service option" where
  "handleRpcResponse ch cy i result s =
     (case result of
        Inr (priority, remote_node_id, response) \<Rightarrow>
          Some (rpc_reply_raw ch i (RpcReceive priority remote_node_id (of_nat (length (concat response))))
                  (SocketBuffer_scattered (map Span response)) s)
      | Inl cy_failure \<Rightarrow>
          rpc_reply ch cy i (RpcError (optErrorToDsdlError (cyFailureToOptError cy_failure))) False s)"

end
