(* ===== verification/Relay_Clients.thy ===== *)
theory Relay_Clients
  imports Relay_Services
begin

text \<open>
  The SDK side of the relay: \<^verbatim>\<open>src/sdk/svc/relay/\<close> (\<open>raw_publisher_client.cpp\<close>,
  \<open>raw_subscriber_client.cpp\<close>, \<open>raw_rpc_client.cpp\<close>) and the calls of \<^verbatim>\<open>src/sdk/daemon.cpp\<close> that make
  them, then the way of a raw payload from the SDK through the daemon and back.

  A client first opens its channel; the first message of the daemon turns it into a
  publisher, subscriber or RPC client that takes the channel over. Receivers are names
  \<open>'r\<close>; their calls are recorded in order. A failed allocation of a message buffer is not
  modelled.
\<close>

section \<open>Opening a channel\<close>

text \<open>\<open>send\<close> of the client's channel: the message and the raw payload behind it.\<close>

type_synonym ('o, 'c) raw_send = "'o \<Rightarrow> socket_buffer \<Rightarrow> 'c \<Rightarrow> opt_error \<times> 'c"

text \<open>The channel is \<open>None\<close> once it has been moved away.\<close>

record ('q, 'impl, 'c) relay_client =
  rlc_request :: 'q
  rlc_channel :: "'c option"
  rlc_received :: "(sdk_error + 'impl) list"

definition or_canceled :: "opt_error \<Rightarrow> sdk_error" where
  "or_canceled opt_error = (case opt_error of Some e \<Rightarrow> e | None \<Rightarrow> mkError Canceled)"

definition rlc_receive :: "sdk_error + 'impl \<Rightarrow> ('q, 'impl, 'c) relay_client \<Rightarrow> ('q, 'impl, 'c) relay_client" where
  "rlc_receive result s = s\<lparr>rlc_received := rlc_received s @ [result]\<rparr>"

definition relay_client_handleConnected ::
    "('q, 'c) raw_send \<Rightarrow> ('q, 'impl, 'c) relay_client \<Rightarrow> ('q, 'impl, 'c) relay_client option" where
  "relay_client_handleConnected send s = do {
     c \<leftarrow> rlc_channel s;
     let (opt_error, c') = send (rlc_request s) SocketBuffer_empty c;
     let s1 = s\<lparr>rlc_channel := Some c'\<rparr>;
     Some (case opt_error of Some err \<Rightarrow> rlc_receive (Inl err) s1 | None \<Rightarrow> s1)
   }"

definition relay_client_handleInput ::
    "('c \<Rightarrow> 'impl) \<Rightarrow> ('q, 'impl, 'c) relay_client \<Rightarrow> ('q, 'impl, 'c) relay_client option" where
  "relay_client_handleInput make_impl s = do {
     c \<leftarrow> rlc_channel s;
     Some (rlc_receive (Inr (make_impl c)) (s\<lparr>rlc_channel := None\<rparr>))
   }"

definition relay_client_handleCompleted :: "opt_error \<Rightarrow> ('q, 'impl, 'c) relay_client \<Rightarrow> ('q, 'impl, 'c) relay_client" where
  "relay_client_handleCompleted opt_error s = rlc_receive (Inl (or_canceled opt_error)) s"

section \<open>Publisher\<close>

record ('c, 'r) publisher_impl =
  pi_channel :: 'c
  pi_timeout_us :: u64
  pi_payload :: payload
  pi_completion_error :: opt_error
  pi_receiver :: "'r option"
  pi_calls :: "('r \<times> opt_error) list"

definition PublisherImpl_make :: "'c \<Rightarrow> ('c, 'r) publisher_impl" where
  "PublisherImpl_make c =
     \<lparr>pi_channel = c, pi_timeout_us = 0, pi_payload = NullSpan 0, pi_completion_error = None,
      pi_receiver = None, pi_calls = []\<rparr>"

fun raw_publisher_client_handleEvent ::
    "(publisher_request, 'c) raw_send \<Rightarrow> publisher_response ch_event \<Rightarrow>
     (publisher_request, ('c, 'r) publisher_impl, 'c) relay_client \<Rightarrow>
     (publisher_request, ('c, 'r) publisher_impl, 'c) relay_client option" where
  "raw_publisher_client_handleEvent send ChConnected s = relay_client_handleConnected send s"
| "raw_publisher_client_handleEvent send (ChInput _ _) s = relay_client_handleInput PublisherImpl_make s"
| "raw_publisher_client_handleEvent send (ChCompleted opt_error _) s = Some (relay_client_handleCompleted opt_error s)"

text \<open>\<open>std::max<std::uint64_t>(0, timeout.count())\<close>: the bits of the signed count.\<close>

definition relay_timeout_us :: "u64 \<Rightarrow> u64" where
  "relay_timeout_us timeout_count = max 0 timeout_count"

definition rawPublish :: "payload \<Rightarrow> u64 \<Rightarrow> ('c, 'r) publisher_impl \<Rightarrow> ('c, 'r) publisher_impl" where
  "rawPublish raw_payload timeout s = s\<lparr>pi_payload := raw_payload, pi_timeout_us := relay_timeout_us timeout\<rparr>"

definition pi_call :: "'r \<Rightarrow> opt_error \<Rightarrow> ('c, 'r) publisher_impl \<Rightarrow> ('c, 'r) publisher_impl" where
  "pi_call r result s = s\<lparr>pi_calls := pi_calls s @ [(r, result)]\<rparr>"

definition pi_submit ::
    "(publisher_request, 'c) raw_send \<Rightarrow> 'r \<Rightarrow> ('c, 'r) publisher_impl \<Rightarrow> ('c, 'r) publisher_impl" where
  "pi_submit send receiver s =
     (case pi_completion_error s of
        Some err \<Rightarrow> pi_call receiver (Some err) s
      | None \<Rightarrow>
          let publish = PubPublish (pi_timeout_us s) (of_nat (payload_size (pi_payload s)));
              sock_buff = SocketBuffer_of (pi_payload s);
              (opt_send_error, c) = send publish sock_buff (pi_channel s);
              s1 = s\<lparr>pi_channel := c, pi_payload := NullSpan 0\<rparr>
          in (case opt_send_error of
                Some err \<Rightarrow> pi_call receiver (Some err) s1
              | None \<Rightarrow> s1\<lparr>pi_receiver := Some receiver\<rparr>))"

definition pi_setPriority ::
    "(publisher_request, 'c) raw_send \<Rightarrow> u8 \<Rightarrow> ('c, 'r) publisher_impl \<Rightarrow> opt_error \<times> ('c, 'r) publisher_impl" where
  "pi_setPriority send priority s =
     (case pi_completion_error s of
        Some err \<Rightarrow> (Some err, s)
      | None \<Rightarrow>
          let (opt_error, c) = send (PubConfig [priority]) SocketBuffer_empty (pi_channel s)
          in (opt_error, s\<lparr>pi_channel := c\<rparr>))"

definition pi_notifyReceived :: "opt_error \<Rightarrow> ('c, 'r) publisher_impl \<Rightarrow> ('c, 'r) publisher_impl" where
  "pi_notifyReceived opt_error s = (case pi_receiver s of None \<Rightarrow> s | Some r \<Rightarrow> pi_call r opt_error s)"

definition pi_handleEvent :: "publisher_response ch_event \<Rightarrow> ('c, 'r) publisher_impl \<Rightarrow> ('c, 'r) publisher_impl" where
  "pi_handleEvent event s =
     (case event of
        ChConnected \<Rightarrow> s
      | ChInput input payload \<Rightarrow>
          (case input of
             PubError publish_error \<Rightarrow> pi_notifyReceived (dsdlErrorToOptError publish_error) s
           | PubRespEmpty \<Rightarrow> s)
      | ChCompleted opt_error keep_alive \<Rightarrow>
          let s1 = s\<lparr>pi_completion_error := Some (or_canceled opt_error)\<rparr>
          in pi_notifyReceived (pi_completion_error s1) s1)"

section \<open>Subscriber\<close>

type_synonym raw_receive = "sdk_error + byte list \<times> u8 \<times> u16 option"

record ('c, 'r) subscriber_impl =
  si_channel :: 'c
  si_completion_error :: opt_error
  si_receiver :: "'r option"
  si_calls :: "('r \<times> raw_receive) list"

definition SubscriberImpl_make :: "'c \<Rightarrow> ('c, 'r) subscriber_impl" where
  "SubscriberImpl_make c = \<lparr>si_channel = c, si_completion_error = None, si_receiver = None, si_calls = []\<rparr>"

fun raw_subscriber_client_handleEvent ::
    "(subscriber_request, 'c) raw_send \<Rightarrow> subscriber_response ch_event \<Rightarrow>
     (subscriber_request, ('c, 'r) subscriber_impl, 'c) relay_client \<Rightarrow>
     (subscriber_request, ('c, 'r) subscriber_impl, 'c) relay_client option" where
  "raw_subscriber_client_handleEvent send ChConnected s = relay_client_handleConnected send s"
| "raw_subscriber_client_handleEvent send (ChInput _ _) s = relay_client_handleInput SubscriberImpl_make s"
| "raw_subscriber_client_handleEvent send (ChCompleted opt_error _) s = Some (relay_client_handleCompleted opt_error s)"

definition si_call :: "'r \<Rightarrow> raw_receive \<Rightarrow> ('c, 'r) subscriber_impl \<Rightarrow> ('c, 'r) subscriber_impl" where
  "si_call r result s = s\<lparr>si_calls := si_calls s @ [(r, result)]\<rparr>"

definition si_submit :: "'r \<Rightarrow> ('c, 'r) subscriber_impl \<Rightarrow> ('c, 'r) subscriber_impl" where
  "si_submit receiver s =
     (case si_completion_error s of
        Some err \<Rightarrow> si_call receiver (Inl err) s
      | None \<Rightarrow> s\<lparr>si_receiver := Some receiver\<rparr>)"

definition si_notifyReceived :: "raw_receive \<Rightarrow> ('c, 'r) subscriber_impl \<Rightarrow> ('c, 'r) subscriber_impl" where
  "si_notifyReceived result s = (case si_receiver s of None \<Rightarrow> s | Some r \<Rightarrow> si_call r result s)"

definition si_handleInputEvent ::
    "u8 \<Rightarrow> u16 list \<Rightarrow> u64 \<Rightarrow> byte list \<Rightarrow> ('c, 'r) subscriber_impl \<Rightarrow> ('c, 'r) subscriber_impl option" where
  "si_handleInputEvent priority remote_node_id raw_size payload s = do {
     raw_msg_payload \<leftarrow> subspan payload (of_nat (length payload) - raw_size);
     let opt_node_id = (case remote_node_id of [] \<Rightarrow> None | n # _ \<Rightarrow> Some n);
     Some (si_notifyReceived (Inr (raw_msg_payload, priority, opt_node_id)) s)
   }"

definition si_handleEvent :: "subscriber_response ch_event \<Rightarrow> ('c, 'r) subscriber_impl \<Rightarrow> ('c, 'r) subscriber_impl option" where
  "si_handleEvent event s =
     (case event of
        ChConnected \<Rightarrow> Some s
      | ChInput input payload \<Rightarrow>
          (case input of
             SubReceive priority remote_node_id sz \<Rightarrow> si_handleInputEvent priority remote_node_id sz payload s
           | SubRespEmpty \<Rightarrow> Some s)
      | ChCompleted opt_error keep_alive \<Rightarrow>
          Some (si_notifyReceived (Inl (or_canceled opt_error)) (s\<lparr>si_completion_error := Some (or_canceled opt_error)\<rparr>)))"

section \<open>RPC client\<close>

type_synonym raw_call = "sdk_error + byte list \<times> u8 \<times> u16"

record ('c, 'r) rpc_impl =
  ni_channel :: 'c
  ni_request_timeout_us :: u64
  ni_response_timeout_us :: u64
  ni_payload :: payload
  ni_completion_error :: opt_error
  ni_receiver :: "'r option"
  ni_calls :: "('r \<times> raw_call) list"

definition NodeRpcClientImpl_make :: "'c \<Rightarrow> ('c, 'r) rpc_impl" where
  "NodeRpcClientImpl_make c =
     \<lparr>ni_channel = c, ni_request_timeout_us = 0, ni_response_timeout_us = 0, ni_payload = NullSpan 0,
      ni_completion_error = None, ni_receiver = None, ni_calls = []\<rparr>"

fun raw_rpc_client_handleEvent ::
    "(rpc_request, 'c) raw_send \<Rightarrow> rpc_response ch_event \<Rightarrow>
     (rpc_request, ('c, 'r) rpc_impl, 'c) relay_client \<Rightarrow> (rpc_request, ('c, 'r) rpc_impl, 'c) relay_client option" where
  "raw_rpc_client_handleEvent send ChConnected s = relay_client_handleConnected send s"
| "raw_rpc_client_handleEvent send (ChInput _ _) s = relay_client_handleInput NodeRpcClientImpl_make s"
| "raw_rpc_client_handleEvent send (ChCompleted opt_error _) s = Some (relay_client_handleCompleted opt_error s)"

definition rawCall :: "payload \<Rightarrow> u64 \<Rightarrow> u64 \<Rightarrow> ('c, 'r) rpc_impl \<Rightarrow> ('c, 'r) rpc_impl" where
  "rawCall raw_request_payload request_timeout response_timeout s =
     s\<lparr>ni_payload := raw_request_payload,
       ni_request_timeout_us := relay_timeout_us request_timeout,
       ni_response_timeout_us := relay_timeout_us response_timeout\<rparr>"

definition ni_call :: "'r \<Rightarrow> raw_call \<Rightarrow> ('c, 'r) rpc_impl \<Rightarrow> ('c, 'r) rpc_impl" where
  "ni_call r result s = s\<lparr>ni_calls := ni_calls s @ [(r, result)]\<rparr>"

definition ni_submit :: "(rpc_request, 'c) raw_send \<Rightarrow> 'r \<Rightarrow> ('c, 'r) rpc_impl \<Rightarrow> ('c, 'r) rpc_impl" where
  "ni_submit send receiver s =
     (case ni_completion_error s of
        Some err \<Rightarrow> ni_call receiver (Inl err) s
      | None \<Rightarrow>
          let call = RpcCall (ni_request_timeout_us s) (ni_response_timeout_us s) (of_nat (payload_size (ni_payload s)));
              sock_buff = SocketBuffer_of (ni_payload s);
              (opt_send_error, c) = send call sock_buff (ni_channel s);
              s1 = s\<lparr>ni_channel := c, ni_payload := NullSpan 0\<rparr>
          in (case opt_send_error of
                Some err \<Rightarrow> ni_call receiver (Inl err) s1
              | None \<Rightarrow> s1\<lparr>ni_receiver := Some receiver\<rparr>))"

definition ni_setPriority ::
    "(rpc_request, 'c) raw_send \<Rightarrow> u8 \<Rightarrow> ('c, 'r) rpc_impl \<Rightarrow> opt_error \<times> ('c, 'r) rpc_impl" where
  "ni_setPriority send priority s =
     (case ni_completion_error s of
        Some err \<Rightarrow> (Some err, s)
      | None \<Rightarrow>
          let (opt_error, c) = send (RpcConfig [priority]) SocketBuffer_empty (ni_channel s)
          in (opt_error, s\<lparr>ni_channel := c\<rparr>))"

definition ni_notifyReceived :: "raw_call \<Rightarrow> ('c, 'r) rpc_impl \<Rightarrow> ('c, 'r) rpc_impl" where
  "ni_notifyReceived result s = (case ni_receiver s of None \<Rightarrow> s | Some r \<Rightarrow> ni_call r result s)"

definition ni_handleReceive ::
    "u8 \<Rightarrow> u16 \<Rightarrow> u64 \<Rightarrow> byte list \<Rightarrow> ('c, 'r) rpc_impl \<Rightarrow> ('c, 'r) rpc_impl option" where
  "ni_handleReceive priority remote_node_id raw_size payload s = do {
     raw_msg_payload \<leftarrow> subspan payload (of_nat (length payload) - raw_size);
     Some (ni_notifyReceived (Inr (raw_msg_payload, priority, remote_node_id)) s)
   }"

definition ni_handleError :: "dsdl_error \<Rightarrow> ('c, 'r) rpc_impl \<Rightarrow> ('c, 'r) rpc_impl" where
  "ni_handleError response_error s =
     ni_notifyReceived (Inl (case dsdlErrorToOptError response_error of Some e \<Rightarrow> e | None \<Rightarrow> mkError Other)) s"

definition ni_handleEvent :: "rpc_response ch_event \<Rightarrow> ('c, 'r) rpc_impl \<Rightarrow> ('c, 'r) rpc_impl option" where
  "ni_handleEvent event s =
     (case event of
        ChConnected \<Rightarrow> Some s
      | ChInput input payload \<Rightarrow>
          (case input of
             RpcReceive priority remote_node_id sz \<Rightarrow> ni_handleReceive priority remote_node_id sz payload s
           | RpcError response_error \<Rightarrow> Some (ni_handleError response_error s)
           | RpcRespEmpty \<Rightarrow> Some s)
      | ChCompleted opt_error keep_alive \<Rightarrow>
          Some (ni_notifyReceived (Inl (or_canceled opt_error)) (s\<lparr>ni_completion_error := Some (or_canceled opt_error)\<rparr>)))"

section \<open>The calls of the SDK\<close>

definition Daemon_makePublisher :: "u16 \<Rightarrow> 'c \<Rightarrow> (publisher_request, ('c, 'r) publisher_impl, 'c) relay_client" where
  "Daemon_makePublisher subject_id c =
     \<lparr>rlc_request = PubCreate subject_id, rlc_channel = Some c, rlc_received = []\<rparr>"

definition Daemon_makeSubscriber :: "u16 \<Rightarrow> u64 \<Rightarrow> 'c \<Rightarrow> (subscriber_request, ('c, 'r) subscriber_impl, 'c) relay_client" where
  "Daemon_makeSubscriber subject_id extent_bytes c =
     \<lparr>rlc_request = SubCreate extent_bytes subject_id, rlc_channel = Some c, rlc_received = []\<rparr>"

definition Daemon_makeRpcClient :: "u16 \<Rightarrow> u16 \<Rightarrow> u64 \<Rightarrow> 'c \<Rightarrow> (rpc_request, ('c, 'r) rpc_impl, 'c) relay_client" where
  "Daemon_makeRpcClient service_id server_node_id extent_bytes c =
     \<lparr>rlc_request = RpcCreate extent_bytes service_id server_node_id, rlc_channel = Some c, rlc_received = []\<rparr>"


section \<open>From the SDK to the network and back\<close>

text \<open>
  What the generated code of a message type promises for the messages it can hold: they are
  serialized into a bounded buffer and read back, also when other bytes follow.
\<close>

definition raw_codec_law :: "'m msg_codec \<Rightarrow> ('m \<Rightarrow> bool) \<Rightarrow> bool" where
  "raw_codec_law mc valid \<longleftrightarrow>
     (\<forall>m. valid m \<longrightarrow> (\<exists>bs. msg_serialize mc m = Some bs \<and> length bs \<le> 2 ^ 16 \<and> (\<forall>tl. msg_deserialize mc (bs @ tl) = Some m)))"

definition pub_request_valid :: "publisher_request \<Rightarrow> bool" where
  "pub_request_valid q = (case q of PubConfig ps \<Rightarrow> length ps \<le> 1 | _ \<Rightarrow> True)"

definition sub_response_valid :: "subscriber_response \<Rightarrow> bool" where
  "sub_response_valid q = (case q of SubReceive p ns sz \<Rightarrow> length ns \<le> 1 | _ \<Rightarrow> True)"

definition rpc_request_valid :: "rpc_request \<Rightarrow> bool" where
  "rpc_request_valid q = (case q of RpcConfig ps \<Rightarrow> length ps \<le> 1 | _ \<Rightarrow> True)"

text \<open>Channels that take everything and record it.\<close>

definition rec_send :: "('o, ('o \<times> socket_buffer) list) raw_send" where
  "rec_send q b log = (None, log @ [(q, b)])"

datatype 'q rc_act = RcSend u64 'q socket_buffer | RcComplete u64 opt_error | RcRelease u64

definition rec_ch :: "('q, 'q rc_act list) relay_ch" where
  "rec_ch = \<lparr>rc_send = (\<lambda>i q b log. (None, log @ [RcSend i q b])),
             rc_complete = (\<lambda>i err log. (None, log @ [RcComplete i err])),
             rc_release = (\<lambda>i log. log @ [RcRelease i])\<rparr>"

lemma rec_ch_simps [simp]:
  "rc_send rec_ch i q b log = (None, log @ [RcSend i q b])"
  "rc_complete rec_ch i err log = (None, log @ [RcComplete i err])"
  "rc_release rec_ch i log = log @ [RcRelease i]"
  by (simp_all add: rec_ch_def)

text \<open>A sent message as the event of the channel at the other end.\<close>

definition deliver :: "'m msg_codec \<Rightarrow> 'm \<Rightarrow> socket_buffer \<Rightarrow> 'm ch_event option" where
  "deliver mc m buf = do {
     bs \<leftarrow> msg_serialize mc m;
     let payload = sb_bytes (prepend (Span bs) buf);
     m' \<leftarrow> msg_deserialize mc payload;
     Some (ChInput m' payload)
   }"

fun deliver_requests :: "'m msg_codec \<Rightarrow> ('m \<times> socket_buffer) list \<Rightarrow> 'm ch_event list option" where
  "deliver_requests mc [] = Some []"
| "deliver_requests mc ((m, buf) # log) = do {
     ev \<leftarrow> deliver mc m buf;
     evs \<leftarrow> deliver_requests mc log;
     Some (ev # evs)
   }"

fun deliver_responses :: "'m msg_codec \<Rightarrow> u64 \<Rightarrow> 'm rc_act list \<Rightarrow> 'm ch_event list option" where
  "deliver_responses mc i [] = Some []"
| "deliver_responses mc i (RcSend j m buf # log) = do {
     ev \<leftarrow> deliver mc m buf;
     evs \<leftarrow> deliver_responses mc i log;
     Some (if i = j then ev # evs else evs)
   }"
| "deliver_responses mc i (RcComplete j err # log) = do {
     evs \<leftarrow> deliver_responses mc i log;
     Some (if i = j then ChCompleted (dsdlErrorToOptError (optErrorToDsdlError err)) False # evs else evs)
   }"
| "deliver_responses mc i (RcRelease j # log) = deliver_responses mc i log"

lemma deliver_ok:
  assumes "raw_codec_law mc valid" "valid m" "length (sb_bytes buf) \<le> 2 ^ 20"
  obtains bs where "deliver mc m buf = Some (ChInput m (bs @ sb_bytes buf))" "length (bs @ sb_bytes buf) < 2 ^ 64"
proof -
  from assms(1,2) obtain bs where bs: "msg_serialize mc m = Some bs" "length bs \<le> 2 ^ 16"
    "\<And>tl. msg_deserialize mc (bs @ tl) = Some m" unfolding raw_codec_law_def by blast
  show thesis by (rule that [of bs]) (use bs assms(3) in \<open>simp_all add: deliver_def\<close>)
qed

lemma relay_timeout_id [simp]: "relay_timeout_us t = t"
  by (simp add: relay_timeout_us_def max_def)

lemma relay_error_roundtrip:
  "dsdlErrorToOptError (optErrorToDsdlError (cyFailureToOptError f)) = Some (drop_zero_errno (cyErrorToSdkError f))"
  "dsdlErrorToOptError (optErrorToDsdlError None) = None"
proof -
  have "error_wf (cyErrorToSdkError f)" by (cases f) (simp_all add: errnoToError_wf, simp_all add: error_wf_def)
  then show "dsdlErrorToOptError (optErrorToDsdlError (cyFailureToOptError f)) = Some (drop_zero_errno (cyErrorToSdkError f))"
    by (simp add: cyFailureToOptError_def dsdl_error_roundtrip_wf)
  show "dsdlErrorToOptError (optErrorToDsdlError None) = None"
    by (simp add: optErrorToDsdlError_def dsdlErrorToOptError_def)
qed

section \<open>Publishing\<close>

text \<open>Open a channel for a publisher: client, daemon, client.\<close>

definition pub_open ::
    "publisher_request msg_codec \<Rightarrow> publisher_response msg_codec \<Rightarrow> 'w cy_relay \<Rightarrow> u16 \<Rightarrow>
     (pub_fsm, publisher_response rc_act list, 'w) relay_service \<Rightarrow>
     ((sdk_error + ((publisher_request \<times> socket_buffer) list, 'r) publisher_impl) list \<times>
      (pub_fsm, publisher_response rc_act list, 'w) relay_service) option" where
  "pub_open mcq mcr cy subject_id t = do {
     c1 \<leftarrow> raw_publisher_client_handleEvent rec_send ChConnected (Daemon_makePublisher subject_id []);
     log \<leftarrow> rlc_channel c1;
     evs \<leftarrow> deliver_requests mcq log;
     t1 \<leftarrow> (case evs of [ChInput q _] \<Rightarrow> RawPublisherServiceImpl rec_ch cy q (t\<lparr>rs_chan := []\<rparr>) | _ \<Rightarrow> None);
     resp \<leftarrow> deliver_responses mcr (rs_next_fsm_id t) (rs_chan t1);
     c2 \<leftarrow> feed_events (raw_publisher_client_handleEvent rec_send) resp c1;
     Some (rlc_received c2, t1)
   }"

datatype 'r pub_op = OpPublish 'r "byte list" u64 | OpPriority u8

fun pub_exec ::
    "publisher_request msg_codec \<Rightarrow> publisher_response msg_codec \<Rightarrow> 'w cy_relay \<Rightarrow> u64 \<Rightarrow> 'r pub_op list \<Rightarrow>
     ((publisher_request \<times> socket_buffer) list, 'r) publisher_impl \<times> (pub_fsm, publisher_response rc_act list, 'w) relay_service \<Rightarrow>
     (((publisher_request \<times> socket_buffer) list, 'r) publisher_impl \<times>
      (pub_fsm, publisher_response rc_act list, 'w) relay_service) option" where
  "pub_exec mcq mcr cy i [] (s, t) = Some (s, t)"
| "pub_exec mcq mcr cy i (op # ops) (s, t) = do {
     let s0 = s\<lparr>pi_channel := []\<rparr>;
     let s1 = (case op of
          OpPublish r bs timeout \<Rightarrow> pi_submit rec_send r (rawPublish (Span bs) timeout s0)
        | OpPriority p \<Rightarrow> snd (pi_setPriority rec_send p s0));
     evs \<leftarrow> deliver_requests mcq (pi_channel s1);
     t1 \<leftarrow> feed_events (pub_handleEvent rec_ch cy i) evs (t\<lparr>rs_chan := []\<rparr>);
     resp \<leftarrow> deliver_responses mcr i (rs_chan t1);
     pub_exec mcq mcr cy i ops (fold pi_handleEvent resp s1, t1)
   }"

text \<open>The operations done directly on the network.\<close>

fun pub_spec :: "'w cy_relay \<Rightarrow> nat \<Rightarrow> 'r pub_op list \<Rightarrow> 'w \<Rightarrow> ('r \<times> opt_error) list \<times> 'w" where
  "pub_spec cy h [] w = ([], w)"
| "pub_spec cy h (OpPublish r bs timeout # ops) w =
     (let (failure, w1) = cyr_publish cy h (cyr_now cy w + timeout) bs w;
          (calls, w2) = pub_spec cy h ops w1
      in ((r, map_option (\<lambda>f. drop_zero_errno (cyErrorToSdkError f)) failure) # calls, w2))"
| "pub_spec cy h (OpPriority p # ops) w = pub_spec cy h ops (cyr_setPriority cy h p w)"

definition pub_op_ok :: "'r pub_op \<Rightarrow> bool" where
  "pub_op_ok op = (case op of OpPublish r bs t \<Rightarrow> length bs \<le> 2 ^ 20 | OpPriority p \<Rightarrow> True)"

lemma length_sb_of_Span: "sb_bytes (SocketBuffer_of (Span bs)) = bs"
  by simp

lemma pub_exec_spec:
  assumes law: "raw_codec_law mcq pub_request_valid" "raw_codec_law mcr (\<lambda>_. True)"
    and "list_all pub_op_ok ops" "pi_completion_error s = None" "map_of (rs_id_to_fsm t) i = Some (Some h)"
  shows "\<exists>s' t'. pub_exec mcq mcr cy i ops (s, t) = Some (s', t') \<and>
    pi_calls s' = pi_calls s @ fst (pub_spec cy h ops (rs_net t)) \<and> rs_net t' = snd (pub_spec cy h ops (rs_net t)) \<and>
    rs_id_to_fsm t' = rs_id_to_fsm t \<and> pi_completion_error s' = None"
  using assms(3-)
proof (induction ops arbitrary: s t)
  case (Cons op ops)
  show ?case
  proof (cases op)
    case (OpPublish r bs timeout)
    let ?q = "PubPublish timeout (of_nat (length bs))"
    let ?s1 = "s\<lparr>pi_channel := [(?q, SocketBuffer_of (Span bs))], pi_payload := NullSpan 0,
      pi_timeout_us := timeout, pi_receiver := Some r\<rparr>"
    have s1: "pi_submit rec_send r (rawPublish (Span bs) timeout (s\<lparr>pi_channel := []\<rparr>)) = ?s1"
      using Cons.prems(2) by (simp add: pi_submit_def rawPublish_def rec_send_def)
    have len: "length (sb_bytes (SocketBuffer_of (Span bs))) \<le> 2 ^ 20"
      using Cons.prems(1) OpPublish by (simp add: pub_op_ok_def)
    obtain pre where d: "deliver mcq ?q (SocketBuffer_of (Span bs)) = Some (ChInput ?q (pre @ bs))" "length (pre @ bs) < 2 ^ 64"
      using deliver_ok [OF law(1) _ len, where m = ?q] by (auto simp: pub_request_valid_def)
    obtain failure w1 where pub: "cyr_publish cy h (cyr_now cy (rs_net t) + timeout) bs (rs_net t) = (failure, w1)"
      by (cases "cyr_publish cy h (cyr_now cy (rs_net t) + timeout) bs (rs_net t)")
    define oe where "oe = (case failure of None \<Rightarrow> None | Some f \<Rightarrow> cyFailureToOptError f)"
    let ?t1 = "t\<lparr>rs_chan := [RcSend i (PubError (optErrorToDsdlError oe)) SocketBuffer_empty], rs_net := w1\<rparr>"
    have t1: "pub_handleEvent rec_ch cy i (ChInput ?q (pre @ bs)) (t\<lparr>rs_chan := []\<rparr>) = Some ?t1"
      using Cons.prems(3) pub subspan_tail [OF d(2)]
      by (simp add: pub_handleEvent_def pub_handlePublish_def sendPublishResponse_def oe_def)
    obtain pre' where r: "deliver mcr (PubError (optErrorToDsdlError oe)) SocketBuffer_empty
        = Some (ChInput (PubError (optErrorToDsdlError oe)) (pre' @ []))"
      using deliver_ok [OF law(2), where m = "PubError (optErrorToDsdlError oe)" and buf = SocketBuffer_empty] by auto
    let ?res = "map_option (\<lambda>f. drop_zero_errno (cyErrorToSdkError f)) failure"
    have res: "dsdlErrorToOptError (optErrorToDsdlError oe) = ?res"
      by (cases failure) (simp_all add: oe_def relay_error_roundtrip)
    let ?s2 = "?s1\<lparr>pi_calls := pi_calls s @ [(r, ?res)]\<rparr>"
    have s2: "pi_handleEvent (ChInput (PubError (optErrorToDsdlError oe)) (pre' @ [])) ?s1 = ?s2"
      by (simp add: pi_handleEvent_def res pi_notifyReceived_def pi_call_def)
    have "pub_exec mcq mcr cy i (op # ops) (s, t) = pub_exec mcq mcr cy i ops (?s2, ?t1)"
      using OpPublish s1 d(1) t1 r s2 by simp
    with Cons.IH [of ?s2 ?t1] Cons.prems OpPublish pub show ?thesis by (simp add: case_prod_beta)
  next
    case (OpPriority p)
    let ?q = "PubConfig [p]"
    let ?s1 = "s\<lparr>pi_channel := [(?q, SocketBuffer_empty)]\<rparr>"
    have s1: "snd (pi_setPriority rec_send p (s\<lparr>pi_channel := []\<rparr>)) = ?s1"
      using Cons.prems(2) by (simp add: pi_setPriority_def rec_send_def)
    obtain pre where d: "deliver mcq ?q SocketBuffer_empty = Some (ChInput ?q (pre @ []))"
      using deliver_ok [OF law(1), where m = ?q and buf = SocketBuffer_empty] by (auto simp: pub_request_valid_def)
    let ?t1 = "t\<lparr>rs_chan := [], rs_net := cyr_setPriority cy h p (rs_net t)\<rparr>"
    have t1: "pub_handleEvent rec_ch cy i (ChInput ?q (pre @ [])) (t\<lparr>rs_chan := []\<rparr>) = Some ?t1"
      using Cons.prems(3) by (simp add: pub_handleEvent_def pub_handleConfig_def)
    have "pub_exec mcq mcr cy i (op # ops) (s, t) = pub_exec mcq mcr cy i ops (?s1, ?t1)"
      using OpPriority s1 d t1 by simp
    with Cons.IH [of ?s1 ?t1] Cons.prems OpPriority show ?thesis by simp
  qed
qed simp


lemma pub_open_cases:
  assumes law: "raw_codec_law mcq pub_request_valid" "raw_codec_law mcr (\<lambda>_. True)"
  shows "case cyr_makePublisher cy subject_id (rs_net t) of
    (Inl f, w1) \<Rightarrow> \<exists>t1. pub_open mcq mcr cy subject_id t =
        Some ([Inl (drop_zero_errno (cyErrorToSdkError f))], t1) \<and>
        map_of (rs_id_to_fsm t1) (rs_next_fsm_id t) = None \<and> rs_net t1 = w1
  | (Inr h, w1) \<Rightarrow> \<exists>impl t1. pub_open mcq mcr cy subject_id t = Some ([Inr impl], t1) \<and>
        pi_completion_error impl = None \<and> pi_calls impl = [] \<and>
        map_of (rs_id_to_fsm t1) (rs_next_fsm_id t) = Some (Some h) \<and> rs_net t1 = w1"
proof -
  obtain pre where d: "deliver mcq (PubCreate subject_id) SocketBuffer_empty = Some (ChInput (PubCreate subject_id) (pre @ []))"
    using deliver_ok [OF law(1), where m = "PubCreate subject_id" and buf = SocketBuffer_empty]
    by (auto simp: pub_request_valid_def)
  obtain pre' where d': "deliver mcr PubRespEmpty SocketBuffer_empty = Some (ChInput PubRespEmpty (pre' @ []))"
    using deliver_ok [OF law(2), where m = PubRespEmpty and buf = SocketBuffer_empty] by auto
  note defs = pub_open_def Daemon_makePublisher_def relay_client_handleConnected_def relay_client_handleInput_def
    relay_client_handleCompleted_def rlc_receive_def rec_send_def RawPublisherServiceImpl_def pub_start_def makeCyPublisher_def
    pub_complete_def relay_releaseFsmBy_def relay_set_fsm_def cyr_reset_def PublisherImpl_make_def or_canceled_def um_simps Let_def
  show ?thesis
    using d d' by (auto simp: defs relay_error_roundtrip split: sum.split prod.split)
qed

section \<open>Calling a service of a node\<close>

datatype 'r rpc_op =
    OpCall 'r "byte list" u64 u64 "cy_failure + u8 \<times> u16 \<times> byte list list"
  | OpRpcPriority u8

text \<open>
  A call whose request the network took gets the result of its promise; \<open>OpCall\<close> names the
  receiver, the request, the timeouts and that result.
\<close>

fun rpc_exec ::
    "rpc_request msg_codec \<Rightarrow> rpc_response msg_codec \<Rightarrow> 'w cy_relay \<Rightarrow> u64 \<Rightarrow> 'r rpc_op list \<Rightarrow>
     ((rpc_request \<times> socket_buffer) list, 'r) rpc_impl \<times> (rpc_fsm, rpc_response rc_act list, 'w) relay_service \<Rightarrow>
     (((rpc_request \<times> socket_buffer) list, 'r) rpc_impl \<times> (rpc_fsm, rpc_response rc_act list, 'w) relay_service) option" where
  "rpc_exec mcq mcr cy i [] (s, t) = Some (s, t)"
| "rpc_exec mcq mcr cy i (op # ops) (s, t) = do {
     let s0 = s\<lparr>ni_channel := []\<rparr>;
     let s1 = (case op of
          OpCall r bs rq_timeout rs_timeout result \<Rightarrow> ni_submit rec_send r (rawCall (Span bs) rq_timeout rs_timeout s0)
        | OpRpcPriority p \<Rightarrow> snd (ni_setPriority rec_send p s0));
     evs \<leftarrow> deliver_requests mcq (ni_channel s1);
     t1 \<leftarrow> feed_events (rpc_handleEvent rec_ch cy i) evs (t\<lparr>rs_chan := []\<rparr>);
     t2 \<leftarrow> (case op of
          OpCall r bs rq_timeout rs_timeout result \<Rightarrow>
            if rs_chan t1 = [] then handleRpcResponse rec_ch cy i result t1 else Some t1
        | OpRpcPriority p \<Rightarrow> Some t1);
     resp \<leftarrow> deliver_responses mcr i (rs_chan t2);
     s2 \<leftarrow> feed_events ni_handleEvent resp s1;
     rpc_exec mcq mcr cy i ops (s2, t2)
   }"

definition rpc_outcome :: "cy_failure + u8 \<times> u16 \<times> byte list list \<Rightarrow> raw_call" where
  "rpc_outcome result =
     (case result of
        Inl f \<Rightarrow> Inl (drop_zero_errno (cyErrorToSdkError f))
      | Inr (priority, node, response) \<Rightarrow> Inr (concat response, priority, node))"

text \<open>
  The calls done directly on the network, and the client dropped at the end; \<open>p\<close> is the
  promise of the call before.
\<close>

fun rpc_spec :: "'w cy_relay \<Rightarrow> nat \<Rightarrow> nat option \<Rightarrow> 'r rpc_op list \<Rightarrow> 'w \<Rightarrow> ('r \<times> raw_call) list \<times> 'w" where
  "rpc_spec cy h p [] w = ([], cyr_drop cy h (cyr_reset cy p w))"
| "rpc_spec cy h p (OpCall r bs rq_timeout rs_timeout result # ops) w =
     (case cyr_request cy h (cyr_now cy w + rq_timeout) bs (cyr_now cy w + rs_timeout) w of
        (Inl f, w1) \<Rightarrow>
          (let (calls, w2) = rpc_spec cy h p ops w1 in ((r, rpc_outcome (Inl f)) # calls, w2))
      | (Inr p', w1) \<Rightarrow>
          (let (calls, w2) = rpc_spec cy h (Some p') ops (cyr_reset cy p w1) in ((r, rpc_outcome result) # calls, w2)))"
| "rpc_spec cy h p (OpRpcPriority q # ops) w = rpc_spec cy h p ops (cyr_setPriority cy h q w)"

definition rpc_op_ok :: "'r rpc_op \<Rightarrow> bool" where
  "rpc_op_ok op =
     (case op of
        OpCall r bs t1 t2 result \<Rightarrow>
          length bs \<le> 2 ^ 20 \<and> (case result of Inl _ \<Rightarrow> True | Inr (p, n, response) \<Rightarrow> length (concat response) \<le> 2 ^ 20)
      | OpRpcPriority p \<Rightarrow> True)"

lemma payload_bytes_Span [simp]: "payload_bytes \<circ> Span = (\<lambda>bs. bs)"
  by auto

text \<open>The answer of the daemon reaches the receiver of the call.\<close>

lemma rpc_answer:
  assumes law: "raw_codec_law mcr (\<lambda>_. True)" and recv: "ni_receiver s = Some r"
    and "case result of Inl _ \<Rightarrow> True | Inr (p, n, response) \<Rightarrow> length (concat response) \<le> 2 ^ 20"
  shows "\<exists>q b resp. handleRpcResponse rec_ch cy i result (t\<lparr>rs_chan := []\<rparr>) = Some (t\<lparr>rs_chan := [RcSend i q b]\<rparr>) \<and>
    deliver_responses mcr i [RcSend i q b] = Some resp \<and>
    feed_events ni_handleEvent resp s = Some (s\<lparr>ni_calls := ni_calls s @ [(r, rpc_outcome result)]\<rparr>)"
proof (cases result)
  case (Inl f)
  let ?q = "RpcError (optErrorToDsdlError (cyFailureToOptError f))"
  obtain pre where d: "deliver mcr ?q SocketBuffer_empty = Some (ChInput ?q (pre @ []))"
    using deliver_ok [OF law, where m = ?q and buf = SocketBuffer_empty] by auto
  show ?thesis
    by (intro exI [of _ ?q] exI [of _ SocketBuffer_empty] exI [of _ "[ChInput ?q (pre @ [])]"])
      (use Inl d recv in \<open>simp add: handleRpcResponse_def rpc_reply_def ni_handleEvent_def ni_handleError_def
        ni_notifyReceived_def ni_call_def relay_error_roundtrip rpc_outcome_def\<close>)
next
  case (Inr x)
  obtain p n frs where x: "x = (p, n, frs)" by (cases x)
  let ?q = "RpcReceive p n (of_nat (length (concat frs)))"
  let ?b = "SocketBuffer_scattered (map Span frs)"
  have "length (sb_bytes ?b) \<le> 2 ^ 20" using assms(3) Inr x by simp
  then obtain pre where d: "deliver mcr ?q ?b = Some (ChInput ?q (pre @ concat frs))" "length (pre @ concat frs) < 2 ^ 64"
    using deliver_ok [OF law, where m = ?q and buf = ?b] by auto
  show ?thesis
    by (intro exI [of _ ?q] exI [of _ ?b] exI [of _ "[ChInput ?q (pre @ concat frs)]"])
      (use Inr x d(1) subspan_tail [OF d(2)] recv in \<open>simp add: handleRpcResponse_def rpc_reply_raw_def ni_handleEvent_def
        ni_handleReceive_def ni_notifyReceived_def ni_call_def rpc_outcome_def\<close>)
qed


lemma rpc_exec_spec:
  assumes law: "raw_codec_law mcq rpc_request_valid" "raw_codec_law mcr (\<lambda>_. True)"
    and "list_all rpc_op_ok ops" "ni_completion_error s = None"
    and "map_of (rs_id_to_fsm t) i = Some \<lparr>rf_client = Some h, rf_promise = p\<rparr>"
  shows "\<exists>s' t' t''. rpc_exec mcq mcr cy i ops (s, t) = Some (s', t') \<and>
    ni_calls s' = ni_calls s @ fst (rpc_spec cy h p ops (rs_net t)) \<and>
    rpc_handleEvent rec_ch cy i (ChCompleted e False) t' = Some t'' \<and> map_of (rs_id_to_fsm t'') i = None \<and>
    rs_net t'' = snd (rpc_spec cy h p ops (rs_net t))"
  using assms(3-)
proof (induction ops arbitrary: s t p)
  case (Cons op ops)
  show ?case
  proof (cases op)
    case (OpCall r bs t1 t2 result)
    let ?q = "RpcCall t1 t2 (of_nat (length bs))"
    let ?s1 = "s\<lparr>ni_channel := [(?q, SocketBuffer_of (Span bs))], ni_payload := NullSpan 0,
      ni_request_timeout_us := t1, ni_response_timeout_us := t2, ni_receiver := Some r\<rparr>"
    have s1: "ni_submit rec_send r (rawCall (Span bs) t1 t2 (s\<lparr>ni_channel := []\<rparr>)) = ?s1"
      using Cons.prems(2) by (simp add: ni_submit_def rawCall_def rec_send_def)
    have len: "length (sb_bytes (SocketBuffer_of (Span bs))) \<le> 2 ^ 20"
      and ok: "case result of Inl _ \<Rightarrow> True | Inr (p, n, response) \<Rightarrow> length (concat response) \<le> 2 ^ 20"
      using Cons.prems(1) OpCall by (simp_all add: rpc_op_ok_def)
    obtain pre where d: "deliver mcq ?q (SocketBuffer_of (Span bs)) = Some (ChInput ?q (pre @ bs))" "length (pre @ bs) < 2 ^ 64"
      using deliver_ok [OF law(1) _ len, where m = ?q] by (auto simp: rpc_request_valid_def)
    have recv: "ni_receiver ?s1 = Some r" by simp
    let ?n = "cyr_now cy (rs_net t)"
    let ?call = "cyr_request cy h (?n + t1) bs (?n + t2) (rs_net t)"
    show ?thesis
    proof (cases ?call)
      case (Pair out w1)
      show ?thesis
      proof (cases out)
        case (Inl f)
        let ?t = "t\<lparr>rs_net := w1\<rparr>"
        have okl: "case Inl f of Inl _ \<Rightarrow> True | Inr (p, n, response) \<Rightarrow> length (concat response) \<le> 2 ^ 20" by simp
        from rpc_answer [OF law(2) recv okl, of cy i ?t] obtain q b resp where
          a: "handleRpcResponse rec_ch cy i (Inl f) (?t\<lparr>rs_chan := []\<rparr>) = Some (?t\<lparr>rs_chan := [RcSend i q b]\<rparr>)"
            "deliver_responses mcr i [RcSend i q b] = Some resp"
            "feed_events ni_handleEvent resp ?s1 = Some (?s1\<lparr>ni_calls := ni_calls ?s1 @ [(r, rpc_outcome (Inl f))]\<rparr>)"
          by (elim exE conjE)
        have "rpc_handleEvent rec_ch cy i (ChInput ?q (pre @ bs)) (t\<lparr>rs_chan := []\<rparr>) =
            handleRpcResponse rec_ch cy i (Inl f) (?t\<lparr>rs_chan := []\<rparr>)"
          using Cons.prems(3) Pair Inl subspan_tail [OF d(2)]
          by (simp add: rpc_handleEvent_def rpc_handleCall_def handleRpcResponse_def rpc_reply_def)
        with a have t1: "rpc_handleEvent rec_ch cy i (ChInput ?q (pre @ bs)) (t\<lparr>rs_chan := []\<rparr>) =
            Some (?t\<lparr>rs_chan := [RcSend i q b]\<rparr>)" by simp
        let ?s2 = "?s1\<lparr>ni_calls := ni_calls s @ [(r, rpc_outcome (Inl f))]\<rparr>"
        have "rpc_exec mcq mcr cy i (op # ops) (s, t) = rpc_exec mcq mcr cy i ops (?s2, ?t\<lparr>rs_chan := [RcSend i q b]\<rparr>)"
          using OpCall s1 d(1) t1 a(2,3) by (simp del: deliver_responses.simps)
        with Cons.IH [of ?s2 "?t\<lparr>rs_chan := [RcSend i q b]\<rparr>" p] Cons.prems OpCall Pair Inl show ?thesis
          by (simp add: case_prod_beta)
      next
        case (Inr p')
        let ?t = "relay_set_fsm i \<lparr>rf_client = Some h, rf_promise = Some p'\<rparr> (t\<lparr>rs_net := cyr_reset cy p w1\<rparr>)"
        from rpc_answer [OF law(2) recv ok, of cy i ?t] obtain q b resp where
          a: "handleRpcResponse rec_ch cy i result (?t\<lparr>rs_chan := []\<rparr>) = Some (?t\<lparr>rs_chan := [RcSend i q b]\<rparr>)"
            "deliver_responses mcr i [RcSend i q b] = Some resp"
            "feed_events ni_handleEvent resp ?s1 = Some (?s1\<lparr>ni_calls := ni_calls ?s1 @ [(r, rpc_outcome result)]\<rparr>)"
          by (elim exE conjE)
        have t1: "rpc_handleEvent rec_ch cy i (ChInput ?q (pre @ bs)) (t\<lparr>rs_chan := []\<rparr>) = Some (?t\<lparr>rs_chan := []\<rparr>)"
          using Cons.prems(3) Pair Inr subspan_tail [OF d(2)]
          by (simp add: rpc_handleEvent_def rpc_handleCall_def relay_set_fsm_def)
        let ?s2 = "?s1\<lparr>ni_calls := ni_calls s @ [(r, rpc_outcome result)]\<rparr>"
        have "rpc_exec mcq mcr cy i (op # ops) (s, t) = rpc_exec mcq mcr cy i ops (?s2, ?t\<lparr>rs_chan := [RcSend i q b]\<rparr>)"
          using OpCall s1 d(1) t1 a by (simp del: deliver_responses.simps)
        with Cons.IH [of ?s2 "?t\<lparr>rs_chan := [RcSend i q b]\<rparr>" "Some p'"] Cons.prems OpCall Pair Inr show ?thesis
          by (simp add: case_prod_beta relay_set_fsm_def um_simps)
      qed
    qed
  next
    case (OpRpcPriority u)
    let ?q = "RpcConfig [u]"
    let ?s1 = "s\<lparr>ni_channel := [(?q, SocketBuffer_empty)]\<rparr>"
    have s1: "snd (ni_setPriority rec_send u (s\<lparr>ni_channel := []\<rparr>)) = ?s1"
      using Cons.prems(2) by (simp add: ni_setPriority_def rec_send_def)
    obtain pre where d: "deliver mcq ?q SocketBuffer_empty = Some (ChInput ?q (pre @ []))"
      using deliver_ok [OF law(1), where m = ?q and buf = SocketBuffer_empty] by (auto simp: rpc_request_valid_def)
    let ?t1 = "t\<lparr>rs_chan := [], rs_net := cyr_setPriority cy h u (rs_net t)\<rparr>"
    have t1: "rpc_handleEvent rec_ch cy i (ChInput ?q (pre @ [])) (t\<lparr>rs_chan := []\<rparr>) = Some ?t1"
      using Cons.prems(3) by (simp add: rpc_handleEvent_def rpc_handleConfig_def)
    have "rpc_exec mcq mcr cy i (op # ops) (s, t) = rpc_exec mcq mcr cy i ops (?s1, ?t1)"
      using OpRpcPriority s1 d t1 by simp
    with Cons.IH [of ?s1 ?t1 p] Cons.prems OpRpcPriority show ?thesis by simp
  qed
qed (simp add: rpc_handleEvent_def rpc_complete_def relay_releaseFsmBy_def cyr_reset_def um_simps)

text \<open>Open a channel for an RPC client.\<close>

definition rpc_open ::
    "rpc_request msg_codec \<Rightarrow> rpc_response msg_codec \<Rightarrow> 'w cy_relay \<Rightarrow> u16 \<Rightarrow> u16 \<Rightarrow> u64 \<Rightarrow>
     (rpc_fsm, rpc_response rc_act list, 'w) relay_service \<Rightarrow>
     ((sdk_error + ((rpc_request \<times> socket_buffer) list, 'r) rpc_impl) list \<times>
      (rpc_fsm, rpc_response rc_act list, 'w) relay_service) option" where
  "rpc_open mcq mcr cy service_id server_node_id extent_bytes t = do {
     c1 \<leftarrow> raw_rpc_client_handleEvent rec_send ChConnected (Daemon_makeRpcClient service_id server_node_id extent_bytes []);
     log \<leftarrow> rlc_channel c1;
     evs \<leftarrow> deliver_requests mcq log;
     t1 \<leftarrow> (case evs of [ChInput q _] \<Rightarrow> RawRpcClientServiceImpl rec_ch cy q (t\<lparr>rs_chan := []\<rparr>) | _ \<Rightarrow> None);
     resp \<leftarrow> deliver_responses mcr (rs_next_fsm_id t) (rs_chan t1);
     c2 \<leftarrow> feed_events (raw_rpc_client_handleEvent rec_send) resp c1;
     Some (rlc_received c2, t1)
   }"

lemma rpc_open_cases:
  assumes law: "raw_codec_law mcq rpc_request_valid" "raw_codec_law mcr (\<lambda>_. True)"
  shows "case cyr_makeClient cy server_node_id service_id extent_bytes (rs_net t) of
    (Inl f, w1) \<Rightarrow> \<exists>t1. rpc_open mcq mcr cy service_id server_node_id extent_bytes t =
        Some ([Inl (drop_zero_errno (cyErrorToSdkError f))], t1) \<and>
        map_of (rs_id_to_fsm t1) (rs_next_fsm_id t) = None \<and> rs_net t1 = w1
  | (Inr h, w1) \<Rightarrow> \<exists>impl t1. rpc_open mcq mcr cy service_id server_node_id extent_bytes t = Some ([Inr impl], t1) \<and>
        ni_completion_error impl = None \<and> ni_calls impl = [] \<and>
        map_of (rs_id_to_fsm t1) (rs_next_fsm_id t) = Some \<lparr>rf_client = Some h, rf_promise = None\<rparr> \<and> rs_net t1 = w1"
proof -
  let ?q = "RpcCreate extent_bytes service_id server_node_id"
  obtain pre where d: "deliver mcq ?q SocketBuffer_empty = Some (ChInput ?q (pre @ []))"
    using deliver_ok [OF law(1), where m = ?q and buf = SocketBuffer_empty] by (auto simp: rpc_request_valid_def)
  obtain pre' where d': "deliver mcr RpcRespEmpty SocketBuffer_empty = Some (ChInput RpcRespEmpty (pre' @ []))"
    using deliver_ok [OF law(2), where m = RpcRespEmpty and buf = SocketBuffer_empty] by auto
  note defs = rpc_open_def Daemon_makeRpcClient_def relay_client_handleConnected_def relay_client_handleInput_def
    relay_client_handleCompleted_def rlc_receive_def rec_send_def RawRpcClientServiceImpl_def rpc_start_def makeCySvcClient_def
    rpc_complete_def rpc_reply_def relay_releaseFsmBy_def relay_set_fsm_def cyr_reset_def NodeRpcClientImpl_make_def
    or_canceled_def um_simps Let_def
  show ?thesis
    using d d' by (auto simp: defs relay_error_roundtrip split: sum.split prod.split)
qed

end
