(* ===== verification/Relay_Sessions.thy ===== *)
theory Relay_Sessions
  imports Relay_Clients
begin

text \<open>
  Whole sessions of the relay: a client opens a channel, uses it and closes it. Each is
  compared with the same operations done directly on the Cyphal node.
\<close>

section \<open>Publishing\<close>

definition pub_session ::
    "publisher_request msg_codec \<Rightarrow> publisher_response msg_codec \<Rightarrow> 'w cy_relay \<Rightarrow> u16 \<Rightarrow> 'r pub_op list \<Rightarrow> opt_error \<Rightarrow>
     (pub_fsm, publisher_response rc_act list, 'w) relay_service \<Rightarrow>
     ((sdk_error + ('r \<times> opt_error) list) \<times> nat option option \<times> 'w) option" where
  "pub_session mcq mcr cy subject_id ops close t = do {
     let i = rs_next_fsm_id t;
     (received, t1) \<leftarrow> pub_open mcq mcr cy subject_id t;
     case received of
       [Inl e] \<Rightarrow> Some (Inl e, map_of (rs_id_to_fsm t1) i, rs_net t1)
     | [Inr impl] \<Rightarrow> do {
         (s, t2) \<leftarrow> pub_exec mcq mcr cy i ops (impl, t1);
         t3 \<leftarrow> pub_handleEvent rec_ch cy i (ChCompleted close False) t2;
         Some (Inr (pi_calls s), map_of (rs_id_to_fsm t3) i, rs_net t3)
       }
     | _ \<Rightarrow> None
   }"

definition pub_session_spec :: "'w cy_relay \<Rightarrow> u16 \<Rightarrow> 'r pub_op list \<Rightarrow> 'w \<Rightarrow> (sdk_error + ('r \<times> opt_error) list) \<times> 'w" where
  "pub_session_spec cy subject_id ops w =
     (case cyr_makePublisher cy subject_id w of
        (Inl f, w1) \<Rightarrow> (Inl (drop_zero_errno (cyErrorToSdkError f)), w1)
      | (Inr h, w1) \<Rightarrow> (let (calls, w2) = pub_spec cy h ops w1 in (Inr calls, cyr_drop cy h w2)))"

text \<open>
  C8. A publisher of the SDK refines a publisher of the Cyphal node. Opening the channel
  makes the publisher or reports why the node refused it; then every priority change and
  every publication reaches the node in order, the payload intact and with the deadline
  counted from the daemon's clock, and each receiver gets the outcome of its own
  publication; closing the channel drops the publisher and ends its state machine. The
  generated code must read back what it wrote; a payload is at most 1 MiB.
\<close>
theorem raw_publish_end_to_end:
  fixes t :: "(pub_fsm, publisher_response rc_act list, 'w) relay_service" and ops :: "'r pub_op list"
  assumes "raw_codec_law mcq pub_request_valid" "raw_codec_law mcr (\<lambda>_. True)" "list_all pub_op_ok ops"
  shows "pub_session mcq mcr cy subject_id ops close t =
    Some (let (out, w) = pub_session_spec cy subject_id ops (rs_net t) in (out, None, w))"
proof (cases "cyr_makePublisher cy subject_id (rs_net t)")
  case (Pair made w1)
  show ?thesis
  proof (cases made)
    case (Inl f)
    from pub_open_cases [OF assms(1,2), of cy subject_id t] Pair Inl obtain t1 where
      "pub_open mcq mcr cy subject_id t = Some ([Inl (drop_zero_errno (cyErrorToSdkError f)) :: _ + (_, 'r) publisher_impl], t1)"
      "map_of (rs_id_to_fsm t1) (rs_next_fsm_id t) = None" "rs_net t1 = w1" by auto
    with Pair Inl show ?thesis
      by (simp add: pub_session_def pub_session_spec_def Let_def)
  next
    case (Inr h)
    from pub_open_cases [OF assms(1,2), of cy subject_id t] Pair Inr
    obtain impl :: "(_, 'r) publisher_impl" and t1 where o: "pub_open mcq mcr cy subject_id t = Some ([Inr impl], t1)"
        "pi_completion_error impl = None" "pi_calls impl = []"
        "map_of (rs_id_to_fsm t1) (rs_next_fsm_id t) = Some (Some h)" "rs_net t1 = w1" by auto
    from pub_exec_spec [OF assms o(2,4), of cy] obtain s2 t2 where
      "pub_exec mcq mcr cy (rs_next_fsm_id t) ops (impl, t1) = Some (s2, t2)"
      "pi_calls s2 = fst (pub_spec cy h ops w1)" "rs_net t2 = snd (pub_spec cy h ops w1)"
      "rs_id_to_fsm t2 = rs_id_to_fsm t1" using o by auto
    with o Pair Inr show ?thesis
      by (simp add: pub_session_def pub_session_spec_def pub_handleEvent_def pub_complete_def relay_releaseFsmBy_def
          cyr_reset_def um_simps case_prod_beta Let_def)
  qed
qed

section \<open>Calling a service\<close>

definition rpc_session ::
    "rpc_request msg_codec \<Rightarrow> rpc_response msg_codec \<Rightarrow> 'w cy_relay \<Rightarrow> u16 \<Rightarrow> u16 \<Rightarrow> u64 \<Rightarrow> 'r rpc_op list \<Rightarrow> opt_error \<Rightarrow>
     (rpc_fsm, rpc_response rc_act list, 'w) relay_service \<Rightarrow>
     ((sdk_error + ('r \<times> raw_call) list) \<times> rpc_fsm option \<times> 'w) option" where
  "rpc_session mcq mcr cy service_id server_node_id extent_bytes ops close t = do {
     let i = rs_next_fsm_id t;
     (received, t1) \<leftarrow> rpc_open mcq mcr cy service_id server_node_id extent_bytes t;
     case received of
       [Inl e] \<Rightarrow> Some (Inl e, map_of (rs_id_to_fsm t1) i, rs_net t1)
     | [Inr impl] \<Rightarrow> do {
         (s, t2) \<leftarrow> rpc_exec mcq mcr cy i ops (impl, t1);
         t3 \<leftarrow> rpc_handleEvent rec_ch cy i (ChCompleted close False) t2;
         Some (Inr (ni_calls s), map_of (rs_id_to_fsm t3) i, rs_net t3)
       }
     | _ \<Rightarrow> None
   }"

definition rpc_session_spec ::
    "'w cy_relay \<Rightarrow> u16 \<Rightarrow> u16 \<Rightarrow> u64 \<Rightarrow> 'r rpc_op list \<Rightarrow> 'w \<Rightarrow> (sdk_error + ('r \<times> raw_call) list) \<times> 'w" where
  "rpc_session_spec cy service_id server_node_id extent_bytes ops w =
     (case cyr_makeClient cy server_node_id service_id extent_bytes w of
        (Inl f, w1) \<Rightarrow> (Inl (drop_zero_errno (cyErrorToSdkError f)), w1)
      | (Inr h, w1) \<Rightarrow> map_prod Inr (\<lambda>w2. w2) (rpc_spec cy h None ops w1))"

text \<open>
  C9. An RPC client of the SDK refines a service client of the Cyphal node: opening makes the
  client or reports the failure; each request reaches the node intact with both deadlines,
  a failure to send it and a failure of its response come back as errors, a response comes
  back byte for byte with its priority and node; the promise of a call is dropped when the
  next call replaces it, and closing the channel drops the last promise and the client.
\<close>
theorem raw_call_end_to_end:
  fixes t :: "(rpc_fsm, rpc_response rc_act list, 'w) relay_service" and ops :: "'r rpc_op list"
  assumes "raw_codec_law mcq rpc_request_valid" "raw_codec_law mcr (\<lambda>_. True)" "list_all rpc_op_ok ops"
  shows "rpc_session mcq mcr cy service_id server_node_id extent_bytes ops close t =
    Some (let (out, w) = rpc_session_spec cy service_id server_node_id extent_bytes ops (rs_net t) in (out, None, w))"
proof (cases "cyr_makeClient cy server_node_id service_id extent_bytes (rs_net t)")
  case (Pair made w1)
  show ?thesis
  proof (cases made)
    case (Inl f)
    from rpc_open_cases [OF assms(1,2), of cy service_id server_node_id extent_bytes t] Pair Inl obtain t1 where
      "rpc_open mcq mcr cy service_id server_node_id extent_bytes t = Some ([Inl (drop_zero_errno (cyErrorToSdkError f)) :: _ + (_, 'r) rpc_impl], t1)"
      "map_of (rs_id_to_fsm t1) (rs_next_fsm_id t) = None" "rs_net t1 = w1" by auto
    with Pair Inl show ?thesis
      by (simp add: rpc_session_def rpc_session_spec_def Let_def)
  next
    case (Inr h)
    from rpc_open_cases [OF assms(1,2), of cy service_id server_node_id extent_bytes t] Pair Inr
    obtain impl :: "(_, 'r) rpc_impl" and t1 where
      o: "rpc_open mcq mcr cy service_id server_node_id extent_bytes t = Some ([Inr impl], t1)"
        "ni_completion_error impl = None" "ni_calls impl = []"
        "map_of (rs_id_to_fsm t1) (rs_next_fsm_id t) = Some \<lparr>rf_client = Some h, rf_promise = None\<rparr>" "rs_net t1 = w1"
      by auto
    from rpc_exec_spec [OF assms o(2,4), of cy close] obtain s2 t2 t3 where
      "rpc_exec mcq mcr cy (rs_next_fsm_id t) ops (impl, t1) = Some (s2, t2)"
      "ni_calls s2 = fst (rpc_spec cy h None ops w1)"
      "rpc_handleEvent rec_ch cy (rs_next_fsm_id t) (ChCompleted close False) t2 = Some t3"
      "map_of (rs_id_to_fsm t3) (rs_next_fsm_id t) = None" "rs_net t3 = snd (rpc_spec cy h None ops w1)"
      using o by auto
    with o Pair Inr show ?thesis
      by (simp add: rpc_session_def rpc_session_spec_def map_prod_def case_prod_beta Let_def)
  qed
qed

section \<open>Subscribing\<close>

definition sub_open ::
    "subscriber_request msg_codec \<Rightarrow> subscriber_response msg_codec \<Rightarrow> 'w cy_relay \<Rightarrow> u16 \<Rightarrow> u64 \<Rightarrow>
     (sub_fsm, subscriber_response rc_act list, 'w) relay_service \<Rightarrow>
     ((sdk_error + ((subscriber_request \<times> socket_buffer) list, 'r) subscriber_impl) list \<times>
      (sub_fsm, subscriber_response rc_act list, 'w) relay_service) option" where
  "sub_open mcq mcr cy subject_id extent_bytes t = do {
     c1 \<leftarrow> raw_subscriber_client_handleEvent rec_send ChConnected (Daemon_makeSubscriber subject_id extent_bytes []);
     log \<leftarrow> rlc_channel c1;
     evs \<leftarrow> deliver_requests mcq log;
     t1 \<leftarrow> (case evs of [ChInput q _] \<Rightarrow> RawSubscriberServiceImpl rec_ch cy q (t\<lparr>rs_chan := []\<rparr>) | _ \<Rightarrow> None);
     resp \<leftarrow> deliver_responses mcr (rs_next_fsm_id t) (rs_chan t1);
     c2 \<leftarrow> feed_events (raw_subscriber_client_handleEvent rec_send) resp c1;
     Some (rlc_received c2, t1)
   }"

text \<open>What happens on a subscription: the SDK waits with a new receiver, or a message comes from the network.\<close>

datatype 'r sub_op = OpReceive 'r | OpMessage u8 "u16 option" "byte list list"

fun sub_exec ::
    "subscriber_response msg_codec \<Rightarrow> u64 \<Rightarrow> 'r sub_op list \<Rightarrow>
     ('c, 'r) subscriber_impl \<times> (sub_fsm, subscriber_response rc_act list, 'w) relay_service \<Rightarrow>
     (('c, 'r) subscriber_impl \<times> (sub_fsm, subscriber_response rc_act list, 'w) relay_service) option" where
  "sub_exec mcr i [] (s, t) = Some (s, t)"
| "sub_exec mcr i (OpReceive r # ops) (s, t) = sub_exec mcr i ops (si_submit r s, t)"
| "sub_exec mcr i (OpMessage priority node fragments # ops) (s, t) = do {
     let t1 = sub_handleNodeMessage rec_ch i priority node fragments (t\<lparr>rs_chan := []\<rparr>);
     resp \<leftarrow> deliver_responses mcr i (rs_chan t1);
     s1 \<leftarrow> feed_events si_handleEvent resp s;
     sub_exec mcr i ops (s1, t1)
   }"

text \<open>Every message goes to the last receiver; before the first one it is lost.\<close>

fun sub_spec :: "'r option \<Rightarrow> 'r sub_op list \<Rightarrow> ('r \<times> raw_receive) list" where
  "sub_spec rcv [] = []"
| "sub_spec rcv (OpReceive r # ops) = sub_spec (Some r) ops"
| "sub_spec rcv (OpMessage priority node fragments # ops) =
     (case rcv of None \<Rightarrow> [] | Some r \<Rightarrow> [(r, Inr (concat fragments, priority, node))]) @ sub_spec rcv ops"

definition sub_op_ok :: "'r sub_op \<Rightarrow> bool" where
  "sub_op_ok op = (case op of OpReceive r \<Rightarrow> True | OpMessage p n fragments \<Rightarrow> length (concat fragments) \<le> 2 ^ 20)"

lemma sub_exec_spec:
  fixes s :: "('c, 'r) subscriber_impl"
  assumes law: "raw_codec_law mcr sub_response_valid" and "list_all sub_op_ok ops" "si_completion_error s = None"
  shows "\<exists>s' t'. sub_exec mcr i ops (s, t) = Some (s', t') \<and> si_calls s' = si_calls s @ sub_spec (si_receiver s) ops \<and>
    rs_net t' = rs_net t \<and> rs_id_to_fsm t' = rs_id_to_fsm t"
  using assms(2-)
proof (induction ops arbitrary: s t)
  case (Cons op ops)
  show ?case
  proof (cases op)
    case (OpReceive r)
    have "si_submit r s = s\<lparr>si_receiver := Some r\<rparr>" using Cons.prems by (simp add: si_submit_def)
    with Cons.IH [of "s\<lparr>si_receiver := Some r\<rparr>" t] Cons.prems OpReceive show ?thesis by simp
  next
    case (OpMessage p n frs)
    let ?q = "SubReceive p (case n of None \<Rightarrow> [] | Some n \<Rightarrow> [n]) (of_nat (length (concat frs)))"
    let ?b = "SocketBuffer_scattered (map Span frs)"
    let ?t = "t\<lparr>rs_chan := [RcSend i ?q ?b]\<rparr>"
    let ?s = "s\<lparr>si_calls := si_calls s @ sub_spec (si_receiver s) [op]\<rparr>"
    have len: "length (sb_bytes ?b) \<le> 2 ^ 20" using Cons.prems OpMessage by (simp add: sub_op_ok_def)
    have "sub_response_valid ?q" by (cases n) (simp_all add: sub_response_valid_def)
    then obtain pre where d: "deliver mcr ?q ?b = Some (ChInput ?q (pre @ concat frs))" "length (pre @ concat frs) < 2 ^ 64"
      using deliver_ok [OF law _ len, where m = ?q] by auto
    have t1: "sub_handleNodeMessage rec_ch i p n frs (t\<lparr>rs_chan := []\<rparr>) = ?t"
      by (simp add: sub_handleNodeMessage_def)
    have s1: "si_handleEvent (ChInput ?q (pre @ concat frs)) s = Some ?s"
      using subspan_tail [OF d(2)] OpMessage
      by (cases n; cases "si_receiver s")
         (simp_all add: si_handleEvent_def si_handleInputEvent_def si_notifyReceived_def si_call_def)
    have "sub_exec mcr i (op # ops) (s, t) = sub_exec mcr i ops (?s, ?t)"
      using OpMessage t1 d(1) s1 by simp
    with Cons.IH [of ?s ?t] Cons.prems OpMessage show ?thesis by (cases "si_receiver s") simp_all
  qed
qed simp

lemma sub_open_cases:
  assumes law: "raw_codec_law mcq (\<lambda>_. True)" "raw_codec_law mcr sub_response_valid"
  shows "case cyr_makeSubscriber cy subject_id extent_bytes (rs_net t) of
    (Inl f, w1) \<Rightarrow> \<exists>t1. sub_open mcq mcr cy subject_id extent_bytes t =
        Some ([Inl (drop_zero_errno (cyErrorToSdkError f))], t1) \<and>
        map_of (rs_id_to_fsm t1) (rs_next_fsm_id t) = None \<and> rs_net t1 = w1
  | (Inr h, w1) \<Rightarrow> \<exists>impl t1. sub_open mcq mcr cy subject_id extent_bytes t = Some ([Inr impl], t1) \<and>
        si_completion_error impl = None \<and> si_calls impl = [] \<and> si_receiver impl = None \<and>
        map_of (rs_id_to_fsm t1) (rs_next_fsm_id t) = Some (Some h) \<and> rs_net t1 = w1"
proof -
  let ?q = "SubCreate extent_bytes subject_id"
  obtain pre where d: "deliver mcq ?q SocketBuffer_empty = Some (ChInput ?q (pre @ []))"
    using deliver_ok [OF law(1), where m = ?q and buf = SocketBuffer_empty] by auto
  obtain pre' where d': "deliver mcr SubRespEmpty SocketBuffer_empty = Some (ChInput SubRespEmpty (pre' @ []))"
    using deliver_ok [OF law(2), where m = SubRespEmpty and buf = SocketBuffer_empty] by (auto simp: sub_response_valid_def)
  note defs = sub_open_def Daemon_makeSubscriber_def relay_client_handleConnected_def relay_client_handleInput_def
    relay_client_handleCompleted_def rlc_receive_def rec_send_def RawSubscriberServiceImpl_def sub_start_def makeCySubscriber_def
    sub_complete_def relay_releaseFsmBy_def relay_set_fsm_def cyr_reset_def SubscriberImpl_make_def or_canceled_def um_simps Let_def
  show ?thesis
    using d d' by (auto simp: defs relay_error_roundtrip split: sum.split prod.split)
qed

definition sub_session ::
    "subscriber_request msg_codec \<Rightarrow> subscriber_response msg_codec \<Rightarrow> 'w cy_relay \<Rightarrow> u16 \<Rightarrow> u64 \<Rightarrow> 'r sub_op list \<Rightarrow>
     opt_error \<Rightarrow> (sub_fsm, subscriber_response rc_act list, 'w) relay_service \<Rightarrow>
     ((sdk_error + ('r \<times> raw_receive) list) \<times> nat option option \<times> 'w) option" where
  "sub_session mcq mcr cy subject_id extent_bytes ops close t = do {
     let i = rs_next_fsm_id t;
     (received, t1) \<leftarrow> sub_open mcq mcr cy subject_id extent_bytes t;
     case received of
       [Inl e] \<Rightarrow> Some (Inl e, map_of (rs_id_to_fsm t1) i, rs_net t1)
     | [Inr impl] \<Rightarrow> do {
         (s, t2) \<leftarrow> sub_exec mcr i ops (impl, t1);
         t3 \<leftarrow> sub_handleEvent rec_ch cy i (ChCompleted close False) t2;
         Some (Inr (si_calls s), map_of (rs_id_to_fsm t3) i, rs_net t3)
       }
     | _ \<Rightarrow> None
   }"

definition sub_session_spec ::
    "'w cy_relay \<Rightarrow> u16 \<Rightarrow> u64 \<Rightarrow> 'r sub_op list \<Rightarrow> 'w \<Rightarrow> (sdk_error + ('r \<times> raw_receive) list) \<times> 'w" where
  "sub_session_spec cy subject_id extent_bytes ops w =
     (case cyr_makeSubscriber cy subject_id extent_bytes w of
        (Inl f, w1) \<Rightarrow> (Inl (drop_zero_errno (cyErrorToSdkError f)), w1)
      | (Inr h, w1) \<Rightarrow> (Inr (sub_spec None ops), cyr_drop cy h w1))"

lemma sub_session_eq:
  fixes t :: "(sub_fsm, subscriber_response rc_act list, 'w) relay_service" and ops :: "'r sub_op list"
  assumes "raw_codec_law mcq (\<lambda>_. True)" "raw_codec_law mcr sub_response_valid" "list_all sub_op_ok ops"
  shows "sub_session mcq mcr cy subject_id extent_bytes ops close t =
    Some (let (out, w) = sub_session_spec cy subject_id extent_bytes ops (rs_net t) in (out, None, w))"
proof (cases "cyr_makeSubscriber cy subject_id extent_bytes (rs_net t)")
  case (Pair made w1)
  show ?thesis
  proof (cases made)
    case (Inl f)
    from sub_open_cases [OF assms(1,2), of cy subject_id extent_bytes t] Pair Inl obtain t1 where
      "sub_open mcq mcr cy subject_id extent_bytes t = Some ([Inl (drop_zero_errno (cyErrorToSdkError f)) :: _ + (_, 'r) subscriber_impl], t1)"
      "map_of (rs_id_to_fsm t1) (rs_next_fsm_id t) = None" "rs_net t1 = w1" by auto
    with Pair Inl show ?thesis
      by (simp add: sub_session_def sub_session_spec_def Let_def)
  next
    case (Inr h)
    from sub_open_cases [OF assms(1,2), of cy subject_id extent_bytes t] Pair Inr
    obtain impl :: "(_, 'r) subscriber_impl" and t1 where
      o: "sub_open mcq mcr cy subject_id extent_bytes t = Some ([Inr impl], t1)"
        "si_completion_error impl = None" "si_calls impl = []" "si_receiver impl = None"
        "map_of (rs_id_to_fsm t1) (rs_next_fsm_id t) = Some (Some h)" "rs_net t1 = w1" by auto
    from sub_exec_spec [OF assms(2,3) o(2), of "rs_next_fsm_id t" t1] obtain s2 t2 where
      "sub_exec mcr (rs_next_fsm_id t) ops (impl, t1) = Some (s2, t2)"
      "si_calls s2 = sub_spec None ops" "rs_net t2 = w1" "rs_id_to_fsm t2 = rs_id_to_fsm t1" using o by auto
    with o Pair Inr show ?thesis
      by (simp add: sub_session_def sub_session_spec_def sub_handleEvent_def sub_complete_def relay_releaseFsmBy_def
          cyr_reset_def um_simps Let_def)
  qed
qed

text \<open>
  C10. A subscriber of the SDK refines a subscriber of the Cyphal node: opening makes it or
  reports the failure; every message of the subject is given, its fragments joined and with
  its priority and publisher, to the receiver that waits last; closing the channel drops the
  subscriber and its state machine.
\<close>
theorem raw_subscribe_end_to_end:
  fixes t :: "(sub_fsm, subscriber_response rc_act list, 'w) relay_service" and ops :: "'r sub_op list"
  assumes "raw_codec_law mcq (\<lambda>_. True)" "raw_codec_law mcr sub_response_valid" "list_all sub_op_ok ops"
  shows "sub_session mcq mcr cy subject_id extent_bytes ops close t =
    Some (let (out, w) = sub_session_spec cy subject_id extent_bytes ops (rs_net t) in (out, None, w))"
  by (rule sub_session_eq [OF assms])

section \<open>Late calls of a receiver\<close>

text \<open>
  The receiver of an operation stays installed after its result: a publication or call
  that was answered is called a second time, with an error, when the channel completes.
\<close>
theorem answered_receiver_called_again:
  assumes "pi_completion_error s = None" "ni_completion_error u = None" "length pl' < 2 ^ 64"
  shows "pi_calls (fold pi_handleEvent [ChInput (PubError e) pl, ChCompleted err k] (pi_submit rec_send r s)) =
      pi_calls s @ [(r, dsdlErrorToOptError e), (r, Some (or_canceled err))] \<and>
    map_option ni_calls (feed_events ni_handleEvent [ChInput (RpcReceive p n 0) pl', ChCompleted err k] (ni_submit rec_send r' u)) =
      Some (ni_calls u @ [(r', Inr ([], p, n)), (r', Inl (or_canceled err))])"
  using assms
  by (simp add: pi_submit_def rec_send_def pi_handleEvent_def pi_notifyReceived_def pi_call_def Let_def
      ni_submit_def ni_handleEvent_def ni_handleReceive_def ni_notifyReceived_def ni_call_def subspan_def unat_of_nat)

text \<open>
  A publisher has one receiver and one payload: of two publications made ready before
  either is submitted, the second submission sends an empty payload and the first the
  payload of the second; and the results of both go to the receiver of the second.
\<close>
theorem overlapping_publications_mixed:
  assumes "pi_completion_error s = None" "pi_channel s = []"
  shows "let s2 = pi_submit rec_send r2 (pi_submit rec_send r1 (rawPublish (Span bs2) t2 (rawPublish (Span bs1) t1 s)));
             s4 = fold pi_handleEvent [ChInput (PubError e1) [], ChInput (PubError e2) []] s2
         in map (\<lambda>(q, b). (q, sb_bytes b)) (pi_channel s2) =
              [(PubPublish t2 (of_nat (length bs2)), bs2), (PubPublish t2 0, [])] \<and>
            pi_calls s4 = pi_calls s @ [(r2, dsdlErrorToOptError e1), (r2, dsdlErrorToOptError e2)]"
  using assms
  by (simp add: pi_submit_def rawPublish_def rec_send_def pi_handleEvent_def pi_notifyReceived_def pi_call_def Let_def)

section \<open>The relay messages on the wire\<close>

text \<open>
  Instances of the codec law: a tag byte and little-endian fields. (The delimiter headers of
  the DSDL types are left out; the law does not mention them.)
\<close>

fun pub_request_bytes :: "publisher_request \<Rightarrow> byte list" where
  "pub_request_bytes PubEmpty = [0]"
| "pub_request_bytes (PubCreate subject_id) = 1 # le_bytes 2 subject_id"
| "pub_request_bytes (PubConfig priority) = 2 # of_nat (length priority) # take 1 priority"
| "pub_request_bytes (PubPublish timeout_us sz) = 3 # le_bytes 8 timeout_us @ le_bytes 8 sz"

fun pub_request_of_bytes :: "byte list \<Rightarrow> publisher_request option" where
  "pub_request_of_bytes [] = None"
| "pub_request_of_bytes (g # bs) =
     (if g = 0 then Some PubEmpty
      else if g = 1 then Some (PubCreate (fld 0 2 bs))
      else if g = 2 then Some (PubConfig (take (unat (bs ! 0)) (drop 1 bs)))
      else Some (PubPublish (fld 0 8 bs) (fld 8 8 bs)))"

fun pub_response_bytes :: "publisher_response \<Rightarrow> byte list" where
  "pub_response_bytes PubRespEmpty = [0]"
| "pub_response_bytes (PubError e) = 1 # error_bytes e"

fun pub_response_of_bytes :: "byte list \<Rightarrow> publisher_response option" where
  "pub_response_of_bytes [] = None"
| "pub_response_of_bytes (g # bs) = Some (if g = 0 then PubRespEmpty else PubError (error_of_bytes bs))"

fun rpc_request_bytes :: "rpc_request \<Rightarrow> byte list" where
  "rpc_request_bytes RpcEmpty = [0]"
| "rpc_request_bytes (RpcCreate extent service_id node_id) = 1 # le_bytes 8 extent @ le_bytes 2 service_id @ le_bytes 2 node_id"
| "rpc_request_bytes (RpcConfig priority) = 2 # of_nat (length priority) # take 1 priority"
| "rpc_request_bytes (RpcCall rq_timeout rs_timeout sz) = 3 # le_bytes 8 rq_timeout @ le_bytes 8 rs_timeout @ le_bytes 8 sz"

fun rpc_request_of_bytes :: "byte list \<Rightarrow> rpc_request option" where
  "rpc_request_of_bytes [] = None"
| "rpc_request_of_bytes (g # bs) =
     (if g = 0 then Some RpcEmpty
      else if g = 1 then Some (RpcCreate (fld 0 8 bs) (fld 8 2 bs) (fld 10 2 bs))
      else if g = 2 then Some (RpcConfig (take (unat (bs ! 0)) (drop 1 bs)))
      else Some (RpcCall (fld 0 8 bs) (fld 8 8 bs) (fld 16 8 bs)))"

fun rpc_response_bytes :: "rpc_response \<Rightarrow> byte list" where
  "rpc_response_bytes RpcRespEmpty = [0]"
| "rpc_response_bytes (RpcReceive priority node_id sz) = 1 # priority # le_bytes 2 node_id @ le_bytes 8 sz"
| "rpc_response_bytes (RpcError e) = 2 # error_bytes e"

fun rpc_response_of_bytes :: "byte list \<Rightarrow> rpc_response option" where
  "rpc_response_of_bytes [] = None"
| "rpc_response_of_bytes (g # bs) =
     Some (if g = 0 then RpcRespEmpty
           else if g = 1 then RpcReceive (bs ! 0) (fld 0 2 (drop 1 bs)) (fld 2 8 (drop 1 bs))
           else RpcError (error_of_bytes bs))"

fun sub_request_bytes :: "subscriber_request \<Rightarrow> byte list" where
  "sub_request_bytes SubEmpty = [0]"
| "sub_request_bytes (SubCreate extent subject_id) = 1 # le_bytes 8 extent @ le_bytes 2 subject_id"

fun sub_request_of_bytes :: "byte list \<Rightarrow> subscriber_request option" where
  "sub_request_of_bytes [] = None"
| "sub_request_of_bytes (g # bs) = Some (if g = 0 then SubEmpty else SubCreate (fld 0 8 bs) (fld 8 2 bs))"

fun sub_response_bytes :: "subscriber_response \<Rightarrow> byte list" where
  "sub_response_bytes SubRespEmpty = [0]"
| "sub_response_bytes (SubReceive priority [] sz) = 1 # priority # le_bytes 8 sz"
| "sub_response_bytes (SubReceive priority (n # _) sz) = 2 # priority # le_bytes 2 n @ le_bytes 8 sz"

fun sub_response_of_bytes :: "byte list \<Rightarrow> subscriber_response option" where
  "sub_response_of_bytes [] = None"
| "sub_response_of_bytes (g # bs) =
     Some (if g = 0 then SubRespEmpty
           else if g = 1 then SubReceive (bs ! 0) [] (fld 0 8 (drop 1 bs))
           else SubReceive (bs ! 0) [fld 0 2 (drop 1 bs)] (fld 2 8 (drop 1 bs)))"

definition wire :: "('m \<Rightarrow> byte list) \<Rightarrow> (byte list \<Rightarrow> 'm option) \<Rightarrow> 'm msg_codec" where
  "wire ser des = \<lparr>msg_serialize = (\<lambda>m. Some (ser m)), msg_deserialize = des\<rparr>"

lemma wire_law:
  assumes "\<And>m tl. valid m \<Longrightarrow> length (ser m) \<le> 2 ^ 16 \<and> des (ser m @ tl) = Some m"
  shows "raw_codec_law (wire ser des) valid"
  using assms by (simp add: raw_codec_law_def wire_def)

lemma fld_first: "LENGTH('a::len) = 8 * n \<Longrightarrow> fld 0 n (le_bytes n (w :: 'a word) @ rest) = w"
  using fld_append [of 0 "[]" n w rest] by simp

lemma fld_later: "n \<le> i \<Longrightarrow> fld i m (le_bytes n w @ rest) = fld (i - n) m rest"
  by (simp add: fld_def)

lemmas fld_simps = fld_first fld_later

lemma error_bytes_length [simp]: "length (error_bytes e) = 12"
  by (simp add: error_bytes_def)

lemma pub_wire_law:
  "raw_codec_law (wire pub_request_bytes pub_request_of_bytes) pub_request_valid"
  "raw_codec_law (wire pub_response_bytes pub_response_of_bytes) (\<lambda>_. True)"
proof (rule_tac [!] wire_law)
  fix m tl assume v: "pub_request_valid m"
  show "length (pub_request_bytes m) \<le> 2 ^ 16 \<and> pub_request_of_bytes (pub_request_bytes m @ tl) = Some m"
  proof (cases m)
    case (PubConfig ps)
    with v show ?thesis by (cases ps) (simp_all add: pub_request_valid_def)
  qed (simp_all add: fld_simps)
next
  fix m tl
  show "length (pub_response_bytes m) \<le> 2 ^ 16 \<and> pub_response_of_bytes (pub_response_bytes m @ tl) = Some m"
    by (cases m) simp_all
qed

lemma rpc_wire_law:
  "raw_codec_law (wire rpc_request_bytes rpc_request_of_bytes) rpc_request_valid"
  "raw_codec_law (wire rpc_response_bytes rpc_response_of_bytes) (\<lambda>_. True)"
proof (rule_tac [!] wire_law)
  fix m tl assume v: "rpc_request_valid m"
  show "length (rpc_request_bytes m) \<le> 2 ^ 16 \<and> rpc_request_of_bytes (rpc_request_bytes m @ tl) = Some m"
  proof (cases m)
    case (RpcConfig ps)
    with v show ?thesis by (cases ps) (simp_all add: rpc_request_valid_def)
  qed (simp_all add: fld_simps)
next
  fix m tl
  show "length (rpc_response_bytes m) \<le> 2 ^ 16 \<and> rpc_response_of_bytes (rpc_response_bytes m @ tl) = Some m"
    by (cases m) (simp_all add: fld_simps)
qed

lemma sub_wire_law:
  "raw_codec_law (wire sub_request_bytes sub_request_of_bytes) (\<lambda>_. True)"
  "raw_codec_law (wire sub_response_bytes sub_response_of_bytes) sub_response_valid"
proof (rule_tac [!] wire_law)
  fix m tl
  show "length (sub_request_bytes m) \<le> 2 ^ 16 \<and> sub_request_of_bytes (sub_request_bytes m @ tl) = Some m"
    by (cases m) (simp_all add: fld_simps)
next
  fix m tl assume v: "sub_response_valid m"
  show "length (sub_response_bytes m) \<le> 2 ^ 16 \<and> sub_response_of_bytes (sub_response_bytes m @ tl) = Some m"
  proof (cases m)
    case (SubReceive p ns sz)
    with v show ?thesis by (cases ns) (simp_all add: sub_response_valid_def fld_simps)
  qed simp
qed

text \<open>A network that logs what it is asked; it refuses the port 0 and an empty payload.\<close>

datatype net_log = NlPort u16 | NlSend "byte list" u64 | NlPriority u8 | NlDrop nat

definition log_net :: "net_log list cy_relay" where
  "log_net =
     \<lparr>cyr_makeSubscriber = (\<lambda>i ext w. if i = 0 then (Inl ArgumentError, w) else (Inr 7, w @ [NlPort i])),
      cyr_makePublisher = (\<lambda>i w. if i = 0 then (Inl ArgumentError, w) else (Inr 7, w @ [NlPort i])),
      cyr_makeClient = (\<lambda>n i ext w. if i = 0 then (Inl ArgumentError, w) else (Inr 7, w @ [NlPort i])),
      cyr_setPriority = (\<lambda>h p w. w @ [NlPriority p]),
      cyr_publish = (\<lambda>h d bs w. if bs = [] then (Some CapacityError, w) else (None, w @ [NlSend bs d])),
      cyr_request = (\<lambda>h d bs d' w. if bs = [] then (Inl CapacityError, w) else (Inr (length bs), w @ [NlSend bs d'])),
      cyr_drop = (\<lambda>h w. w @ [NlDrop h]),
      cyr_now = (\<lambda>w. 100)\<rparr>"

lemma log_net_simps [simp]:
  "cyr_makeSubscriber log_net i ext w = (if i = 0 then (Inl ArgumentError, w) else (Inr 7, w @ [NlPort i]))"
  "cyr_makePublisher log_net i w = (if i = 0 then (Inl ArgumentError, w) else (Inr 7, w @ [NlPort i]))"
  "cyr_makeClient log_net n i ext w = (if i = 0 then (Inl ArgumentError, w) else (Inr 7, w @ [NlPort i]))"
  "cyr_setPriority log_net h p w = w @ [NlPriority p]"
  "cyr_publish log_net h d bs w = (if bs = [] then (Some CapacityError, w) else (None, w @ [NlSend bs d]))"
  "cyr_request log_net h d bs d' w = (if bs = [] then (Inl CapacityError, w) else (Inr (length bs), w @ [NlSend bs d']))"
  "cyr_drop log_net h w = w @ [NlDrop h]"
  "cyr_now log_net w = 100"
  by (simp_all add: log_net_def)

definition relay_idle :: "('f, 'q rc_act list, net_log list) relay_service" where
  "relay_idle = \<lparr>rs_next_fsm_id = 0, rs_id_to_fsm = [], rs_chan = [], rs_net = []\<rparr>"

theorem raw_publish_end_to_end_witness:
  "pub_session (wire pub_request_bytes pub_request_of_bytes) (wire pub_response_bytes pub_response_of_bytes) log_net 42
     [OpPublish ''a'' [1, 2] 10, OpPriority 3, OpPublish ''b'' [] 0] None relay_idle =
   Some (Inr [(''a'', None), (''b'', Some (mkError OutOfMemory))], None,
     [NlPort 42, NlSend [1, 2] 110, NlPriority 3, NlDrop 7])"
  using raw_publish_end_to_end [OF pub_wire_law, where cy = log_net and subject_id = 42 and close = None and t = relay_idle
      and ops = "[OpPublish ''a'' [1, 2] 10, OpPriority 3, OpPublish ''b'' [] 0]"]
  by (simp add: pub_session_spec_def pub_op_ok_def relay_idle_def drop_zero_errno_def mkError_def)

theorem raw_call_end_to_end_witness:
  "rpc_session (wire rpc_request_bytes rpc_request_of_bytes) (wire rpc_response_bytes rpc_response_of_bytes) log_net 42 5 64
     [OpCall ''a'' [1, 2] 10 20 (Inr (4, 5, [[8], [9]])), OpRpcPriority 3, OpCall ''b'' [6] 0 0 (Inl ResponsePromiseExpired),
      OpCall ''c'' [] 0 0 (Inl MemoryError)] None relay_idle =
   Some (Inr [(''a'', Inr ([8, 9], 4, 5)), (''b'', Inl (mkError TimedOut)), (''c'', Inl (mkError OutOfMemory))], None,
     [NlPort 42, NlSend [1, 2] 120, NlPriority 3, NlSend [6] 100, NlDrop 2, NlDrop 1, NlDrop 7])"
  using raw_call_end_to_end [OF rpc_wire_law, where cy = log_net and service_id = 42 and server_node_id = 5
      and extent_bytes = 64 and close = None and t = relay_idle
      and ops = "[OpCall ''a'' [1, 2] 10 20 (Inr (4, 5, [[8], [9]])), OpRpcPriority 3,
        OpCall ''b'' [6] 0 0 (Inl ResponsePromiseExpired), OpCall ''c'' [] 0 0 (Inl MemoryError)]"]
  by (simp add: rpc_session_spec_def rpc_op_ok_def relay_idle_def drop_zero_errno_def mkError_def rpc_outcome_def
      cyr_reset_def)

theorem raw_subscribe_end_to_end_witness:
  "sub_session (wire sub_request_bytes sub_request_of_bytes) (wire sub_response_bytes sub_response_of_bytes) log_net 42 64
     [OpMessage 1 None [[1]], OpReceive ''a'', OpMessage 2 (Some 5) [[1, 2], [3]]] None relay_idle =
   Some (Inr [(''a'', Inr ([1, 2, 3], 2, Some 5))], None, [NlPort 42, NlDrop 7])"
  using raw_subscribe_end_to_end [OF sub_wire_law, where cy = log_net and subject_id = 42 and extent_bytes = 64
      and close = None and t = relay_idle and ops = "[OpMessage 1 None [[1]], OpReceive ''a'', OpMessage 2 (Some 5) [[1, 2], [3]]]"]
  by (simp add: sub_session_spec_def sub_op_ok_def relay_idle_def)

theorem answered_receiver_called_again_witness:
  "pi_calls (fold pi_handleEvent [ChInput (PubError (optErrorToDsdlError None)) [], ChCompleted None False]
     (pi_submit rec_send ''a'' (PublisherImpl_make []))) = [(''a'', None), (''a'', Some (mkError Canceled))]"
  using answered_receiver_called_again [of "PublisherImpl_make [] :: (_, string) publisher_impl"
      "NodeRpcClientImpl_make [] :: (_, string) rpc_impl" "[]" "optErrorToDsdlError None" "[]" None False "''a''" 0 0 "''b''"]
  by (simp add: PublisherImpl_make_def NodeRpcClientImpl_make_def relay_error_roundtrip or_canceled_def)

theorem overlapping_publications_mixed_witness:
  "pi_calls (fold pi_handleEvent [ChInput (PubError (optErrorToDsdlError None)) [], ChInput (PubError (optErrorToDsdlError None)) []]
     (pi_submit rec_send ''b'' (pi_submit rec_send ''a'' (rawPublish (Span [2]) 0 (rawPublish (Span [1]) 0 (PublisherImpl_make [])))))) =
   [(''b'', None), (''b'', None)]"
  using overlapping_publications_mixed [of "PublisherImpl_make [] :: (_, string) publisher_impl"
      "''b''" "''a''" "[2]" 0 "[1]" 0 "optErrorToDsdlError None" "optErrorToDsdlError None"]
  by (simp add: PublisherImpl_make_def relay_error_roundtrip Let_def)

end
