(* ===== verification/Node_Fsm.thy ===== *)
theory Node_Fsm
  imports Service_Channel
begin

text \<open>
  The part that the three node services (\<^verbatim>\<open>exec_cmd_service.cpp\<close>, \<^verbatim>\<open>list_registers_service.cpp\<close>,
  \<^verbatim>\<open>access_registers_service.cpp\<close>) have in common, word for word: a service with its state
  machines by id, each with the flag \<open>processing_\<close> and the contexts of the nodes it still
  works on, the release of a node and the completion of the channel. \<open>'c\<close> is the context
  of a node, \<open>'x\<close> the registers of the access service, \<open>'r\<close> the response type and \<open>'w\<close> the
  state of the network.

  \<open>None\<close> is undefined behaviour: a member of a state machine used after the state machine
  has been released.
\<close>

section \<open>State\<close>

record ('c, 'x) node_fsm =
  fsm_processing :: bool
  fsm_node_id_to_cnxt :: "(u16, 'c) umap"
  fsm_registers :: 'x

record ('c, 'x, 'r, 'w) node_service =
  svc_next_fsm_id :: u64
  svc_id_to_fsm :: "(u64, ('c, 'x) node_fsm) umap"
  svc_net :: 'w
  svc_out :: "'r ch_action list"

definition fsm_of :: "u64 \<Rightarrow> ('c, 'x, 'r, 'w) node_service \<Rightarrow> ('c, 'x) node_fsm option" where
  "fsm_of i s = map_of (svc_id_to_fsm s) i"

definition set_fsm :: "u64 \<Rightarrow> ('c, 'x) node_fsm \<Rightarrow> ('c, 'x, 'r, 'w) node_service \<Rightarrow> ('c, 'x, 'r, 'w) node_service" where
  "set_fsm i f s = s\<lparr>svc_id_to_fsm := um_assign i f (svc_id_to_fsm s)\<rparr>"

definition fsm_emit :: "'r ch_action list \<Rightarrow> ('c, 'x, 'r, 'w) node_service \<Rightarrow> ('c, 'x, 'r, 'w) node_service" where
  "fsm_emit acts s = s\<lparr>svc_out := svc_out s @ acts\<rparr>"

section \<open>Operations\<close>

definition releaseFsmBy :: "u64 \<Rightarrow> ('c, 'x, 'r, 'w) node_service \<Rightarrow> ('c, 'x, 'r, 'w) node_service" where
  "releaseFsmBy i s = fsm_emit [ChRelease i] (s\<lparr>svc_id_to_fsm := um_erase i (svc_id_to_fsm s)\<rparr>)"

definition fsm_complete :: "u64 \<Rightarrow> opt_error \<Rightarrow> ('c, 'x, 'r, 'w) node_service \<Rightarrow> ('c, 'x, 'r, 'w) node_service option" where
  "fsm_complete i completion_opt_error s = do {
     f \<leftarrow> fsm_of i s;
     let s1 = set_fsm i (f\<lparr>fsm_node_id_to_cnxt := []\<rparr>) s;
     Some (releaseFsmBy i (fsm_emit [ChComplete i completion_opt_error False] s1))
   }"

definition fsm_releaseNodeContext :: "u64 \<Rightarrow> u16 \<Rightarrow> ('c, 'x, 'r, 'w) node_service \<Rightarrow> ('c, 'x, 'r, 'w) node_service option" where
  "fsm_releaseNodeContext i node_id s = do {
     f \<leftarrow> fsm_of i s;
     let cnxt = um_erase node_id (fsm_node_id_to_cnxt f);
     let s1 = set_fsm i (f\<lparr>fsm_node_id_to_cnxt := cnxt\<rparr>) s;
     if cnxt = [] then fsm_complete i None s1 else Some s1
   }"

text \<open>The channel's \<open>send\<close>, whose error is only logged.\<close>

definition fsm_send :: "u64 \<Rightarrow> 'r \<Rightarrow> ('c, 'x, 'r, 'w) node_service \<Rightarrow> ('c, 'x, 'r, 'w) node_service option" where
  "fsm_send i r s = do { f \<leftarrow> fsm_of i s; Some (fsm_emit [ChSend i r] s) }"

section \<open>Sessions\<close>

text \<open>
  \<open>fsm_open i K s\<close>: the state machine \<open>i\<close> is processing and still owes a response to the
  nodes \<open>K\<close>, of which there is at least one.
\<close>

definition fsm_open :: "u64 \<Rightarrow> u16 set \<Rightarrow> ('c, 'x, 'r, 'w) node_service \<Rightarrow> bool" where
  "fsm_open i K s \<longleftrightarrow>
     (\<exists>f. fsm_of i s = Some f \<and> fsm_processing f \<and> um_wf (fsm_node_id_to_cnxt f)
          \<and> set (um_keys (fsm_node_id_to_cnxt f)) = K \<and> K \<noteq> {})"

lemma fsm_of_simps [simp]:
  "fsm_of i (set_fsm j f s) = (if i = j then Some f else fsm_of i s)"
  "fsm_of i (fsm_emit acts s) = fsm_of i s"
  "fsm_of i (s\<lparr>svc_net := w\<rparr>) = fsm_of i s"
  "fsm_of i (s\<lparr>svc_next_fsm_id := n\<rparr>) = fsm_of i s"
  "fsm_of i (releaseFsmBy j s) = (if i = j then None else fsm_of i s)"
  by (auto simp: fsm_of_def set_fsm_def fsm_emit_def releaseFsmBy_def um_simps)

lemma svc_out_simps [simp]:
  "svc_out (set_fsm j f s) = svc_out s" "svc_out (fsm_emit acts s) = svc_out s @ acts"
  "svc_out (releaseFsmBy j s) = svc_out s @ [ChRelease j]"
  by (simp_all add: set_fsm_def fsm_emit_def releaseFsmBy_def)

text \<open>What one answered node does: the end of the session with the last one.\<close>

definition fsm_closing :: "u64 \<Rightarrow> 'r ch_action list" where
  "fsm_closing i = [ChComplete i None False, ChRelease i]"

lemma fsm_releaseNodeContext_open:
  assumes "fsm_open i K s" "n \<in> K"
  shows "\<exists>s'. fsm_releaseNodeContext i n s = Some s'
    \<and> (if K = {n} then fsm_of i s' = None \<and> svc_out s' = svc_out s @ fsm_closing i
       else fsm_open i (K - {n}) s' \<and> svc_out s' = svc_out s)
    \<and> (\<forall>j. j \<noteq> i \<longrightarrow> fsm_of j s' = fsm_of j s)"
proof -
  from assms(1) obtain f where f: "fsm_of i s = Some f" "fsm_processing f" "um_wf (fsm_node_id_to_cnxt f)"
    "set (um_keys (fsm_node_id_to_cnxt f)) = K" by (auto simp: fsm_open_def)
  let ?m = "um_erase n (fsm_node_id_to_cnxt f)"
  have empty: "?m = [] \<longleftrightarrow> K = {n}" using f(4) assms(2) by (auto simp: um_erase_eq_nil_iff)
  show ?thesis
  proof (cases "K = {n}")
    case True
    with f empty show ?thesis
      by (simp add: fsm_releaseNodeContext_def fsm_complete_def fsm_closing_def)
  next
    case False
    with assms(2) have "K - {n} \<noteq> {}" by auto
    with False f empty show ?thesis
      by (simp add: fsm_releaseNodeContext_def fsm_open_def um_simps)
  qed
qed

text \<open>A change of the network or of one node's context keeps the session.\<close>

lemma fsm_open_net [simp]: "fsm_open i K (s\<lparr>svc_net := w\<rparr>) = fsm_open i K s"
  by (simp add: fsm_open_def)

lemma fsm_open_cnxt:
  assumes "fsm_open i K s" "fsm_of i s = Some f" "n \<in> K"
  shows "fsm_open i K (set_fsm i (f\<lparr>fsm_node_id_to_cnxt := um_assign n c (fsm_node_id_to_cnxt f)\<rparr>) s)"
  using assms by (auto simp: fsm_open_def um_simps)

lemma fsm_open_nonempty: "fsm_open i K s \<Longrightarrow> K \<noteq> {}"
  by (auto simp: fsm_open_def)


text \<open>The nodes whose answers a state machine still waits for.\<close>

definition fsm_pending :: "u64 \<Rightarrow> ('c, 'x, 'r, 'w) node_service \<Rightarrow> u16 list" where
  "fsm_pending i s = (case fsm_of i s of None \<Rightarrow> [] | Some f \<Rightarrow> um_keys (fsm_node_id_to_cnxt f))"


end
