(* ===== verification/Exec_Cmd_Service.thy ===== *)
theory Exec_Cmd_Service
  imports Node_Fsm
begin

text \<open>
  \<^verbatim>\<open>src/daemon/engine/svc/node/exec_cmd_service.cpp\<close>: the service that runs a command on a set
  of Cyphal nodes. Every IPC channel has a state machine (\<open>Fsm\<close>) that collects the node ids
  of the requests, then, on the client's keep-alive completion, makes an RPC client per
  node and sends one response per node as the promises are fulfilled; the last one
  completes the channel and releases the state machine.
\<close>

section \<open>State\<close>

record exec_req_payload =
  exec_command :: u16
  exec_parameter :: "byte list"

record exec_request =
  exq_timeout_us :: u64
  exq_node_ids :: "u16 list"
  exq_payload :: exec_req_payload

record exec_res_payload =
  exec_status :: u8
  exec_output :: "byte list"

record exec_response =
  exr_error :: dsdl_error
  exr_node_id :: u16
  exr_payload :: exec_res_payload

record exec_node_context =
  exn_timeout :: u64
  exn_payload :: exec_req_payload
  exn_client :: bool
  exn_promise :: bool

type_synonym exec_fsm = "(exec_node_context, unit) node_fsm"
type_synonym 'w exec_service = "(exec_node_context, unit, exec_response, 'w) node_service"
type_synonym 'w exec_net = "(exec_req_payload, 'w) cy_net"

definition exec_init :: "'w \<Rightarrow> 'w exec_service" where
  "exec_init w = \<lparr>svc_next_fsm_id = 0, svc_id_to_fsm = [], svc_net = w, svc_out = []\<rparr>"

section \<open>Operations\<close>

text \<open>A response with no payload yet.\<close>

definition exec_no_payload :: exec_res_payload where
  "exec_no_payload = \<lparr>exec_status = 0, exec_output = []\<rparr>"

definition exec_sendResponse ::
    "u64 \<Rightarrow> u16 \<Rightarrow> exec_res_payload \<Rightarrow> opt_error \<Rightarrow> 'w exec_service \<Rightarrow> 'w exec_service option" where
  "exec_sendResponse i node_id payload opt_error s =
     fsm_send i \<lparr>exr_error = optErrorToDsdlError opt_error, exr_node_id = node_id, exr_payload = payload\<rparr> s"

definition exec_startCyExecCmdRpcCallFor ::
    "'w exec_net \<Rightarrow> u64 \<Rightarrow> u16 \<Rightarrow> exec_node_context \<Rightarrow> 'w exec_service \<Rightarrow> 'w exec_service option" where
  "exec_startCyExecCmdRpcCallFor net i node_id node_cnxt s =
     (if \<not> exn_client node_cnxt then fsm_releaseNodeContext i node_id s
      else
        let deadline = cy_now net (svc_net s) + exn_timeout node_cnxt;
            (failure, w) = cy_request net node_id deadline (exn_payload node_cnxt) (svc_net s);
            s1 = s\<lparr>svc_net := w\<rparr>
        in case failure of
             Some cy_failure \<Rightarrow> do {
               s2 \<leftarrow> exec_sendResponse i node_id exec_no_payload (cyFailureToOptError cy_failure) s1;
               fsm_releaseNodeContext i node_id s2
             }
           | None \<Rightarrow> do {
               f \<leftarrow> fsm_of i s1;
               Some (set_fsm i (f\<lparr>fsm_node_id_to_cnxt :=
                  um_assign node_id (node_cnxt\<lparr>exn_promise := True\<rparr>) (fsm_node_id_to_cnxt f)\<rparr>) s1)
             })"

definition exec_makeCyRpcClient :: "'w exec_net \<Rightarrow> u64 \<Rightarrow> u16 \<Rightarrow> 'w exec_service \<Rightarrow> 'w exec_service option" where
  "exec_makeCyRpcClient net i node_id s = do {
     f \<leftarrow> fsm_of i s;
     case map_of (fsm_node_id_to_cnxt f) node_id of
       None \<Rightarrow> Some s
     | Some node_cnxt \<Rightarrow>
         let (failure, w) = cy_makeClient net node_id (svc_net s);
             s1 = s\<lparr>svc_net := w\<rparr>
         in case failure of
              Some cy_failure \<Rightarrow> do {
                s2 \<leftarrow> exec_sendResponse i node_id exec_no_payload (cyFailureToOptError cy_failure) s1;
                fsm_releaseNodeContext i node_id s2
              }
            | None \<Rightarrow>
                let node_cnxt' = node_cnxt\<lparr>exn_client := True\<rparr>;
                    s2 = set_fsm i (f\<lparr>fsm_node_id_to_cnxt :=
                           um_assign node_id node_cnxt' (fsm_node_id_to_cnxt f)\<rparr>) s1
                in exec_startCyExecCmdRpcCallFor net i node_id node_cnxt' s2
   }"

fun exec_makeCyRpcClients :: "'w exec_net \<Rightarrow> u64 \<Rightarrow> u16 list \<Rightarrow> 'w exec_service \<Rightarrow> 'w exec_service option" where
  "exec_makeCyRpcClients net i [] s = Some s"
| "exec_makeCyRpcClients net i (node_id # node_ids) s =
     do { s' \<leftarrow> exec_makeCyRpcClient net i node_id s; exec_makeCyRpcClients net i node_ids s' }"

definition exec_handleInput :: "u64 \<Rightarrow> exec_request \<Rightarrow> 'w exec_service \<Rightarrow> 'w exec_service option" where
  "exec_handleInput i input s = do {
     f \<leftarrow> fsm_of i s;
     if fsm_processing f then Some s
     else
       let cnxt = \<lparr>exn_timeout = exq_timeout_us input, exn_payload = exq_payload input,
                   exn_client = False, exn_promise = False\<rparr>
       in Some (set_fsm i (f\<lparr>fsm_node_id_to_cnxt :=
                  um_emplace_all (exq_node_ids input) cnxt (fsm_node_id_to_cnxt f)\<rparr>) s)
   }"

definition exec_handleCompleted ::
    "'w exec_net \<Rightarrow> u64 \<Rightarrow> bool \<Rightarrow> 'w exec_service \<Rightarrow> 'w exec_service option" where
  "exec_handleCompleted net i keep_alive s =
     (if \<not> keep_alive then fsm_complete i (Some (mkError Canceled)) s
      else do {
        f \<leftarrow> fsm_of i s;
        if fsm_processing f then Some s
        else
          let s1 = set_fsm i (f\<lparr>fsm_processing := True\<rparr>) s
          in if fsm_node_id_to_cnxt f = [] then fsm_complete i None s1
             else exec_makeCyRpcClients net i (cy_order net (um_keys (fsm_node_id_to_cnxt f))) s1
      })"

datatype exec_promise_result = ExecSuccess u8 "byte list" | ExecFailure cy_failure

definition exec_handleNodeResponse ::
    "u64 \<Rightarrow> u16 \<Rightarrow> exec_promise_result \<Rightarrow> 'w exec_service \<Rightarrow> 'w exec_service option" where
  "exec_handleNodeResponse i node_id result s = do {
     let (payload, opt_error) = (case result of
           ExecSuccess status output \<Rightarrow> (\<lparr>exec_status = status, exec_output = output\<rparr>, None)
         | ExecFailure cy_failure \<Rightarrow> (exec_no_payload, cyFailureToOptError cy_failure));
     s1 \<leftarrow> exec_sendResponse i node_id payload opt_error s;
     fsm_releaseNodeContext i node_id s1
   }"

text \<open>A new channel: the state machine is made, registered and given the first request.\<close>

definition exec_new_channel :: "exec_request \<Rightarrow> 'w exec_service \<Rightarrow> (u64 \<times> 'w exec_service) option" where
  "exec_new_channel request s = do {
     let fsm_id = svc_next_fsm_id s;
     let s1 = set_fsm fsm_id \<lparr>fsm_processing = False, fsm_node_id_to_cnxt = [], fsm_registers = ()\<rparr>
                (s\<lparr>svc_next_fsm_id := fsm_id + 1\<rparr>);
     s2 \<leftarrow> exec_handleInput fsm_id request s1;
     Some (fsm_id, s2)
   }"

text \<open>The events of a channel.\<close>

datatype exec_event = ExecConnected | ExecInput exec_request | ExecCompleted bool

fun exec_handleEvent :: "'w exec_net \<Rightarrow> u64 \<Rightarrow> exec_event \<Rightarrow> 'w exec_service \<Rightarrow> 'w exec_service option" where
  "exec_handleEvent net i ExecConnected s = Some s"
| "exec_handleEvent net i (ExecInput input) s = exec_handleInput i input s"
| "exec_handleEvent net i (ExecCompleted keep_alive) s = exec_handleCompleted net i keep_alive s"

section \<open>Sessions\<close>

text \<open>The same for a response followed by the release of its node.\<close>

lemma exec_answer_open:
  assumes "fsm_open i K s" "n \<in> K"
  shows "\<exists>s'. (exec_sendResponse i n p err s \<bind> fsm_releaseNodeContext i n) = Some s'
    \<and> (if K = {n} then fsm_of i s' = None else fsm_open i (K - {n}) s')
    \<and> svc_out s' = svc_out s @
        ChSend i \<lparr>exr_error = optErrorToDsdlError err, exr_node_id = n, exr_payload = p\<rparr> #
        (if K = {n} then fsm_closing i else [])
    \<and> (\<forall>j. j \<noteq> i \<longrightarrow> fsm_of j s' = fsm_of j s)"
proof -
  let ?r = "\<lparr>exr_error = optErrorToDsdlError err, exr_node_id = n, exr_payload = p\<rparr>"
  let ?s = "fsm_emit [ChSend i ?r] s"
  have send: "exec_sendResponse i n p err s = Some ?s" using assms(1) by (auto simp: fsm_open_def exec_sendResponse_def fsm_send_def)
  have "fsm_open i K ?s" using assms(1) by (simp add: fsm_open_def)
  from fsm_releaseNodeContext_open [OF this assms(2)] send show ?thesis by (cases "K = {n}") auto
qed

text \<open>
  Progress of a session that owes \<open>K\<close>: the responses \<open>rs\<close>, one per node at most, have been
  sent, and the session is over exactly when nothing is owed any more.
\<close>

abbreviation exec_ids :: "exec_response list \<Rightarrow> u16 set" where
  "exec_ids rs \<equiv> exr_node_id ` set rs"

definition exec_progress ::
    "u64 \<Rightarrow> u16 set \<Rightarrow> 'w exec_service \<Rightarrow> exec_response list \<Rightarrow> 'w exec_service \<Rightarrow> bool" where
  "exec_progress i K s rs s' \<longleftrightarrow>
     distinct (map exr_node_id rs) \<and> exec_ids rs \<subseteq> K
     \<and> svc_out s' = svc_out s @ map (ChSend i) rs @ (if exec_ids rs = K then fsm_closing i else [])
     \<and> (if exec_ids rs = K then fsm_of i s' = None else fsm_open i (K - exec_ids rs) s')
     \<and> (\<forall>j. j \<noteq> i \<longrightarrow> fsm_of j s' = fsm_of j s)"

lemma exec_progress_none:
  "fsm_open i K s' \<Longrightarrow> svc_out s' = svc_out s \<Longrightarrow> (\<And>j. j \<noteq> i \<Longrightarrow> fsm_of j s' = fsm_of j s) \<Longrightarrow>
   exec_progress i K s [] s'"
  using fsm_open_nonempty [of i K s'] by (auto simp: exec_progress_def)

lemma exec_progress_trans:
  assumes "exec_progress i K s rs s1" "exec_ids rs \<noteq> K" "exec_progress i (K - exec_ids rs) s1 rs' s2"
  shows "exec_progress i K s (rs @ rs') s2"
proof -
  have sub: "exec_ids rs \<subseteq> K" "exec_ids rs' \<subseteq> K - exec_ids rs"
    using assms(1,3) by (simp_all add: exec_progress_def)
  then have iff: "exec_ids (rs @ rs') = K \<longleftrightarrow> exec_ids rs' = K - exec_ids rs" by auto
  have diff: "K - exec_ids (rs @ rs') = K - exec_ids rs - exec_ids rs'" by auto
  from assms sub show ?thesis
    unfolding exec_progress_def iff diff by (auto simp: image_Un)
qed

lemma exec_progress_end:
  "exec_progress i K s rs s' \<Longrightarrow> exec_ids rs = K \<Longrightarrow>
   fsm_of i s' = None \<and> svc_out s' = svc_out s @ map (ChSend i) rs @ fsm_closing i \<and> distinct (map exr_node_id rs)"
  by (simp add: exec_progress_def)

lemma exec_answer_progress:
  assumes "fsm_open i K s" "n \<in> K"
  shows "\<exists>s' r. (exec_sendResponse i n p err s \<bind> fsm_releaseNodeContext i n) = Some s'
    \<and> exec_progress i K s [r] s' \<and> exr_node_id r = n
    \<and> r = \<lparr>exr_error = optErrorToDsdlError err, exr_node_id = n, exr_payload = p\<rparr>"
proof -
  let ?r = "\<lparr>exr_error = optErrorToDsdlError err, exr_node_id = n, exr_payload = p\<rparr>"
  from exec_answer_open [OF assms] obtain s' where
    "(exec_sendResponse i n p err s \<bind> fsm_releaseNodeContext i n) = Some s'"
    "if K = {n} then fsm_of i s' = None else fsm_open i (K - {n}) s'"
    "svc_out s' = svc_out s @ ChSend i ?r # (if K = {n} then fsm_closing i else [])"
    "\<forall>j. j \<noteq> i \<longrightarrow> fsm_of j s' = fsm_of j s" by blast
  moreover from this assms(2) have "exec_progress i K s [?r] s'"
    by (cases "K = {n}") (auto simp: exec_progress_def)
  ultimately show ?thesis by (intro exI [of _ s'] exI [of _ ?r]) simp
qed

lemma exec_progress_net [simp]: "exec_progress i K (s\<lparr>svc_net := w\<rparr>) rs s' = exec_progress i K s rs s'"
  unfolding exec_progress_def fsm_of_simps by simp

lemma exec_start_progress:
  assumes "fsm_open i K s" "n \<in> K" "exn_client c"
  shows "\<exists>s' rs. exec_startCyExecCmdRpcCallFor net i n c s = Some s' \<and> exec_progress i K s rs s' \<and> exec_ids rs \<subseteq> {n}"
proof -
  obtain failure w where req: "cy_request net n (cy_now net (svc_net s) + exn_timeout c) (exn_payload c) (svc_net s)
      = (failure, w)" by fastforce
  let ?s = "s\<lparr>svc_net := w\<rparr>"
  have opn: "fsm_open i K ?s" using assms(1) by simp
  show ?thesis
  proof (cases failure)
    case None
    obtain f where f: "fsm_of i ?s = Some f" using opn by (auto simp: fsm_open_def)
    let ?t = "set_fsm i (f\<lparr>fsm_node_id_to_cnxt := um_assign n (c\<lparr>exn_promise := True\<rparr>) (fsm_node_id_to_cnxt f)\<rparr>) ?s"
    have "exec_progress i K s [] ?t" by (rule exec_progress_none [OF fsm_open_cnxt [OF opn f assms(2)]]) simp_all
    moreover have "exec_startCyExecCmdRpcCallFor net i n c s = Some ?t"
      using None req f assms(3) by (simp add: exec_startCyExecCmdRpcCallFor_def)
    ultimately show ?thesis by (intro exI [of _ ?t] exI [of _ "[]"]) simp
  next
    case (Some cf)
    from exec_answer_progress [OF opn assms(2)] obtain s' r where
      "(exec_sendResponse i n exec_no_payload (cyFailureToOptError cf) ?s \<bind> fsm_releaseNodeContext i n) = Some s'"
      and p: "exec_progress i K ?s [r] s'" "exr_node_id r = n" by blast
    then have "exec_startCyExecCmdRpcCallFor net i n c s = Some s'"
      using Some req assms(3) by (simp add: exec_startCyExecCmdRpcCallFor_def)
    moreover have "exec_progress i K s [r] s'" using p by simp
    ultimately show ?thesis using p(2) by (intro exI [of _ s'] exI [of _ "[r]"]) simp
  qed
qed

lemma exec_make_progress:
  assumes "fsm_open i K s" "n \<in> K"
  shows "\<exists>s' rs. exec_makeCyRpcClient net i n s = Some s' \<and> exec_progress i K s rs s' \<and> exec_ids rs \<subseteq> {n}"
proof -
  obtain failure w where make: "cy_makeClient net n (svc_net s) = (failure, w)" by fastforce
  let ?s = "s\<lparr>svc_net := w\<rparr>"
  have opn: "fsm_open i K ?s" using assms(1) by simp
  obtain f where f: "fsm_of i s = Some f" "set (um_keys (fsm_node_id_to_cnxt f)) = K"
    using assms(1) by (auto simp: fsm_open_def)
  obtain c where c: "map_of (fsm_node_id_to_cnxt f) n = Some c"
    using f(2) assms(2) by (cases "map_of (fsm_node_id_to_cnxt f) n") (auto simp: map_of_eq_None_iff)
  show ?thesis
  proof (cases failure)
    case None
    let ?c = "c\<lparr>exn_client := True\<rparr>"
    let ?t = "set_fsm i (f\<lparr>fsm_node_id_to_cnxt := um_assign n ?c (fsm_node_id_to_cnxt f)\<rparr>) ?s"
    have "fsm_open i K ?t" by (rule fsm_open_cnxt [OF opn _ assms(2)]) (use f in simp)
    from exec_start_progress [OF this assms(2), of ?c net] obtain s' rs where
      "exec_startCyExecCmdRpcCallFor net i n ?c ?t = Some s'" "exec_progress i K ?t rs s'" "exec_ids rs \<subseteq> {n}" by auto
    moreover from this have "exec_progress i K s rs s'" by (auto simp: exec_progress_def)
    ultimately show ?thesis using None make f c by (auto simp: exec_makeCyRpcClient_def)
  next
    case (Some cf)
    from exec_answer_progress [OF opn assms(2)] obtain s' r where
      "(exec_sendResponse i n exec_no_payload (cyFailureToOptError cf) ?s \<bind> fsm_releaseNodeContext i n) = Some s'"
      and p: "exec_progress i K ?s [r] s'" "exr_node_id r = n" by blast
    then have "exec_makeCyRpcClient net i n s = Some s'"
      using Some make f c by (simp add: exec_makeCyRpcClient_def)
    moreover have "exec_progress i K s [r] s'" using p by simp
    ultimately show ?thesis using p(2) by (intro exI [of _ s'] exI [of _ "[r]"]) simp
  qed
qed

lemma exec_make_all_progress:
  assumes "fsm_open i K s" "distinct ns" "set ns \<subseteq> K"
  shows "\<exists>s' rs. exec_makeCyRpcClients net i ns s = Some s' \<and> exec_progress i K s rs s' \<and> exec_ids rs \<subseteq> set ns"
  using assms
proof (induction ns arbitrary: K s)
  case Nil
  then show ?case by (auto intro!: exI [of _ "[]"] exec_progress_none)
next
  case (Cons n ns)
  from exec_make_progress [OF Cons.prems(1), of n net] Cons.prems(3) obtain s1 rs where
    make: "exec_makeCyRpcClient net i n s = Some s1" and p: "exec_progress i K s rs s1" "exec_ids rs \<subseteq> {n}" by auto
  show ?case
  proof (cases "exec_ids rs = K")
    case True
    with p(2) Cons.prems have "ns = []" by (cases ns) auto
    with make p show ?thesis by auto
  next
    case False
    with p(1) have "fsm_open i (K - exec_ids rs) s1" by (simp add: exec_progress_def)
    moreover have "set ns \<subseteq> K - exec_ids rs" using Cons.prems(2,3) p(2) by auto
    ultimately obtain s' rs' where "exec_makeCyRpcClients net i ns s1 = Some s'"
      "exec_progress i (K - exec_ids rs) s1 rs' s'" "exec_ids rs' \<subseteq> set ns"
      using Cons.IH [of "K - exec_ids rs" s1] Cons.prems(2) by auto
    with make p exec_progress_trans [OF p(1) False] show ?thesis
      by (intro exI [of _ s'] exI [of _ "rs @ rs'"]) auto
  qed
qed

text \<open>The promise callbacks of the pending nodes, in the order the network answers.\<close>

fun exec_responses :: "u64 \<Rightarrow> (u16 \<times> exec_promise_result) list \<Rightarrow> 'w exec_service \<Rightarrow> 'w exec_service option" where
  "exec_responses i [] s = Some s"
| "exec_responses i ((node_id, result) # nrs) s =
     do { s' \<leftarrow> exec_handleNodeResponse i node_id result s; exec_responses i nrs s' }"

text \<open>The response that a fulfilled promise turns into.\<close>

definition exec_reply :: "u16 \<times> exec_promise_result \<Rightarrow> exec_response" where
  "exec_reply nr =
     (case nr of
        (n, ExecSuccess status output) \<Rightarrow>
          \<lparr>exr_error = \<lparr>error_code = 0, raw_errno = 0\<rparr>, exr_node_id = n,
           exr_payload = \<lparr>exec_status = status, exec_output = output\<rparr>\<rparr>
      | (n, ExecFailure cf) \<Rightarrow>
          \<lparr>exr_error = optErrorToDsdlError (Some (cyErrorToSdkError cf)), exr_node_id = n,
           exr_payload = exec_no_payload\<rparr>)"

lemma exr_node_id_reply [simp]: "exr_node_id (exec_reply nr) = fst nr"
  by (simp add: exec_reply_def split: prod.splits exec_promise_result.splits)

lemma exec_response_progress:
  assumes "fsm_open i K s" "n \<in> K"
  shows "\<exists>s'. exec_handleNodeResponse i n res s = Some s' \<and> exec_progress i K s [exec_reply (n, res)] s'"
proof (cases res)
  case (ExecSuccess st out)
  with exec_answer_progress [OF assms, of "\<lparr>exec_status = st, exec_output = out\<rparr>" None] show ?thesis
    by (auto simp: exec_handleNodeResponse_def exec_reply_def optErrorToDsdlError_def)
next
  case (ExecFailure cf)
  with exec_answer_progress [OF assms, of exec_no_payload "cyFailureToOptError cf"] show ?thesis
    by (auto simp: exec_handleNodeResponse_def exec_reply_def cyFailureToOptError_def)
qed

lemma exec_responses_progress:
  assumes "fsm_open i K s" "distinct (map fst nrs)" "fst ` set nrs \<subseteq> K"
  shows "\<exists>s'. exec_responses i nrs s = Some s' \<and> exec_progress i K s (map exec_reply nrs) s'"
  using assms
proof (induction nrs arbitrary: K s)
  case Nil
  then show ?case by (auto intro: exec_progress_none)
next
  case (Cons nr nrs)
  obtain n res where nr: "nr = (n, res)" by (cases nr)
  from exec_response_progress [OF Cons.prems(1), of n res] Cons.prems(3) nr obtain s1 where
    step: "exec_handleNodeResponse i n res s = Some s1" and p: "exec_progress i K s [exec_reply nr] s1" by auto
  show ?case
  proof (cases "K = {n}")
    case True
    with Cons.prems nr have "nrs = []" by (cases nrs) auto
    with step p nr show ?thesis by auto
  next
    case False
    then have ne: "exec_ids [exec_reply nr] \<noteq> K" using nr by auto
    with p nr have "fsm_open i (K - {n}) s1" unfolding exec_progress_def by simp
    moreover have "fst ` set nrs \<subseteq> K - {n}" using Cons.prems(2,3) nr by auto
    ultimately obtain s' where "exec_responses i nrs s1 = Some s'"
      "exec_progress i (K - {n}) s1 (map exec_reply nrs) s'"
      using Cons.IH [of "K - {n}" s1] Cons.prems(2) by auto
    with step nr exec_progress_trans [OF p ne, of "map exec_reply nrs" s'] show ?thesis by simp
  qed
qed

text \<open>The requests that come in before the processing starts.\<close>

fun exec_inputs :: "u64 \<Rightarrow> exec_request list \<Rightarrow> 'w exec_service \<Rightarrow> 'w exec_service option" where
  "exec_inputs i [] s = Some s"
| "exec_inputs i (q # qs) s = do { s' \<leftarrow> exec_handleInput i q s; exec_inputs i qs s' }"

lemma exec_inputs_collect:
  assumes "fsm_of i s = Some f" "\<not> fsm_processing f" "um_wf (fsm_node_id_to_cnxt f)"
  shows "\<exists>s' f'. exec_inputs i qs s = Some s' \<and> fsm_of i s' = Some f' \<and> \<not> fsm_processing f'
    \<and> um_wf (fsm_node_id_to_cnxt f') \<and> svc_out s' = svc_out s
    \<and> set (um_keys (fsm_node_id_to_cnxt f')) =
        set (um_keys (fsm_node_id_to_cnxt f)) \<union> (\<Union>q\<in>set qs. set (exq_node_ids q))"
  using assms
proof (induction qs arbitrary: s f)
  case (Cons q qs)
  let ?c = "\<lparr>exn_timeout = exq_timeout_us q, exn_payload = exq_payload q, exn_client = False, exn_promise = False\<rparr>"
  let ?f = "f\<lparr>fsm_node_id_to_cnxt := um_emplace_all (exq_node_ids q) ?c (fsm_node_id_to_cnxt f)\<rparr>"
  have step: "exec_handleInput i q s = Some (set_fsm i ?f s)"
    using Cons.prems by (simp add: exec_handleInput_def)
  from Cons.IH [of "set_fsm i ?f s" ?f] Cons.prems obtain s' f' where
    "exec_inputs i qs (set_fsm i ?f s) = Some s'" "fsm_of i s' = Some f'" "\<not> fsm_processing f'"
    "um_wf (fsm_node_id_to_cnxt f')" "svc_out s' = svc_out s"
    "set (um_keys (fsm_node_id_to_cnxt f')) =
      set (um_keys (fsm_node_id_to_cnxt ?f)) \<union> (\<Union>q\<in>set qs. set (exq_node_ids q))"
    by (auto simp: um_simps)
  with step show ?case by (auto simp: um_simps)
qed simp

lemma exec_new_channel_fsm:
  "\<exists>s0 f. exec_new_channel q s = Some (svc_next_fsm_id s, s0) \<and> fsm_of (svc_next_fsm_id s) s0 = Some f
    \<and> \<not> fsm_processing f \<and> um_wf (fsm_node_id_to_cnxt f) \<and> svc_out s0 = svc_out s
    \<and> set (um_keys (fsm_node_id_to_cnxt f)) = set (exq_node_ids q)"
  by (simp add: exec_new_channel_def exec_handleInput_def Let_def um_simps)

lemma fsm_pending_progress:
  "exec_progress i K s rs s' \<Longrightarrow> set (fsm_pending i s') = K - exec_ids rs \<and> distinct (fsm_pending i s')"
  unfolding exec_progress_def fsm_pending_def fsm_open_def
  by (cases "exec_ids rs = K") (simp, elim conjE, simp, elim exE conjE, simp add: set_diff_eq)

lemma exec_session:
  fixes s :: "'w exec_service" and q :: exec_request and qs :: "exec_request list"
  assumes "is_order (cy_order net)"
  defines "i \<equiv> svc_next_fsm_id s"
  defines "K \<equiv> (\<Union>q'\<in>set (q # qs). set (exq_node_ids q'))"
  shows "\<exists>s0 s1 s2 P early. exec_new_channel q s = Some (i, s0) \<and> exec_inputs i qs s0 = Some s1 \<and>
    exec_handleEvent net i (ExecCompleted True) s1 = Some s2 \<and> set (fsm_pending i s2) = P \<and> distinct (fsm_pending i s2) \<and>
    (\<forall>nrs. distinct (map fst nrs) \<and> fst ` set nrs = P \<longrightarrow>
      (\<exists>s3. exec_responses i nrs s2 = Some s3 \<and> fsm_of i s3 = None \<and>
        svc_out s3 = svc_out s @ map (ChSend i) (early @ map exec_reply nrs) @ [ChComplete i None False, ChRelease i] \<and>
        distinct (map exr_node_id (early @ map exec_reply nrs)) \<and> exec_ids (early @ map exec_reply nrs) = K))"
proof -
  obtain s0 f0 where s0: "exec_new_channel q s = Some (i, s0)" "fsm_of i s0 = Some f0" "\<not> fsm_processing f0"
    "um_wf (fsm_node_id_to_cnxt f0)" "svc_out s0 = svc_out s" "set (um_keys (fsm_node_id_to_cnxt f0)) = set (exq_node_ids q)"
    using exec_new_channel_fsm [of q s] unfolding i_def by blast
  from exec_inputs_collect [OF s0(2-4), of qs] obtain s1 f where
    s1: "exec_inputs i qs s0 = Some s1" and f: "fsm_of i s1 = Some f" "\<not> fsm_processing f"
      "um_wf (fsm_node_id_to_cnxt f)" "set (um_keys (fsm_node_id_to_cnxt f)) = K" and out: "svc_out s1 = svc_out s"
    using s0(5,6) unfolding K_def by auto
  let ?s = "set_fsm i (f\<lparr>fsm_processing := True\<rparr>) s1"
  show ?thesis
  proof (cases "K = {}")
    case True
    with f have nil: "fsm_node_id_to_cnxt f = []" by auto
    then obtain s2 where "exec_handleEvent net i (ExecCompleted True) s1 = Some s2" "fsm_of i s2 = None"
        "svc_out s2 = svc_out s @ [ChComplete i None False, ChRelease i]"
      using f(1,2) out by (simp add: exec_handleCompleted_def fsm_complete_def)
    with s0(1) s1 True show ?thesis
      by (intro exI [of _ s0] exI [of _ s1] exI [of _ s2] exI [of _ "{}"] exI [of _ "[]"]) (simp add: fsm_pending_def)
  next
    case False
    have opn: "fsm_open i K ?s" using f False by (auto simp: fsm_open_def)
    let ?ns = "cy_order net (um_keys (fsm_node_id_to_cnxt f))"
    have ns: "distinct ?ns" "set ?ns = K"
      using f(3,4) is_order_distinct [OF assms(1)] is_order_set [OF assms(1)] by auto
    obtain s2 early where s2: "exec_makeCyRpcClients net i ?ns ?s = Some s2" and p: "exec_progress i K ?s early s2"
      using exec_make_all_progress [OF opn ns(1), of net] ns(2) by auto
    have "fsm_node_id_to_cnxt f \<noteq> []" using f(4) False by auto
    then have completed: "exec_handleEvent net i (ExecCompleted True) s1 = Some s2"
      using f(1,2) s2 by (simp add: exec_handleCompleted_def)
    have run: "\<exists>s3. exec_responses i nrs s2 = Some s3 \<and> exec_progress i K ?s (early @ map exec_reply nrs) s3
        \<and> exec_ids (early @ map exec_reply nrs) = K"
      if nrs: "distinct (map fst nrs)" "fst ` set nrs = K - exec_ids early" for nrs
    proof (cases "exec_ids early = K")
      case True
      with nrs p show ?thesis by auto
    next
      case False
      with p have "fsm_open i (K - exec_ids early) s2" by (simp add: exec_progress_def)
      from exec_responses_progress [OF this nrs(1)] nrs(2) obtain s3 where "exec_responses i nrs s2 = Some s3"
        "exec_progress i (K - exec_ids early) s2 (map exec_reply nrs) s3" by auto
      moreover have "exec_ids (early @ map exec_reply nrs) = K"
        using nrs(2) p by (auto simp: image_Un image_image exec_progress_def)
      ultimately show ?thesis using exec_progress_trans [OF p False] by blast
    qed
    have "\<exists>s3. exec_responses i nrs s2 = Some s3 \<and> fsm_of i s3 = None \<and>
        svc_out s3 = svc_out s @ map (ChSend i) (early @ map exec_reply nrs) @ fsm_closing i \<and>
        distinct (map exr_node_id (early @ map exec_reply nrs)) \<and> exec_ids (early @ map exec_reply nrs) = K"
      if nrs: "distinct (map fst nrs) \<and> fst ` set nrs = K - exec_ids early" for nrs
    proof -
      from nrs obtain s3 where s3: "exec_responses i nrs s2 = Some s3"
        "exec_progress i K ?s (early @ map exec_reply nrs) s3" "exec_ids (early @ map exec_reply nrs) = K"
        using run [of nrs] by blast
      from exec_progress_end [OF s3(2,3)] s3(1,3) out show ?thesis by (intro exI [of _ s3]) simp
    qed
    with s0(1) s1 completed fsm_pending_progress [OF p] show ?thesis
      unfolding fsm_closing_def
      by (intro exI [of _ s0] exI [of _ s1] exI [of _ s2] exI [of _ "K - exec_ids early"] exI [of _ early]) simp
  qed
qed

section \<open>Properties\<close>

text \<open>
  C23. Command execution answers every node exactly once. A client opens a channel with a
  request, may add more requests, and completes with keep-alive. Then, whichever nodes
  cannot be reached (they are answered with an error at once) and in whichever order the
  others answer or time out, the channel carries exactly one response per distinct
  requested node, those of the nodes that answered with their own result, then exactly one
  completion without error, and the state machine is released; no released state machine
  is touched.
\<close>

theorem exec_cmd_one_response_per_node:
  fixes s :: "'w exec_service" and q :: exec_request and qs :: "exec_request list"
  assumes "is_order (cy_order net)" "is_order arrival"
  defines "i \<equiv> svc_next_fsm_id s"
  defines "K \<equiv> (\<Union>q'\<in>set (q # qs). set (exq_node_ids q'))"
  shows "\<exists>s0 s1 s2 s3 early answered. exec_new_channel q s = Some (i, s0) \<and> exec_inputs i qs s0 = Some s1 \<and>
    exec_handleEvent net i (ExecCompleted True) s1 = Some s2 \<and>
    answered = map (\<lambda>n. (n, answer n)) (arrival (fsm_pending i s2)) \<and>
    exec_responses i answered s2 = Some s3 \<and> fsm_of i s3 = None \<and>
    svc_out s3 = svc_out s @ map (ChSend i) (early @ map exec_reply answered) @ [ChComplete i None False, ChRelease i] \<and>
    distinct (map exr_node_id (early @ map exec_reply answered)) \<and>
    exr_node_id ` set (early @ map exec_reply answered) = K"
proof -
  from exec_session [OF assms(1), of q s qs] obtain s0 s1 s2 early where
    s: "exec_new_channel q s = Some (i, s0)" "exec_inputs i qs s0 = Some s1"
      "exec_handleEvent net i (ExecCompleted True) s1 = Some s2" and d: "distinct (fsm_pending i s2)" and
    run: "\<And>nrs. distinct (map fst nrs) \<and> fst ` set nrs = set (fsm_pending i s2) \<Longrightarrow>
      \<exists>s3. exec_responses i nrs s2 = Some s3 \<and> fsm_of i s3 = None \<and>
        svc_out s3 = svc_out s @ map (ChSend i) (early @ map exec_reply nrs) @ [ChComplete i None False, ChRelease i] \<and>
        distinct (map exr_node_id (early @ map exec_reply nrs)) \<and> exec_ids (early @ map exec_reply nrs) = K"
    unfolding i_def K_def by blast
  let ?a = "map (\<lambda>n. (n, answer n)) (arrival (fsm_pending i s2))"
  have "distinct (map fst ?a) \<and> fst ` set ?a = set (fsm_pending i s2)"
    using d is_order_set [OF assms(2)] is_order_distinct [OF assms(2)] by (simp add: comp_def image_image)
  from run [OF this] obtain s3 where "exec_responses i ?a s2 = Some s3 \<and> fsm_of i s3 = None \<and>
        svc_out s3 = svc_out s @ map (ChSend i) (early @ map exec_reply ?a) @ [ChComplete i None False, ChRelease i] \<and>
        distinct (map exr_node_id (early @ map exec_reply ?a)) \<and> exec_ids (early @ map exec_reply ?a) = K" by blast
  with s show ?thesis
    by (intro exI [of _ s0] exI [of _ s1] exI [of _ s2] exI [of _ s3] exI [of _ early] exI [of _ ?a]) simp
qed

text \<open>A network on which node 9 has no client and everything else can be asked.\<close>

definition exec_demo_net :: "unit exec_net" where
  "exec_demo_net =
     \<lparr>cy_makeClient = (\<lambda>n w. (if n = 9 then Some MemoryError else None, w)),
      cy_request = (\<lambda>n d q w. (None, w)), cy_now = (\<lambda>w. 0), cy_order = (\<lambda>ns. ns)\<rparr>"

theorem exec_cmd_one_response_per_node_witness:
  "\<exists>s0 s2 s3 rs.
     exec_new_channel \<lparr>exq_timeout_us = 1, exq_node_ids = [5, 9, 5],
       exq_payload = \<lparr>exec_command = 1, exec_parameter = []\<rparr>\<rparr> (exec_init ()) = Some (0, s0) \<and>
     exec_handleEvent exec_demo_net 0 (ExecCompleted True) s0 = Some s2 \<and>
     exec_responses 0 (map (\<lambda>n. (n, ExecSuccess 0 [])) (rev (fsm_pending 0 s2))) s2 = Some s3 \<and>
     svc_out s3 = map (ChSend 0) rs @ [ChComplete 0 None False, ChRelease 0] \<and>
     distinct (map exr_node_id rs) \<and> exr_node_id ` set rs = {5, 9}"
proof -
  let ?q = "\<lparr>exq_timeout_us = 1, exq_node_ids = [5, 9, 5], exq_payload = \<lparr>exec_command = 1, exec_parameter = []\<rparr>\<rparr>"
  have ord: "is_order (cy_order exec_demo_net)" by (simp add: exec_demo_net_def is_order_id)
  have "svc_next_fsm_id (exec_init ()) = 0" "svc_out (exec_init ()) = []"
    "(\<Union>q\<in>set [?q]. set (exq_node_ids q)) = {5, 9}" by (auto simp: exec_init_def)
  with exec_cmd_one_response_per_node [OF ord is_order_rev, of ?q "exec_init ()" "[]" "\<lambda>_. ExecSuccess 0 []"]
  show ?thesis by (simp del: map_append set_append image_insert image_Un) blast
qed

text \<open>
  Cancellation: when the client ends the channel or goes away at any moment of a
  session, the service completes the channel with \<open>Canceled\<close> exactly once, forgets all
  pending nodes, sends no response, and releases the state machine; other sessions are
  not touched.
\<close>

theorem exec_cmd_canceled:
  assumes "fsm_of i s = Some f"
  shows "\<exists>s'. exec_handleEvent net i (ExecCompleted False) s = Some s' \<and>
    svc_out s' = svc_out s @ [ChComplete i (Some (mkError Canceled)) False, ChRelease i] \<and>
    fsm_of i s' = None \<and> svc_net s' = svc_net s \<and> (\<forall>j. j \<noteq> i \<longrightarrow> fsm_of j s' = fsm_of j s)"
  using assms
  by (simp add: exec_handleCompleted_def fsm_complete_def)
    (simp add: releaseFsmBy_def fsm_emit_def set_fsm_def)

theorem exec_cmd_canceled_witness:
  "\<exists>s'. exec_handleEvent exec_demo_net 4 (ExecCompleted False)
      ((exec_init ())\<lparr>svc_id_to_fsm := [(4, \<lparr>fsm_processing = True, fsm_node_id_to_cnxt = [], fsm_registers = ()\<rparr>)]\<rparr>) = Some s'
    \<and> svc_out s' = [ChComplete 4 (Some (mkError Canceled)) False, ChRelease 4]"
  using exec_cmd_canceled [of 4 "(exec_init ())\<lparr>svc_id_to_fsm := [(4, \<lparr>fsm_processing = True, fsm_node_id_to_cnxt = [], fsm_registers = ()\<rparr>)]\<rparr>"
      "\<lparr>fsm_processing = True, fsm_node_id_to_cnxt = [], fsm_registers = ()\<rparr>" exec_demo_net]
  by (auto simp: fsm_of_def exec_init_def)

end
