(* ===== verification/List_Registers_Service.thy ===== *)
theory List_Registers_Service
  imports Node_Fsm
begin

text \<open>
  \<^verbatim>\<open>src/daemon/engine/svc/node/list_registers_service.cpp\<close>: the service that lists the registers
  of a set of nodes. It asks every node for its register names one index at a time,
  forwards each name, and is done with a node at the first empty name or failure.
\<close>

section \<open>State\<close>

record list_request =
  lrq_timeout_us :: u64
  lrq_node_ids :: "u16 list"

record list_response =
  lrr_error :: dsdl_error
  lrr_node_id :: u16
  lrr_item :: "byte list"

record list_node_context =
  lrn_timeout :: u64
  lrn_reg_index :: u16
  lrn_client :: bool
  lrn_promise :: bool

type_synonym 'w list_service = "(list_node_context, unit, list_response, 'w) node_service"
type_synonym 'w list_net = "(u16, 'w) cy_net"

definition list_init :: "'w \<Rightarrow> 'w list_service" where
  "list_init w = \<lparr>svc_next_fsm_id = 0, svc_id_to_fsm = [], svc_net = w, svc_out = []\<rparr>"

section \<open>Operations\<close>

definition list_complete :: "u64 \<Rightarrow> opt_error \<Rightarrow> 'w list_service \<Rightarrow> 'w list_service option" where
  [simp]: "list_complete i completion_opt_error s = fsm_complete i completion_opt_error s"

definition list_releaseNodeContext :: "u64 \<Rightarrow> u16 \<Rightarrow> 'w list_service \<Rightarrow> 'w list_service option" where
  [simp]: "list_releaseNodeContext i node_id s = fsm_releaseNodeContext i node_id s"

definition list_sendResponse ::
    "u64 \<Rightarrow> u16 \<Rightarrow> byte list \<Rightarrow> opt_error \<Rightarrow> 'w list_service \<Rightarrow> 'w list_service option" where
  "list_sendResponse i node_id item opt_error s =
     fsm_send i \<lparr>lrr_error = optErrorToDsdlError opt_error, lrr_node_id = node_id, lrr_item = item\<rparr> s"

text \<open>
  The context is the reference \<open>node_cnxt\<close> into the map; the promise it gets is stored there.
\<close>

definition list_startCyRegListRpcCallFor ::
    "'w list_net \<Rightarrow> u64 \<Rightarrow> u16 \<Rightarrow> list_node_context \<Rightarrow> 'w list_service \<Rightarrow> 'w list_service option" where
  "list_startCyRegListRpcCallFor net i node_id node_cnxt s =
     (if \<not> lrn_client node_cnxt then list_releaseNodeContext i node_id s
      else
        let deadline = cy_now net (svc_net s) + lrn_timeout node_cnxt;
            (failure, w) = cy_request net node_id deadline (lrn_reg_index node_cnxt) (svc_net s);
            s1 = s\<lparr>svc_net := w\<rparr>
        in case failure of
             Some cy_failure \<Rightarrow> do {
               s2 \<leftarrow> list_sendResponse i node_id [] (cyFailureToOptError cy_failure) s1;
               list_releaseNodeContext i node_id s2
             }
           | None \<Rightarrow> do {
               f \<leftarrow> fsm_of i s1;
               Some (set_fsm i (f\<lparr>fsm_node_id_to_cnxt :=
                  um_assign node_id (node_cnxt\<lparr>lrn_promise := True\<rparr>) (fsm_node_id_to_cnxt f)\<rparr>) s1)
             })"

definition list_makeCyRpcClient :: "'w list_net \<Rightarrow> u64 \<Rightarrow> u16 \<Rightarrow> 'w list_service \<Rightarrow> 'w list_service option" where
  "list_makeCyRpcClient net i node_id s = do {
     f \<leftarrow> fsm_of i s;
     case map_of (fsm_node_id_to_cnxt f) node_id of
       None \<Rightarrow> Some s
     | Some node_cnxt \<Rightarrow>
         let (failure, w) = cy_makeClient net node_id (svc_net s);
             s1 = s\<lparr>svc_net := w\<rparr>
         in case failure of
              Some cy_failure \<Rightarrow> do {
                s2 \<leftarrow> list_sendResponse i node_id [] (cyFailureToOptError cy_failure) s1;
                list_releaseNodeContext i node_id s2
              }
            | None \<Rightarrow>
                let node_cnxt' = node_cnxt\<lparr>lrn_client := True\<rparr>;
                    s2 = set_fsm i (f\<lparr>fsm_node_id_to_cnxt :=
                           um_assign node_id node_cnxt' (fsm_node_id_to_cnxt f)\<rparr>) s1
                in list_startCyRegListRpcCallFor net i node_id node_cnxt' s2
   }"

fun list_makeCyRpcClients :: "'w list_net \<Rightarrow> u64 \<Rightarrow> u16 list \<Rightarrow> 'w list_service \<Rightarrow> 'w list_service option" where
  "list_makeCyRpcClients net i [] s = Some s"
| "list_makeCyRpcClients net i (node_id # node_ids) s =
     do { s' \<leftarrow> list_makeCyRpcClient net i node_id s; list_makeCyRpcClients net i node_ids s' }"

definition list_handleInput :: "u64 \<Rightarrow> list_request \<Rightarrow> 'w list_service \<Rightarrow> 'w list_service option" where
  "list_handleInput i input s = do {
     f \<leftarrow> fsm_of i s;
     if fsm_processing f then Some s
     else
       let cnxt = \<lparr>lrn_timeout = lrq_timeout_us input, lrn_reg_index = 0, lrn_client = False, lrn_promise = False\<rparr>
       in Some (set_fsm i (f\<lparr>fsm_node_id_to_cnxt :=
                  um_emplace_all (lrq_node_ids input) cnxt (fsm_node_id_to_cnxt f)\<rparr>) s)
   }"

definition list_handleCompleted :: "'w list_net \<Rightarrow> u64 \<Rightarrow> bool \<Rightarrow> 'w list_service \<Rightarrow> 'w list_service option" where
  "list_handleCompleted net i keep_alive s =
     (if \<not> keep_alive then list_complete i (Some (mkError Canceled)) s
      else do {
        f \<leftarrow> fsm_of i s;
        if fsm_processing f then Some s
        else
          let s1 = set_fsm i (f\<lparr>fsm_processing := True\<rparr>) s
          in if fsm_node_id_to_cnxt f = [] then list_complete i None s1
             else list_makeCyRpcClients net i (cy_order net (um_keys (fsm_node_id_to_cnxt f))) s1
      })"

datatype list_promise_result = ListName "byte list" | ListFailure cy_failure

definition list_handleNodeResponse ::
    "'w list_net \<Rightarrow> u64 \<Rightarrow> u16 \<Rightarrow> list_promise_result \<Rightarrow> 'w list_service \<Rightarrow> 'w list_service option" where
  "list_handleNodeResponse net i node_id result s = do {
     f \<leftarrow> fsm_of i s;
     case map_of (fsm_node_id_to_cnxt f) node_id of
       None \<Rightarrow> Some s
     | Some node_cnxt \<Rightarrow>
         (case result of
            ListName name \<Rightarrow>
              if name \<noteq> [] then do {
                s1 \<leftarrow> list_sendResponse i node_id name None s;
                let node_cnxt' = node_cnxt\<lparr>lrn_reg_index := lrn_reg_index node_cnxt + 1\<rparr>;
                f1 \<leftarrow> fsm_of i s1;
                let s2 = set_fsm i (f1\<lparr>fsm_node_id_to_cnxt :=
                           um_assign node_id node_cnxt' (fsm_node_id_to_cnxt f1)\<rparr>) s1;
                list_startCyRegListRpcCallFor net i node_id node_cnxt' s2
              }
              else list_releaseNodeContext i node_id s
          | ListFailure cy_failure \<Rightarrow> do {
              s1 \<leftarrow> list_sendResponse i node_id [] (cyFailureToOptError cy_failure) s;
              list_releaseNodeContext i node_id s1
            })
   }"

definition list_new_channel :: "list_request \<Rightarrow> 'w list_service \<Rightarrow> (u64 \<times> 'w list_service) option" where
  "list_new_channel request s = do {
     let fsm_id = svc_next_fsm_id s;
     let s1 = set_fsm fsm_id \<lparr>fsm_processing = False, fsm_node_id_to_cnxt = [], fsm_registers = ()\<rparr>
                (s\<lparr>svc_next_fsm_id := fsm_id + 1\<rparr>);
     s2 \<leftarrow> list_handleInput fsm_id request s1;
     Some (fsm_id, s2)
   }"

datatype list_event = ListConnected | ListInput list_request | ListCompleted bool

fun list_handleEvent :: "'w list_net \<Rightarrow> u64 \<Rightarrow> list_event \<Rightarrow> 'w list_service \<Rightarrow> 'w list_service option" where
  "list_handleEvent net i ListConnected s = Some s"
| "list_handleEvent net i (ListInput input) s = list_handleInput i input s"
| "list_handleEvent net i (ListCompleted keep_alive) s = list_handleCompleted net i keep_alive s"

section \<open>Sessions\<close>

text \<open>
  An open session in which every node has a client; \<open>idx\<close> is the index each node has been
  asked for last.
\<close>

definition list_open :: "u64 \<Rightarrow> u16 set \<Rightarrow> (u16 \<Rightarrow> u16) \<Rightarrow> 'w list_service \<Rightarrow> bool" where
  "list_open i K idx s \<longleftrightarrow> fsm_open i K s \<and>
     (\<forall>f n c. fsm_of i s = Some f \<longrightarrow> map_of (fsm_node_id_to_cnxt f) n = Some c \<longrightarrow>
        lrn_client c \<and> lrn_reg_index c = idx n)"

text \<open>A network that takes every request and keeps the list of them.\<close>

definition asking_net :: "(u16 list \<Rightarrow> u16 list) \<Rightarrow> (u16 \<times> u16) list list_net" where
  "asking_net ord =
     \<lparr>cy_makeClient = (\<lambda>n w. (None, w)), cy_request = (\<lambda>n d idx w. (None, w @ [(n, idx)])),
      cy_now = (\<lambda>w. 0), cy_order = ord\<rparr>"

lemma asking_net_simps [simp]:
  "cy_makeClient (asking_net ord) n w = (None, w)" "cy_request (asking_net ord) n d k w = (None, w @ [(n, k)])"
  "cy_order (asking_net ord) = ord"
  by (simp_all add: asking_net_def)

lemma list_openD:
  assumes "list_open i K idx s" "n \<in> K"
  obtains f c where "fsm_of i s = Some f" "fsm_processing f" "um_wf (fsm_node_id_to_cnxt f)"
    "set (um_keys (fsm_node_id_to_cnxt f)) = K" "map_of (fsm_node_id_to_cnxt f) n = Some c"
    "lrn_client c" "lrn_reg_index c = idx n"
proof -
  from assms(1) obtain f where f: "fsm_of i s = Some f" "fsm_processing f" "um_wf (fsm_node_id_to_cnxt f)"
    "set (um_keys (fsm_node_id_to_cnxt f)) = K" by (auto simp: list_open_def fsm_open_def)
  obtain c where "map_of (fsm_node_id_to_cnxt f) n = Some c"
    using f(4) assms(2) by (cases "map_of (fsm_node_id_to_cnxt f) n") (auto simp: map_of_eq_None_iff)
  with f assms(1) that show thesis by (auto simp: list_open_def)
qed

lemma list_open_release:
  assumes "list_open i K idx s" "n \<in> K"
  shows "\<exists>s'. fsm_releaseNodeContext i n s = Some s' \<and> svc_net s' = svc_net s
    \<and> svc_out s' = svc_out s @ (if K = {n} then fsm_closing i else [])
    \<and> (if K = {n} then fsm_of i s' = None else list_open i (K - {n}) idx s')"
proof -
  obtain f where f: "fsm_of i s = Some f" using assms by (rule list_openD)
  have "fsm_open i K s" using assms(1) by (simp add: list_open_def)
  from fsm_releaseNodeContext_open [OF this assms(2)] obtain s' where
    s': "fsm_releaseNodeContext i n s = Some s'"
    "if K = {n} then fsm_of i s' = None \<and> svc_out s' = svc_out s @ fsm_closing i
       else fsm_open i (K - {n}) s' \<and> svc_out s' = svc_out s" by blast
  have net: "svc_net s' = svc_net s"
    using s'(1) f by (auto simp: fsm_releaseNodeContext_def fsm_complete_def set_fsm_def releaseFsmBy_def fsm_emit_def
        bind_eq_Some_conv Let_def split: if_splits)
  have "list_open i (K - {n}) idx s'" if "K \<noteq> {n}"
  proof -
    have "um_erase n (fsm_node_id_to_cnxt f) \<noteq> []"
      using that assms f by (auto simp: um_erase_eq_nil_iff list_open_def fsm_open_def)
    then have "fsm_of i s' = Some (f\<lparr>fsm_node_id_to_cnxt := um_erase n (fsm_node_id_to_cnxt f)\<rparr>)"
      using s'(1) f by (auto simp: fsm_releaseNodeContext_def Let_def)
    with s'(2) that f assms(1) show ?thesis by (auto simp: list_open_def um_simps split: if_splits)
  qed
  with s' net show ?thesis by (cases "K = {n}") auto
qed

lemma list_open_send:
  assumes "list_open i K idx s" "n \<in> K"
  shows "\<exists>s'. (list_sendResponse i m item err s \<bind> list_releaseNodeContext i n) = Some s' \<and> svc_net s' = svc_net s
    \<and> svc_out s' = svc_out s @
        ChSend i \<lparr>lrr_error = optErrorToDsdlError err, lrr_node_id = m, lrr_item = item\<rparr> #
        (if K = {n} then fsm_closing i else [])
    \<and> (if K = {n} then fsm_of i s' = None else list_open i (K - {n}) idx s')"
proof -
  let ?r = "\<lparr>lrr_error = optErrorToDsdlError err, lrr_node_id = m, lrr_item = item\<rparr>"
  let ?s = "fsm_emit [ChSend i ?r] s"
  obtain f where "fsm_of i s = Some f" using assms by (rule list_openD)
  then have send: "list_sendResponse i m item err s = Some ?s" by (simp add: list_sendResponse_def fsm_send_def)
  have "list_open i K idx ?s" using assms(1) by (simp add: list_open_def fsm_open_def)
  from list_open_release [OF this assms(2)] send show ?thesis by (auto simp: fsm_emit_def)
qed

text \<open>Asking a node for the index in its context.\<close>

lemma list_open_ask:
  assumes "fsm_open i K s" "fsm_of i s = Some f" "n \<in> K" "lrn_client c"
    and "\<And>m d. map_of (fsm_node_id_to_cnxt f) m = Some d \<Longrightarrow> m \<noteq> n \<Longrightarrow> lrn_client d \<and> lrn_reg_index d = idx m"
  shows "\<exists>s'. list_startCyRegListRpcCallFor (asking_net ord) i n c s = Some s' \<and> svc_out s' = svc_out s
    \<and> svc_net s' = svc_net s @ [(n, lrn_reg_index c)] \<and> list_open i K (idx(n := lrn_reg_index c)) s'"
proof -
  let ?s = "s\<lparr>svc_net := svc_net s @ [(n, lrn_reg_index c)]\<rparr>"
  let ?t = "set_fsm i (f\<lparr>fsm_node_id_to_cnxt := um_assign n (c\<lparr>lrn_promise := True\<rparr>) (fsm_node_id_to_cnxt f)\<rparr>) ?s"
  have "fsm_open i K ?t" by (rule fsm_open_cnxt) (use assms in simp_all)
  then have "list_open i K (idx(n := lrn_reg_index c)) ?t"
    using assms(4,5) by (auto simp: list_open_def um_simps split: if_splits)
  then show ?thesis
    using assms(2,4) by (intro exI [of _ ?t]) (simp add: list_startCyRegListRpcCallFor_def, simp add: set_fsm_def)
qed

fun list_reply :: "u16 \<times> list_promise_result \<Rightarrow> list_response list" where
  "list_reply (n, ListName name) =
     (if name = [] then [] else [\<lparr>lrr_error = \<lparr>error_code = 0, raw_errno = 0\<rparr>, lrr_node_id = n, lrr_item = name\<rparr>])"
| "list_reply (n, ListFailure cf) =
     [\<lparr>lrr_error = optErrorToDsdlError (Some (cyErrorToSdkError cf)), lrr_node_id = n, lrr_item = []\<rparr>]"

text \<open>The answers of all nodes: each node gives names and then ends, in any interleaving.\<close>

fun list_last :: "list_promise_result \<Rightarrow> bool" where
  "list_last (ListName name) \<longleftrightarrow> name = []"
| "list_last (ListFailure cf) \<longleftrightarrow> True"

fun list_answers_wf :: "u16 set \<Rightarrow> (u16 \<times> list_promise_result) list \<Rightarrow> bool" where
  "list_answers_wf K [] \<longleftrightarrow> K = {}"
| "list_answers_wf K ((n, r) # evs) \<longleftrightarrow> n \<in> K \<and> list_answers_wf (if list_last r then K - {n} else K) evs"

text \<open>The requests they cause, from the indices asked last.\<close>

fun list_asks :: "(u16 \<Rightarrow> u16) \<Rightarrow> (u16 \<times> list_promise_result) list \<Rightarrow> (u16 \<times> u16) list" where
  "list_asks idx [] = []"
| "list_asks idx ((n, r) # evs) =
     (if list_last r then list_asks idx evs else (n, idx n + 1) # list_asks (idx(n := idx n + 1)) evs)"

fun list_responses ::
    "'w list_net \<Rightarrow> u64 \<Rightarrow> (u16 \<times> list_promise_result) list \<Rightarrow> 'w list_service \<Rightarrow> 'w list_service option" where
  "list_responses net i [] s = Some s"
| "list_responses net i ((n, r) # evs) s =
     do { s' \<leftarrow> list_handleNodeResponse net i n r s; list_responses net i evs s' }"

lemma list_step:
  assumes "list_open i K idx s" "n \<in> K"
  shows "\<exists>s'. list_handleNodeResponse (asking_net ord) i n r s = Some s'
    \<and> svc_out s' = svc_out s @ map (ChSend i) (list_reply (n, r)) @ (if list_last r \<and> K = {n} then fsm_closing i else [])
    \<and> svc_net s' = svc_net s @ (if list_last r then [] else [(n, idx n + 1)])
    \<and> (if list_last r then (if K = {n} then fsm_of i s' = None else list_open i (K - {n}) idx s')
       else list_open i K (idx(n := idx n + 1)) s')"
proof -
  obtain f c where f: "fsm_of i s = Some f" "map_of (fsm_node_id_to_cnxt f) n = Some c" "lrn_client c"
    "lrn_reg_index c = idx n" "fsm_open i K s"
    using list_openD [OF assms] assms(1) unfolding list_open_def by metis
  show ?thesis
  proof (cases r)
    case (ListFailure cf)
    with list_open_send [OF assms, of n "[]" "cyFailureToOptError cf"] f show ?thesis
      by (cases "K = {n}") (simp_all add: list_handleNodeResponse_def cyFailureToOptError_def, blast+)
  next
    case (ListName name)
    show ?thesis
    proof (cases "name = []")
      case True
      with list_open_release [OF assms] f ListName show ?thesis
        by (cases "K = {n}") (simp_all add: list_handleNodeResponse_def, blast+)
    next
      case False
      let ?r = "\<lparr>lrr_error = optErrorToDsdlError None, lrr_node_id = n, lrr_item = name\<rparr>"
      let ?c = "c\<lparr>lrn_reg_index := idx n + 1\<rparr>" and ?s1 = "fsm_emit [ChSend i ?r] s"
      let ?f = "f\<lparr>fsm_node_id_to_cnxt := um_assign n ?c (fsm_node_id_to_cnxt f)\<rparr>"
      let ?s2 = "set_fsm i ?f ?s1"
      have s1: "fsm_open i K ?s1" "fsm_of i ?s1 = Some f" using f by (simp_all add: fsm_open_def)
      have o2: "fsm_open i K ?s2" by (rule fsm_open_cnxt [OF s1 assms(2)])
      have "\<exists>s'. list_startCyRegListRpcCallFor (asking_net ord) i n ?c ?s2 = Some s' \<and> svc_out s' = svc_out ?s2
          \<and> svc_net s' = svc_net ?s2 @ [(n, lrn_reg_index ?c)] \<and> list_open i K (idx(n := lrn_reg_index ?c)) s'"
        by (rule list_open_ask [OF o2, where f = ?f])
          (use assms f in \<open>auto simp: um_simps list_open_def\<close>)
      moreover have "svc_net ?s2 = svc_net s" by (simp add: set_fsm_def fsm_emit_def)
      ultimately show ?thesis
        using False ListName f
        by (auto simp: list_handleNodeResponse_def list_sendResponse_def fsm_send_def optErrorToDsdlError_def)
    qed
  qed
qed

lemma list_responses_run:
  assumes "list_open i K idx s" "list_answers_wf K evs"
  shows "\<exists>s'. list_responses (asking_net ord) i evs s = Some s' \<and> fsm_of i s' = None
    \<and> svc_out s' = svc_out s @ map (ChSend i) (concat (map list_reply evs)) @ fsm_closing i
    \<and> svc_net s' = svc_net s @ list_asks idx evs"
  using assms
proof (induction evs arbitrary: K idx s)
  case Nil
  then show ?case using fsm_open_nonempty by (auto simp: list_open_def)
next
  case (Cons ev evs)
  obtain n r where ev: "ev = (n, r)" by (cases ev)
  with Cons.prems(2) have n: "n \<in> K" by simp
  from list_step [OF Cons.prems(1) n, of ord r] obtain s1 where
    step: "list_handleNodeResponse (asking_net ord) i n r s = Some s1" and
    out: "svc_out s1 = svc_out s @ map (ChSend i) (list_reply (n, r)) @ (if list_last r \<and> K = {n} then fsm_closing i else [])"
      "svc_net s1 = svc_net s @ (if list_last r then [] else [(n, idx n + 1)])" and
    next_open: "if list_last r then (if K = {n} then fsm_of i s1 = None else list_open i (K - {n}) idx s1)
       else list_open i K (idx(n := idx n + 1)) s1" by blast
  show ?case
  proof (cases "list_last r \<and> K = {n}")
    case True
    with Cons.prems(2) ev have "evs = []" by (cases evs) auto
    with True step out next_open ev show ?thesis by simp
  next
    case False
    let ?K = "if list_last r then K - {n} else K" and ?idx = "if list_last r then idx else idx(n := idx n + 1)"
    have "list_open i ?K ?idx s1" using False next_open by (auto split: if_splits)
    moreover have "list_answers_wf ?K evs" using Cons.prems(2) ev by simp
    ultimately obtain s' where "list_responses (asking_net ord) i evs s1 = Some s'" "fsm_of i s' = None"
      "svc_out s' = svc_out s1 @ map (ChSend i) (concat (map list_reply evs)) @ fsm_closing i"
      "svc_net s' = svc_net s1 @ list_asks ?idx evs" using Cons.IH by blast
    with False step out ev show ?thesis by auto
  qed
qed

text \<open>The start: a client and the request for index 0 for node after node.\<close>

definition list_starting :: "u64 \<Rightarrow> u16 set \<Rightarrow> u16 set \<Rightarrow> 'w list_service \<Rightarrow> bool" where
  "list_starting i K todo s \<longleftrightarrow> fsm_open i K s \<and>
     (\<forall>f n c. fsm_of i s = Some f \<longrightarrow> map_of (fsm_node_id_to_cnxt f) n = Some c \<longrightarrow>
        lrn_reg_index c = 0 \<and> (n \<notin> todo \<longrightarrow> lrn_client c))"

lemma list_starting_step:
  assumes "list_starting i K (insert n todo) s" "n \<in> K"
  shows "\<exists>s'. list_makeCyRpcClient (asking_net ord) i n s = Some s' \<and> list_starting i K todo s'
    \<and> svc_out s' = svc_out s \<and> svc_net s' = svc_net s @ [(n, 0)]"
proof -
  from assms obtain f where f: "fsm_of i s = Some f" "set (um_keys (fsm_node_id_to_cnxt f)) = K" "fsm_open i K s"
    by (auto simp: list_starting_def fsm_open_def)
  obtain c where c: "map_of (fsm_node_id_to_cnxt f) n = Some c"
    using f(2) assms(2) by (cases "map_of (fsm_node_id_to_cnxt f) n") (auto simp: map_of_eq_None_iff)
  let ?c = "c\<lparr>lrn_client := True\<rparr>" and ?c2 = "c\<lparr>lrn_client := True, lrn_promise := True\<rparr>"
  let ?f = "f\<lparr>fsm_node_id_to_cnxt := um_assign n ?c (fsm_node_id_to_cnxt f)\<rparr>"
  let ?f2 = "?f\<lparr>fsm_node_id_to_cnxt := um_assign n ?c2 (fsm_node_id_to_cnxt ?f)\<rparr>"
  let ?s1 = "set_fsm i ?f s"
  let ?s = "set_fsm i ?f2 (?s1\<lparr>svc_net := svc_net s @ [(n, 0)]\<rparr>)"
  have idx: "lrn_reg_index c = 0" using assms(1) f(1) c by (auto simp: list_starting_def)
  have net: "set_fsm i ?f (s\<lparr>svc_net := svc_net s\<rparr>) = ?s1" by simp
  have "list_makeCyRpcClient (asking_net ord) i n s = Some ?s"
    using f(1) c idx
    by (simp add: list_makeCyRpcClient_def list_startCyRegListRpcCallFor_def net Let_def) (simp add: set_fsm_def)
  moreover have "fsm_open i K ?s1" by (rule fsm_open_cnxt [OF f(3,1) assms(2)])
  then have "fsm_open i K ?s" by (intro fsm_open_cnxt) (use assms(2) in simp_all)
  then have "list_starting i K todo ?s"
    using assms(1) f(1) idx by (auto simp: list_starting_def um_simps split: if_splits)
  ultimately show ?thesis by (intro exI [of _ ?s]) (simp, simp add: set_fsm_def)
qed

lemma list_starting_all:
  assumes "list_starting i K (set ns) s" "distinct ns" "set ns \<subseteq> K"
  shows "\<exists>s'. list_makeCyRpcClients (asking_net ord) i ns s = Some s' \<and> list_open i K (\<lambda>_. 0) s'
    \<and> svc_out s' = svc_out s \<and> svc_net s' = svc_net s @ map (\<lambda>n. (n, 0)) ns"
  using assms
proof (induction ns arbitrary: s)
  case Nil
  then show ?case by (auto simp: list_starting_def list_open_def)
next
  case (Cons n ns)
  from list_starting_step [of i K n "set ns" s ord] Cons.prems obtain s1 where
    "list_makeCyRpcClient (asking_net ord) i n s = Some s1" "list_starting i K (set ns) s1"
    "svc_out s1 = svc_out s" "svc_net s1 = svc_net s @ [(n, 0)]" by auto
  with Cons.IH [of s1] Cons.prems show ?case by auto
qed

fun list_inputs :: "u64 \<Rightarrow> list_request list \<Rightarrow> 'w list_service \<Rightarrow> 'w list_service option" where
  "list_inputs i [] s = Some s"
| "list_inputs i (q # qs) s = do { s' \<leftarrow> list_handleInput i q s; list_inputs i qs s' }"

definition list_collecting :: "u64 \<Rightarrow> u16 set \<Rightarrow> 'w list_service \<Rightarrow> bool" where
  "list_collecting i K s \<longleftrightarrow>
     (\<exists>f. fsm_of i s = Some f \<and> \<not> fsm_processing f \<and> um_wf (fsm_node_id_to_cnxt f)
        \<and> set (um_keys (fsm_node_id_to_cnxt f)) = K
        \<and> (\<forall>n c. map_of (fsm_node_id_to_cnxt f) n = Some c \<longrightarrow> lrn_reg_index c = 0))"

lemma list_handleInput_collecting:
  assumes "list_collecting i K s"
  shows "\<exists>s'. list_handleInput i q s = Some s' \<and> list_collecting i (K \<union> set (lrq_node_ids q)) s'
    \<and> svc_out s' = svc_out s \<and> svc_net s' = svc_net s"
proof -
  from assms obtain f where f: "fsm_of i s = Some f" "\<not> fsm_processing f" "um_wf (fsm_node_id_to_cnxt f)"
    "set (um_keys (fsm_node_id_to_cnxt f)) = K"
    "\<And>n c. map_of (fsm_node_id_to_cnxt f) n = Some c \<Longrightarrow> lrn_reg_index c = 0" by (auto simp: list_collecting_def)
  let ?c = "\<lparr>lrn_timeout = lrq_timeout_us q, lrn_reg_index = 0, lrn_client = False, lrn_promise = False\<rparr>"
  let ?f = "f\<lparr>fsm_node_id_to_cnxt := um_emplace_all (lrq_node_ids q) ?c (fsm_node_id_to_cnxt f)\<rparr>"
  have "list_handleInput i q s = Some (set_fsm i ?f s)" using f(1,2) by (simp add: list_handleInput_def)
  moreover have "list_collecting i (K \<union> set (lrq_node_ids q)) (set_fsm i ?f s)"
    using f(2-5) map_of_emplace_all [of "lrq_node_ids q" ?c "fsm_node_id_to_cnxt f"]
    by (fastforce simp: list_collecting_def um_simps)
  ultimately show ?thesis by (intro exI [of _ "set_fsm i ?f s"]) (simp, simp add: set_fsm_def)
qed

lemma list_inputs_collecting:
  assumes "list_collecting i K s"
  shows "\<exists>s'. list_inputs i qs s = Some s' \<and> list_collecting i (K \<union> (\<Union>q\<in>set qs. set (lrq_node_ids q))) s'
    \<and> svc_out s' = svc_out s \<and> svc_net s' = svc_net s"
  using assms
proof (induction qs arbitrary: K s)
  case (Cons q qs)
  from list_handleInput_collecting [OF Cons.prems, of q] obtain s1 where
    "list_handleInput i q s = Some s1" "list_collecting i (K \<union> set (lrq_node_ids q)) s1"
    "svc_out s1 = svc_out s" "svc_net s1 = svc_net s" by blast
  with Cons.IH [of "K \<union> set (lrq_node_ids q)" s1] show ?case by (auto simp: Un_assoc)
qed simp

section \<open>Properties\<close>

text \<open>
  C24. Listing registers is complete and in order. The nodes of all requests are asked for
  the names from index 0 on, each next index only after the name before it, and however
  the answers of the nodes interleave, the channel carries exactly the names (and the
  failures) in the order they arrived, and is completed, once, without error, after the
  last node has given its empty name or failed; then the state machine is released.
\<close>

theorem list_registers_session:
  fixes s :: "(u16 \<times> u16) list list_service" and q :: list_request and qs :: "list_request list"
  defines "i \<equiv> svc_next_fsm_id s" and "K \<equiv> (\<Union>q'\<in>set (q # qs). set (lrq_node_ids q'))"
  assumes "is_order ord" "list_answers_wf K evs" "K \<noteq> {}"
  shows "\<exists>s0 s1 s2 s3 ns. list_new_channel q s = Some (i, s0) \<and> list_inputs i qs s0 = Some s1 \<and>
    list_handleEvent (asking_net ord) i (ListCompleted True) s1 = Some s2 \<and>
    list_responses (asking_net ord) i evs s2 = Some s3 \<and> fsm_of i s3 = None \<and>
    svc_out s3 = svc_out s @ map (ChSend i) (concat (map list_reply evs)) @ [ChComplete i None False, ChRelease i] \<and>
    distinct ns \<and> set ns = K \<and> svc_net s3 = svc_net s @ map (\<lambda>n. (n, 0)) ns @ list_asks (\<lambda>_. 0) evs"
proof -
  let ?new = "set_fsm i \<lparr>fsm_processing = False, fsm_node_id_to_cnxt = [], fsm_registers = ()\<rparr> (s\<lparr>svc_next_fsm_id := i + 1\<rparr>)"
  have "list_collecting i {} ?new" by (simp add: list_collecting_def)
  from list_handleInput_collecting [OF this, of q] obtain s0 where
    s0: "list_handleInput i q ?new = Some s0" "list_collecting i (set (lrq_node_ids q)) s0"
      "svc_out s0 = svc_out s" "svc_net s0 = svc_net s" by (auto simp: set_fsm_def)
  from list_inputs_collecting [OF s0(2), of qs] obtain s1 where
    s1: "list_inputs i qs s0 = Some s1" "list_collecting i K s1" "svc_out s1 = svc_out s" "svc_net s1 = svc_net s"
    using s0(3,4) by (auto simp: K_def)
  from s1(2) obtain f where f: "fsm_of i s1 = Some f" "\<not> fsm_processing f" "um_wf (fsm_node_id_to_cnxt f)"
    "set (um_keys (fsm_node_id_to_cnxt f)) = K"
    "\<And>n c. map_of (fsm_node_id_to_cnxt f) n = Some c \<Longrightarrow> lrn_reg_index c = 0" by (auto simp: list_collecting_def)
  let ?s = "set_fsm i (f\<lparr>fsm_processing := True\<rparr>) s1" and ?ns = "ord (um_keys (fsm_node_id_to_cnxt f))"
  have ns: "distinct ?ns" "set ?ns = K"
    using f(3,4) is_order_distinct [OF assms(3)] is_order_set [OF assms(3)] by auto
  have open_s: "fsm_open i K ?s" using f assms(5) by (simp add: fsm_open_def)
  moreover have "n \<in> K" if "map_of (fsm_node_id_to_cnxt f) n = Some c" for n c
    using that f(4) by (auto dest!: map_of_SomeD intro: rev_image_eqI)
  ultimately have "list_starting i K (set ?ns) ?s" using f(5) ns(2) by (auto simp: list_starting_def)
  from list_starting_all [OF this ns(1)] ns(2) obtain s2 where
    s2: "list_makeCyRpcClients (asking_net ord) i ?ns ?s = Some s2" "list_open i K (\<lambda>_. 0) s2"
      "svc_out s2 = svc_out s" "svc_net s2 = svc_net s @ map (\<lambda>n. (n, 0)) ?ns"
    using s1(3,4) by (auto simp: set_fsm_def)
  have "fsm_node_id_to_cnxt f \<noteq> []" using f(4) assms(5) by auto
  then have "list_handleEvent (asking_net ord) i (ListCompleted True) s1 = Some s2"
    using f(1,2) s2(1) by (simp add: list_handleCompleted_def)
  moreover from list_responses_run [OF s2(2) assms(4), of ord] obtain s3 where
    "list_responses (asking_net ord) i evs s2 = Some s3" "fsm_of i s3 = None"
    "svc_out s3 = svc_out s2 @ map (ChSend i) (concat (map list_reply evs)) @ fsm_closing i"
    "svc_net s3 = svc_net s2 @ list_asks (\<lambda>_. 0) evs" by blast
  moreover have "list_new_channel q s = Some (i, s0)" using s0(1) by (simp add: list_new_channel_def i_def Let_def)
  ultimately show ?thesis using s1(1) s2(3,4) ns by (fastforce simp: fsm_closing_def)
qed

theorem list_registers_session_witness:
  "\<exists>s0 s2 s3. list_new_channel \<lparr>lrq_timeout_us = 1, lrq_node_ids = [5, 9]\<rparr> (list_init []) = Some (0, s0) \<and>
    list_handleEvent (asking_net rev) 0 (ListCompleted True) s0 = Some s2 \<and>
    list_responses (asking_net rev) 0
      [(5, ListName [1]), (9, ListFailure ResponsePromiseExpired), (5, ListName [2]), (5, ListName [])] s2 = Some s3 \<and>
    map lrr_item (sends_of 0 (svc_out s3)) = [[1], [], [2]] \<and> last (svc_out s3) = ChRelease 0"
proof -
  let ?q = "\<lparr>lrq_timeout_us = 1, lrq_node_ids = [5, 9]\<rparr>"
  let ?evs = "[(5, ListName [1]), (9, ListFailure ResponsePromiseExpired), (5, ListName [2]), (5, ListName [])]"
  have K: "(\<Union>q'\<in>set [?q]. set (lrq_node_ids q')) = {5, 9}" by auto
  have wf: "list_answers_wf {5, 9} ?evs" by auto
  have s: "svc_next_fsm_id (list_init []) = 0" "svc_out (list_init []) = []" by (simp_all add: list_init_def)
  have "\<exists>s0 s1 s2 s3 ns. list_new_channel ?q (list_init []) = Some (0, s0) \<and> list_inputs 0 [] s0 = Some s1 \<and>
      list_handleEvent (asking_net rev) 0 (ListCompleted True) s1 = Some s2 \<and>
      list_responses (asking_net rev) 0 ?evs s2 = Some s3 \<and> fsm_of 0 s3 = None \<and>
      svc_out s3 = [] @ map (ChSend 0) (concat (map list_reply ?evs)) @ [ChComplete 0 None False, ChRelease 0] \<and>
      distinct ns \<and> set ns = {5, 9} \<and> svc_net s3 = svc_net (list_init []) @ map (\<lambda>n. (n, 0)) ns @ list_asks (\<lambda>_. 0) ?evs"
    using list_registers_session [OF is_order_rev, where q = ?q and qs = "[]" and evs = ?evs and s = "list_init []"]
    unfolding K s using wf by blast
  then obtain s0 s2 s3 where run: "list_new_channel ?q (list_init []) = Some (0, s0)"
      "list_handleEvent (asking_net rev) 0 (ListCompleted True) s0 = Some s2"
      "list_responses (asking_net rev) 0 ?evs s2 = Some s3" and
    out: "svc_out s3 = map (ChSend 0) (concat (map list_reply ?evs)) @ [ChComplete 0 None False, ChRelease 0]"
    by (auto simp del: list_responses.simps list_reply.simps list_handleEvent.simps)
  have "map lrr_item (sends_of 0 (svc_out s3)) = [[1], [], [2]] \<and> last (svc_out s3) = ChRelease 0" by (simp add: out)
  with run show ?thesis by (intro exI [of _ s0] exI [of _ s2] exI [of _ s3]) (simp only: simp_thms)
qed

text \<open>
  The register index is 16 bits wide and wraps: a node that keeps giving names is
  asked for index 0 again after index 65535, so the service starts over instead of ending.
\<close>

theorem list_index_wraps:
  assumes "list_open i K idx s" "n \<in> K" "idx n = 65535" "name \<noteq> []"
  shows "\<exists>s'. list_handleNodeResponse (asking_net ord) i n (ListName name) s = Some s'
    \<and> svc_net s' = svc_net s @ [(n, 0)] \<and> list_open i K (idx(n := 0)) s'"
proof -
  have "idx n + 1 = 0" using assms(3) by simp
  then show ?thesis using list_step [OF assms(1,2), of ord "ListName name"] assms(4) by auto
qed

theorem list_index_wraps_witness:
  "\<exists>s'. list_handleNodeResponse (asking_net rev) 0 5 (ListName [1])
      ((list_init [])\<lparr>svc_id_to_fsm := [(0, \<lparr>fsm_processing = True, fsm_node_id_to_cnxt =
         [(5, \<lparr>lrn_timeout = 1, lrn_reg_index = 65535, lrn_client = True, lrn_promise = True\<rparr>)], fsm_registers = ()\<rparr>)]\<rparr>)
      = Some s' \<and> svc_net s' = [(5, 0)]"
proof -
  let ?c = "\<lparr>lrn_timeout = 1, lrn_reg_index = 65535, lrn_client = True, lrn_promise = True\<rparr>"
  let ?s = "(list_init [])\<lparr>svc_id_to_fsm := [(0, \<lparr>fsm_processing = True, fsm_node_id_to_cnxt = [(5, ?c)], fsm_registers = ()\<rparr>)]\<rparr>"
  have "list_open 0 {5} (\<lambda>_. 65535) ?s"
    by (auto simp: list_open_def fsm_open_def fsm_of_def list_init_def split: if_splits)
  from list_index_wraps [OF this, of 5 "[1]" rev] show ?thesis by (auto simp: list_init_def)
qed

end
