(* ===== verification/Access_Registers_Service.thy ===== *)
theory Access_Registers_Service
  imports Node_Fsm
begin

text \<open>
  \<^verbatim>\<open>src/daemon/engine/svc/node/access_registers_service.cpp\<close>: the service that reads or writes a
  list of registers on a set of nodes. Every node gets the registers one after the other;
  a register whose request cannot be sent is answered with an error and the loop goes on
  with the next one.

  The loop of \<open>startCyRegAccessRpcCallFor\<close> counts with a 16-bit index and need not end, so
  it is a partial function: \<open>None\<close> stands for a loop that does not end, or for undefined
  behaviour.
\<close>

section \<open>State\<close>

record reg_key_value =
  reg_key :: "byte list"
  reg_value :: "byte list"

record access_scope =
  acs_timeout_us :: u64
  acs_node_ids :: "u16 list"

datatype access_input = AccessEmpty | AccessScope access_scope | AccessRegister reg_key_value

record access_response =
  acr_error :: dsdl_error
  acr_node_id :: u16
  acr_register :: reg_key_value

record access_node_context =
  acn_timeout :: u64
  acn_reg_index :: u16
  acn_client :: bool
  acn_promise :: bool

type_synonym access_fsm = "(access_node_context, reg_key_value list) node_fsm"
type_synonym 'w access_service = "(access_node_context, reg_key_value list, access_response, 'w) node_service"
type_synonym 'w access_net = "(reg_key_value, 'w) cy_net"

definition access_init :: "'w \<Rightarrow> 'w access_service" where
  "access_init w = \<lparr>svc_next_fsm_id = 0, svc_id_to_fsm = [], svc_net = w, svc_out = []\<rparr>"

section \<open>Operations\<close>

definition access_complete :: "u64 \<Rightarrow> opt_error \<Rightarrow> 'w access_service \<Rightarrow> 'w access_service option" where
  [simp]: "access_complete i completion_opt_error s = fsm_complete i completion_opt_error s"

definition access_releaseNodeContext :: "u64 \<Rightarrow> u16 \<Rightarrow> 'w access_service \<Rightarrow> 'w access_service option" where
  [simp]: "access_releaseNodeContext i node_id s = fsm_releaseNodeContext i node_id s"

definition access_sendResponse ::
    "u64 \<Rightarrow> u16 \<Rightarrow> reg_key_value \<Rightarrow> opt_error \<Rightarrow> 'w access_service \<Rightarrow> 'w access_service option" where
  "access_sendResponse i node_id reg opt_error s =
     fsm_send i \<lparr>acr_error = optErrorToDsdlError opt_error, acr_node_id = node_id, acr_register = reg\<rparr> s"

definition access_set_cnxt :: "u64 \<Rightarrow> access_fsm \<Rightarrow> u16 \<Rightarrow> access_node_context \<Rightarrow> 'w access_service \<Rightarrow> 'w access_service" where
  "access_set_cnxt i f n c s = set_fsm i (f\<lparr>fsm_node_id_to_cnxt := um_assign n c (fsm_node_id_to_cnxt f)\<rparr>) s"

partial_function (option) access_startCyRegAccessRpcCallFor ::
    "'w access_net \<Rightarrow> u64 \<Rightarrow> u16 \<Rightarrow> 'w access_service \<Rightarrow> 'w access_service option" where
  "access_startCyRegAccessRpcCallFor net i node_id s = do {
     f \<leftarrow> fsm_of i s;
     node_cnxt \<leftarrow> map_of (fsm_node_id_to_cnxt f) node_id;
     if acn_client node_cnxt \<and> unat (acn_reg_index node_cnxt) < length (fsm_registers f) then
       let deadline = cy_now net (svc_net s) + acn_timeout node_cnxt;
           reg = fsm_registers f ! unat (acn_reg_index node_cnxt);
           result = cy_request net node_id deadline reg (svc_net s);
           s1 = s\<lparr>svc_net := snd result\<rparr>
       in case fst result of
            None \<Rightarrow> Some (access_set_cnxt i f node_id (node_cnxt\<lparr>acn_promise := True\<rparr>) s1)
          | Some cy_failure \<Rightarrow> do {
              s2 \<leftarrow> access_sendResponse i node_id \<lparr>reg_key = reg_key reg, reg_value = []\<rparr>
                      (cyFailureToOptError cy_failure) s1;
              access_startCyRegAccessRpcCallFor net i node_id
                (access_set_cnxt i f node_id (node_cnxt\<lparr>acn_reg_index := acn_reg_index node_cnxt + 1\<rparr>) s2)
            }
     else access_releaseNodeContext i node_id s
   }"

definition access_makeCyRpcClient :: "'w access_net \<Rightarrow> u64 \<Rightarrow> u16 \<Rightarrow> 'w access_service \<Rightarrow> 'w access_service option" where
  "access_makeCyRpcClient net i node_id s = do {
     f \<leftarrow> fsm_of i s;
     case map_of (fsm_node_id_to_cnxt f) node_id of
       None \<Rightarrow> Some s
     | Some node_cnxt \<Rightarrow>
         let (failure, w) = cy_makeClient net node_id (svc_net s);
             s1 = s\<lparr>svc_net := w\<rparr>
         in case failure of
              Some cy_failure \<Rightarrow> do {
                s2 \<leftarrow> access_sendResponse i node_id \<lparr>reg_key = [], reg_value = []\<rparr> (cyFailureToOptError cy_failure) s1;
                access_releaseNodeContext i node_id s2
              }
            | None \<Rightarrow>
                access_startCyRegAccessRpcCallFor net i node_id
                  (access_set_cnxt i f node_id (node_cnxt\<lparr>acn_client := True\<rparr>) s1)
   }"

fun access_makeCyRpcClients :: "'w access_net \<Rightarrow> u64 \<Rightarrow> u16 list \<Rightarrow> 'w access_service \<Rightarrow> 'w access_service option" where
  "access_makeCyRpcClients net i [] s = Some s"
| "access_makeCyRpcClients net i (node_id # node_ids) s =
     do { s' \<leftarrow> access_makeCyRpcClient net i node_id s; access_makeCyRpcClients net i node_ids s' }"

definition access_handleInput :: "u64 \<Rightarrow> access_input \<Rightarrow> 'w access_service \<Rightarrow> 'w access_service option" where
  "access_handleInput i input s = do {
     f \<leftarrow> fsm_of i s;
     if fsm_processing f then Some s
     else Some (case input of
         AccessEmpty \<Rightarrow> s
       | AccessScope scope \<Rightarrow>
           let cnxt = \<lparr>acn_timeout = acs_timeout_us scope, acn_reg_index = 0, acn_client = False, acn_promise = False\<rparr>
           in set_fsm i (f\<lparr>fsm_node_id_to_cnxt :=
                um_emplace_all (acs_node_ids scope) cnxt (fsm_node_id_to_cnxt f)\<rparr>) s
       | AccessRegister reg \<Rightarrow> set_fsm i (f\<lparr>fsm_registers := fsm_registers f @ [reg]\<rparr>) s)
   }"

definition access_handleCompleted :: "'w access_net \<Rightarrow> u64 \<Rightarrow> bool \<Rightarrow> 'w access_service \<Rightarrow> 'w access_service option" where
  "access_handleCompleted net i keep_alive s =
     (if \<not> keep_alive then access_complete i (Some (mkError Canceled)) s
      else do {
        f \<leftarrow> fsm_of i s;
        if fsm_processing f then Some s
        else
          let s1 = set_fsm i (f\<lparr>fsm_processing := True\<rparr>) s
          in if fsm_node_id_to_cnxt f = [] \<or> fsm_registers f = [] then access_complete i None s1
             else access_makeCyRpcClients net i (cy_order net (um_keys (fsm_node_id_to_cnxt f))) s1
      })"

datatype access_promise_result = AccessValue "byte list" | AccessFailure cy_failure

definition access_handleNodeResponse ::
    "'w access_net \<Rightarrow> u64 \<Rightarrow> u16 \<Rightarrow> access_promise_result \<Rightarrow> 'w access_service \<Rightarrow> 'w access_service option" where
  "access_handleNodeResponse net i node_id result s = do {
     f \<leftarrow> fsm_of i s;
     case map_of (fsm_node_id_to_cnxt f) node_id of
       None \<Rightarrow> Some s
     | Some node_cnxt \<Rightarrow>
         if unat (acn_reg_index node_cnxt) < length (fsm_registers f) then do {
           let reg = fsm_registers f ! unat (acn_reg_index node_cnxt);
           let (value, opt_error) = (case result of
                 AccessValue v \<Rightarrow> (v, None)
               | AccessFailure cy_failure \<Rightarrow> ([], cyFailureToOptError cy_failure));
           s1 \<leftarrow> access_sendResponse i node_id \<lparr>reg_key = reg_key reg, reg_value = value\<rparr> opt_error s;
           access_startCyRegAccessRpcCallFor net i node_id
             (access_set_cnxt i f node_id (node_cnxt\<lparr>acn_reg_index := acn_reg_index node_cnxt + 1\<rparr>) s1)
         }
         else None
   }"

definition access_new_channel :: "access_input \<Rightarrow> 'w access_service \<Rightarrow> (u64 \<times> 'w access_service) option" where
  "access_new_channel request s = do {
     let fsm_id = svc_next_fsm_id s;
     let s1 = set_fsm fsm_id \<lparr>fsm_processing = False, fsm_node_id_to_cnxt = [], fsm_registers = []\<rparr>
                (s\<lparr>svc_next_fsm_id := fsm_id + 1\<rparr>);
     s2 \<leftarrow> access_handleInput fsm_id request s1;
     Some (fsm_id, s2)
   }"

datatype access_event = AccessConnected | AccessInput access_input | AccessCompleted bool

fun access_handleEvent :: "'w access_net \<Rightarrow> u64 \<Rightarrow> access_event \<Rightarrow> 'w access_service \<Rightarrow> 'w access_service option" where
  "access_handleEvent net i AccessConnected s = Some s"
| "access_handleEvent net i (AccessInput input) s = access_handleInput i input s"
| "access_handleEvent net i (AccessCompleted keep_alive) s = access_handleCompleted net i keep_alive s"

section \<open>Sessions\<close>

text \<open>The register keys answered for a node.\<close>

definition acc_keys :: "u16 \<Rightarrow> access_response list \<Rightarrow> byte list list" where
  "acc_keys n rs = map (reg_key \<circ> acr_register) (filter (\<lambda>r. acr_node_id r = n) rs)"

lemma acc_keys_simps [simp]:
  "acc_keys n [] = []" "acc_keys n (rs @ rs') = acc_keys n rs @ acc_keys n rs'"
  "acc_keys n (r # rs) = (if acr_node_id r = n then [reg_key (acr_register r)] else []) @ acc_keys n rs"
  by (simp_all add: acc_keys_def)

text \<open>The condition on one node, given what its context is.\<close>

definition acc_node ::
    "reg_key_value list \<Rightarrow> u16 set \<Rightarrow> u16 option \<Rightarrow> access_response list \<Rightarrow> u16 \<Rightarrow> access_node_context option \<Rightarrow> bool" where
  "acc_node R todo mid rs n oc =
     (case oc of
        None \<Rightarrow> acc_keys n rs = map reg_key R
      | Some c \<Rightarrow> acc_keys n rs = map reg_key (take (unat (acn_reg_index c)) R)
          \<and> unat (acn_reg_index c) \<le> length R \<and> (mid \<noteq> Some n \<longrightarrow> unat (acn_reg_index c) < length R)
          \<and> (n \<notin> todo \<longrightarrow> acn_client c))"

text \<open>
  A running session over the registers \<open>R\<close> and the nodes \<open>K\<close>, with the output \<open>out\<close> before it:
  every node that is still worked on has been answered for the first \<open>reg_index\<close> registers,
  in order, every other node for all of them. The nodes of \<open>todo\<close> have no client yet; the
  node \<open>mid\<close> is between two registers.
\<close>

definition acc_inv ::
    "u64 \<Rightarrow> reg_key_value list \<Rightarrow> u16 set \<Rightarrow> access_response ch_action list \<Rightarrow> u16 set \<Rightarrow> u16 option \<Rightarrow>
     'w access_service \<Rightarrow> bool" where
  "acc_inv i R K out todo mid s \<longleftrightarrow>
     (\<exists>f rs. fsm_of i s = Some f \<and> fsm_processing f \<and> um_wf (fsm_node_id_to_cnxt f) \<and> fsm_node_id_to_cnxt f \<noteq> []
        \<and> fst ` set (fsm_node_id_to_cnxt f) \<subseteq> K \<and> fsm_registers f = R \<and> svc_out s = out @ map (ChSend i) rs
        \<and> acr_node_id ` set rs \<subseteq> K
        \<and> (\<forall>n\<in>K. acc_node R todo mid rs n (map_of (fsm_node_id_to_cnxt f) n)))"

definition acc_done ::
    "u64 \<Rightarrow> reg_key_value list \<Rightarrow> u16 set \<Rightarrow> access_response ch_action list \<Rightarrow> 'w access_service \<Rightarrow> bool" where
  "acc_done i R K out s \<longleftrightarrow> fsm_of i s = None \<and>
     (\<exists>rs. svc_out s = out @ map (ChSend i) rs @ fsm_closing i \<and> acr_node_id ` set rs \<subseteq> K
       \<and> (\<forall>n\<in>K. acc_keys n rs = map reg_key R))"

lemma acc_invI:
  assumes "fsm_of i s = Some f" "fsm_processing f" "um_wf (fsm_node_id_to_cnxt f)" "fsm_node_id_to_cnxt f \<noteq> []"
    "fst ` set (fsm_node_id_to_cnxt f) \<subseteq> K" "fsm_registers f = R" "svc_out s = out @ map (ChSend i) rs"
    "acr_node_id ` set rs \<subseteq> K" "\<And>n. n \<in> K \<Longrightarrow> acc_node R todo mid rs n (map_of (fsm_node_id_to_cnxt f) n)"
  shows "acc_inv i R K out todo mid s"
  unfolding acc_inv_def using assms by blast

lemma acc_invE:
  assumes "acc_inv i R K out todo mid s"
  obtains f rs where "fsm_of i s = Some f" "fsm_processing f" "um_wf (fsm_node_id_to_cnxt f)" "fsm_node_id_to_cnxt f \<noteq> []"
    "fst ` set (fsm_node_id_to_cnxt f) \<subseteq> K" "fsm_registers f = R" "svc_out s = out @ map (ChSend i) rs"
    "acr_node_id ` set rs \<subseteq> K" "\<And>n. n \<in> K \<Longrightarrow> acc_node R todo mid rs n (map_of (fsm_node_id_to_cnxt f) n)"
  using assms unfolding acc_inv_def
  by (elim exE conjE) (rule that, assumption+, erule (1) bspec)

lemma fsm_pending_Some: "fsm_of i s = Some f \<Longrightarrow> fsm_pending i s = um_keys (fsm_node_id_to_cnxt f)"
  by (simp add: fsm_pending_def)

lemma acc_pending_context:
  assumes "fsm_of i s = Some f" "n \<in> set (fsm_pending i s)"
  obtains c where "map_of (fsm_node_id_to_cnxt f) n = Some c"
  using assms by (cases "map_of (fsm_node_id_to_cnxt f) n") (auto simp: fsm_pending_Some map_of_eq_None_iff)

text \<open>One register answered: the node moves on to the next one.\<close>

lemma acc_inv_answer:
  fixes s :: "'w access_service" and w :: 'w and n :: u16 and r :: access_response
    and f :: access_fsm and c :: access_node_context and i :: u64
  assumes inv: "acc_inv i R K out todo mid s" "mid = None \<or> mid = Some n" and len: "length R < 2 ^ 16"
    and f: "fsm_of i s = Some f" "map_of (fsm_node_id_to_cnxt f) n = Some c" "unat (acn_reg_index c) < length R"
    and r: "acr_node_id r = n" "reg_key (acr_register r) = reg_key (R ! unat (acn_reg_index c))"
  defines "s1 \<equiv> access_set_cnxt i f n (c\<lparr>acn_reg_index := acn_reg_index c + 1\<rparr>) (fsm_emit [ChSend i r] (s\<lparr>svc_net := w\<rparr>))"
  shows "acc_inv i R K out todo (Some n) s1" "set (fsm_pending i s1) = set (fsm_pending i s)"
proof -
  from inv(1) f(1) obtain rs where g: "fsm_processing f" "um_wf (fsm_node_id_to_cnxt f)" "fsm_node_id_to_cnxt f \<noteq> []"
    "fst ` set (fsm_node_id_to_cnxt f) \<subseteq> K" "fsm_registers f = R" "svc_out s = out @ map (ChSend i) rs"
    "acr_node_id ` set rs \<subseteq> K" "\<And>m. m \<in> K \<Longrightarrow> acc_node R todo mid rs m (map_of (fsm_node_id_to_cnxt f) m)"
    by (auto elim: acc_invE)
  have nK: "n \<in> K" using g(4) map_of_SomeD [OF f(2)] by force
  let ?c = "c\<lparr>acn_reg_index := acn_reg_index c + 1\<rparr>"
  let ?f = "f\<lparr>fsm_node_id_to_cnxt := um_assign n ?c (fsm_node_id_to_cnxt f)\<rparr>"
  have suc: "unat (acn_reg_index c + 1) = Suc (unat (acn_reg_index c))"
    using f(3) len by (simp add: unat_plus_if' )
  have "acc_node R todo (Some n) (rs @ [r]) m (map_of (fsm_node_id_to_cnxt ?f) m)" if "m \<in> K" for m
    using g(8) [OF that] f r suc inv(2)
    by (auto simp: acc_node_def um_simps take_Suc_conv_app_nth split: option.splits if_splits)
  then show "acc_inv i R K out todo (Some n) s1"
    using g nK r(1) by (intro acc_invI [where f = ?f and rs = "rs @ [r]"])
      (simp_all add: s1_def access_set_cnxt_def um_simps um_assign_ne_nil)
  show "set (fsm_pending i s1) = set (fsm_pending i s)"
    using f map_of_SomeD [OF f(2)] by (force simp: s1_def access_set_cnxt_def fsm_pending_def um_simps)
qed

text \<open>All registers answered: the node is released, and with the last one the session ends.\<close>

lemma acc_inv_release:
  assumes inv: "acc_inv i R K out todo (Some n) s"
    and f: "fsm_of i s = Some f" "map_of (fsm_node_id_to_cnxt f) n = Some c" "unat (acn_reg_index c) = length R"
  shows "\<exists>s'. fsm_releaseNodeContext i n s = Some s' \<and>
    (if set (fsm_pending i s) = {n} then acc_done i R K out s'
     else acc_inv i R K out todo None s' \<and> set (fsm_pending i s') = set (fsm_pending i s) - {n})"
proof -
  from inv f(1) obtain rs where g: "fsm_processing f" "um_wf (fsm_node_id_to_cnxt f)" "fsm_node_id_to_cnxt f \<noteq> []"
    "fst ` set (fsm_node_id_to_cnxt f) \<subseteq> K" "fsm_registers f = R" "svc_out s = out @ map (ChSend i) rs"
    "acr_node_id ` set rs \<subseteq> K" "\<And>m. m \<in> K \<Longrightarrow> acc_node R todo (Some n) rs m (map_of (fsm_node_id_to_cnxt f) m)"
    by (auto elim: acc_invE)
  have nK: "n \<in> K" and np: "n \<in> fst ` set (fsm_node_id_to_cnxt f)"
    using g(4) map_of_SomeD [OF f(2)] by force+
  have keys: "acc_keys n rs = map reg_key R" using g(8) [OF nK] f by (simp add: acc_node_def)
  let ?m = "um_erase n (fsm_node_id_to_cnxt f)"
  have empty: "?m = [] \<longleftrightarrow> set (fsm_pending i s) = {n}"
    using np f(1) by (auto simp: um_erase_eq_nil_iff fsm_pending_Some)
  show ?thesis
  proof (cases "set (fsm_pending i s) = {n}")
    case True
    have "acc_keys m rs = map reg_key R" if "m \<in> K" for m
    proof (cases "m = n")
      case False
      with True f(1) have "map_of (fsm_node_id_to_cnxt f) m = None" by (auto simp: map_of_eq_None_iff fsm_pending_Some)
      with g(8) [OF that] show ?thesis by (simp add: acc_node_def)
    qed (use keys in simp)
    with True f(1) empty g(6,7) show ?thesis
      by (auto simp: fsm_releaseNodeContext_def fsm_complete_def acc_done_def fsm_closing_def)
  next
    case False
    let ?f = "f\<lparr>fsm_node_id_to_cnxt := ?m\<rparr>" and ?s = "set_fsm i (f\<lparr>fsm_node_id_to_cnxt := ?m\<rparr>) s"
    have "acc_node R todo None rs m (map_of ?m m)" if "m \<in> K" for m
      using g(8) [OF that] keys by (auto simp: acc_node_def um_simps split: option.splits)
    then have "acc_inv i R K out todo None ?s"
      using g False empty by (intro acc_invI [where f = ?f and rs = rs]) (auto simp: um_simps)
    moreover have "set (fsm_pending i ?s) = set (fsm_pending i s) - {n}"
      using f(1) by (simp add: fsm_pending_def um_simps)
    ultimately show ?thesis using False empty f(1) by (simp add: fsm_releaseNodeContext_def)
  qed
qed

text \<open>The registers a node is still to be asked for.\<close>

definition acc_rem :: "u64 \<Rightarrow> 'w access_service \<Rightarrow> u16 \<Rightarrow> nat" where
  "acc_rem i s n = (case fsm_of i s of None \<Rightarrow> 0 | Some f \<Rightarrow>
     (case map_of (fsm_node_id_to_cnxt f) n of None \<Rightarrow> 0
      | Some c \<Rightarrow> length (fsm_registers f) - unat (acn_reg_index c)))"

lemma acc_inv_weaken: "acc_inv i R K out todo None s \<Longrightarrow> acc_inv i R K out todo mid s"
  by (force simp: acc_inv_def acc_node_def split: option.splits)

lemma acc_rem_set_cnxt:
  "fsm_of i s = Some f \<Longrightarrow> acc_rem i (access_set_cnxt i f n c s') m =
     (if m = n then length (fsm_registers f) - unat (acn_reg_index c) else acc_rem i s m)"
  by (simp add: acc_rem_def access_set_cnxt_def um_simps split: option.split)

text \<open>A context that keeps its index and has a client.\<close>

lemma acc_inv_cnxt:
  fixes s :: "'w access_service" and w :: 'w and n :: u16 and f :: access_fsm and c' :: access_node_context and i :: u64
  assumes inv: "acc_inv i R K out todo mid s" "mid = None \<or> mid = Some n"
    and f: "fsm_of i s = Some f" "map_of (fsm_node_id_to_cnxt f) n = Some c" "unat (acn_reg_index c) < length R"
    and c': "acn_reg_index c' = acn_reg_index c" "acn_client c'"
  defines "s1 \<equiv> access_set_cnxt i f n c' (s\<lparr>svc_net := w\<rparr>)"
  shows "acc_inv i R K out (todo - {n}) None s1" "set (fsm_pending i s1) = set (fsm_pending i s)"
    "acc_rem i s1 = acc_rem i s"
proof -
  from inv(1) f(1) obtain rs where g: "fsm_processing f" "um_wf (fsm_node_id_to_cnxt f)" "fsm_node_id_to_cnxt f \<noteq> []"
    "fst ` set (fsm_node_id_to_cnxt f) \<subseteq> K" "fsm_registers f = R" "svc_out s = out @ map (ChSend i) rs"
    "acr_node_id ` set rs \<subseteq> K" "\<And>m. m \<in> K \<Longrightarrow> acc_node R todo mid rs m (map_of (fsm_node_id_to_cnxt f) m)"
    by (auto elim: acc_invE)
  have nK: "n \<in> K" using g(4) map_of_SomeD [OF f(2)] by force
  let ?f = "f\<lparr>fsm_node_id_to_cnxt := um_assign n c' (fsm_node_id_to_cnxt f)\<rparr>"
  have "acc_node R (todo - {n}) None rs m (map_of (fsm_node_id_to_cnxt ?f) m)" if "m \<in> K" for m
    using g(8) [OF that] f c' inv(2) by (auto simp: acc_node_def um_simps split: option.splits if_splits)
  then show "acc_inv i R K out (todo - {n}) None s1"
    using g nK by (intro acc_invI [where f = ?f and rs = rs]) (simp_all add: s1_def access_set_cnxt_def um_simps)
  show "set (fsm_pending i s1) = set (fsm_pending i s)"
    using f map_of_SomeD [OF f(2)] by (force simp: s1_def access_set_cnxt_def fsm_pending_def um_simps)
  show "acc_rem i s1 = acc_rem i s"
    using f c'(1) by (auto simp: s1_def fun_eq_iff acc_rem_set_cnxt) (simp add: acc_rem_def)
qed

lemma acc_rem_release:
  assumes "fsm_releaseNodeContext i n s = Some s'"
  shows "acc_rem i s' m \<le> acc_rem i s m"
  using assms
  by (auto simp: fsm_releaseNodeContext_def fsm_complete_def acc_rem_def Let_def bind_eq_Some_conv um_simps
      split: if_splits option.splits)

text \<open>
  What is left of a session after a node has been worked on: it is over if the node was the
  last one, and otherwise it goes on with the other nodes (and perhaps with this one).
\<close>

definition acc_next ::
    "u64 \<Rightarrow> reg_key_value list \<Rightarrow> u16 set \<Rightarrow> access_response ch_action list \<Rightarrow> u16 set \<Rightarrow> u16 \<Rightarrow>
     'w access_service \<Rightarrow> 'w access_service \<Rightarrow> bool" where
  "acc_next i R K out todo n s s' \<longleftrightarrow>
     (set (fsm_pending i s) = {n} \<and> acc_done i R K out s' \<or>
      acc_inv i R K out todo None s' \<and> set (fsm_pending i s) - {n} \<subseteq> set (fsm_pending i s')) \<and>
     (\<forall>m. acc_rem i s' m \<le> acc_rem i s m)"

lemma acc_start:
  assumes "acc_inv i R K out todo (Some n) s" "n \<in> set (fsm_pending i s)" "n \<notin> todo" "length R < 2 ^ 16"
  shows "\<exists>s'. access_startCyRegAccessRpcCallFor net i n s = Some s' \<and> acc_next i R K out todo n s s'"
  using assms(1,2)
proof (induction "acc_rem i s n" arbitrary: s rule: less_induct)
  case (less s)
  from less.prems(1) obtain f where f: "fsm_of i s = Some f" "fsm_registers f = R" "fst ` set (fsm_node_id_to_cnxt f) \<subseteq> K"
    and nodes: "\<exists>rs. \<forall>m\<in>K. acc_node R todo (Some n) rs m (map_of (fsm_node_id_to_cnxt f) m)"
    unfolding acc_inv_def by blast
  obtain c where c: "map_of (fsm_node_id_to_cnxt f) n = Some c" using f(1) less.prems(2) by (rule acc_pending_context)
  then have nK: "n \<in> K" using f(3) map_of_SomeD by force
  with nodes c assms(3) have ci: "unat (acn_reg_index c) \<le> length R" "acn_client c" by (auto simp: acc_node_def)
  show ?case
  proof (cases "unat (acn_reg_index c) < length R")
    case False
    with ci have len: "unat (acn_reg_index c) = length R" by simp
    from acc_inv_release [OF less.prems(1) f(1) c len] obtain s' where
      "fsm_releaseNodeContext i n s = Some s'"
      "if set (fsm_pending i s) = {n} then acc_done i R K out s'
       else acc_inv i R K out todo None s' \<and> set (fsm_pending i s') = set (fsm_pending i s) - {n}" by blast
    with acc_rem_release [of i n s s'] show ?thesis
      using f c False by (subst access_startCyRegAccessRpcCallFor.simps) (auto simp: acc_next_def split: if_splits)
  next
    case True
    let ?reg = "R ! unat (acn_reg_index c)"
    obtain failure w where req: "cy_request net n (cy_now net (svc_net s) + acn_timeout c) ?reg (svc_net s) = (failure, w)"
      by (cases "cy_request net n (cy_now net (svc_net s) + acn_timeout c) ?reg (svc_net s)")
    note unf = access_startCyRegAccessRpcCallFor.simps [of net i n s]
    show ?thesis
    proof (cases failure)
      case None
      let ?c = "c\<lparr>acn_promise := True\<rparr>"
      let ?s = "access_set_cnxt i f n ?c (s\<lparr>svc_net := w\<rparr>)"
      have "access_startCyRegAccessRpcCallFor net i n s = Some ?s"
        unfolding unf using f c ci True req None by (simp add: Let_def)
      moreover have "acc_next i R K out todo n s ?s"
        using acc_inv_cnxt [OF less.prems(1) _ f(1) c True, of ?c w] ci assms(3) by (auto simp: acc_next_def)
      ultimately show ?thesis by blast
    next
      case (Some cf)
      let ?r = "\<lparr>acr_error = optErrorToDsdlError (cyFailureToOptError cf), acr_node_id = n,
                 acr_register = \<lparr>reg_key = reg_key ?reg, reg_value = []\<rparr>\<rparr>"
      let ?s = "access_set_cnxt i f n (c\<lparr>acn_reg_index := acn_reg_index c + 1\<rparr>) (fsm_emit [ChSend i ?r] (s\<lparr>svc_net := w\<rparr>))"
      have step: "access_startCyRegAccessRpcCallFor net i n s = access_startCyRegAccessRpcCallFor net i n ?s"
        by (subst unf) (use f c ci True req Some in \<open>simp add: Let_def access_sendResponse_def fsm_send_def\<close>)
      have inv: "acc_inv i R K out todo (Some n) ?s" "set (fsm_pending i ?s) = set (fsm_pending i s)"
        using acc_inv_answer [OF less.prems(1) _ assms(4) f(1) c True, of ?r w] by simp_all
      have suc: "unat (acn_reg_index c + 1) = Suc (unat (acn_reg_index c))"
        using True assms(4) by (simp add: unat_plus_if')
      have now: "acc_rem i s n = length R - unat (acn_reg_index c)" using f c by (simp add: acc_rem_def)
      have rem: "acc_rem i ?s m \<le> acc_rem i s m" "acc_rem i ?s n < acc_rem i s n" for m
        using now f(2) True suc by (auto simp: acc_rem_set_cnxt [OF f(1)])
      have "n \<in> set (fsm_pending i ?s)" using inv(2) less.prems(2) by simp
      from less.hyps [OF rem(2) inv(1) this] obtain s' where
        "access_startCyRegAccessRpcCallFor net i n ?s = Some s'" "acc_next i R K out todo n ?s s'" by blast
      with step inv(2) rem(1) show ?thesis unfolding acc_next_def by (auto intro: order_trans)
    qed
  qed
qed

section \<open>The start of the calls and the answers\<close>

definition acc_state ::
    "u64 \<Rightarrow> reg_key_value list \<Rightarrow> u16 set \<Rightarrow> access_response ch_action list \<Rightarrow> 'w access_service \<Rightarrow> bool" where
  "acc_state i R K out s \<longleftrightarrow> acc_done i R K out s \<or> acc_inv i R K out {} None s"

lemma acc_inv_context:
  assumes "acc_inv i R K out todo None s" "n \<in> set (fsm_pending i s)"
  obtains f c where "fsm_of i s = Some f" "fsm_registers f = R" "map_of (fsm_node_id_to_cnxt f) n = Some c"
    "unat (acn_reg_index c) < length R" "n \<in> K" "n \<notin> todo \<Longrightarrow> acn_client c"
    "acc_rem i s n = length R - unat (acn_reg_index c)"
proof -
  from assms(1) obtain f where f: "fsm_of i s = Some f" "fsm_registers f = R" "fst ` set (fsm_node_id_to_cnxt f) \<subseteq> K"
    and nodes: "\<exists>rs. \<forall>m\<in>K. acc_node R todo None rs m (map_of (fsm_node_id_to_cnxt f) m)" unfolding acc_inv_def by blast
  obtain c where c: "map_of (fsm_node_id_to_cnxt f) n = Some c" using f(1) assms(2) by (rule acc_pending_context)
  then have nK: "n \<in> K" using f(3) map_of_SomeD by force
  with nodes c have "unat (acn_reg_index c) < length R" "n \<notin> todo \<Longrightarrow> acn_client c" by (auto simp: acc_node_def)
  moreover have "acc_rem i s n = length R - unat (acn_reg_index c)" using f c by (simp add: acc_rem_def)
  ultimately show thesis using that f(1,2) c nK by blast
qed

lemma acc_make_client:
  assumes "acc_inv i R K out (insert n todo) None s" "n \<in> set (fsm_pending i s)" "n \<notin> todo" "length R < 2 ^ 16"
    and ok: "fst (cy_makeClient net n (svc_net s)) = None"
  shows "\<exists>s'. access_makeCyRpcClient net i n s = Some s' \<and> acc_next i R K out todo n s s'"
proof -
  obtain f c where f: "fsm_of i s = Some f" "fsm_registers f = R" "map_of (fsm_node_id_to_cnxt f) n = Some c"
    "unat (acn_reg_index c) < length R" using assms(1,2) by (rule acc_inv_context)
  obtain w where w: "cy_makeClient net n (svc_net s) = (None, w)" using ok by (cases "cy_makeClient net n (svc_net s)") simp
  let ?c = "c\<lparr>acn_client := True\<rparr>"
  let ?s = "access_set_cnxt i f n ?c (s\<lparr>svc_net := w\<rparr>)"
  have "insert n todo - {n} = todo" using assms(3) by blast
  then have s: "acc_inv i R K out todo None ?s" "set (fsm_pending i ?s) = set (fsm_pending i s)" "acc_rem i ?s = acc_rem i s"
    using acc_inv_cnxt [OF assms(1) _ f(1,3,4), of ?c w] by simp_all
  have "n \<in> set (fsm_pending i ?s)" using s(2) assms(2) by simp
  from acc_start [OF acc_inv_weaken [OF s(1)] this assms(3,4), of net] obtain s' where
    "access_startCyRegAccessRpcCallFor net i n ?s = Some s'" "acc_next i R K out todo n ?s s'" by blast
  moreover have "access_makeCyRpcClient net i n s = access_startCyRegAccessRpcCallFor net i n ?s"
    using f w by (simp add: access_makeCyRpcClient_def)
  ultimately show ?thesis using s(2,3) by (auto simp: acc_next_def)
qed

lemma acc_make_clients:
  assumes "acc_inv i R K out (set ns) None s" "distinct ns" "set ns \<subseteq> set (fsm_pending i s)" "length R < 2 ^ 16"
    and ok: "\<And>n w. fst (cy_makeClient net n w) = None"
  shows "\<exists>s'. access_makeCyRpcClients net i ns s = Some s' \<and> acc_state i R K out s' \<and> (\<forall>m. acc_rem i s' m \<le> acc_rem i s m)"
  using assms(1-3)
proof (induction ns arbitrary: s)
  case (Cons n ns)
  have "acc_inv i R K out (insert n (set ns)) None s" "n \<in> set (fsm_pending i s)" "n \<notin> set ns"
    using Cons.prems by simp_all
  from acc_make_client [OF this assms(4) ok] obtain s1 where
    s1: "access_makeCyRpcClient net i n s = Some s1" "acc_next i R K out (set ns) n s s1" by blast
  from s1(2) consider "set (fsm_pending i s) = {n}" "acc_done i R K out s1"
    | "acc_inv i R K out (set ns) None s1" "set (fsm_pending i s) - {n} \<subseteq> set (fsm_pending i s1)"
    by (auto simp: acc_next_def)
  then show ?case
  proof cases
    case 1
    then have "ns = []" using Cons.prems(2,3) by (cases ns) auto
    with 1 s1 show ?thesis by (auto simp: acc_state_def acc_next_def)
  next
    case 2
    then have "set ns \<subseteq> set (fsm_pending i s1)" using Cons.prems(2,3) by auto
    from Cons.IH [OF 2(1) _ this] Cons.prems(2) obtain s' where
      "access_makeCyRpcClients net i ns s1 = Some s'" "acc_state i R K out s'" "\<forall>m. acc_rem i s' m \<le> acc_rem i s1 m" by auto
    with s1 show ?thesis by (auto simp: acc_next_def intro: order_trans)
  qed
qed (simp add: acc_state_def)

lemma acc_response:
  assumes "acc_inv i R K out {} None s" "n \<in> set (fsm_pending i s)" "length R < 2 ^ 16"
  shows "\<exists>s'. access_handleNodeResponse net i n r s = Some s' \<and> acc_state i R K out s'
    \<and> (\<forall>m. acc_rem i s' m \<le> acc_rem i s m) \<and> acc_rem i s' n < acc_rem i s n"
proof -
  obtain f c where f: "fsm_of i s = Some f" "fsm_registers f = R" "map_of (fsm_node_id_to_cnxt f) n = Some c"
    "unat (acn_reg_index c) < length R" "acc_rem i s n = length R - unat (acn_reg_index c)"
    using assms(1,2) by (rule acc_inv_context)
  define v where "v = (case r of AccessValue v \<Rightarrow> v | _ \<Rightarrow> [])"
  define e where "e = (case r of AccessValue v \<Rightarrow> None | AccessFailure cf \<Rightarrow> cyFailureToOptError cf)"
  let ?r = "\<lparr>acr_error = optErrorToDsdlError e, acr_node_id = n,
             acr_register = \<lparr>reg_key = reg_key (R ! unat (acn_reg_index c)), reg_value = v\<rparr>\<rparr>"
  let ?s = "access_set_cnxt i f n (c\<lparr>acn_reg_index := acn_reg_index c + 1\<rparr>) (fsm_emit [ChSend i ?r] s)"
  have inv: "acc_inv i R K out {} (Some n) ?s" "set (fsm_pending i ?s) = set (fsm_pending i s)"
    using acc_inv_answer [OF assms(1) _ assms(3) f(1,3,4), of ?r "svc_net s"] by simp_all
  have suc: "unat (acn_reg_index c + 1) = Suc (unat (acn_reg_index c))"
    using f(4) assms(3) by (simp add: unat_plus_if')
  have rem: "acc_rem i ?s m \<le> acc_rem i s m" "acc_rem i ?s n < acc_rem i s n" for m
    using f(2,4,5) suc by (auto simp: acc_rem_set_cnxt [OF f(1)])
  have "n \<in> set (fsm_pending i ?s)" using inv(2) assms(2) by simp
  from acc_start [OF inv(1) this _ assms(3), of net] obtain s' where
    s': "access_startCyRegAccessRpcCallFor net i n ?s = Some s'" "acc_next i R K out {} n ?s s'" by blast
  moreover have "access_handleNodeResponse net i n r s = access_startCyRegAccessRpcCallFor net i n ?s"
    using f by (simp add: access_handleNodeResponse_def access_sendResponse_def fsm_send_def v_def e_def Let_def
        split: access_promise_result.splits)
  moreover have "acc_rem i s' n < acc_rem i s n" "\<forall>m. acc_rem i s' m \<le> acc_rem i s m"
    using s'(2) rem unfolding acc_next_def by (meson order_trans le_less_trans)+
  ultimately show ?thesis unfolding acc_next_def acc_state_def by metis
qed

text \<open>
  Answers as they come from the network: the promise of a node that has been released is
  gone, so nothing is called for it.
\<close>

fun access_run ::
    "'w access_net \<Rightarrow> u64 \<Rightarrow> (u16 \<times> access_promise_result) list \<Rightarrow> 'w access_service \<Rightarrow> 'w access_service option" where
  "access_run net i [] s = Some s"
| "access_run net i ((n, r) # evs) s =
     (if n \<in> set (fsm_pending i s) then do { s' \<leftarrow> access_handleNodeResponse net i n r s; access_run net i evs s' }
      else access_run net i evs s)"

lemma acc_rem_not_pending: "n \<notin> set (fsm_pending i s) \<Longrightarrow> acc_rem i s n = 0"
  by (cases "fsm_of i s") (simp_all add: acc_rem_def fsm_pending_def map_of_eq_None_iff [symmetric])

lemma acc_run:
  assumes "acc_state i R K out s" "length R < 2 ^ 16"
  shows "\<exists>s'. access_run net i evs s = Some s' \<and> acc_state i R K out s'
    \<and> (\<forall>m. acc_rem i s' m \<le> acc_rem i s m - count_list (map fst evs) m)"
  using assms(1)
proof (induction evs arbitrary: s)
  case (Cons ev evs)
  obtain n r where ev: "ev = (n, r)" by (cases ev)
  show ?case
  proof (cases "n \<in> set (fsm_pending i s)")
    case False
    from Cons.IH [OF Cons.prems] obtain s' where
      s': "access_run net i evs s = Some s'" "acc_state i R K out s'"
        "\<And>m. acc_rem i s' m \<le> acc_rem i s m - count_list (map fst evs) m" by blast
    have "acc_rem i s' m \<le> acc_rem i s m - count_list (map fst (ev # evs)) m" for m
      using s'(3) [of m] acc_rem_not_pending [OF False] ev by auto
    with False ev s' show ?thesis by simp
  next
    case True
    then have "acc_inv i R K out {} None s" using Cons.prems by (auto simp: acc_state_def acc_done_def fsm_pending_def)
    from acc_response [OF this True assms(2), of net r] obtain s1 where
      s1: "access_handleNodeResponse net i n r s = Some s1" "acc_state i R K out s1"
        "\<forall>m. acc_rem i s1 m \<le> acc_rem i s m" "acc_rem i s1 n < acc_rem i s n" by blast
    from Cons.IH [OF s1(2)] obtain s' where
      s': "access_run net i evs s1 = Some s'" "acc_state i R K out s'"
        "\<And>m. acc_rem i s' m \<le> acc_rem i s1 m - count_list (map fst evs) m" by blast
    have "acc_rem i s' m \<le> acc_rem i s m - count_list (map fst (ev # evs)) m" for m
      using s'(3) [of m] s1(3,4) ev by (cases "m = n") (auto dest: spec [of _ m] intro: order_trans diff_le_mono)
    with True ev s1 s' show ?thesis by simp
  qed
qed simp

section \<open>The requests of a session\<close>

fun input_nodes :: "access_input \<Rightarrow> u16 set" where
  "input_nodes (AccessScope scope) = set (acs_node_ids scope)"
| "input_nodes _ = {}"

fun input_registers :: "access_input \<Rightarrow> reg_key_value list" where
  "input_registers (AccessRegister reg) = [reg]"
| "input_registers _ = []"

fun access_inputs :: "u64 \<Rightarrow> access_input list \<Rightarrow> 'w access_service \<Rightarrow> 'w access_service option" where
  "access_inputs i [] s = Some s"
| "access_inputs i (q # qs) s = do { s' \<leftarrow> access_handleInput i q s; access_inputs i qs s' }"

definition acc_collecting :: "u64 \<Rightarrow> u16 set \<Rightarrow> reg_key_value list \<Rightarrow> 'w access_service \<Rightarrow> bool" where
  "acc_collecting i K R s \<longleftrightarrow>
     (\<exists>f. fsm_of i s = Some f \<and> \<not> fsm_processing f \<and> um_wf (fsm_node_id_to_cnxt f)
        \<and> set (um_keys (fsm_node_id_to_cnxt f)) = K \<and> fsm_registers f = R
        \<and> (\<forall>n c. map_of (fsm_node_id_to_cnxt f) n = Some c \<longrightarrow> acn_reg_index c = 0))"

lemma acc_handleInput:
  assumes "acc_collecting i K R s"
  shows "\<exists>s'. access_handleInput i q s = Some s' \<and> acc_collecting i (K \<union> input_nodes q) (R @ input_registers q) s'
    \<and> svc_out s' = svc_out s"
proof -
  from assms obtain f where f: "fsm_of i s = Some f" "\<not> fsm_processing f" "um_wf (fsm_node_id_to_cnxt f)"
    "set (um_keys (fsm_node_id_to_cnxt f)) = K" "fsm_registers f = R"
    "\<And>n c. map_of (fsm_node_id_to_cnxt f) n = Some c \<Longrightarrow> acn_reg_index c = 0" by (auto simp: acc_collecting_def)
  show ?thesis
  proof (cases q)
    case (AccessScope scope)
    let ?c = "\<lparr>acn_timeout = acs_timeout_us scope, acn_reg_index = 0, acn_client = False, acn_promise = False\<rparr>"
    let ?f = "f\<lparr>fsm_node_id_to_cnxt := um_emplace_all (acs_node_ids scope) ?c (fsm_node_id_to_cnxt f)\<rparr>"
    have "acc_collecting i (K \<union> set (acs_node_ids scope)) R (set_fsm i ?f s)"
      using f(2-) map_of_emplace_all [of "acs_node_ids scope" ?c "fsm_node_id_to_cnxt f"]
      by (fastforce simp: acc_collecting_def um_simps)
    with AccessScope f(1,2) show ?thesis by (simp add: access_handleInput_def)
  qed (use f assms in \<open>auto simp: access_handleInput_def acc_collecting_def\<close>)
qed

lemma acc_inputs:
  assumes "acc_collecting i K R s"
  shows "\<exists>s'. access_inputs i qs s = Some s' \<and> svc_out s' = svc_out s
    \<and> acc_collecting i (K \<union> (\<Union>q\<in>set qs. input_nodes q)) (R @ concat (map input_registers qs)) s'"
  using assms
proof (induction qs arbitrary: K R s)
  case (Cons q qs)
  from acc_handleInput [OF Cons.prems, of q] obtain s1 where
    "access_handleInput i q s = Some s1" "acc_collecting i (K \<union> input_nodes q) (R @ input_registers q) s1"
    "svc_out s1 = svc_out s" by blast
  with Cons.IH [of "K \<union> input_nodes q" "R @ input_registers q" s1] show ?case by (auto simp: Un_assoc)
qed simp

lemma acc_begin:
  fixes s :: "'w access_service" and q :: access_input and qs :: "access_input list"
  defines "i \<equiv> svc_next_fsm_id s" and "K \<equiv> (\<Union>q'\<in>set (q # qs). input_nodes q')"
    and "R \<equiv> concat (map input_registers (q # qs))"
  shows "\<exists>s0 s1. access_new_channel q s = Some (i, s0) \<and> access_inputs i qs s0 = Some s1
    \<and> acc_collecting i K R s1 \<and> svc_out s1 = svc_out s"
proof -
  let ?new = "set_fsm i \<lparr>fsm_processing = False, fsm_node_id_to_cnxt = [], fsm_registers = []\<rparr> (s\<lparr>svc_next_fsm_id := i + 1\<rparr>)"
  have "acc_collecting i {} [] ?new" by (simp add: acc_collecting_def)
  from acc_handleInput [OF this, of q] obtain s0 where
    s0: "access_handleInput i q ?new = Some s0" "acc_collecting i (input_nodes q) (input_registers q) s0"
      "svc_out s0 = svc_out s" by (auto simp: set_fsm_def)
  from acc_inputs [OF s0(2), of qs] s0 show ?thesis
    by (auto simp: K_def R_def access_new_channel_def i_def Let_def)
qed

text \<open>From the collected requests to the calls.\<close>

lemma acc_completed:
  assumes "acc_collecting i K R s" "is_order (cy_order net)" "K \<noteq> {}" "R \<noteq> []" "length R < 2 ^ 16"
    and ok: "\<And>n w. fst (cy_makeClient net n w) = None"
  shows "\<exists>s'. access_handleEvent net i (AccessCompleted True) s = Some s' \<and> acc_state i R K (svc_out s) s'
    \<and> (\<forall>m. acc_rem i s' m \<le> length R)"
proof -
  from assms(1) obtain f where f: "fsm_of i s = Some f" "\<not> fsm_processing f" "um_wf (fsm_node_id_to_cnxt f)"
    "set (um_keys (fsm_node_id_to_cnxt f)) = K" "fsm_registers f = R"
    "\<And>n c. map_of (fsm_node_id_to_cnxt f) n = Some c \<Longrightarrow> acn_reg_index c = 0" by (auto simp: acc_collecting_def)
  let ?f = "f\<lparr>fsm_processing := True\<rparr>" and ?ns = "cy_order net (um_keys (fsm_node_id_to_cnxt f))"
  let ?s = "set_fsm i ?f s"
  have ns: "distinct ?ns" "set ?ns = K" using f(3,4) is_order_distinct [OF assms(2)] is_order_set [OF assms(2)] by auto
  have ne: "fsm_node_id_to_cnxt f \<noteq> []" using f(4) assms(3) by auto
  have node: "acc_node R K None [] n (map_of (fsm_node_id_to_cnxt f) n)" if n: "n \<in> K" for n
  proof -
    obtain c where "map_of (fsm_node_id_to_cnxt f) n = Some c"
      using f(4) n by (cases "map_of (fsm_node_id_to_cnxt f) n") (auto simp: map_of_eq_None_iff)
    with f(6) assms(4) n show ?thesis by (simp add: acc_node_def)
  qed
  have inv: "acc_inv i R K (svc_out s) (set ?ns) None ?s"
    unfolding ns(2) by (rule acc_invI [where f = ?f and rs = "[]"]) (use f ne node in auto)
  have pend: "set ?ns \<subseteq> set (fsm_pending i ?s)" using ns(2) f(4) by (simp add: fsm_pending_def)
  from acc_make_clients [OF inv ns(1) pend assms(5) ok] obtain s' where
    s': "access_makeCyRpcClients net i ?ns ?s = Some s'" "acc_state i R K (svc_out s) s'"
      "\<And>m. acc_rem i s' m \<le> acc_rem i ?s m" by blast
  have "acc_rem i ?s m \<le> length R" for m
    using f(5) by (simp add: acc_rem_def split: option.split)
  then have "\<forall>m. acc_rem i s' m \<le> length R" using s'(3) order_trans by blast
  with s'(1,2) f(1,2,5) ne assms(4) show ?thesis by (simp add: access_handleCompleted_def Let_def)
qed

lemma acc_state_left:
  assumes "acc_state i R K out s" "\<And>n. n \<in> K \<Longrightarrow> acc_rem i s n = 0"
  shows "acc_done i R K out s"
proof (rule ccontr)
  assume "\<not> acc_done i R K out s"
  with assms(1) have inv: "acc_inv i R K out {} None s" by (simp add: acc_state_def)
  then have "fsm_pending i s \<noteq> []" by (auto simp: acc_inv_def fsm_pending_def)
  then obtain n where n: "n \<in> set (fsm_pending i s)" using hd_in_set by blast
  show False
  proof (rule acc_inv_context [OF inv n])
    fix c assume "unat (acn_reg_index c) < length R" "n \<in> K" "acc_rem i s n = length R - unat (acn_reg_index c)"
    with assms(2) show False by fastforce
  qed
qed

section \<open>Properties\<close>

text \<open>
  C21. Register access is safe under every failure and interleaving. Whatever requests to the
  nodes fail and in whatever order answers come, the service neither uses anything
  undefined nor gets stuck; every node is answered for the requested registers in their
  order, without a gap or a repetition, and the channel is completed (once, as the last
  thing, without error) only when every node has been answered for every register.
\<close>

theorem access_registers_in_order:
  fixes s :: "'w access_service" and q :: access_input and qs :: "access_input list"
  defines "i \<equiv> svc_next_fsm_id s" and "K \<equiv> (\<Union>q'\<in>set (q # qs). input_nodes q')"
    and "R \<equiv> concat (map input_registers (q # qs))"
  assumes "is_order (cy_order net)" "K \<noteq> {}" "R \<noteq> []" "length R < 2 ^ 16" "\<And>n w. fst (cy_makeClient net n w) = None"
  shows "\<exists>s0 s1 s2 s3 rs tail. access_new_channel q s = Some (i, s0) \<and> access_inputs i qs s0 = Some s1 \<and>
    access_handleEvent net i (AccessCompleted True) s1 = Some s2 \<and> access_run net i evs s2 = Some s3 \<and>
    svc_out s3 = svc_out s @ map (ChSend i) rs @ tail \<and> acr_node_id ` set rs \<subseteq> K \<and>
    (\<forall>n\<in>K. \<exists>k. acc_keys n rs = take k (map reg_key R)) \<and>
    (tail = [] \<and> fsm_of i s3 \<noteq> None \<or>
     tail = [ChComplete i None False, ChRelease i] \<and> fsm_of i s3 = None \<and> (\<forall>n\<in>K. acc_keys n rs = map reg_key R))"
proof -
  obtain s0 s1 where s1: "access_new_channel q s = Some (i, s0)" "access_inputs i qs s0 = Some s1"
    "acc_collecting i K R s1" "svc_out s1 = svc_out s" using acc_begin [of q s qs] unfolding i_def K_def R_def by blast
  from acc_completed [OF s1(3) assms(4-8)] obtain s2 where
    s2: "access_handleEvent net i (AccessCompleted True) s1 = Some s2" "acc_state i R K (svc_out s) s2"
    using s1(4) by auto
  from acc_run [OF s2(2) assms(7)] obtain s3 where
    s3: "access_run net i evs s2 = Some s3" "acc_state i R K (svc_out s) s3" by blast
  have "\<exists>rs tail. svc_out s3 = svc_out s @ map (ChSend i) rs @ tail \<and> acr_node_id ` set rs \<subseteq> K \<and>
    (\<forall>n\<in>K. \<exists>k. acc_keys n rs = take k (map reg_key R)) \<and>
    (tail = [] \<and> fsm_of i s3 \<noteq> None \<or>
     tail = fsm_closing i \<and> fsm_of i s3 = None \<and> (\<forall>n\<in>K. acc_keys n rs = map reg_key R))"
    using s3(2) unfolding acc_state_def
  proof
    assume "acc_done i R K (svc_out s) s3"
    then obtain rs where rs: "svc_out s3 = svc_out s @ map (ChSend i) rs @ fsm_closing i" "acr_node_id ` set rs \<subseteq> K"
      "fsm_of i s3 = None" "\<forall>n\<in>K. acc_keys n rs = map reg_key R" by (auto simp: acc_done_def)
    then have "\<forall>n\<in>K. acc_keys n rs = take (length R) (map reg_key R)" by simp
    with rs show ?thesis by blast
  next
    assume "acc_inv i R K (svc_out s) {} None s3"
    then obtain f rs where rs: "fsm_of i s3 = Some f" "svc_out s3 = svc_out s @ map (ChSend i) rs"
      "acr_node_id ` set rs \<subseteq> K" "\<forall>n\<in>K. acc_node R {} None rs n (map_of (fsm_node_id_to_cnxt f) n)"
      unfolding acc_inv_def by blast
    have "\<exists>k. acc_keys n rs = take k (map reg_key R)" if "n \<in> K" for n
    proof (cases "map_of (fsm_node_id_to_cnxt f) n")
      case None
      with bspec [OF rs(4) that] show ?thesis by (intro exI [of _ "length R"]) (simp add: acc_node_def)
    next
      case (Some c)
      with bspec [OF rs(4) that] show ?thesis by (auto simp: acc_node_def take_map)
    qed
    then have "\<forall>n\<in>K. \<exists>k. acc_keys n rs = take k (map reg_key R)" by blast
    with rs(1-3) show ?thesis by (intro exI [of _ rs] exI [of _ "[]"]) (simp only: append_Nil2 simp_thms option.distinct)
  qed
  with s1(1,2) s2(1) s3(1) show ?thesis unfolding fsm_closing_def
    by (elim exE) (intro exI, elim conjE, intro conjI, assumption+)
qed

text \<open>A network that takes the requests to every node but one.\<close>

definition refusing_net :: "u16 \<Rightarrow> unit access_net" where
  "refusing_net bad =
     \<lparr>cy_makeClient = (\<lambda>n w. (None, w)),
      cy_request = (\<lambda>n d reg w. (if n = bad then Some MemoryError else None, w)), cy_now = (\<lambda>w. 0), cy_order = rev\<rparr>"

lemma refusing_net_simps:
  "is_order (cy_order (refusing_net bad))" "fst (cy_makeClient (refusing_net bad) n w) = None"
  by (simp_all add: refusing_net_def is_order_rev)

lemma access_init_simps: "svc_next_fsm_id (access_init w) = 0" "svc_out (access_init w) = []"
  by (simp_all add: access_init_def)

theorem access_registers_in_order_witness:
  "\<exists>s0 s1 s2 s3. access_new_channel (AccessScope \<lparr>acs_timeout_us = 1, acs_node_ids = [5, 9]\<rparr>) (access_init ()) = Some (0, s0)
    \<and> access_inputs 0 [AccessRegister \<lparr>reg_key = [1], reg_value = []\<rparr>, AccessRegister \<lparr>reg_key = [2], reg_value = []\<rparr>] s0 = Some s1
    \<and> access_handleEvent (refusing_net 9) 0 (AccessCompleted True) s1 = Some s2
    \<and> access_run (refusing_net 9) 0 [(5, AccessValue [7])] s2 = Some s3"
proof -
  let ?q = "AccessScope \<lparr>acs_timeout_us = 1, acs_node_ids = [5, 9]\<rparr>"
  let ?qs = "[AccessRegister \<lparr>reg_key = [1], reg_value = []\<rparr>, AccessRegister \<lparr>reg_key = [2], reg_value = []\<rparr>]"
  have R: "concat (map input_registers (?q # ?qs)) = [\<lparr>reg_key = [1], reg_value = []\<rparr>, \<lparr>reg_key = [2], reg_value = []\<rparr>]" by simp
  have K: "(\<Union>q'\<in>set (?q # ?qs). input_nodes q') = {5, 9}" by auto
  have p: "{5, 9 :: u16} \<noteq> {}" "[a, b :: reg_key_value] \<noteq> []" "length [a, b :: reg_key_value] < 2 ^ 16" for a b by simp_all
  show ?thesis
    using access_registers_in_order [where s = "access_init ()" and evs = "[(5, AccessValue [7])]", OF refusing_net_simps(1) [of 9],
        of ?q ?qs, unfolded K R access_init_simps, OF p refusing_net_simps(2)] by blast
qed

text \<open>
  C22. Register access ends: once every node has given as many answers as there are
  registers, be they values or failures, and also when requests have failed in between, the
  channel has been completed and its state machine released.
\<close>

theorem access_registers_completes:
  fixes s :: "'w access_service" and q :: access_input and qs :: "access_input list"
  defines "i \<equiv> svc_next_fsm_id s" and "K \<equiv> (\<Union>q'\<in>set (q # qs). input_nodes q')"
    and "R \<equiv> concat (map input_registers (q # qs))"
  assumes "is_order (cy_order net)" "K \<noteq> {}" "R \<noteq> []" "length R < 2 ^ 16" "\<And>n w. fst (cy_makeClient net n w) = None"
    and enough: "\<And>n. n \<in> K \<Longrightarrow> length R \<le> count_list (map fst evs) n"
  shows "\<exists>s0 s1 s2 s3 rs. access_new_channel q s = Some (i, s0) \<and> access_inputs i qs s0 = Some s1 \<and>
    access_handleEvent net i (AccessCompleted True) s1 = Some s2 \<and> access_run net i evs s2 = Some s3 \<and>
    svc_out s3 = svc_out s @ map (ChSend i) rs @ [ChComplete i None False, ChRelease i] \<and> fsm_of i s3 = None \<and>
    acr_node_id ` set rs \<subseteq> K \<and> (\<forall>n\<in>K. acc_keys n rs = map reg_key R)"
proof -
  obtain s0 s1 where s1: "access_new_channel q s = Some (i, s0)" "access_inputs i qs s0 = Some s1"
    "acc_collecting i K R s1" "svc_out s1 = svc_out s" using acc_begin [of q s qs] unfolding i_def K_def R_def by blast
  from acc_completed [OF s1(3) assms(4-8)] obtain s2 where
    s2: "access_handleEvent net i (AccessCompleted True) s1 = Some s2" "acc_state i R K (svc_out s) s2"
      "\<And>m. acc_rem i s2 m \<le> length R"
    using s1(4) by auto
  from acc_run [OF s2(2) assms(7)] obtain s3 where
    s3: "access_run net i evs s2 = Some s3" "acc_state i R K (svc_out s) s3"
      "\<And>m. acc_rem i s3 m \<le> acc_rem i s2 m - count_list (map fst evs) m" by blast
  have "acc_rem i s3 n = 0" if "n \<in> K" for n
    using s3(3) [of n] s2(3) [of n] enough [OF that] by simp
  from acc_state_left [OF s3(2) this] have "acc_done i R K (svc_out s) s3" .
  with s1(1,2) s2(1) s3(1) show ?thesis unfolding acc_done_def fsm_closing_def by blast
qed

theorem access_registers_completes_witness:
  "\<exists>s0 s1 s2 s3. access_new_channel (AccessScope \<lparr>acs_timeout_us = 1, acs_node_ids = [5, 9]\<rparr>) (access_init ()) = Some (0, s0)
    \<and> access_inputs 0 [AccessRegister \<lparr>reg_key = [1], reg_value = []\<rparr>] s0 = Some s1
    \<and> access_handleEvent (refusing_net 9) 0 (AccessCompleted True) s1 = Some s2
    \<and> access_run (refusing_net 9) 0 [(9, AccessValue []), (5, AccessFailure ResponsePromiseExpired)] s2 = Some s3
    \<and> fsm_of 0 s3 = None"
proof -
  let ?q = "AccessScope \<lparr>acs_timeout_us = 1, acs_node_ids = [5, 9]\<rparr>"
  let ?qs = "[AccessRegister \<lparr>reg_key = [1], reg_value = []\<rparr>]"
  let ?evs = "[(9, AccessValue []), (5, AccessFailure ResponsePromiseExpired)]"
  have R: "concat (map input_registers (?q # ?qs)) = [\<lparr>reg_key = [1], reg_value = []\<rparr>]" by simp
  have K: "(\<Union>q'\<in>set (?q # ?qs). input_nodes q') = {5, 9}" by auto
  have p: "{5, 9 :: u16} \<noteq> {}" "[a :: reg_key_value] \<noteq> []" "length [a :: reg_key_value] < 2 ^ 16" for a by simp_all
  have "length [\<lparr>reg_key = [1 :: byte], reg_value = [] :: byte list\<rparr>] \<le> count_list (map fst ?evs) n" if "n \<in> {5, 9}" for n
    using that by auto
  then show ?thesis
    using access_registers_completes [where s = "access_init ()" and evs = ?evs, OF refusing_net_simps(1) [of 9],
        of ?q ?qs, unfolded K R access_init_simps, OF p refusing_net_simps(2)] by blast
qed

text \<open>More registers than the index can count.\<close>

definition acc_overfull :: "u64 \<Rightarrow> u16 \<Rightarrow> 'w access_service \<Rightarrow> bool" where
  "acc_overfull i n s \<longleftrightarrow> (\<exists>f c. fsm_of i s = Some f \<and> map_of (fsm_node_id_to_cnxt f) n = Some c \<and> acn_client c
     \<and> 2 ^ 16 \<le> length (fsm_registers f))"

lemma acc_overfull_no_result:
  assumes "access_startCyRegAccessRpcCallFor net i n s = Some s'" "\<And>d reg w. fst (cy_request net n d reg w) \<noteq> None"
  shows "\<not> acc_overfull i n s"
  using assms
proof (induction rule: access_startCyRegAccessRpcCallFor.raw_induct [rotated, consumes 1, case_names 1])
  case (1 rec net i n s s')
  show ?case
  proof
    assume "acc_overfull i n s"
    then obtain f c where f: "fsm_of i s = Some f" "map_of (fsm_node_id_to_cnxt f) n = Some c" "acn_client c"
      "2 ^ 16 \<le> length (fsm_registers f)" by (auto simp: acc_overfull_def)
    have idx: "unat (acn_reg_index c) < length (fsm_registers f)"
      using f(4) unsigned_less [of "acn_reg_index c", where ?'a = nat] by simp
    let ?reg = "fsm_registers f ! unat (acn_reg_index c)"
    let ?req = "cy_request net n (cy_now net (svc_net s) + acn_timeout c) ?reg (svc_net s)"
    have "fst ?req \<noteq> None" by (rule 1(3))
    then obtain cf where "fst ?req = Some cf" by blast
    then obtain w where req: "?req = (Some cf, w)" by (cases ?req) simp
    obtain t where t: "rec net i n (access_set_cnxt i f n (c\<lparr>acn_reg_index := acn_reg_index c + 1\<rparr>) t) = Some s'"
      using 1(2) f idx req by (auto simp: Let_def access_sendResponse_def fsm_send_def)
    have "acc_overfull i n (access_set_cnxt i f n (c\<lparr>acn_reg_index := acn_reg_index c + 1\<rparr>) t)"
      using f by (simp add: acc_overfull_def access_set_cnxt_def um_simps)
    with 1(1) [OF t 1(3)] show False by blast
  qed
qed

text \<open>
  With more registers than a 16-bit index can count the loop has no end: when every
  request to a node fails at once, the index wraps around below the number of registers and
  \<open>startCyRegAccessRpcCallFor\<close> never returns.
\<close>

theorem access_index_overflow_hangs:
  assumes "fsm_of i s = Some f" "map_of (fsm_node_id_to_cnxt f) n = Some c" "acn_client c"
    "2 ^ 16 \<le> length (fsm_registers f)" "\<And>d reg w. fst (cy_request net n d reg w) \<noteq> None"
  shows "access_startCyRegAccessRpcCallFor net i n s = None"
  using acc_overfull_no_result [of net i n s] assms unfolding acc_overfull_def
  by (cases "access_startCyRegAccessRpcCallFor net i n s") blast+

theorem access_index_overflow_hangs_witness:
  "access_startCyRegAccessRpcCallFor (refusing_net 9) 0 9
     ((access_init ())\<lparr>svc_id_to_fsm := [(0, \<lparr>fsm_processing = True, fsm_node_id_to_cnxt =
        [(9, \<lparr>acn_timeout = 1, acn_reg_index = 0, acn_client = True, acn_promise = False\<rparr>)],
        fsm_registers = replicate (2 ^ 16) \<lparr>reg_key = [1], reg_value = []\<rparr>\<rparr>)]\<rparr>) = None"
  by (rule access_index_overflow_hangs [where f = "\<lparr>fsm_processing = True, fsm_node_id_to_cnxt =
        [(9, \<lparr>acn_timeout = 1, acn_reg_index = 0, acn_client = True, acn_promise = False\<rparr>)],
        fsm_registers = replicate (2 ^ 16) \<lparr>reg_key = [1], reg_value = []\<rparr>\<rparr>"
        and c = "\<lparr>acn_timeout = 1, acn_reg_index = 0, acn_client = True, acn_promise = False\<rparr>"])
    (simp_all add: fsm_of_def refusing_net_def)

end
