(* ===== verification/Node_Clients.thy ===== *)
theory Node_Clients
  imports Ipc_Channel Client_Router Exec_Cmd_Service List_Registers_Service Access_Registers_Service
begin

text \<open>
  The SDK clients of the node services: \<^verbatim>\<open>src/sdk/svc/node/exec_cmd_client.cpp\<close>,
  \<^verbatim>\<open>list_registers_client.cpp\<close> and \<^verbatim>\<open>access_registers_client.cpp\<close>. A client splits its node ids
  into requests that fit the message type, sends them when the channel is connected, says
  that there are no more, collects the responses per node, and gives the collection to
  its receiver when the channel is completed.

  The three clients have the same structure (\<open>node_client\<close>); \<open>'q\<close> is the request type, \<open>'v\<close> what is
  collected per node and \<open>'c\<close> the state of the channel. The calls of the receiver are
  recorded in order. \<open>None\<close> is undefined behaviour of the channel's gateway.
\<close>

section \<open>State\<close>

record ('q, 'v, 'c) node_client =
  ncl_requests :: "'q list"
  ncl_channel :: 'c
  ncl_received :: "(sdk_error + (u16, 'v) umap) list"
  ncl_acc :: "(u16, 'v) umap"

definition node_client_init :: "'q list \<Rightarrow> 'c \<Rightarrow> ('q, 'v, 'c) node_client" where
  "node_client_init requests c = \<lparr>ncl_requests = requests, ncl_channel = c, ncl_received = [], ncl_acc = []\<rparr>"

section \<open>Events\<close>

definition ncl_receive :: "sdk_error + (u16, 'v) umap \<Rightarrow> ('q, 'v, 'c) node_client \<Rightarrow> ('q, 'v, 'c) node_client" where
  "ncl_receive result s = s\<lparr>ncl_received := ncl_received s @ [result]\<rparr>"

fun send_requests :: "('q, 'c) ch_ops \<Rightarrow> 'q list \<Rightarrow> 'c \<Rightarrow> 'c gw_result" where
  "send_requests cops [] c = Some (None, c)"
| "send_requests cops (request # requests) c = do {
     (opt_error, c') \<leftarrow> chs_send cops request c;
     case opt_error of Some err \<Rightarrow> Some (Some err, c') | None \<Rightarrow> send_requests cops requests c'
   }"

definition ncl_handleConnected :: "('q, 'c) ch_ops \<Rightarrow> ('q, 'v, 'c) node_client \<Rightarrow> ('q, 'v, 'c) node_client option" where
  "ncl_handleConnected cops s = do {
     (opt_error, c) \<leftarrow> send_requests cops (ncl_requests s) (ncl_channel s);
     let s1 = s\<lparr>ncl_channel := c\<rparr>;
     case opt_error of
       Some err \<Rightarrow> Some (ncl_receive (Inl err) s1)
     | None \<Rightarrow> do {
         (opt_error2, c2) \<leftarrow> chs_complete cops None True c;
         let s2 = s1\<lparr>ncl_channel := c2\<rparr>;
         Some (case opt_error2 of Some err \<Rightarrow> ncl_receive (Inl err) s2 | None \<Rightarrow> s2)
       }
   }"

text \<open>The collection is moved to the receiver.\<close>

definition ncl_handleCompleted :: "opt_error \<Rightarrow> ('q, 'v, 'c) node_client \<Rightarrow> ('q, 'v, 'c) node_client" where
  "ncl_handleCompleted opt_error s =
     (case opt_error of
        Some err \<Rightarrow> ncl_receive (Inl err) s
      | None \<Rightarrow> (ncl_receive (Inr (ncl_acc s)) s)\<lparr>ncl_acc := []\<rparr>)"

definition ncl_handleEvent ::
    "('q, 'c) ch_ops \<Rightarrow> ('i \<Rightarrow> (u16, 'v) umap \<Rightarrow> (u16, 'v) umap) \<Rightarrow> 'i ch_event \<Rightarrow> ('q, 'v, 'c) node_client \<Rightarrow>
     ('q, 'v, 'c) node_client option" where
  "ncl_handleEvent cops on_input ev s =
     (case ev of
        ChConnected \<Rightarrow> ncl_handleConnected cops s
      | ChInput input _ \<Rightarrow> Some (s\<lparr>ncl_acc := on_input input (ncl_acc s)\<rparr>)
      | ChCompleted opt_error _ \<Rightarrow> Some (ncl_handleCompleted opt_error s))"

fun ncl_events ::
    "('q, 'c) ch_ops \<Rightarrow> ('i \<Rightarrow> (u16, 'v) umap \<Rightarrow> (u16, 'v) umap) \<Rightarrow> 'i ch_event list \<Rightarrow> ('q, 'v, 'c) node_client \<Rightarrow>
     ('q, 'v, 'c) node_client option" where
  "ncl_events cops on_input [] s = Some s"
| "ncl_events cops on_input (ev # evs) s = do { s' \<leftarrow> ncl_handleEvent cops on_input ev s; ncl_events cops on_input evs s' }"

section \<open>Requests\<close>

text \<open>\<open>std::max<std::uint64_t>(0, timeout.count())\<close> on a signed count.\<close>

definition timeout_us_of :: "u64 \<Rightarrow> u64" where
  "timeout_us_of timeout_count = max 0 timeout_count"

text \<open>The capacity of the arrays of node ids in the request types.\<close>

definition node_ids_capacity :: nat where
  "node_ids_capacity = 128"

function node_id_chunks :: "nat \<Rightarrow> u16 list \<Rightarrow> u16 list list" where
  "node_id_chunks offset node_ids =
     (if offset < length node_ids
      then take (min node_ids_capacity (length node_ids - offset)) (drop offset node_ids)
             # node_id_chunks (offset + node_ids_capacity) node_ids
      else [])"
  by pat_completeness auto
termination
  by (relation "measure (\<lambda>(offset, ids). length ids - offset)") (auto simp: node_ids_capacity_def)

declare node_id_chunks.simps [simp del]

definition exec_buildRequests :: "u16 list \<Rightarrow> exec_req_payload \<Rightarrow> u64 \<Rightarrow> exec_request list" where
  "exec_buildRequests node_ids node_request timeout =
     map (\<lambda>ids. \<lparr>exq_timeout_us = timeout_us_of timeout, exq_node_ids = ids, exq_payload = node_request\<rparr>)
       (node_id_chunks 0 node_ids)"

definition list_buildRequests :: "u16 list \<Rightarrow> u64 \<Rightarrow> list_request list" where
  "list_buildRequests node_ids timeout =
     map (\<lambda>ids. \<lparr>lrq_timeout_us = timeout_us_of timeout, lrq_node_ids = ids\<rparr>) (node_id_chunks 0 node_ids)"

definition access_buildScopeRequests :: "u16 list \<Rightarrow> u64 \<Rightarrow> access_input list" where
  "access_buildScopeRequests node_ids timeout =
     map (\<lambda>ids. AccessScope \<lparr>acs_timeout_us = timeout_us_of timeout, acs_node_ids = ids\<rparr>) (node_id_chunks 0 node_ids)"

definition access_buildReadRegisterRequests :: "byte list list \<Rightarrow> access_input list" where
  "access_buildReadRegisterRequests registers = map (\<lambda>key. AccessRegister \<lparr>reg_key = key, reg_value = []\<rparr>) registers"

definition access_buildWriteRegisterRequests :: "reg_key_value list \<Rightarrow> access_input list" where
  "access_buildWriteRegisterRequests registers =
     map (\<lambda>reg. AccessRegister \<lparr>reg_key = reg_key reg, reg_value = reg_value reg\<rparr>) registers"

section \<open>Responses\<close>

type_synonym exec_outcome = "sdk_error + exec_res_payload"
type_synonym list_outcome = "sdk_error + byte list list"
type_synonym access_outcome = "sdk_error + (byte list \<times> (sdk_error + byte list)) list"

definition exec_client_input :: "exec_response \<Rightarrow> (u16, exec_outcome) umap \<Rightarrow> (u16, exec_outcome) umap" where
  "exec_client_input input m =
     (case dsdlErrorToOptError (exr_error input) of
        Some err \<Rightarrow> um_emplace (exr_node_id input) (Inl err) m
      | None \<Rightarrow> um_emplace (exr_node_id input) (Inr (exr_payload input)) m)"

definition list_client_input :: "list_response \<Rightarrow> (u16, list_outcome) umap \<Rightarrow> (u16, list_outcome) umap" where
  "list_client_input input m =
     (case dsdlErrorToOptError (lrr_error input) of
        Some err \<Rightarrow> um_emplace (lrr_node_id input) (Inl err) m
      | None \<Rightarrow>
         (let m1 = (case map_of m (lrr_node_id input) of
                      None \<Rightarrow> um_emplace (lrr_node_id input) (Inr []) m | Some _ \<Rightarrow> m)
          in case map_of m1 (lrr_node_id input) of
               Some (Inr regs) \<Rightarrow> um_assign (lrr_node_id input) (Inr (regs @ [lrr_item input])) m1
             | _ \<Rightarrow> m1))"

definition access_client_input :: "access_response \<Rightarrow> (u16, access_outcome) umap \<Rightarrow> (u16, access_outcome) umap" where
  "access_client_input input m =
     (let opt_error = dsdlErrorToOptError (acr_error input);
          key = reg_key (acr_register input)
      in if opt_error \<noteq> None \<and> key = [] then um_emplace (acr_node_id input) (Inl (the opt_error)) m
         else
           let m1 = (case map_of m (acr_node_id input) of
                       None \<Rightarrow> um_emplace (acr_node_id input) (Inr []) m | Some _ \<Rightarrow> m);
               item = (case opt_error of Some err \<Rightarrow> (key, Inl err) | None \<Rightarrow> (key, Inr (reg_value (acr_register input))))
           in case map_of m1 (acr_node_id input) of
                Some (Inr regs) \<Rightarrow> um_assign (acr_node_id input) (Inr (regs @ [item])) m1
              | _ \<Rightarrow> m1)"

section \<open>The clients\<close>

definition ExecCmdClientImpl_init :: "u16 list \<Rightarrow> exec_req_payload \<Rightarrow> u64 \<Rightarrow> 'c \<Rightarrow> (exec_request, exec_outcome, 'c) node_client" where
  "ExecCmdClientImpl_init node_ids node_request timeout c =
     node_client_init (exec_buildRequests node_ids node_request timeout) c"

definition ListRegistersClientImpl_init :: "u16 list \<Rightarrow> u64 \<Rightarrow> 'c \<Rightarrow> (list_request, list_outcome, 'c) node_client" where
  "ListRegistersClientImpl_init node_ids timeout c = node_client_init (list_buildRequests node_ids timeout) c"

definition AccessRegistersClientImpl_read ::
    "u16 list \<Rightarrow> byte list list \<Rightarrow> u64 \<Rightarrow> 'c \<Rightarrow> (access_input, access_outcome, 'c) node_client" where
  "AccessRegistersClientImpl_read node_ids registers timeout c =
     node_client_init (access_buildScopeRequests node_ids timeout @ access_buildReadRegisterRequests registers) c"

definition AccessRegistersClientImpl_write ::
    "u16 list \<Rightarrow> reg_key_value list \<Rightarrow> u64 \<Rightarrow> 'c \<Rightarrow> (access_input, access_outcome, 'c) node_client" where
  "AccessRegistersClientImpl_write node_ids registers timeout c =
     node_client_init (access_buildScopeRequests node_ids timeout @ access_buildWriteRegisterRequests registers) c"

definition exec_client_handleEvent ::
    "(exec_request, 'c) ch_ops \<Rightarrow> exec_response ch_event \<Rightarrow> (exec_request, exec_outcome, 'c) node_client \<Rightarrow>
     (exec_request, exec_outcome, 'c) node_client option" where
  [simp]: "exec_client_handleEvent cops = ncl_handleEvent cops exec_client_input"

definition list_client_handleEvent ::
    "(list_request, 'c) ch_ops \<Rightarrow> list_response ch_event \<Rightarrow> (list_request, list_outcome, 'c) node_client \<Rightarrow>
     (list_request, list_outcome, 'c) node_client option" where
  [simp]: "list_client_handleEvent cops = ncl_handleEvent cops list_client_input"

definition access_client_handleEvent ::
    "(access_input, 'c) ch_ops \<Rightarrow> access_response ch_event \<Rightarrow> (access_input, access_outcome, 'c) node_client \<Rightarrow>
     (access_input, access_outcome, 'c) node_client option" where
  [simp]: "access_client_handleEvent cops = ncl_handleEvent cops access_client_input"

section \<open>Lemmas\<close>

lemma node_id_chunks_spec:
  "concat (node_id_chunks offset ids) = drop offset ids"
  "\<forall>c\<in>set (node_id_chunks offset ids). c \<noteq> [] \<and> length c \<le> node_ids_capacity"
proof (induction offset ids rule: node_id_chunks.induct)
  case (1 offset ids)
  { case 1
    then show ?case
    proof (cases "offset < length ids")
      case True
      let ?c = "take (min node_ids_capacity (length ids - offset)) (drop offset ids)"
      have "?c = take node_ids_capacity (drop offset ids)" by (simp add: min_def)
      moreover have "concat (node_id_chunks offset ids) = ?c @ drop (offset + node_ids_capacity) ids"
        using True "1.IH"(1) by (subst node_id_chunks.simps) simp
      ultimately show ?thesis by (metis append_take_drop_id drop_drop add.commute)
    qed (simp add: node_id_chunks.simps)
  next
    case 2
    then show ?case
    proof (cases "offset < length ids")
      case True
      have "min node_ids_capacity (length ids - offset) \<noteq> 0" using True by (simp add: node_ids_capacity_def)
      with True "1.IH"(2) show ?thesis by (subst node_id_chunks.simps) (auto simp: node_ids_capacity_def)
    qed (simp add: node_id_chunks.simps)
  }
qed

lemma send_requests_recording: "send_requests recording_ops qs c = Some (None, c @ map ClSend qs)"
  by (induction qs arbitrary: c) auto

lemma ncl_connected_recording:
  "ncl_handleConnected recording_ops s =
     Some (s\<lparr>ncl_channel := ncl_channel s @ map ClSend (ncl_requests s) @ [ClComplete None True]\<rparr>)"
  by (simp add: ncl_handleConnected_def send_requests_recording)

lemma ncl_events_append:
  "ncl_events cops f (evs @ evs') s = (ncl_events cops f evs s \<bind> ncl_events cops f evs')"
proof (induction evs arbitrary: s)
  case (Cons ev evs)
  then show ?case by (cases "ncl_handleEvent cops f ev s") simp_all
qed simp

lemma ncl_events_inputs:
  "ncl_events cops f (map (\<lambda>r. ChInput r []) rs) s = Some (s\<lparr>ncl_acc := fold f rs (ncl_acc s)\<rparr>)"
  by (induction rs arbitrary: s) (simp_all add: ncl_handleEvent_def)

text \<open>A session of the service as the client sees it: one call of the receiver, with what was collected.\<close>

lemma ncl_session:
  "\<exists>s'. ncl_events cops f (ch_events_of i (map (ChSend i) rs @ [ChComplete i None False, ChRelease i])) s = Some s'
     \<and> ncl_received s' = ncl_received s @ [Inr (fold f rs (ncl_acc s))]"
  by (simp add: ncl_events_append ncl_events_inputs ncl_handleEvent_def ncl_handleCompleted_def ncl_receive_def)

subsection \<open>What the command client collects\<close>

definition exec_value :: "exec_response \<Rightarrow> exec_outcome" where
  "exec_value r = (case dsdlErrorToOptError (exr_error r) of Some err \<Rightarrow> Inl err | None \<Rightarrow> Inr (exr_payload r))"

lemma exec_client_input_value: "exec_client_input r m = um_emplace (exr_node_id r) (exec_value r) m"
  by (simp add: exec_client_input_def exec_value_def split: option.split)

lemma exec_client_fold:
  "map_of (fold exec_client_input rs m) n =
     (case map_of m n of Some v \<Rightarrow> Some v | None \<Rightarrow> map_option exec_value (find (\<lambda>r. exr_node_id r = n) rs))"
  "um_wf m \<Longrightarrow> um_wf (fold exec_client_input rs m)"
  "set (um_keys (fold exec_client_input rs m)) = exr_node_id ` set rs \<union> set (um_keys m)"
  by (induction rs arbitrary: m) (auto simp: exec_client_input_value um_simps split: option.splits)

lemma find_distinct:
  "distinct (map f xs) \<Longrightarrow> x \<in> set xs \<Longrightarrow> find (\<lambda>y. f y = f x) xs = Some x"
  by (induction xs) (auto intro: rev_image_eqI)

fun exec_outcome_of :: "exec_promise_result \<Rightarrow> exec_outcome" where
  "exec_outcome_of (ExecSuccess status output) = Inr \<lparr>exec_status = status, exec_output = output\<rparr>"
| "exec_outcome_of (ExecFailure cf) = Inl (drop_zero_errno (cyErrorToSdkError cf))"

lemma error_wf_cyErrorToSdkError: "error_wf (cyErrorToSdkError cf)"
  by (cases cf) (auto simp: error_wf_def errnoToError_def)

lemma exec_value_reply: "exec_value (exec_reply (n, r)) = exec_outcome_of r"
proof (cases r)
  case (ExecSuccess st outp)
  then show ?thesis by (simp add: exec_value_def exec_reply_def dsdlErrorToOptError_def)
next
  case (ExecFailure cf)
  then show ?thesis using dsdl_error_roundtrip_wf [OF error_wf_cyErrorToSdkError]
    by (simp add: exec_value_def exec_reply_def)
qed

subsection \<open>What the register clients collect\<close>

fun collected :: "(sdk_error + 'v list) option \<Rightarrow> (sdk_error + 'v) list \<Rightarrow> (sdk_error + 'v list) option" where
  "collected v [] = v"
| "collected None (Inl err # cs) = collected (Some (Inl err)) cs"
| "collected None (Inr item # cs) = collected (Some (Inr [item])) cs"
| "collected (Some (Inl err)) (c # cs) = Some (Inl err)"
| "collected (Some (Inr items)) (Inl err # cs) = collected (Some (Inr items)) cs"
| "collected (Some (Inr items)) (Inr item # cs) = collected (Some (Inr (items @ [item]))) cs"

text \<open>
  The locale below is what both register clients promise of an input: a response is a failure of its
  node (\<open>Inl\<close>) or an item (\<open>Inr\<close>); a failure counts only as the first response of its node, and
  items only while there was no failure.
\<close>

lemma collected_Cons: "collected v (c # cs) = collected (collected v [c]) cs"
proof -
  have stuck: "collected (Some (Inl err)) cs = Some (Inl err)" for err by (cases cs) auto
  show ?thesis
  proof (cases v)
    case None
    then show ?thesis by (cases c) auto
  next
    case (Some w)
    then show ?thesis by (cases w; cases c) (auto simp: stuck)
  qed
qed

lemma collected_items: "collected (Some (Inr items)) cs = Some (Inr (items @ [v. Inr v \<leftarrow> cs]))"
  by (induction "Some (Inr items :: sdk_error + 'a list)" cs arbitrary: items rule: collected.induct) simp_all

text \<open>In closed form.\<close>

lemma collected_None:
  "collected None cs =
     (case cs of [] \<Rightarrow> None | Inl err # _ \<Rightarrow> Some (Inl err) | Inr v # _ \<Rightarrow> Some (Inr [v. Inr v \<leftarrow> cs]))"
proof (cases cs)
  case (Cons c cs')
  have stuck: "collected (Some (Inl err)) cs' = Some (Inl err)" for err :: sdk_error by (cases cs') auto
  with Cons show ?thesis by (cases c) (auto simp: collected_items)
qed simp

lemma collected_Inr: "vs \<noteq> [] \<Longrightarrow> collected None (map Inr vs) = Some (Inr vs)"
proof (cases vs)
  case (Cons v vs')
  have "concat (map (case_sum (\<lambda>a. []) (\<lambda>v. [v])) (map Inr xs)) = xs" for xs :: "'a list" by (induction xs) auto
  with Cons show ?thesis by (simp add: collected_items)
qed simp

definition list_class :: "list_response \<Rightarrow> sdk_error + byte list" where
  "list_class r = (case dsdlErrorToOptError (lrr_error r) of Some err \<Rightarrow> Inl err | None \<Rightarrow> Inr (lrr_item r))"

definition access_class :: "access_response \<Rightarrow> sdk_error + (byte list \<times> (sdk_error + byte list))" where
  "access_class r =
     (let key = reg_key (acr_register r)
      in case dsdlErrorToOptError (acr_error r) of
           Some err \<Rightarrow> (if key = [] then Inl err else Inr (key, Inl err))
         | None \<Rightarrow> Inr (key, Inr (reg_value (acr_register r))))"

locale collecting_client =
  fixes on_input :: "'i \<Rightarrow> (u16, sdk_error + 'v list) umap \<Rightarrow> (u16, sdk_error + 'v list) umap"
    and node :: "'i \<Rightarrow> u16" and class_of :: "'i \<Rightarrow> sdk_error + 'v"
  assumes on_input: "map_of (on_input r m) n = (if n = node r then collected (map_of m n) [class_of r] else map_of m n)"
begin

lemma fold_inputs: "map_of (fold on_input rs m) n = collected (map_of m n) (map class_of (filter (\<lambda>r. node r = n) rs))"
proof (induction rs arbitrary: m)
  case (Cons r rs)
  then show ?case
    using collected_Cons [of "map_of m n" "class_of r" "map class_of (filter (\<lambda>r. node r = n) rs)"] by (auto simp: on_input)
qed simp

lemma session:
  "\<exists>s' m. ncl_events cops on_input (ch_events_of i (map (ChSend i) rs @ [ChComplete i None False, ChRelease i])) s = Some s'
     \<and> ncl_received s' = ncl_received s @ [Inr m]
     \<and> (ncl_acc s = [] \<longrightarrow> (\<forall>n. map_of m n = collected None (map class_of (filter (\<lambda>r. node r = n) rs))))"
  using ncl_session [of cops on_input i rs s] fold_inputs [of rs "[]"] by auto

end

interpretation lcl: collecting_client list_client_input lrr_node_id list_class
proof
  fix r :: list_response and m :: "(u16, list_outcome) umap" and n
  show "map_of (list_client_input r m) n = (if n = lrr_node_id r then collected (map_of m n) [list_class r] else map_of m n)"
    by (auto simp: list_client_input_def list_class_def um_simps Let_def split: option.splits sum.splits)
qed

interpretation acl: collecting_client access_client_input acr_node_id access_class
proof
  fix r :: access_response and m :: "(u16, access_outcome) umap" and n
  show "map_of (access_client_input r m) n = (if n = acr_node_id r then collected (map_of m n) [access_class r] else map_of m n)"
    by (auto simp: access_client_input_def access_class_def um_simps Let_def split: option.splits sum.splits)
qed

section \<open>Properties\<close>

text \<open>
  C37. Requests fit the wire: however many node ids a client is given, its requests are non-empty
  and within the capacity of the array type, and together they carry exactly the node ids, in
  order.
\<close>

theorem requests_within_capacity:
  "concat (map exq_node_ids (exec_buildRequests node_ids node_request timeout)) = node_ids \<and>
   (\<forall>q\<in>set (exec_buildRequests node_ids node_request timeout).
      0 < length (exq_node_ids q) \<and> length (exq_node_ids q) \<le> 128 \<and> exq_payload q = node_request)"
  using node_id_chunks_spec [of 0 node_ids] by (auto simp: exec_buildRequests_def node_ids_capacity_def comp_def)

theorem requests_within_capacity_witness:
  "concat (map exq_node_ids (exec_buildRequests [5, 9] \<lparr>exec_command = 1, exec_parameter = []\<rparr> 7)) = [5, 9]"
  using requests_within_capacity [of "[5, 9]" "\<lparr>exec_command = 1, exec_parameter = []\<rparr>" 7] by (rule conjunct1)

lemma exec_requests_nodes:
  "(\<Union>q\<in>set (exec_buildRequests node_ids node_request timeout). set (exq_node_ids q)) = set node_ids"
proof -
  have "(\<Union>c\<in>set (node_id_chunks 0 node_ids). set c) = set node_ids"
    using node_id_chunks_spec(1) [of 0 node_ids] by (metis set_concat drop0)
  then show ?thesis by (simp add: exec_buildRequests_def)
qed

lemma node_id_chunks_ne: "ids \<noteq> [] \<Longrightarrow> node_id_chunks 0 ids \<noteq> []"
  using node_id_chunks_spec(1) [of 0 ids] by auto

text \<open>
  C2. A command reaches its nodes and their answers come back. The client's requests, taken by
  the daemon's service in order, lead to exactly one call of the client's receiver, which is a
  success with one outcome for every requested node and no other; for every node the network
  answered for, it is that answer, whichever nodes could not be asked and in whichever order
  the others answered.
\<close>

theorem exec_cmd_client_to_nodes:
  fixes s :: "'w exec_service"
  assumes "is_order (cy_order net)" "is_order arrival" "node_ids \<noteq> []"
  defines "i \<equiv> svc_next_fsm_id s"
  shows "\<exists>c1 q qs s0 s1 s2 s3 c2 m.
    exec_client_handleEvent recording_ops ChConnected (ExecCmdClientImpl_init node_ids node_request timeout []) = Some c1 \<and>
    ncl_channel c1 = map ClSend (q # qs) @ [ClComplete None True] \<and>
    exec_new_channel q s = Some (i, s0) \<and> exec_inputs i qs s0 = Some s1 \<and>
    exec_handleEvent net i (ExecCompleted True) s1 = Some s2 \<and>
    exec_responses i (map (\<lambda>n. (n, answer n)) (arrival (fsm_pending i s2))) s2 = Some s3 \<and>
    ncl_events recording_ops exec_client_input (ch_events_of i (drop (length (svc_out s)) (svc_out s3))) c1 = Some c2 \<and>
    ncl_received c2 = [Inr m] \<and> um_wf m \<and> set (um_keys m) = set node_ids \<and>
    (\<forall>n\<in>set (fsm_pending i s2). map_of m n = Some (exec_outcome_of (answer n)))"
proof -
  obtain q qs where reqs: "exec_buildRequests node_ids node_request timeout = q # qs"
    using node_id_chunks_ne [OF assms(3)] by (cases "exec_buildRequests node_ids node_request timeout") (auto simp: exec_buildRequests_def)
  let ?c = "ExecCmdClientImpl_init node_ids node_request timeout []"
  let ?c1 = "?c\<lparr>ncl_channel := map ClSend (q # qs) @ [ClComplete None True]\<rparr>"
  have c1: "exec_client_handleEvent recording_ops ChConnected ?c = Some ?c1"
    by (simp add: ncl_handleEvent_def ncl_connected_recording ExecCmdClientImpl_init_def node_client_init_def reqs)
  have K: "(\<Union>q'\<in>set (q # qs). set (exq_node_ids q')) = set node_ids"
    using exec_requests_nodes [of node_ids node_request timeout] unfolding reqs .
  from exec_session [OF assms(1), of q s qs] obtain s0 s1 s2 early where
    sv: "exec_new_channel q s = Some (i, s0)" "exec_inputs i qs s0 = Some s1"
      "exec_handleEvent net i (ExecCompleted True) s1 = Some s2" and d: "distinct (fsm_pending i s2)" and
    run: "\<And>nrs. distinct (map fst nrs) \<and> fst ` set nrs = set (fsm_pending i s2) \<Longrightarrow>
      \<exists>s3. exec_responses i nrs s2 = Some s3 \<and> fsm_of i s3 = None \<and>
        svc_out s3 = svc_out s @ map (ChSend i) (early @ map exec_reply nrs) @ [ChComplete i None False, ChRelease i] \<and>
        distinct (map exr_node_id (early @ map exec_reply nrs)) \<and> exec_ids (early @ map exec_reply nrs) = set node_ids"
    unfolding i_def K by blast
  let ?a = "map (\<lambda>n. (n, answer n)) (arrival (fsm_pending i s2))"
  have "distinct (map fst ?a) \<and> fst ` set ?a = set (fsm_pending i s2)"
    using d is_order_set [OF assms(2)] is_order_distinct [OF assms(2)] by (simp add: comp_def image_image)
  from run [OF this] obtain s3 where s3: "exec_responses i ?a s2 = Some s3"
    "svc_out s3 = svc_out s @ map (ChSend i) (early @ map exec_reply ?a) @ [ChComplete i None False, ChRelease i]"
    "distinct (map exr_node_id (early @ map exec_reply ?a))" "exec_ids (early @ map exec_reply ?a) = set node_ids" by blast
  let ?rs = "early @ map exec_reply ?a" and ?m = "fold exec_client_input (early @ map exec_reply ?a) []"
  obtain c2 where c2: "ncl_events recording_ops exec_client_input (ch_events_of i (drop (length (svc_out s)) (svc_out s3))) ?c1 = Some c2"
    "ncl_received c2 = [Inr ?m]"
    using ncl_session [of recording_ops exec_client_input i ?rs ?c1] s3(2)
    by (auto simp: ExecCmdClientImpl_init_def node_client_init_def simp del: map_append fold_append)
  have ans: "map_of ?m n = Some (exec_outcome_of (answer n))" if n: "n \<in> set (fsm_pending i s2)" for n
  proof -
    have "exec_reply (n, answer n) \<in> set ?rs" using n is_order_set [OF assms(2)] by auto
    from find_distinct [OF s3(3) this] show ?thesis
      unfolding exec_client_fold(1) by (simp add: exec_value_reply)
  qed
  have keys: "set (um_keys ?m) = set node_ids"
    using exec_client_fold(3) [of ?rs "[]"] s3(4) by (simp del: map_append fold_append set_map)
  have "um_wf ?m" using exec_client_fold(2) [of "[]" ?rs] by simp
  with c1 sv s3(1) c2 ans keys show ?thesis
    by (intro exI [of _ ?c1] exI [of _ q] exI [of _ qs] exI [of _ s0] exI [of _ s1] exI [of _ s2] exI [of _ s3]
        exI [of _ c2] exI [of _ ?m]) (simp del: fold_append map_append exec_client_handleEvent_def set_map)
qed

theorem exec_cmd_client_to_nodes_witness:
  "\<exists>c1 s0 s2 s3 c2 m.
    exec_client_handleEvent recording_ops ChConnected
      (ExecCmdClientImpl_init [5, 9] \<lparr>exec_command = 1, exec_parameter = []\<rparr> 7 []) = Some c1 \<and>
    ncl_events recording_ops exec_client_input (ch_events_of 0 (svc_out s3)) c1 = Some c2 \<and>
    exec_handleEvent exec_demo_net 0 (ExecCompleted True) s0 = Some s2 \<and>
    exec_responses 0 (map (\<lambda>n. (n, ExecSuccess 0 [])) (rev (fsm_pending 0 s2))) s2 = Some s3 \<and>
    ncl_received c2 = [Inr m] \<and> set (um_keys m) = {5, 9}"
proof -
  have ord: "is_order (cy_order exec_demo_net)" by (simp add: exec_demo_net_def is_order_id)
  have s: "svc_next_fsm_id (exec_init ()) = 0" "svc_out (exec_init ()) = []" by (simp_all add: exec_init_def)
  have ne: "[5, 9] \<noteq> ([] :: u16 list)" and ids: "set [5, 9] = {5, 9 :: u16}" by simp_all
  show ?thesis
    using exec_cmd_client_to_nodes [OF ord is_order_rev ne, where s = "exec_init ()" and timeout = 7
        and node_request = "\<lparr>exec_command = 1, exec_parameter = []\<rparr>" and answer = "\<lambda>_. ExecSuccess 0 []"]
    unfolding s list.size drop0 ids by blast
qed

lemma access_requests:
  assumes "access_buildScopeRequests node_ids timeout @ access_buildReadRegisterRequests keys = q # qs"
  shows "(\<Union>q'\<in>set (q # qs). input_nodes q') = set node_ids"
    "concat (map input_registers (q # qs)) = map (\<lambda>key. \<lparr>reg_key = key, reg_value = []\<rparr>) keys"
proof -
  have "(\<Union>c\<in>set (node_id_chunks 0 node_ids). set c) = set node_ids"
    using node_id_chunks_spec(1) [of 0 node_ids] by (metis set_concat drop0)
  then show "(\<Union>q'\<in>set (q # qs). input_nodes q') = set node_ids"
    unfolding assms [symmetric] by (auto simp: access_buildScopeRequests_def access_buildReadRegisterRequests_def)
  have "concat (map input_registers (access_buildScopeRequests node_ids timeout)) = []"
    by (simp add: access_buildScopeRequests_def)
  moreover have "concat (map input_registers (access_buildReadRegisterRequests keys)) = map (\<lambda>key. \<lparr>reg_key = key, reg_value = []\<rparr>) keys"
    by (induction keys) (simp_all add: access_buildReadRegisterRequests_def)
  ultimately show "concat (map input_registers (q # qs)) = map (\<lambda>key. \<lparr>reg_key = key, reg_value = []\<rparr>) keys"
    unfolding assms [symmetric] by simp
qed

lemma access_items:
  assumes "acc_keys n rs = keys" "keys \<noteq> []" "[] \<notin> set keys"
  shows "\<exists>items. collected None (map access_class (filter (\<lambda>r. acr_node_id r = n) rs)) = Some (Inr items) \<and> map fst items = keys"
proof -
  let ?rs = "filter (\<lambda>r. acr_node_id r = n) rs"
  let ?item = "\<lambda>r. (reg_key (acr_register r),
    case dsdlErrorToOptError (acr_error r) of Some err \<Rightarrow> Inl err | None \<Rightarrow> Inr (reg_value (acr_register r)))"
  have keys: "map (reg_key \<circ> acr_register) ?rs = keys" using assms(1) by (simp add: acc_keys_def)
  have "access_class r = Inr (?item r)" if "r \<in> set ?rs" for r
  proof -
    have "reg_key (acr_register r) \<in> set keys" using that unfolding keys [symmetric] by auto
    with assms(3) have "reg_key (acr_register r) \<noteq> []" by auto
    then show ?thesis by (simp add: access_class_def split: option.split)
  qed
  then have cls: "map access_class ?rs = map Inr (map ?item ?rs)" by simp
  obtain r rs' where rs: "?rs = r # rs'" using keys assms(2) by (cases ?rs) auto
  then have "collected None (map access_class ?rs) = Some (Inr (map ?item ?rs))"
    unfolding cls by (intro collected_Inr) simp
  moreover have "map fst (map ?item ?rs) = keys" using keys by (simp add: comp_def)
  ultimately show ?thesis by blast
qed

lemma access_read_to_nodes:
  fixes s :: "'w access_service"
  assumes "is_order (cy_order net)" "\<And>n w. fst (cy_makeClient net n w) = None"
    and "node_ids \<noteq> []" "keys \<noteq> []" "[] \<notin> set keys" "length keys < 2 ^ 16"
    and enough: "\<forall>n\<in>set node_ids. length keys \<le> count_list (map fst evs) n"
  defines "i \<equiv> svc_next_fsm_id s"
  shows "\<exists>c1 q qs s0 s1 s2 s3 c2 m.
    access_client_handleEvent recording_ops ChConnected (AccessRegistersClientImpl_read node_ids keys timeout []) = Some c1 \<and>
    ncl_channel c1 = map ClSend (q # qs) @ [ClComplete None True] \<and>
    access_new_channel q s = Some (i, s0) \<and> access_inputs i qs s0 = Some s1 \<and>
    access_handleEvent net i (AccessCompleted True) s1 = Some s2 \<and> access_run net i evs s2 = Some s3 \<and>
    ncl_events recording_ops access_client_input (ch_events_of i (drop (length (svc_out s)) (svc_out s3))) c1 = Some c2 \<and>
    ncl_received c2 = [Inr m] \<and>
    (\<forall>n\<in>set node_ids. \<exists>items. map_of m n = Some (Inr items) \<and> map fst items = keys)"
proof -
  let ?c = "AccessRegistersClientImpl_read node_ids keys timeout []"
  obtain q qs where reqs: "access_buildScopeRequests node_ids timeout @ access_buildReadRegisterRequests keys = q # qs"
    using node_id_chunks_ne [OF assms(3)]
    by (cases "access_buildScopeRequests node_ids timeout") (auto simp: access_buildScopeRequests_def)
  let ?c1 = "?c\<lparr>ncl_channel := map ClSend (q # qs) @ [ClComplete None True]\<rparr>"
  let ?R = "map (\<lambda>key. \<lparr>reg_key = key, reg_value = []\<rparr>) keys"
  have c1: "access_client_handleEvent recording_ops ChConnected ?c = Some ?c1"
    by (simp add: ncl_handleEvent_def ncl_connected_recording AccessRegistersClientImpl_read_def node_client_init_def reqs)
  obtain s0 s1 where s1: "access_new_channel q s = Some (i, s0)" "access_inputs i qs s0 = Some s1"
    "acc_collecting i (set node_ids) ?R s1" "svc_out s1 = svc_out s"
    using acc_begin [of q s qs] unfolding i_def access_requests [OF reqs] by blast
  have R: "?R \<noteq> []" "length ?R < 2 ^ 16" "set node_ids \<noteq> {}" using assms(3,4,6) by simp_all
  from acc_completed [OF s1(3) assms(1) R(3,1,2) assms(2)] obtain s2 where
    s2: "access_handleEvent net i (AccessCompleted True) s1 = Some s2" "acc_state i ?R (set node_ids) (svc_out s) s2"
      "\<And>m. acc_rem i s2 m \<le> length ?R" using s1(4) by auto
  from acc_run [OF s2(2) R(2)] obtain s3 where
    s3: "access_run net i evs s2 = Some s3" "acc_state i ?R (set node_ids) (svc_out s) s3"
      "\<And>m. acc_rem i s3 m \<le> acc_rem i s2 m - count_list (map fst evs) m" by blast
  have "acc_rem i s3 n = 0" if "n \<in> set node_ids" for n
    using s3(3) [of n] s2(3) [of n] bspec [OF enough that] by simp
  from acc_state_left [OF s3(2) this] obtain rs where
    rs: "svc_out s3 = svc_out s @ map (ChSend i) rs @ fsm_closing i" "\<forall>n\<in>set node_ids. acc_keys n rs = map reg_key ?R"
    by (auto simp: acc_done_def)
  have acc: "ncl_acc ?c1 = []" "ncl_received ?c1 = []" by (simp_all add: AccessRegistersClientImpl_read_def node_client_init_def)
  from acl.session [of recording_ops i rs ?c1] acc obtain c2 m where
    c2: "ncl_events recording_ops access_client_input (ch_events_of i (drop (length (svc_out s)) (svc_out s3))) ?c1 = Some c2"
      "ncl_received c2 = [Inr m]"
      "\<And>n. map_of m n = collected None (map access_class (filter (\<lambda>r. acr_node_id r = n) rs))"
    by (auto simp: rs(1) fsm_closing_def simp del: ch_events_of_append)
  have "\<exists>items. map_of m n = Some (Inr items) \<and> map fst items = keys" if "n \<in> set node_ids" for n
    using access_items [of n rs keys] c2(3) [of n] rs(2) that assms(4,5) by (simp add: comp_def)
  with c1 s1(1,2) s2(1) s3(1) c2(1,2) show ?thesis
    by (intro exI [of _ ?c1] exI [of _ q] exI [of _ qs] exI [of _ s0] exI [of _ s1] exI [of _ s2] exI [of _ s3]
        exI [of _ c2] exI [of _ m]) (simp del: access_client_handleEvent_def access_handleEvent.simps)
qed

text \<open>
  C14. Registers come back complete. A client that reads registers on a set of nodes gets, once every
  node has answered often enough, exactly one success, with an entry for every node that lists
  all requested registers in the requested order, each with its value or its own error,
  whatever requests failed on the way and however the answers interleaved.
\<close>
theorem access_registers_client_to_nodes:
  fixes s :: "'w access_service"
  assumes "is_order (cy_order net)" "\<And>n w. fst (cy_makeClient net n w) = None"
    and "node_ids \<noteq> []" "keys \<noteq> []" "[] \<notin> set keys" "length keys < 2 ^ 16"
    and enough: "\<forall>n\<in>set node_ids. length keys \<le> count_list (map fst evs) n"
  defines "i \<equiv> svc_next_fsm_id s"
  shows "\<exists>c1 q qs s0 s1 s2 s3 c2 m.
    access_client_handleEvent recording_ops ChConnected (AccessRegistersClientImpl_read node_ids keys timeout []) = Some c1 \<and>
    ncl_channel c1 = map ClSend (q # qs) @ [ClComplete None True] \<and>
    access_new_channel q s = Some (i, s0) \<and> access_inputs i qs s0 = Some s1 \<and>
    access_handleEvent net i (AccessCompleted True) s1 = Some s2 \<and> access_run net i evs s2 = Some s3 \<and>
    ncl_events recording_ops access_client_input (ch_events_of i (drop (length (svc_out s)) (svc_out s3))) c1 = Some c2 \<and>
    ncl_received c2 = [Inr m] \<and>
    (\<forall>n\<in>set node_ids. \<exists>items. map_of m n = Some (Inr items) \<and> map fst items = keys)"
  using access_read_to_nodes [OF assms(1-6) enough] unfolding i_def .

theorem access_registers_client_to_nodes_witness:
  "\<exists>c1 c2 m evs. access_client_handleEvent recording_ops ChConnected (AccessRegistersClientImpl_read [5, 9] [[1]] 7 []) = Some c1 \<and>
    ncl_events recording_ops access_client_input evs c1 = Some c2 \<and> ncl_received c2 = [Inr m] \<and>
    map (map_option (map_sum id (map fst)) \<circ> map_of m) [5, 9] = [Some (Inr [[1]]), Some (Inr [[1]])]"
proof -
  let ?evs = "[(9, AccessValue []), (5, AccessFailure ResponsePromiseExpired)]"
  have h: "[5, 9 :: u16] \<noteq> []" "[[1 :: byte]] \<noteq> []" "[] \<notin> set [[1 :: byte]]" "length [[1 :: byte]] < 2 ^ 16" by simp_all
  have "\<forall>n\<in>set [5, 9]. length [[1 :: byte]] \<le> count_list (map fst ?evs) n" by simp
  from access_registers_client_to_nodes [OF refusing_net_simps(1) [of 9] refusing_net_simps(2) h this,
      where s = "access_init ()" and timeout = 7]
  obtain c1 c2 m and s3 :: "unit access_service" where
    r: "access_client_handleEvent recording_ops ChConnected (AccessRegistersClientImpl_read [5, 9] [[1]] 7 []) = Some c1"
      "ncl_events recording_ops access_client_input
        (ch_events_of (svc_next_fsm_id (access_init ())) (drop (length (svc_out (access_init ()))) (svc_out s3))) c1 = Some c2"
      "ncl_received c2 = [Inr m]" and
    all: "\<forall>n\<in>set [5, 9]. \<exists>items. map_of m n = Some (Inr items) \<and> map fst items = [[1]]" by blast
  have "map (map_option (map_sum id (map fst)) \<circ> map_of m) [5, 9] = [Some (Inr [[1]]), Some (Inr [[1]])]" using all by auto
  with r show ?thesis
    by (intro exI [of _ c1] exI [of _ c2] exI [of _ m] exI conjI)
qed

text \<open>
  What the register listing tells the user. The receiver is called once, with an entry for
  every node that sent anything: a failure if that was the first response of the node, and
  otherwise a success with the names in the order they came, even when the node failed later:
  that failure is dropped, and an incomplete list is reported as a success.
\<close>

theorem list_client_result:
  "\<exists>s' m. ncl_events cops list_client_input (ch_events_of i (map (ChSend i) rs @ [ChComplete i None False, ChRelease i]))
       (ListRegistersClientImpl_init node_ids timeout c) = Some s' \<and> ncl_received s' = [Inr m] \<and>
     (\<forall>n. map_of m n =
       (case filter (\<lambda>r. lrr_node_id r = n) rs of
          [] \<Rightarrow> None
        | r # _ \<Rightarrow> Some (case dsdlErrorToOptError (lrr_error r) of
             Some err \<Rightarrow> Inl err
           | None \<Rightarrow> Inr (map lrr_item (filter (\<lambda>r. lrr_node_id r = n \<and> error_code (lrr_error r) = 0) rs)))))"
proof -
  let ?s = "ListRegistersClientImpl_init node_ids timeout c"
  have init: "ncl_acc ?s = []" "ncl_received ?s = []" by (simp_all add: ListRegistersClientImpl_init_def node_client_init_def)
  have items: "concat (map (case_sum (\<lambda>a. []) (\<lambda>v. [v])) (map list_class xs)) = map lrr_item (filter (\<lambda>r. error_code (lrr_error r) = 0) xs)" for xs
    by (induction xs) (auto simp: list_class_def dsdlErrorToOptError_def)
  have "collected None (map list_class (filter (\<lambda>r. lrr_node_id r = n) rs)) =
      (case filter (\<lambda>r. lrr_node_id r = n) rs of
          [] \<Rightarrow> None
        | r # _ \<Rightarrow> Some (case dsdlErrorToOptError (lrr_error r) of
             Some err \<Rightarrow> Inl err
           | None \<Rightarrow> Inr (map lrr_item (filter (\<lambda>r. lrr_node_id r = n \<and> error_code (lrr_error r) = 0) rs))))" for n
  proof (cases "filter (\<lambda>r. lrr_node_id r = n) rs")
    case (Cons r rs')
    have two: "filter (\<lambda>r. lrr_node_id r = n \<and> error_code (lrr_error r) = 0) rs = filter (\<lambda>r. error_code (lrr_error r) = 0) (r # rs')"
      unfolding Cons [symmetric] by (simp add: filter_filter conj_commute)
    show ?thesis
    proof (cases "dsdlErrorToOptError (lrr_error r)")
      case None
      then have "list_class r = Inr (lrr_item r)" "error_code (lrr_error r) = 0"
        by (auto simp: list_class_def dsdlErrorToOptError_def split: if_splits)
      with None items [of "r # rs'"] show ?thesis unfolding Cons two by (simp add: collected_items)
    next
      case (Some err)
      then have "list_class r = Inl err" by (simp add: list_class_def)
      with Some show ?thesis unfolding Cons by (simp add: collected_None)
    qed
  qed simp
  with lcl.session [of cops i rs ?s] init show ?thesis by auto
qed

text \<open>
  A request for no node is never answered: with an empty list of node ids the client sends no
  request, and since nothing was sent on the gateway its completion is not sent either; the
  daemon never hears of the channel, and the receiver is not called.
\<close>

theorem empty_request_hangs:
  assumes "cr_heap s a = Some g" "cr_is_connected s" "gw_next_sequence g = 0"
  shows "\<exists>c'. exec_client_handleEvent (gateway_ch_ops mc (cr_gw_send e a) (cr_gw_complete e a) svc) ChConnected
      (ExecCmdClientImpl_init [] node_request timeout s) = Some c' \<and> ncl_received c' = [] \<and> cr_pipe (ncl_channel c') = cr_pipe s"
proof -
  have "exec_buildRequests [] node_request timeout = []" by (simp add: exec_buildRequests_def node_id_chunks.simps)
  with assms show ?thesis
    by (simp add: ncl_handleEvent_def ncl_handleConnected_def ExecCmdClientImpl_init_def node_client_init_def gateway_ch_ops_def
        channel_complete_def cr_gw_complete_def cr_isConnected_def cr_set_gateway_def Let_def)
qed

theorem empty_request_hangs_witness:
  "\<exists>c'. exec_client_handleEvent (gateway_ch_ops \<lparr>msg_serialize = (\<lambda>_. None), msg_deserialize = (\<lambda>_. None)\<rparr>
        (cr_gw_send (wire_client_env dsdl_codec) 0) (cr_gw_complete (wire_client_env dsdl_codec) 0) 7) ChConnected
      (ExecCmdClientImpl_init [] \<lparr>exec_command = 1, exec_parameter = []\<rparr> 7 (two_gateways True)) = Some c' \<and>
    ncl_received c' = [] \<and> cr_pipe (ncl_channel c') = []"
proof -
  let ?g = "(GatewayImpl_create 0)\<lparr>gw_event_handler := Some 10\<rparr> :: nat client_gateway"
  have "cr_heap (two_gateways True) 0 = Some ?g" "cr_is_connected (two_gateways True)" "gw_next_sequence ?g = 0"
    "cr_pipe (two_gateways True) = []" by (simp_all add: GatewayImpl_create_def)
  with empty_request_hangs [of "two_gateways True" 0 ?g] show ?thesis by metis
qed

text \<open>
  A negative timeout becomes an enormous one: the clamp at zero works on the unsigned value
  and does nothing, so the nodes get a timeout of at least half the range of 64 bits.
\<close>

theorem negative_timeout_not_clamped:
  assumes "sint timeout < 0" "q \<in> set (exec_buildRequests node_ids node_request timeout)"
  shows "2 ^ 63 \<le> unat (exq_timeout_us q)"
proof -
  have "exq_timeout_us q = timeout" using assms(2) by (auto simp: exec_buildRequests_def timeout_us_of_def)
  moreover have "\<not> uint timeout < 2 ^ 63"
  proof
    assume "uint timeout < 2 ^ 63"
    moreover have "- (2 ^ 63) \<le> uint timeout" by (rule order_trans [OF _ uint_ge_0]) simp
    ultimately have "sint timeout = uint timeout" unfolding sint_uint by (intro signed_take_bit_int_eq_self) simp_all
    with assms(1) show False by simp
  qed
  then have "int (2 ^ 63) \<le> uint timeout" by simp
  then have "2 ^ 63 \<le> nat (uint timeout)" by (simp only: le_nat_iff [OF uint_ge_0])
  ultimately show ?thesis by (simp only: unat_eq_nat_uint)
qed

theorem negative_timeout_not_clamped_witness:
  "2 ^ 63 \<le> unat (exq_timeout_us \<lparr>exq_timeout_us = - 1, exq_node_ids = [5], exq_payload = \<lparr>exec_command = 1, exec_parameter = []\<rparr>\<rparr>)"
proof (rule negative_timeout_not_clamped [of "- 1" _ "[5]"])
  show "\<lparr>exq_timeout_us = - 1, exq_node_ids = [5], exq_payload = \<lparr>exec_command = 1, exec_parameter = []\<rparr>\<rparr>
      \<in> set (exec_buildRequests [5] \<lparr>exec_command = 1, exec_parameter = []\<rparr> (- 1))"
    by (simp add: exec_buildRequests_def node_id_chunks.simps node_ids_capacity_def timeout_us_of_def)
qed simp

end
