(* ===== verification/Sdk_Calls.thy ===== *)
theory Sdk_Calls
  imports Node_Clients
begin

text \<open>
  The SDK calls that lead to the node clients: \<^verbatim>\<open>src/sdk/node_command_client.cpp\<close> and
  \<^verbatim>\<open>src/sdk/node_registry_client.cpp\<close>. A call gives a ready result (\<open>Inl\<close>, the \<open>just\<close> sender) or a
  client to submit (\<open>Inr\<close>). \<open>max_name\<close> is the capacity of a register name in the public DSDL types.
\<close>

definition COMMAND_RESTART :: u16 where "COMMAND_RESTART = 65535"
definition COMMAND_BEGIN_SOFTWARE_UPDATE :: u16 where "COMMAND_BEGIN_SOFTWARE_UPDATE = 65533"

definition sendCommand :: "u16 list \<Rightarrow> exec_req_payload \<Rightarrow> u64 \<Rightarrow> 'c \<Rightarrow> (exec_request, exec_outcome, 'c) node_client" where
  "sendCommand node_ids node_request timeout c = ExecCmdClientImpl_init node_ids node_request timeout c"

text \<open>The result handed on: the same map, rebuilt entry by entry in the order of the other one.\<close>

definition command_transform ::
    "((u16 \<times> exec_outcome) list \<Rightarrow> (u16 \<times> exec_outcome) list) \<Rightarrow> sdk_error + (u16, exec_outcome) umap \<Rightarrow>
     sdk_error + (u16, exec_outcome) umap" where
  "command_transform order result =
     (case result of
        Inl failure \<Rightarrow> Inl failure
      | Inr svc_success \<Rightarrow> Inr (fold (\<lambda>(n, v). um_emplace n v) (order svc_success) []))"

definition restart :: "u16 list \<Rightarrow> u64 \<Rightarrow> 'c \<Rightarrow> (exec_request, exec_outcome, 'c) node_client" where
  "restart node_ids timeout c = sendCommand node_ids \<lparr>exec_command = COMMAND_RESTART, exec_parameter = []\<rparr> timeout c"

definition beginSoftwareUpdate :: "u16 list \<Rightarrow> byte list \<Rightarrow> u64 \<Rightarrow> 'c \<Rightarrow> (exec_request, exec_outcome, 'c) node_client" where
  "beginSoftwareUpdate node_ids file_path timeout c =
     sendCommand node_ids \<lparr>exec_command = COMMAND_BEGIN_SOFTWARE_UPDATE, exec_parameter = file_path\<rparr> timeout c"

definition registry_list :: "u16 list \<Rightarrow> u64 \<Rightarrow> 'c \<Rightarrow> (list_request, list_outcome, 'c) node_client" where
  "registry_list node_ids timeout c = ListRegistersClientImpl_init node_ids timeout c"

definition registry_read ::
    "nat \<Rightarrow> u16 list \<Rightarrow> byte list list \<Rightarrow> u64 \<Rightarrow> 'c \<Rightarrow> sdk_error + (access_input, access_outcome, 'c) node_client" where
  "registry_read max_name node_ids registers timeout c =
     (if list_ex (\<lambda>key. length key > max_name) registers then Inl (mkError InvalidArgument)
      else Inr (AccessRegistersClientImpl_read node_ids registers timeout c))"

definition registry_write ::
    "nat \<Rightarrow> u16 list \<Rightarrow> reg_key_value list \<Rightarrow> u64 \<Rightarrow> 'c \<Rightarrow> sdk_error + (access_input, access_outcome, 'c) node_client" where
  "registry_write max_name node_ids registers timeout c =
     (if list_ex (\<lambda>reg. length (reg_key reg) > max_name) registers then Inl (mkError InvalidArgument)
      else Inr (AccessRegistersClientImpl_write node_ids registers timeout c))"

lemma fold_emplace_map_of:
  "map_of (fold (\<lambda>(n, v). um_emplace n v) es m) n = (case map_of m n of Some v \<Rightarrow> Some v | None \<Rightarrow> map_of es n)"
  by (induction es arbitrary: m) (auto simp: um_simps split: option.splits)

text \<open>
  The result of a command is handed on unchanged: every node of the service's result, and no
  other, is in the result the user gets, with the same outcome, whatever the order in which the
  hash map is walked; and a failure stays that failure.
\<close>

theorem command_transform_keeps:
  assumes "is_order order" "um_wf m"
  shows "command_transform order (Inl err) = Inl err \<and>
    (\<exists>m'. command_transform order (Inr m) = Inr m' \<and> map_of m' = map_of m)"
proof -
  have "mset (order m) = mset m" using assms(1) by (simp add: is_order_def)
  moreover from this have "distinct (map fst (order m))" using assms(2) by (metis mset_map mset_eq_imp_distinct_iff)
  ultimately have "map_of (order m) = map_of m"
    using assms(2) by (intro map_of_eqI) (auto simp: map_of_eq_Some_iff simp flip: set_mset_mset)
  then show ?thesis by (auto simp: command_transform_def fold_emplace_map_of fun_eq_iff)
qed

theorem command_transform_keeps_witness:
  "\<exists>m'. command_transform rev (Inr [(5, Inl (mkError TimedOut)), (9, Inl (mkError Busy))]) = Inr m'
     \<and> map_of m' 5 = Some (Inl (mkError TimedOut))"
proof -
  have "um_wf [(5 :: u16, Inl (mkError TimedOut) :: exec_outcome), (9, Inl (mkError Busy))]" by simp
  from command_transform_keeps [OF is_order_rev this, of "mkError Busy"] show ?thesis by auto
qed

end
