(* ===== verification/Executor.thy ===== *)
theory Executor
  imports Posix_Io "HOL-Library.Signed_Division" "HOL-Library.While_Combinator"
begin

text \<open>
  The single-threaded executors of the platform layer: \<^verbatim>\<open>linux/epoll_single_threaded_executor.hpp\<close> and
  \<^verbatim>\<open>bsd/kqueue_single_threaded_executor.hpp\<close> under \<^verbatim>\<open>include/ocvsmd/platform/\<close>, and the two loops that drive an
  executor: \<open>waitPollingUntil\<close> (\<^verbatim>\<open>platform/defines.hpp\<close>) and \<open>Engine::runWhile\<close>
  (\<^verbatim>\<open>src/daemon/engine/engine.cpp\<close>).

  An awaitable node is an object at an address (\<open>0\<close> is null) that the kernel knows by a
  pointer to it. The base class of libcyphal and the kernel calls are parameters; \<open>None\<close> of
  an operation is the use of an object that does not exist. Durations and time points are
  microseconds.
\<close>

section \<open>Awaitable nodes\<close>

datatype trigger = Readable int | Writable int

record 'e await_node =
  an_fd :: int
  an_events :: 'e

record ('n, 'k, 'x) awaiter =
  aw_nodes :: "(nat, 'n) umap"
  aw_total :: u64
  aw_kernel :: 'k
  aw_base :: 'x

text \<open>The callback nodes of the base class, its clock, and \<open>sleep_for\<close>.\<close>

record ('f, 'x) base_executor =
  bx_make :: "nat \<Rightarrow> 'f \<Rightarrow> 'x \<Rightarrow> 'x"
  bx_insert :: "nat \<Rightarrow> 'x \<Rightarrow> 'x"
  bx_move :: "nat \<Rightarrow> nat \<Rightarrow> 'x \<Rightarrow> 'x"
  bx_destroy :: "nat \<Rightarrow> 'x \<Rightarrow> 'x"
  bx_schedule :: "nat \<Rightarrow> int \<Rightarrow> 'x \<Rightarrow> 'x"
  bx_now :: "'x \<Rightarrow> int"
  bx_sleep :: "int \<Rightarrow> 'x \<Rightarrow> 'x"

datatype poll_failure = PollPlatformError errno | PollArgumentError

text \<open>The callbacks of ready nodes are scheduled for now.\<close>

fun schedule_ready :: "('f, 'x) base_executor \<Rightarrow> int \<Rightarrow> nat list \<Rightarrow> ('n, 'k, 'x) awaiter \<Rightarrow> ('n, 'k, 'x) awaiter option" where
  "schedule_ready bx now_time [] s = Some s"
| "schedule_ready bx now_time (p # ps) s =
     (if p = 0 then schedule_ready bx now_time ps s
      else if p \<in> set (um_keys (aw_nodes s))
        then schedule_ready bx now_time ps (s\<lparr>aw_base := bx_schedule bx p now_time (aw_base s)\<rparr>)
      else None)"

section \<open>The epoll executor\<close>

datatype epoll_op = EPOLL_CTL_ADD | EPOLL_CTL_MOD | EPOLL_CTL_DEL

record 'k epoll_sys =
  epoll_ctl :: "epoll_op \<Rightarrow> int \<Rightarrow> u32 \<Rightarrow> nat \<Rightarrow> 'k \<Rightarrow> 'k"
  epoll_wait :: "nat \<Rightarrow> int \<Rightarrow> 'k \<Rightarrow> (errno + (u32 \<times> nat) list) \<times> 'k"

type_synonym ('k, 'x) epoll_executor = "(u32 await_node, 'k, 'x) awaiter"

definition EPOLLIN :: u32 where "EPOLLIN = 1"
definition EPOLLOUT :: u32 where "EPOLLOUT = 4"
definition MaxEpollEvents :: nat where "MaxEpollEvents = 16"
definition INT_MAX :: int where "INT_MAX = 2 ^ 31 - 1"

definition epoll_node_make :: "('f, 'x) base_executor \<Rightarrow> nat \<Rightarrow> 'f \<Rightarrow> ('k, 'x) epoll_executor \<Rightarrow> ('k, 'x) epoll_executor" where
  "epoll_node_make bx this f s =
     s\<lparr>aw_nodes := um_assign this \<lparr>an_fd = -1, an_events = 0\<rparr> (aw_nodes s), aw_base := bx_make bx this f (aw_base s)\<rparr>"

definition epoll_node_setup :: "'k epoll_sys \<Rightarrow> nat \<Rightarrow> int \<Rightarrow> u32 \<Rightarrow> ('k, 'x) epoll_executor \<Rightarrow> ('k, 'x) epoll_executor" where
  "epoll_node_setup sys this fd events s =
     s\<lparr>aw_nodes := um_assign this \<lparr>an_fd = fd, an_events = events\<rparr> (aw_nodes s),
       aw_total := aw_total s + 1,
       aw_kernel := epoll_ctl sys EPOLL_CTL_ADD fd events this (aw_kernel s)\<rparr>"

definition epoll_node_move ::
    "'k epoll_sys \<Rightarrow> ('f, 'x) base_executor \<Rightarrow> nat \<Rightarrow> nat \<Rightarrow> ('k, 'x) epoll_executor \<Rightarrow> ('k, 'x) epoll_executor option" where
  "epoll_node_move sys bx other this s = do {
     n \<leftarrow> map_of (aw_nodes s) other;
     let s1 = s\<lparr>aw_nodes := um_assign this n (um_assign other \<lparr>an_fd = -1, an_events = 0\<rparr> (aw_nodes s)),
                aw_base := bx_move bx other this (aw_base s)\<rparr>;
     Some (if 0 \<le> an_fd n
           then s1\<lparr>aw_kernel := epoll_ctl sys EPOLL_CTL_MOD (an_fd n) (an_events n) this (aw_kernel s1)\<rparr> else s1)
   }"

definition epoll_node_destroy ::
    "'k epoll_sys \<Rightarrow> ('f, 'x) base_executor \<Rightarrow> nat \<Rightarrow> ('k, 'x) epoll_executor \<Rightarrow> ('k, 'x) epoll_executor option" where
  "epoll_node_destroy sys bx this s = do {
     n \<leftarrow> map_of (aw_nodes s) this;
     let s1 = (if 0 \<le> an_fd n
               then s\<lparr>aw_kernel := epoll_ctl sys EPOLL_CTL_DEL (an_fd n) 0 0 (aw_kernel s), aw_total := aw_total s - 1\<rparr>
               else s);
     Some (s1\<lparr>aw_nodes := um_erase this (aw_nodes s1), aw_base := bx_destroy bx this (aw_base s1)\<rparr>)
   }"

text \<open>\<open>new_cb_node\<close> is the local object, \<open>any\<close> the one in the callback that is returned.\<close>

definition epoll_registerAwaitableCallback ::
    "'k epoll_sys \<Rightarrow> ('f, 'x) base_executor \<Rightarrow> nat \<Rightarrow> nat \<Rightarrow> 'f \<Rightarrow> trigger \<Rightarrow> ('k, 'x) epoll_executor \<Rightarrow>
     ('k, 'x) epoll_executor option" where
  "epoll_registerAwaitableCallback sys bx new_cb_node any f trigger s = do {
     let s1 = epoll_node_make bx new_cb_node f s;
     let s2 = (case trigger of
                 Readable fd \<Rightarrow> epoll_node_setup sys new_cb_node fd EPOLLIN s1
               | Writable fd \<Rightarrow> epoll_node_setup sys new_cb_node fd EPOLLOUT s1);
     let s3 = s2\<lparr>aw_base := bx_insert bx new_cb_node (aw_base s2)\<rparr>;
     s4 \<leftarrow> epoll_node_move sys bx new_cb_node any s3;
     epoll_node_destroy sys bx new_cb_node s4
   }"

text \<open>\<open>duration_cast\<close> to milliseconds truncates; the result fits the \<open>int\<close> of \<open>epoll_wait\<close>.\<close>

definition clamped_timeout_ms :: "int option \<Rightarrow> int" where
  "clamped_timeout_ms timeout =
     (case timeout of None \<Rightarrow> -1 | Some t \<Rightarrow> max 0 (min (t sdiv 1000) INT_MAX))"

definition epoll_pollAwaitableResourcesFor ::
    "'k epoll_sys \<Rightarrow> ('f, 'x) base_executor \<Rightarrow> int option \<Rightarrow> ('k, 'x) epoll_executor \<Rightarrow>
     (poll_failure option \<times> ('k, 'x) epoll_executor) option" where
  "epoll_pollAwaitableResourcesFor sys bx timeout s =
     (if aw_total s = 0 then
        (case timeout of
           None \<Rightarrow> Some (Some PollArgumentError, s)
         | Some t \<Rightarrow> Some (None, s\<lparr>aw_base := bx_sleep bx t (aw_base s)\<rparr>))
      else
        (case epoll_wait sys MaxEpollEvents (clamped_timeout_ms timeout) (aw_kernel s) of
           (Inl err, k) \<Rightarrow>
             Some (if err = EINTR then None else Some (PollPlatformError err), s\<lparr>aw_kernel := k\<rparr>)
         | (Inr evs, k) \<Rightarrow>
             let s1 = s\<lparr>aw_kernel := k\<rparr>
             in if evs = [] then Some (None, s1)
                else map_option (Pair None) (schedule_ready bx (bx_now bx (aw_base s1)) (map snd evs) s1)))"

section \<open>The kqueue executor\<close>

datatype kevent_action = EV_ADD | EV_DELETE

record 'k kqueue_sys =
  kevent_change :: "kevent_action \<Rightarrow> int \<Rightarrow> 16 word \<Rightarrow> nat \<Rightarrow> 'k \<Rightarrow> 'k"
  kevent_wait :: "nat \<Rightarrow> int option \<Rightarrow> 'k \<Rightarrow> (errno + nat list) \<times> 'k"

type_synonym ('k, 'x) kqueue_executor = "(16 word await_node, 'k, 'x) awaiter"

definition EVFILT_READ :: "16 word" where "EVFILT_READ = -1"
definition EVFILT_WRITE :: "16 word" where "EVFILT_WRITE = -2"
definition MaxEvents :: nat where "MaxEvents = 16"

definition kqueue_node_make ::
    "('f, 'x) base_executor \<Rightarrow> nat \<Rightarrow> 'f \<Rightarrow> ('k, 'x) kqueue_executor \<Rightarrow> ('k, 'x) kqueue_executor" where
  "kqueue_node_make bx this f s =
     s\<lparr>aw_nodes := um_assign this \<lparr>an_fd = -1, an_events = 0\<rparr> (aw_nodes s), aw_base := bx_make bx this f (aw_base s)\<rparr>"

definition kqueue_node_setup ::
    "'k kqueue_sys \<Rightarrow> nat \<Rightarrow> int \<Rightarrow> 16 word \<Rightarrow> ('k, 'x) kqueue_executor \<Rightarrow> ('k, 'x) kqueue_executor" where
  "kqueue_node_setup sys this fd filter' s =
     s\<lparr>aw_nodes := um_assign this \<lparr>an_fd = fd, an_events = filter'\<rparr> (aw_nodes s),
       aw_total := aw_total s + 1,
       aw_kernel := kevent_change sys EV_ADD fd filter' this (aw_kernel s)\<rparr>"

definition kqueue_node_move ::
    "'k kqueue_sys \<Rightarrow> ('f, 'x) base_executor \<Rightarrow> nat \<Rightarrow> nat \<Rightarrow> ('k, 'x) kqueue_executor \<Rightarrow> ('k, 'x) kqueue_executor option" where
  "kqueue_node_move sys bx other this s = do {
     n \<leftarrow> map_of (aw_nodes s) other;
     let s1 = s\<lparr>aw_nodes := um_assign this n (um_assign other \<lparr>an_fd = -1, an_events = 0\<rparr> (aw_nodes s)),
                aw_base := bx_move bx other this (aw_base s)\<rparr>;
     Some (if 0 \<le> an_fd n
           then s1\<lparr>aw_kernel := kevent_change sys EV_ADD (an_fd n) (an_events n) this
                                  (kevent_change sys EV_DELETE (an_fd n) (an_events n) 0 (aw_kernel s1))\<rparr> else s1)
   }"

definition kqueue_node_destroy ::
    "'k kqueue_sys \<Rightarrow> ('f, 'x) base_executor \<Rightarrow> nat \<Rightarrow> ('k, 'x) kqueue_executor \<Rightarrow> ('k, 'x) kqueue_executor option" where
  "kqueue_node_destroy sys bx this s = do {
     n \<leftarrow> map_of (aw_nodes s) this;
     let s1 = (if 0 \<le> an_fd n
               then s\<lparr>aw_kernel := kevent_change sys EV_DELETE (an_fd n) (an_events n) 0 (aw_kernel s), aw_total := aw_total s - 1\<rparr>
               else s);
     Some (s1\<lparr>aw_nodes := um_erase this (aw_nodes s1), aw_base := bx_destroy bx this (aw_base s1)\<rparr>)
   }"

definition kqueue_registerAwaitableCallback ::
    "'k kqueue_sys \<Rightarrow> ('f, 'x) base_executor \<Rightarrow> nat \<Rightarrow> nat \<Rightarrow> 'f \<Rightarrow> trigger \<Rightarrow> ('k, 'x) kqueue_executor \<Rightarrow>
     ('k, 'x) kqueue_executor option" where
  "kqueue_registerAwaitableCallback sys bx new_cb_node any f trigger s = do {
     let s1 = kqueue_node_make bx new_cb_node f s;
     let s2 = (case trigger of
                 Readable fd \<Rightarrow> kqueue_node_setup sys new_cb_node fd EVFILT_READ s1
               | Writable fd \<Rightarrow> kqueue_node_setup sys new_cb_node fd EVFILT_WRITE s1);
     let s3 = s2\<lparr>aw_base := bx_insert bx new_cb_node (aw_base s2)\<rparr>;
     s4 \<leftarrow> kqueue_node_move sys bx new_cb_node any s3;
     kqueue_node_destroy sys bx new_cb_node s4
   }"

text \<open>
  The whole timeout goes into \<open>tv_nsec\<close>, whose type has 64 bits; the multiplication by 1000
  is done in 64 bits by \<open>duration_cast\<close> and does not overflow for timeouts below 292 years.
\<close>

definition timeout_spec_nsec :: "int \<Rightarrow> int" where
  "timeout_spec_nsec t = max 0 (min (t * 1000) (2 ^ 63 - 1))"

definition kqueue_pollAwaitableResourcesFor ::
    "'k kqueue_sys \<Rightarrow> ('f, 'x) base_executor \<Rightarrow> int option \<Rightarrow> ('k, 'x) kqueue_executor \<Rightarrow>
     (poll_failure option \<times> ('k, 'x) kqueue_executor) option" where
  "kqueue_pollAwaitableResourcesFor sys bx timeout s =
     (if aw_total s = 0 then
        (case timeout of
           None \<Rightarrow> Some (Some PollArgumentError, s)
         | Some t \<Rightarrow> Some (None, s\<lparr>aw_base := bx_sleep bx t (aw_base s)\<rparr>))
      else
        (case kevent_wait sys MaxEvents (map_option timeout_spec_nsec timeout) (aw_kernel s) of
           (Inl err, k) \<Rightarrow>
             Some (if err = EINTR then None else Some (PollPlatformError err), s\<lparr>aw_kernel := k\<rparr>)
         | (Inr evs, k) \<Rightarrow>
             let s1 = s\<lparr>aw_kernel := k\<rparr>
             in if evs = [] then Some (None, s1)
                else map_option (Pair None) (schedule_ready bx (bx_now bx (aw_base s1)) evs s1)))"

section \<open>The descriptor of an executor\<close>

text \<open>
  The constructors make the descriptor of the kernel object and the destructors close it;
  a descriptor that could not be made (\<open>-1\<close>) is kept, and all calls on it fail unnoticed.
\<close>

definition awaiter_init :: "'k \<Rightarrow> 'x \<Rightarrow> ('n, 'k, 'x) awaiter" where
  "awaiter_init k x = \<lparr>aw_nodes = [], aw_total = 0, aw_kernel = k, aw_base = x\<rparr>"

definition EpollSingleThreadedExecutor_make ::
    "('w \<Rightarrow> int \<times> 'w) \<Rightarrow> 'k \<Rightarrow> 'x \<Rightarrow> 'w \<Rightarrow> (int \<times> ('k, 'x) epoll_executor) \<times> 'w" where
  "EpollSingleThreadedExecutor_make epoll_create1 k x w =
     (let (epollfd, w1) = epoll_create1 w in ((epollfd, awaiter_init k x), w1))"

definition EpollSingleThreadedExecutor_destroy :: "(int \<Rightarrow> 'w \<Rightarrow> 'w) \<Rightarrow> int \<Rightarrow> 'w \<Rightarrow> 'w" where
  "EpollSingleThreadedExecutor_destroy close epollfd w = (if 0 \<le> epollfd then close epollfd w else w)"

definition KqueueSingleThreadedExecutor_make ::
    "('w \<Rightarrow> int \<times> 'w) \<Rightarrow> 'k \<Rightarrow> 'x \<Rightarrow> 'w \<Rightarrow> (int \<times> ('k, 'x) kqueue_executor) \<times> 'w" where
  "KqueueSingleThreadedExecutor_make kqueue k x w =
     (let (kqueuefd, w1) = kqueue w in ((kqueuefd, awaiter_init k x), w1))"

definition KqueueSingleThreadedExecutor_destroy :: "(int \<Rightarrow> 'w \<Rightarrow> 'w) \<Rightarrow> int \<Rightarrow> 'w \<Rightarrow> 'w" where
  "KqueueSingleThreadedExecutor_destroy close kqueuefd w = (if 0 \<le> kqueuefd then close kqueuefd w else w)"

text \<open>An executor leaves no descriptor behind, also when making it failed.\<close>

lemma executor_descriptor_balanced:
  assumes create: "\<And>w. case create w of (fd, w') \<Rightarrow> if 0 \<le> fd then fd \<notin> opened w \<and> opened w' = insert fd (opened w) else opened w' = opened w"
    and close: "\<And>fd w. opened (close fd w) = opened w - {fd}"
  shows "case EpollSingleThreadedExecutor_make create k x w of ((fd, s), w') \<Rightarrow>
      opened (EpollSingleThreadedExecutor_destroy close fd w') = opened w"
    and "case KqueueSingleThreadedExecutor_make create k x w of ((fd, s), w') \<Rightarrow>
      opened (KqueueSingleThreadedExecutor_destroy close fd w') = opened w"
  using create [of w] close
  by (auto simp: EpollSingleThreadedExecutor_make_def EpollSingleThreadedExecutor_destroy_def
      KqueueSingleThreadedExecutor_make_def KqueueSingleThreadedExecutor_destroy_def split: if_splits)

section \<open>The driving loops\<close>

text \<open>An executor as the loops use it; the lateness of a spin is only logged.\<close>

record 'w executor =
  ex_spinOnce :: "'w \<Rightarrow> int option \<times> 'w"
  ex_now :: "'w \<Rightarrow> int"
  ex_poll :: "int option \<Rightarrow> 'w \<Rightarrow> poll_failure option \<times> 'w"

definition poll_timeout :: "int option \<Rightarrow> int \<Rightarrow> int" where
  "poll_timeout next_exec_time now =
     (case next_exec_time of None \<Rightarrow> 1000000 | Some t \<Rightarrow> min 1000000 (t - now))"

partial_function (option) waitPollingUntil :: "'w executor \<Rightarrow> ('w \<Rightarrow> bool) \<Rightarrow> 'w \<Rightarrow> 'w option" where
  "waitPollingUntil ex predicate w =
     (if predicate w then Some w
      else let (next_exec_time, w1) = ex_spinOnce ex w
           in if predicate w1 then Some w1
              else let (failure, w2) = ex_poll ex (Some (poll_timeout next_exec_time (ex_now ex w1))) w1
                   in waitPollingUntil ex predicate w2)"

partial_function (option) runWhile :: "'w executor \<Rightarrow> ('w \<Rightarrow> bool) \<Rightarrow> 'w \<Rightarrow> 'w option" where
  "runWhile ex loop_predicate w =
     (if \<not> loop_predicate w then Some w
      else let (next_exec_time, w1) = ex_spinOnce ex w;
               (failure, w2) = ex_poll ex (Some (poll_timeout next_exec_time (ex_now ex w1))) w1
           in runWhile ex loop_predicate w2)"

section \<open>Programs of awaitable callbacks\<close>

text \<open>
  What the owners of callbacks do with them: register one (at address \<open>b\<close>, through the local
  at \<open>a\<close>), move it to another place, destroy it, and poll in between. \<open>aw_spec\<close> follows the
  callbacks and what each waits for; a program is legal as long as no two callbacks wait for
  the same thing and places are not used twice.
\<close>

datatype 'f aw_op =
    AwRegister nat nat 'f trigger
  | AwMove nat nat
  | AwDestroy nat
  | AwPoll "int option"

fun trigger_fd :: "trigger \<Rightarrow> int" where
  "trigger_fd (Readable fd) = fd"
| "trigger_fd (Writable fd) = fd"

fun aw_spec :: "(trigger \<Rightarrow> 'key) \<Rightarrow> 'f aw_op \<Rightarrow> (nat \<rightharpoonup> 'key) \<Rightarrow> (nat \<rightharpoonup> 'key) option" where
  "aw_spec key (AwRegister a b f t) m =
     (if a \<noteq> 0 \<and> b \<noteq> 0 \<and> a \<noteq> b \<and> m a = None \<and> m b = None \<and> 0 \<le> trigger_fd t \<and> key t \<notin> ran m
      then Some (m(b \<mapsto> key t)) else None)"
| "aw_spec key (AwMove a b) m =
     (case m a of None \<Rightarrow> None | Some k \<Rightarrow> if b \<noteq> 0 \<and> m b = None then Some (m(a := None, b \<mapsto> k)) else None)"
| "aw_spec key (AwDestroy a) m = (case m a of None \<Rightarrow> None | Some k \<Rightarrow> Some (m(a := None)))"
| "aw_spec key (AwPoll timeout) m = Some m"

fun run_ops :: "('o \<Rightarrow> 's \<Rightarrow> 's option) \<Rightarrow> 'o list \<Rightarrow> 's \<Rightarrow> 's option" where
  "run_ops step [] s = Some s"
| "run_ops step (op # ops) s = Option.bind (step op s) (run_ops step ops)"

text \<open>A deterministic simulation: the steps of the model follow the steps of its specification.\<close>

locale step_simulation =
  fixes inv :: "'s \<Rightarrow> bool"
    and abs :: "'s \<Rightarrow> 'a"
    and step :: "'o \<Rightarrow> 's \<Rightarrow> 's option"
    and spec :: "'o \<Rightarrow> 'a \<Rightarrow> 'a option"
  assumes step_law: "inv s \<Longrightarrow> spec op (abs s) = Some m \<Longrightarrow> \<exists>s'. step op s = Some s' \<and> inv s' \<and> abs s' = m"
begin

lemma run_law:
  "inv s \<Longrightarrow> run_ops spec ops (abs s) = Some m \<Longrightarrow> \<exists>s'. run_ops step ops s = Some s' \<and> inv s' \<and> abs s' = m"
proof (induction ops arbitrary: s)
  case (Cons op ops)
  from Cons.prems(2) obtain m1 where m1: "spec op (abs s) = Some m1" "run_ops spec ops m1 = Some m"
    by (auto simp: bind_eq_Some_conv)
  from step_law [OF Cons.prems(1) m1(1)] obtain s1 where "step op s = Some s1" "inv s1" "abs s1 = m1" by blast
  with Cons.IH [of s1] m1(2) show ?case by simp
qed simp

end

text \<open>What the callbacks of an executor wait for.\<close>

definition awaits :: "('e await_node \<Rightarrow> 'key) \<Rightarrow> ('e await_node, 'k, 'x) awaiter \<Rightarrow> nat \<rightharpoonup> 'key" where
  "awaits key s = (\<lambda>a. map_option key (map_of (aw_nodes s) a))"

lemma awaits_simps [simp]:
  "awaits key (s\<lparr>aw_kernel := k\<rparr>) = awaits key s"
  "awaits key (s\<lparr>aw_base := x\<rparr>) = awaits key s"
  "awaits key (s\<lparr>aw_total := u\<rparr>) = awaits key s"
  by (simp_all add: awaits_def)

lemma dom_awaits: "dom (awaits key s) = set (um_keys (aw_nodes s))"
  by (force simp: awaits_def dom_def map_of_eq_None_iff)

text \<open>Scheduling ready nodes is safe when they exist, and changes nothing but the schedule.\<close>

lemma schedule_ready_Some:
  "set ps \<subseteq> set (um_keys (aw_nodes s)) \<Longrightarrow> 0 \<notin> set ps \<Longrightarrow>
   schedule_ready bx t ps s = Some (s\<lparr>aw_base := fold (\<lambda>p. bx_schedule bx p t) ps (aw_base s)\<rparr>)"
  by (induction ps arbitrary: s) auto

text \<open>
  The invariant of both executors: the kernel knows exactly the existing nodes, each by its
  own address, and they are counted.
\<close>

definition aw_inv :: "('k \<Rightarrow> ('e await_node \<times> nat) set) \<Rightarrow> ('e await_node, 'k, 'x) awaiter \<Rightarrow> bool" where
  "aw_inv table s \<longleftrightarrow>
     aw_total s = of_nat (card (dom (map_of (aw_nodes s)))) \<and>
     table (aw_kernel s) = {(n, p). map_of (aw_nodes s) p = Some n} \<and>
     (\<forall>p n. map_of (aw_nodes s) p = Some n \<longrightarrow> p \<noteq> 0 \<and> 0 \<le> an_fd n)"

lemma aw_inv_add:
  assumes "aw_inv table s" "map_of (aw_nodes s) b = None" "b \<noteq> 0" "0 \<le> an_fd n"
    and "map_of (aw_nodes s') = (map_of (aw_nodes s))(b \<mapsto> n)" "aw_total s' = aw_total s + 1"
    and "table (aw_kernel s') = insert (n, b) (table (aw_kernel s))"
  shows "aw_inv table s'"
proof -
  have "card (dom (map_of (aw_nodes s'))) = Suc (card (dom (map_of (aw_nodes s))))"
    using assms(2) by (simp add: assms(5) finite_dom_map_of domIff)
  with assms show ?thesis by (auto simp: aw_inv_def add.commute)
qed

lemma aw_inv_remove:
  assumes "aw_inv table s" "map_of (aw_nodes s) a = Some n"
    and "map_of (aw_nodes s') = (map_of (aw_nodes s))(a := None)" "aw_total s' = aw_total s - 1"
    and "table (aw_kernel s') = table (aw_kernel s) - {(n, a)}"
  shows "aw_inv table s'"
proof -
  have "a \<in> dom (map_of (aw_nodes s))" using assms(2) by blast
  from card_Suc_Diff1 [OF finite_dom_map_of this]
  have "of_nat (card (dom (map_of (aw_nodes s)))) = (of_nat (card (dom (map_of (aw_nodes s')))) + 1 :: u64)"
    by (simp add: assms(3)) (metis add.commute of_nat_Suc)
  with assms show ?thesis by (auto simp: aw_inv_def split: if_splits)
qed

lemma aw_inv_move:
  assumes inv: "aw_inv table s" and a: "map_of (aw_nodes s) a = Some n" and b: "map_of (aw_nodes s) b = None" "b \<noteq> 0"
    and s': "map_of (aw_nodes s') = (map_of (aw_nodes s))(a := None, b \<mapsto> n)" "aw_total s' = aw_total s"
    "table (aw_kernel s') = insert (n, b) (table (aw_kernel s) - {(n, a)})"
  shows "aw_inv table s'"
proof -
  let ?D = "dom (map_of (aw_nodes s))"
  have D: "dom (map_of (aw_nodes s')) = insert b (?D - {a})" unfolding s'(1) by auto
  have "a \<in> ?D" "b \<notin> ?D - {a}" "finite (?D - {a})" using a b by (auto simp: finite_dom_map_of)
  then have "card (dom (map_of (aw_nodes s'))) = card ?D"
    unfolding D by (simp only: card_insert_disjoint card_Suc_Diff1 [OF finite_dom_map_of] if_False not_False_eq_True)
  with inv a b s' show ?thesis by (auto simp: aw_inv_def split: if_splits)
qed

section \<open>The epoll executor follows its program\<close>

text \<open>
  The documented behaviour of epoll: the interest list has at most one entry per descriptor;
  adding one that is there fails and changes nothing, so does modifying one that is not; what
  is reported is in the list and fits the array.
\<close>

definition epoll_law :: "'k epoll_sys \<Rightarrow> ('k \<Rightarrow> int \<rightharpoonup> u32 \<times> nat) \<Rightarrow> bool" where
  "epoll_law sys interest \<longleftrightarrow>
     (\<forall>k fd ev p. interest (epoll_ctl sys EPOLL_CTL_ADD fd ev p k) =
        (if interest k fd = None then (interest k)(fd \<mapsto> (ev, p)) else interest k)) \<and>
     (\<forall>k fd ev p. interest (epoll_ctl sys EPOLL_CTL_MOD fd ev p k) =
        (if interest k fd = None then interest k else (interest k)(fd \<mapsto> (ev, p)))) \<and>
     (\<forall>k fd ev p. interest (epoll_ctl sys EPOLL_CTL_DEL fd ev p k) = (interest k)(fd := None)) \<and>
     (\<forall>n t k. interest (snd (epoll_wait sys n t k)) = interest k) \<and>
     (\<forall>n t k evs. fst (epoll_wait sys n t k) = Inr evs \<longrightarrow>
        length evs \<le> n \<and> snd ` set evs \<subseteq> snd ` ran (interest k))"

definition epoll_step ::
    "'k epoll_sys \<Rightarrow> ('f, 'x) base_executor \<Rightarrow> 'f aw_op \<Rightarrow> ('k, 'x) epoll_executor \<Rightarrow> ('k, 'x) epoll_executor option" where
  "epoll_step sys bx op s =
     (case op of
        AwRegister a b f t \<Rightarrow> epoll_registerAwaitableCallback sys bx a b f t s
      | AwMove a b \<Rightarrow> Option.bind (epoll_node_move sys bx a b s) (epoll_node_destroy sys bx a)
      | AwDestroy a \<Rightarrow> epoll_node_destroy sys bx a s
      | AwPoll timeout \<Rightarrow> map_option snd (epoll_pollAwaitableResourcesFor sys bx timeout s))"

lemma epoll_lawD:
  assumes "epoll_law sys interest"
  shows "interest (epoll_ctl sys EPOLL_CTL_ADD fd ev p k) =
        (if interest k fd = None then (interest k)(fd \<mapsto> (ev, p)) else interest k)"
    "interest (epoll_ctl sys EPOLL_CTL_MOD fd ev p k) =
        (if interest k fd = None then interest k else (interest k)(fd \<mapsto> (ev, p)))"
    "interest (epoll_ctl sys EPOLL_CTL_DEL fd ev p k) = (interest k)(fd := None)"
    "interest (snd (epoll_wait sys n t k)) = interest k"
    "fst (epoll_wait sys n t k) = Inr evs \<Longrightarrow> length evs \<le> n"
    "fst (epoll_wait sys n t k) = Inr evs \<Longrightarrow> snd ` set evs \<subseteq> snd ` ran (interest k)"
  using assms unfolding epoll_law_def by - (elim conjE, (simp; fail | blast))+

definition epoll_table :: "('k \<Rightarrow> int \<rightharpoonup> u32 \<times> nat) \<Rightarrow> 'k \<Rightarrow> (u32 await_node \<times> nat) set" where
  "epoll_table interest k = {(n, p). interest k (an_fd n) = Some (an_events n, p)}"

definition epoll_inv :: "'k epoll_sys \<Rightarrow> ('k \<Rightarrow> int \<rightharpoonup> u32 \<times> nat) \<Rightarrow> ('k, 'x) epoll_executor \<Rightarrow> bool" where
  "epoll_inv sys interest s \<longleftrightarrow> epoll_law sys interest \<and> aw_inv (epoll_table interest) s"

lemma epoll_interest_iff:
  assumes "epoll_inv sys interest s"
  shows "interest (aw_kernel s) fd = Some (ev, p) \<longleftrightarrow> map_of (aw_nodes s) p = Some \<lparr>an_fd = fd, an_events = ev\<rparr>"
proof -
  have "(\<lparr>an_fd = fd, an_events = ev\<rparr>, p) \<in> epoll_table interest (aw_kernel s) \<longleftrightarrow>
      map_of (aw_nodes s) p = Some \<lparr>an_fd = fd, an_events = ev\<rparr>"
    using assms by (simp add: epoll_inv_def aw_inv_def)
  then show ?thesis by (simp add: epoll_table_def)
qed

lemma epoll_unknown_fd:
  assumes "epoll_inv sys interest s" "fd \<notin> ran (awaits an_fd s)"
  shows "interest (aw_kernel s) fd = None"
proof (rule ccontr)
  assume "interest (aw_kernel s) fd \<noteq> None"
  then obtain e p where "interest (aw_kernel s) fd = Some (e, p)" by auto
  with epoll_interest_iff [OF assms(1)] have "map_of (aw_nodes s) p = Some \<lparr>an_fd = fd, an_events = e\<rparr>" by simp
  then have "fd \<in> ran (awaits an_fd s)" by (force simp: awaits_def ran_def)
  with assms(2) show False ..
qed

lemma await_node_eqI: "an_fd n = an_fd m \<Longrightarrow> an_events n = an_events m \<Longrightarrow> n = (m :: 'e await_node)"
  by (cases n; cases m) simp

lemma epoll_register_law:
  assumes inv: "epoll_inv sys interest s"
    and fresh: "b \<noteq> 0" "a \<noteq> b" "map_of (aw_nodes s) a = None" "map_of (aw_nodes s) b = None"
    and fd: "0 \<le> trigger_fd t" "trigger_fd t \<notin> ran (awaits an_fd s)"
  shows "\<exists>s'. epoll_registerAwaitableCallback sys bx a b f t s = Some s' \<and> epoll_inv sys interest s' \<and>
    awaits an_fd s' = (awaits an_fd s)(b \<mapsto> trigger_fd t)"
proof -
  define ev where "ev = (case t of Readable _ \<Rightarrow> EPOLLIN | Writable _ \<Rightarrow> EPOLLOUT)"
  let ?fd = "trigger_fd t" and ?z = "\<lparr>an_fd = -1, an_events = 0\<rparr> :: u32 await_node"
  let ?n = "\<lparr>an_fd = ?fd, an_events = ev\<rparr>"
  let ?k = "epoll_ctl sys EPOLL_CTL_MOD ?fd ev b (epoll_ctl sys EPOLL_CTL_ADD ?fd ev a (aw_kernel s))"
  have law: "epoll_law sys interest" using inv by (simp add: epoll_inv_def)
  note none = epoll_unknown_fd [OF inv fd(2)]
  have k: "interest ?k = (interest (aw_kernel s))(?fd \<mapsto> (ev, b))" by (simp add: epoll_lawD [OF law] none)
  define s' where "s' = s\<lparr>
    aw_nodes := um_erase a (um_assign b ?n (um_assign a ?z (um_assign a ?n (um_assign a ?z (aw_nodes s))))),
    aw_total := aw_total s + 1, aw_kernel := ?k,
    aw_base := bx_destroy bx a (bx_move bx a b (bx_insert bx a (bx_make bx a f (aw_base s))))\<rparr>"
  have reg: "epoll_registerAwaitableCallback sys bx a b f t s = Some s'"
    using fresh(2) fd(1)
    by (cases t) (simp_all add: epoll_registerAwaitableCallback_def epoll_node_make_def epoll_node_setup_def epoll_node_move_def
        epoll_node_destroy_def um_simps s'_def ev_def)
  have nodes: "map_of (aw_nodes s') = (map_of (aw_nodes s))(b \<mapsto> ?n)"
    using fresh by (auto simp: s'_def um_simps fun_eq_iff)
  have "epoll_table interest (aw_kernel s') = insert (?n, b) (epoll_table interest (aw_kernel s))"
    using none by (auto simp: s'_def epoll_table_def k intro: await_node_eqI split: if_splits)
  then have "aw_inv (epoll_table interest) s'"
    by (intro aw_inv_add [OF _ fresh(4,1) _ nodes]) (use inv fd in \<open>simp_all add: epoll_inv_def s'_def\<close>)
  moreover have "awaits an_fd s' = (awaits an_fd s)(b \<mapsto> ?fd)" by (auto simp: awaits_def nodes)
  ultimately show ?thesis using reg law by (auto simp: epoll_inv_def)
qed


lemma epoll_move_law:
  assumes inv: "epoll_inv sys interest s" and a: "awaits an_fd s a = Some fd" and b: "b \<noteq> 0" "map_of (aw_nodes s) b = None"
  shows "\<exists>s'. Option.bind (epoll_node_move sys bx a b s) (epoll_node_destroy sys bx a) = Some s' \<and>
    epoll_inv sys interest s' \<and> awaits an_fd s' = (awaits an_fd s)(a := None, b \<mapsto> fd)"
proof -
  from a obtain n where n: "map_of (aw_nodes s) a = Some n" "an_fd n = fd" by (auto simp: awaits_def)
  have law: "epoll_law sys interest" using inv by (simp add: epoll_inv_def)
  have ab: "a \<noteq> b" using n b by auto
  have fd0: "0 \<le> fd" using inv n by (auto simp: epoll_inv_def aw_inv_def)
  have some: "interest (aw_kernel s) fd = Some (an_events n, a)"
    using epoll_interest_iff [OF inv, of fd "an_events n" a] n by (cases n) simp
  let ?k = "epoll_ctl sys EPOLL_CTL_MOD fd (an_events n) b (aw_kernel s)"
  let ?nodes = "um_erase a (um_assign b n (um_assign a \<lparr>an_fd = -1, an_events = 0\<rparr> (aw_nodes s)))"
  define s' where "s' = s\<lparr>aw_nodes := ?nodes, aw_kernel := ?k, aw_base := bx_destroy bx a (bx_move bx a b (aw_base s))\<rparr>"
  have step: "Option.bind (epoll_node_move sys bx a b s) (epoll_node_destroy sys bx a) = Some s'"
    using n ab fd0 by (simp add: epoll_node_move_def epoll_node_destroy_def um_simps s'_def)
  have nodes: "map_of (aw_nodes s') = (map_of (aw_nodes s))(a := None, b \<mapsto> n)"
    using ab by (auto simp: s'_def um_simps fun_eq_iff)
  have "epoll_table interest (aw_kernel s') = insert (n, b) (epoll_table interest (aw_kernel s) - {(n, a)})"
    using some n by (auto simp: s'_def epoll_table_def epoll_lawD [OF law] intro: await_node_eqI split: if_splits)
  then have "aw_inv (epoll_table interest) s'"
    by (intro aw_inv_move [OF _ n(1) b(2,1) nodes]) (use inv in \<open>simp_all add: epoll_inv_def s'_def\<close>)
  moreover have "awaits an_fd s' = (awaits an_fd s)(a := None, b \<mapsto> fd)" using n by (auto simp: awaits_def nodes)
  ultimately show ?thesis using step law by (auto simp: epoll_inv_def)
qed

lemma epoll_destroy_law:
  assumes inv: "epoll_inv sys interest s" and a: "awaits an_fd s a = Some fd"
  shows "\<exists>s'. epoll_node_destroy sys bx a s = Some s' \<and> epoll_inv sys interest s' \<and> awaits an_fd s' = (awaits an_fd s)(a := None)"
proof -
  from a obtain n where n: "map_of (aw_nodes s) a = Some n" "an_fd n = fd" by (auto simp: awaits_def)
  have law: "epoll_law sys interest" using inv by (simp add: epoll_inv_def)
  have fd0: "0 \<le> fd" using inv n by (auto simp: epoll_inv_def aw_inv_def)
  have some: "interest (aw_kernel s) fd = Some (an_events n, a)"
    using epoll_interest_iff [OF inv, of fd "an_events n" a] n by (cases n) simp
  define s' where "s' = s\<lparr>aw_nodes := um_erase a (aw_nodes s), aw_kernel := epoll_ctl sys EPOLL_CTL_DEL fd 0 0 (aw_kernel s),
    aw_total := aw_total s - 1, aw_base := bx_destroy bx a (aw_base s)\<rparr>"
  have step: "epoll_node_destroy sys bx a s = Some s'"
    using n fd0 by (simp add: epoll_node_destroy_def s'_def)
  have nodes: "map_of (aw_nodes s') = (map_of (aw_nodes s))(a := None)" by (simp add: s'_def um_simps)
  have "epoll_table interest (aw_kernel s') = epoll_table interest (aw_kernel s) - {(n, a)}"
    using some n by (auto simp: s'_def epoll_table_def epoll_lawD [OF law] intro: await_node_eqI split: if_splits)
  then have "aw_inv (epoll_table interest) s'"
    by (intro aw_inv_remove [OF _ n(1) nodes]) (use inv in \<open>simp_all add: epoll_inv_def s'_def\<close>)
  moreover have "awaits an_fd s' = (awaits an_fd s)(a := None)" by (auto simp: awaits_def nodes)
  ultimately show ?thesis using step law by (auto simp: epoll_inv_def)
qed

text \<open>A poll schedules nodes that exist, at most as many as the array holds.\<close>

lemma epoll_poll_law:
  assumes inv: "epoll_inv sys interest s"
  shows "\<exists>r s' ps. epoll_pollAwaitableResourcesFor sys bx timeout s = Some (r, s') \<and> epoll_inv sys interest s' \<and>
    awaits an_fd s' = awaits an_fd s \<and> aw_nodes s' = aw_nodes s \<and>
    (aw_total s \<noteq> 0 \<longrightarrow> set ps \<subseteq> dom (awaits an_fd s) \<and> length ps \<le> MaxEpollEvents \<and>
       aw_base s' = fold (\<lambda>p. bx_schedule bx p (bx_now bx (aw_base s))) ps (aw_base s))"
proof (cases "aw_total s = 0")
  case True
  have "aw_inv (epoll_table interest) (s\<lparr>aw_base := x\<rparr>)" for x using inv by (simp add: epoll_inv_def aw_inv_def)
  with True inv show ?thesis
    by (cases timeout) (auto simp: epoll_pollAwaitableResourcesFor_def epoll_inv_def)
next
  case False
  have law: "epoll_law sys interest" using inv by (simp add: epoll_inv_def)
  obtain r k where w: "epoll_wait sys MaxEpollEvents (clamped_timeout_ms timeout) (aw_kernel s) = (r, k)"
    by (cases "epoll_wait sys MaxEpollEvents (clamped_timeout_ms timeout) (aw_kernel s)")
  have k: "interest k = interest (aw_kernel s)"
    using epoll_lawD(4) [OF law, of MaxEpollEvents "clamped_timeout_ms timeout" "aw_kernel s"] w by simp
  then have same: "aw_inv (epoll_table interest) (s\<lparr>aw_kernel := k, aw_base := x\<rparr>)" for x
    using inv by (simp add: epoll_inv_def aw_inv_def epoll_table_def)
  show ?thesis
  proof (cases r)
    case (Inl err)
    with False w law same [of "aw_base s"] show ?thesis
      by (auto simp: epoll_pollAwaitableResourcesFor_def epoll_inv_def intro!: exI [of _ "[]"])
  next
    case (Inr evs)
    have len: "length evs \<le> MaxEpollEvents" and sub: "snd ` set evs \<subseteq> snd ` ran (interest (aw_kernel s))"
      using epoll_lawD(5,6) [OF law, of MaxEpollEvents "clamped_timeout_ms timeout" "aw_kernel s" evs] w Inr by simp_all
    have live: "snd ` set evs \<subseteq> set (um_keys (aw_nodes s))"
    proof
      fix p assume "p \<in> snd ` set evs"
      with sub obtain e fd where "interest (aw_kernel s) fd = Some (e, p)" by (auto simp: ran_def)
      then have "map_of (aw_nodes s) p \<noteq> None" by (simp add: epoll_interest_iff [OF inv])
      then show "p \<in> set (um_keys (aw_nodes s))" by (simp add: map_of_eq_None_iff)
    qed
    have "0 \<notin> snd ` set evs"
    proof
      assume "0 \<in> snd ` set evs"
      with live have "map_of (aw_nodes s) 0 \<noteq> None" by (auto simp: map_of_eq_None_iff)
      with inv show False by (auto simp: epoll_inv_def aw_inv_def)
    qed
    then have "epoll_pollAwaitableResourcesFor sys bx timeout s =
        Some (None, s\<lparr>aw_kernel := k, aw_base := fold (\<lambda>p. bx_schedule bx p (bx_now bx (aw_base s))) (map snd evs) (aw_base s)\<rparr>)"
      using False w Inr live
      by (cases evs) (auto simp: epoll_pollAwaitableResourcesFor_def schedule_ready_Some)
    with law same len live show ?thesis
      by (auto simp: epoll_inv_def dom_awaits intro!: exI [of _ "map snd evs"])
  qed
qed

interpretation ep: step_simulation "epoll_inv sys interest" "awaits an_fd" "epoll_step sys bx" "aw_spec trigger_fd"
  for sys :: "'k epoll_sys" and interest and bx :: "('f, 'x) base_executor"
proof
  fix s :: "('k, 'x) epoll_executor" and op :: "'f aw_op" and m
  assume inv: "epoll_inv sys interest s" and spec: "aw_spec trigger_fd op (awaits an_fd s) = Some m"
  show "\<exists>s'. epoll_step sys bx op s = Some s' \<and> epoll_inv sys interest s' \<and> awaits an_fd s' = m"
  proof (cases op)
    case (AwRegister a b f t)
    with spec have "b \<noteq> 0" "a \<noteq> b" "map_of (aw_nodes s) a = None" "map_of (aw_nodes s) b = None" "0 \<le> trigger_fd t"
      "trigger_fd t \<notin> ran (awaits an_fd s)" "m = (awaits an_fd s)(b \<mapsto> trigger_fd t)"
      by (auto simp: awaits_def split: if_splits)
    with epoll_register_law [OF inv, of b a t bx f] AwRegister show ?thesis by (simp add: epoll_step_def)
  next
    case (AwMove a b)
    with spec obtain fd where "awaits an_fd s a = Some fd" "b \<noteq> 0" "map_of (aw_nodes s) b = None"
      "m = (awaits an_fd s)(a := None, b \<mapsto> fd)"
      by (auto split: option.splits if_splits simp: awaits_def)
    with epoll_move_law [OF inv, of a fd b bx] AwMove show ?thesis by (simp add: epoll_step_def)
  next
    case (AwDestroy a)
    with spec obtain fd where "awaits an_fd s a = Some fd" "m = (awaits an_fd s)(a := None)"
      by (auto split: option.splits)
    with epoll_destroy_law [OF inv, of a fd bx] AwDestroy show ?thesis by (simp add: epoll_step_def)
  next
    case (AwPoll timeout)
    from epoll_poll_law [OF inv, of bx timeout] obtain r s' where
      "epoll_pollAwaitableResourcesFor sys bx timeout s = Some (r, s')" "epoll_inv sys interest s'" "awaits an_fd s' = awaits an_fd s"
      by blast
    with AwPoll spec show ?thesis by (simp add: epoll_step_def)
  qed
qed

section \<open>The kqueue executor follows its program\<close>

text \<open>
  The documented behaviour of kqueue: entries by descriptor and filter; adding one that is
  there replaces it.
\<close>

definition kqueue_law :: "'k kqueue_sys \<Rightarrow> ('k \<Rightarrow> int \<times> 16 word \<rightharpoonup> nat) \<Rightarrow> bool" where
  "kqueue_law sys interest \<longleftrightarrow>
     (\<forall>k fd f p. interest (kevent_change sys EV_ADD fd f p k) = (interest k)((fd, f) \<mapsto> p)) \<and>
     (\<forall>k fd f p. interest (kevent_change sys EV_DELETE fd f p k) = (interest k)((fd, f) := None)) \<and>
     (\<forall>n t k. interest (snd (kevent_wait sys n t k)) = interest k) \<and>
     (\<forall>n t k evs. fst (kevent_wait sys n t k) = Inr evs \<longrightarrow> length evs \<le> n \<and> set evs \<subseteq> ran (interest k))"

fun trigger_filter :: "trigger \<Rightarrow> int \<times> 16 word" where
  "trigger_filter (Readable fd) = (fd, EVFILT_READ)"
| "trigger_filter (Writable fd) = (fd, EVFILT_WRITE)"

definition node_filter :: "16 word await_node \<Rightarrow> int \<times> 16 word" where
  "node_filter n = (an_fd n, an_events n)"

definition kqueue_step ::
    "'k kqueue_sys \<Rightarrow> ('f, 'x) base_executor \<Rightarrow> 'f aw_op \<Rightarrow> ('k, 'x) kqueue_executor \<Rightarrow> ('k, 'x) kqueue_executor option" where
  "kqueue_step sys bx op s =
     (case op of
        AwRegister a b f t \<Rightarrow> kqueue_registerAwaitableCallback sys bx a b f t s
      | AwMove a b \<Rightarrow> Option.bind (kqueue_node_move sys bx a b s) (kqueue_node_destroy sys bx a)
      | AwDestroy a \<Rightarrow> kqueue_node_destroy sys bx a s
      | AwPoll timeout \<Rightarrow> map_option snd (kqueue_pollAwaitableResourcesFor sys bx timeout s))"

lemma kqueue_lawD:
  assumes "kqueue_law sys interest"
  shows "interest (kevent_change sys EV_ADD fd f p k) = (interest k)((fd, f) \<mapsto> p)"
    "interest (kevent_change sys EV_DELETE fd f p k) = (interest k)((fd, f) := None)"
    "interest (snd (kevent_wait sys n t k)) = interest k"
    "fst (kevent_wait sys n t k) = Inr evs \<Longrightarrow> length evs \<le> n"
    "fst (kevent_wait sys n t k) = Inr evs \<Longrightarrow> set evs \<subseteq> ran (interest k)"
  using assms unfolding kqueue_law_def by - (elim conjE, (simp; fail | blast))+

definition kqueue_table :: "('k \<Rightarrow> int \<times> 16 word \<rightharpoonup> nat) \<Rightarrow> 'k \<Rightarrow> (16 word await_node \<times> nat) set" where
  "kqueue_table interest k = {(n, p). interest k (node_filter n) = Some p}"

definition kqueue_inv :: "'k kqueue_sys \<Rightarrow> ('k \<Rightarrow> int \<times> 16 word \<rightharpoonup> nat) \<Rightarrow> ('k, 'x) kqueue_executor \<Rightarrow> bool" where
  "kqueue_inv sys interest s \<longleftrightarrow> kqueue_law sys interest \<and> aw_inv (kqueue_table interest) s"

lemma node_filter_inj [simp]: "node_filter n = node_filter m \<longleftrightarrow> n = m"
  by (cases n; cases m) (simp add: node_filter_def)

lemma kqueue_interest_iff:
  assumes "kqueue_inv sys interest s"
  shows "interest (aw_kernel s) (node_filter n) = Some p \<longleftrightarrow> map_of (aw_nodes s) p = Some n"
proof -
  have "(n, p) \<in> kqueue_table interest (aw_kernel s) \<longleftrightarrow> map_of (aw_nodes s) p = Some n"
    using assms by (simp add: kqueue_inv_def aw_inv_def)
  then show ?thesis by (simp add: kqueue_table_def)
qed

lemma kqueue_register_law:
  assumes inv: "kqueue_inv sys interest s"
    and fresh: "b \<noteq> 0" "a \<noteq> b" "map_of (aw_nodes s) a = None" "map_of (aw_nodes s) b = None"
    and fd: "0 \<le> trigger_fd t" "trigger_filter t \<notin> ran (awaits node_filter s)"
  shows "\<exists>s'. kqueue_registerAwaitableCallback sys bx a b f t s = Some s' \<and> kqueue_inv sys interest s' \<and>
    awaits node_filter s' = (awaits node_filter s)(b \<mapsto> trigger_filter t)"
proof -
  define n :: "16 word await_node" where "n = \<lparr>an_fd = fst (trigger_filter t), an_events = snd (trigger_filter t)\<rparr>"
  have n: "node_filter n = trigger_filter t" "an_fd n = trigger_fd t" by (cases t; simp add: n_def node_filter_def)+
  let ?z = "\<lparr>an_fd = -1, an_events = 0\<rparr> :: 16 word await_node"
  let ?ch = "\<lambda>add p k. kevent_change sys add (an_fd n) (an_events n) p k"
  let ?k = "?ch EV_ADD b (?ch EV_DELETE 0 (?ch EV_ADD a (aw_kernel s)))"
  have law: "kqueue_law sys interest" using inv by (simp add: kqueue_inv_def)
  have none: "interest (aw_kernel s) (node_filter n) = None"
  proof (rule ccontr)
    assume "interest (aw_kernel s) (node_filter n) \<noteq> None"
    then obtain p where "map_of (aw_nodes s) p = Some n" by (auto simp: kqueue_interest_iff [OF inv])
    then have "trigger_filter t \<in> ran (awaits node_filter s)" by (force simp: awaits_def ran_def n)
    with fd(2) show False ..
  qed
  have k: "interest ?k = (interest (aw_kernel s))(node_filter n \<mapsto> b)"
    by (simp add: kqueue_lawD [OF law] node_filter_def)
  define s' where "s' = s\<lparr>
    aw_nodes := um_erase a (um_assign b n (um_assign a ?z (um_assign a n (um_assign a ?z (aw_nodes s))))),
    aw_total := aw_total s + 1, aw_kernel := ?k,
    aw_base := bx_destroy bx a (bx_move bx a b (bx_insert bx a (bx_make bx a f (aw_base s))))\<rparr>"
  have reg: "kqueue_registerAwaitableCallback sys bx a b f t s = Some s'"
    using fresh(2) fd(1)
    by (cases t) (simp_all add: kqueue_registerAwaitableCallback_def kqueue_node_make_def kqueue_node_setup_def kqueue_node_move_def
        kqueue_node_destroy_def um_simps s'_def n_def)
  have nodes: "map_of (aw_nodes s') = (map_of (aw_nodes s))(b \<mapsto> n)"
    using fresh by (auto simp: s'_def um_simps fun_eq_iff)
  have "kqueue_table interest (aw_kernel s') = insert (n, b) (kqueue_table interest (aw_kernel s))"
    using none by (auto simp: s'_def kqueue_table_def k split: if_splits)
  then have "aw_inv (kqueue_table interest) s'"
    by (intro aw_inv_add [OF _ fresh(4,1) _ nodes]) (use inv fd n in \<open>simp_all add: kqueue_inv_def s'_def\<close>)
  moreover have "awaits node_filter s' = (awaits node_filter s)(b \<mapsto> trigger_filter t)" by (auto simp: awaits_def nodes n)
  ultimately show ?thesis using reg law by (auto simp: kqueue_inv_def)
qed

lemma kqueue_move_law:
  assumes inv: "kqueue_inv sys interest s" and a: "awaits node_filter s a = Some fd" and b: "b \<noteq> 0" "map_of (aw_nodes s) b = None"
  shows "\<exists>s'. Option.bind (kqueue_node_move sys bx a b s) (kqueue_node_destroy sys bx a) = Some s' \<and>
    kqueue_inv sys interest s' \<and> awaits node_filter s' = (awaits node_filter s)(a := None, b \<mapsto> fd)"
proof -
  from a obtain n where n: "map_of (aw_nodes s) a = Some n" "node_filter n = fd" by (auto simp: awaits_def)
  have law: "kqueue_law sys interest" using inv by (simp add: kqueue_inv_def)
  have ab: "a \<noteq> b" using n b by auto
  have fd0: "0 \<le> an_fd n" using inv n by (auto simp: kqueue_inv_def aw_inv_def)
  have some: "interest (aw_kernel s) (node_filter n) = Some a" using kqueue_interest_iff [OF inv] n(1) by simp
  let ?k = "kevent_change sys EV_ADD (an_fd n) (an_events n) b (kevent_change sys EV_DELETE (an_fd n) (an_events n) 0 (aw_kernel s))"
  let ?nodes = "um_erase a (um_assign b n (um_assign a \<lparr>an_fd = -1, an_events = 0\<rparr> (aw_nodes s)))"
  define s' where "s' = s\<lparr>aw_nodes := ?nodes, aw_kernel := ?k, aw_base := bx_destroy bx a (bx_move bx a b (aw_base s))\<rparr>"
  have step: "Option.bind (kqueue_node_move sys bx a b s) (kqueue_node_destroy sys bx a) = Some s'"
    using n ab fd0 by (simp add: kqueue_node_move_def kqueue_node_destroy_def um_simps s'_def)
  have nodes: "map_of (aw_nodes s') = (map_of (aw_nodes s))(a := None, b \<mapsto> n)"
    using ab by (auto simp: s'_def um_simps fun_eq_iff)
  have k: "interest ?k = (interest (aw_kernel s))(node_filter n \<mapsto> b)" by (simp add: kqueue_lawD [OF law] node_filter_def)
  have "kqueue_table interest (aw_kernel s') = insert (n, b) (kqueue_table interest (aw_kernel s) - {(n, a)})"
    using some by (auto simp: s'_def kqueue_table_def k split: if_splits)
  then have "aw_inv (kqueue_table interest) s'"
    by (intro aw_inv_move [OF _ n(1) b(2,1) nodes]) (use inv in \<open>simp_all add: kqueue_inv_def s'_def\<close>)
  moreover have "awaits node_filter s' = (awaits node_filter s)(a := None, b \<mapsto> fd)" using n by (auto simp: awaits_def nodes)
  ultimately show ?thesis using step law by (auto simp: kqueue_inv_def)
qed

lemma kqueue_destroy_law:
  assumes inv: "kqueue_inv sys interest s" and a: "awaits node_filter s a = Some fd"
  shows "\<exists>s'. kqueue_node_destroy sys bx a s = Some s' \<and> kqueue_inv sys interest s' \<and>
    awaits node_filter s' = (awaits node_filter s)(a := None)"
proof -
  from a obtain n where n: "map_of (aw_nodes s) a = Some n" "node_filter n = fd" by (auto simp: awaits_def)
  have law: "kqueue_law sys interest" using inv by (simp add: kqueue_inv_def)
  have fd0: "0 \<le> an_fd n" using inv n by (auto simp: kqueue_inv_def aw_inv_def)
  have some: "interest (aw_kernel s) (node_filter n) = Some a" using kqueue_interest_iff [OF inv] n(1) by simp
  define s' where "s' = s\<lparr>aw_nodes := um_erase a (aw_nodes s),
    aw_kernel := kevent_change sys EV_DELETE (an_fd n) (an_events n) 0 (aw_kernel s),
    aw_total := aw_total s - 1, aw_base := bx_destroy bx a (aw_base s)\<rparr>"
  have step: "kqueue_node_destroy sys bx a s = Some s'" using n fd0 by (simp add: kqueue_node_destroy_def s'_def)
  have nodes: "map_of (aw_nodes s') = (map_of (aw_nodes s))(a := None)" by (simp add: s'_def um_simps)
  have k: "interest (aw_kernel s') = (interest (aw_kernel s))(node_filter n := None)"
    by (simp add: s'_def kqueue_lawD [OF law] node_filter_def)
  have "kqueue_table interest (aw_kernel s') = kqueue_table interest (aw_kernel s) - {(n, a)}"
    using some by (auto simp: kqueue_table_def k split: if_splits)
  then have "aw_inv (kqueue_table interest) s'"
    by (intro aw_inv_remove [OF _ n(1) nodes]) (use inv in \<open>simp_all add: kqueue_inv_def s'_def\<close>)
  moreover have "awaits node_filter s' = (awaits node_filter s)(a := None)" by (auto simp: awaits_def nodes)
  ultimately show ?thesis using step law by (auto simp: kqueue_inv_def)
qed

lemma kqueue_poll_law:
  assumes inv: "kqueue_inv sys interest s"
  shows "\<exists>r s' ps. kqueue_pollAwaitableResourcesFor sys bx timeout s = Some (r, s') \<and> kqueue_inv sys interest s' \<and>
    awaits node_filter s' = awaits node_filter s \<and>
    (aw_total s \<noteq> 0 \<longrightarrow> set ps \<subseteq> dom (awaits node_filter s) \<and> length ps \<le> MaxEvents \<and>
       aw_base s' = fold (\<lambda>p. bx_schedule bx p (bx_now bx (aw_base s))) ps (aw_base s))"
proof (cases "aw_total s = 0")
  case True
  have "aw_inv (kqueue_table interest) (s\<lparr>aw_base := x\<rparr>)" for x using inv by (simp add: kqueue_inv_def aw_inv_def)
  with True inv show ?thesis
    by (cases timeout) (auto simp: kqueue_pollAwaitableResourcesFor_def kqueue_inv_def)
next
  case False
  have law: "kqueue_law sys interest" using inv by (simp add: kqueue_inv_def)
  let ?t = "map_option timeout_spec_nsec timeout"
  obtain r k where w: "kevent_wait sys MaxEvents ?t (aw_kernel s) = (r, k)" by (cases "kevent_wait sys MaxEvents ?t (aw_kernel s)")
  have k: "interest k = interest (aw_kernel s)" using kqueue_lawD(3) [OF law, of MaxEvents ?t "aw_kernel s"] w by simp
  then have same: "aw_inv (kqueue_table interest) (s\<lparr>aw_kernel := k, aw_base := x\<rparr>)" for x
    using inv by (simp add: kqueue_inv_def aw_inv_def kqueue_table_def)
  show ?thesis
  proof (cases r)
    case (Inl err)
    with False w law same [of "aw_base s"] show ?thesis
      by (auto simp: kqueue_pollAwaitableResourcesFor_def kqueue_inv_def intro!: exI [of _ "[]"])
  next
    case (Inr evs)
    have len: "length evs \<le> MaxEvents" and sub: "set evs \<subseteq> ran (interest (aw_kernel s))"
      using kqueue_lawD(4,5) [OF law, of MaxEvents ?t "aw_kernel s" evs] w Inr by simp_all
    have live: "map_of (aw_nodes s) p \<noteq> None" if p: "p \<in> set evs" for p
    proof -
      from sub p obtain fd f where "interest (aw_kernel s) (fd, f) = Some p" by (auto simp: ran_def)
      then have "interest (aw_kernel s) (node_filter \<lparr>an_fd = fd, an_events = f\<rparr>) = Some p" by (simp add: node_filter_def)
      then show ?thesis by (simp add: kqueue_interest_iff [OF inv])
    qed
    have keys: "set evs \<subseteq> set (um_keys (aw_nodes s))" using live by (fastforce simp: map_of_eq_None_iff)
    moreover have "0 \<notin> set evs" using live inv by (auto simp: kqueue_inv_def aw_inv_def)
    ultimately have "kqueue_pollAwaitableResourcesFor sys bx timeout s =
        Some (None, s\<lparr>aw_kernel := k, aw_base := fold (\<lambda>p. bx_schedule bx p (bx_now bx (aw_base s))) evs (aw_base s)\<rparr>)"
      using False w Inr by (cases evs) (auto simp: kqueue_pollAwaitableResourcesFor_def schedule_ready_Some)
    with law same len keys show ?thesis by (auto simp: kqueue_inv_def dom_awaits intro!: exI [of _ evs])
  qed
qed

interpretation kq_ex: step_simulation "kqueue_inv sys interest" "awaits node_filter" "kqueue_step sys bx" "aw_spec trigger_filter"
  for sys :: "'k kqueue_sys" and interest and bx :: "('f, 'x) base_executor"
proof
  fix s :: "('k, 'x) kqueue_executor" and op :: "'f aw_op" and m
  assume inv: "kqueue_inv sys interest s" and spec: "aw_spec trigger_filter op (awaits node_filter s) = Some m"
  show "\<exists>s'. kqueue_step sys bx op s = Some s' \<and> kqueue_inv sys interest s' \<and> awaits node_filter s' = m"
  proof (cases op)
    case (AwRegister a b f t)
    with spec have "b \<noteq> 0" "a \<noteq> b" "map_of (aw_nodes s) a = None" "map_of (aw_nodes s) b = None" "0 \<le> trigger_fd t"
      "trigger_filter t \<notin> ran (awaits node_filter s)" "m = (awaits node_filter s)(b \<mapsto> trigger_filter t)"
      by (auto simp: awaits_def split: if_splits)
    with kqueue_register_law [OF inv, of b a t bx f] AwRegister show ?thesis by (simp add: kqueue_step_def)
  next
    case (AwMove a b)
    with spec obtain fd where "awaits node_filter s a = Some fd" "b \<noteq> 0" "map_of (aw_nodes s) b = None"
      "m = (awaits node_filter s)(a := None, b \<mapsto> fd)"
      by (auto split: option.splits if_splits simp: awaits_def)
    with kqueue_move_law [OF inv, of a fd b bx] AwMove show ?thesis by (simp add: kqueue_step_def)
  next
    case (AwDestroy a)
    with spec obtain fd where "awaits node_filter s a = Some fd" "m = (awaits node_filter s)(a := None)"
      by (auto split: option.splits)
    with kqueue_destroy_law [OF inv, of a fd bx] AwDestroy show ?thesis by (simp add: kqueue_step_def)
  next
    case (AwPoll timeout)
    from kqueue_poll_law [OF inv, of bx timeout] obtain r s' where
      "kqueue_pollAwaitableResourcesFor sys bx timeout s = Some (r, s')" "kqueue_inv sys interest s'"
      "awaits node_filter s' = awaits node_filter s" by blast
    with AwPoll spec show ?thesis by (simp add: kqueue_step_def)
  qed
qed

section \<open>Correctness of the executors\<close>

lemma awaits_init [simp]: "awaits key (awaiter_init k x) = Map.empty"
  by (simp add: awaits_def awaiter_init_def)

text \<open>
  C13. The epoll executor never touches a callback that is gone. For every sequence of
  registrations, moves, destructions and polls in which no descriptor is awaited twice, the
  executor gets through; the interest list of the kernel then has exactly the existing
  callbacks, each with its current address, and their number is right; and a further poll
  schedules only existing callbacks, at most 16 of them.
\<close>
theorem epoll_executor_safe:
  assumes law: "epoll_law sys interest" and empty: "interest k = Map.empty"
    and legal: "run_ops (aw_spec trigger_fd) ops Map.empty = Some m"
  shows "\<exists>s. run_ops (epoll_step sys bx) ops (awaiter_init k x) = Some s \<and>
    (\<forall>fd p. (\<exists>ev. interest (aw_kernel s) fd = Some (ev, p)) \<longleftrightarrow> m p = Some fd) \<and>
    aw_total s = of_nat (card (dom m)) \<and>
    (\<forall>timeout. \<exists>r s' ps. epoll_pollAwaitableResourcesFor sys bx timeout s = Some (r, s') \<and>
      (aw_total s \<noteq> 0 \<longrightarrow> set ps \<subseteq> dom m \<and> length ps \<le> 16 \<and>
         aw_base s' = fold (\<lambda>p. bx_schedule bx p (bx_now bx (aw_base s))) ps (aw_base s)))"
proof -
  have "epoll_inv sys interest (awaiter_init k x)"
    using law empty by (auto simp: epoll_inv_def aw_inv_def epoll_table_def awaiter_init_def)
  from ep.run_law [OF this, of ops m bx] legal obtain s where
    s: "run_ops (epoll_step sys bx) ops (awaiter_init k x) = Some s" "epoll_inv sys interest s" "awaits an_fd s = m" by auto
  have "(\<exists>ev. interest (aw_kernel s) fd = Some (ev, p)) \<longleftrightarrow> m p = Some fd" for fd p
  proof -
    have "(\<exists>ev. map_of (aw_nodes s) p = Some \<lparr>an_fd = fd, an_events = ev\<rparr>) \<longleftrightarrow>
        (\<exists>n. map_of (aw_nodes s) p = Some n \<and> an_fd n = fd)"
      by (metis await_node.cases await_node.select_convs(1))
    then show ?thesis unfolding s(3) [symmetric] by (auto simp: epoll_interest_iff [OF s(2)] awaits_def)
  qed
  moreover have "aw_total s = of_nat (card (dom m))"
    using s(2) unfolding s(3) [symmetric] by (simp add: epoll_inv_def aw_inv_def dom_awaits dom_map_of_conv_image_fst)
  moreover have "\<exists>r s' ps. epoll_pollAwaitableResourcesFor sys bx timeout s = Some (r, s') \<and>
      (aw_total s \<noteq> 0 \<longrightarrow> set ps \<subseteq> dom m \<and> length ps \<le> 16 \<and>
         aw_base s' = fold (\<lambda>p. bx_schedule bx p (bx_now bx (aw_base s))) ps (aw_base s))" for timeout
    using epoll_poll_law [OF s(2), of bx timeout] unfolding s(3) MaxEpollEvents_def by blast
  ultimately show ?thesis using s(1) by blast
qed

text \<open>
  The kqueue executor has the same property, with a reader and a writer allowed on one
  descriptor.
\<close>
theorem kqueue_executor_safe:
  assumes law: "kqueue_law sys interest" and empty: "interest k = Map.empty"
    and legal: "run_ops (aw_spec trigger_filter) ops Map.empty = Some m"
  shows "\<exists>s. run_ops (kqueue_step sys bx) ops (awaiter_init k x) = Some s \<and>
    (\<forall>fd f p. interest (aw_kernel s) (fd, f) = Some p \<longleftrightarrow> m p = Some (fd, f)) \<and>
    aw_total s = of_nat (card (dom m)) \<and>
    (\<forall>timeout. \<exists>r s' ps. kqueue_pollAwaitableResourcesFor sys bx timeout s = Some (r, s') \<and>
      (aw_total s \<noteq> 0 \<longrightarrow> set ps \<subseteq> dom m \<and> length ps \<le> 16 \<and>
         aw_base s' = fold (\<lambda>p. bx_schedule bx p (bx_now bx (aw_base s))) ps (aw_base s)))"
proof -
  have "kqueue_inv sys interest (awaiter_init k x)"
    using law empty by (auto simp: kqueue_inv_def aw_inv_def kqueue_table_def awaiter_init_def)
  from kq_ex.run_law [OF this, of ops m bx] legal obtain s where
    s: "run_ops (kqueue_step sys bx) ops (awaiter_init k x) = Some s" "kqueue_inv sys interest s" "awaits node_filter s = m" by auto
  have "interest (aw_kernel s) (fd, f) = Some p \<longleftrightarrow> m p = Some (fd, f)" for fd f p
  proof -
    have fdf: "(fd, f) = node_filter \<lparr>an_fd = fd, an_events = f\<rparr>" by (simp add: node_filter_def)
    show ?thesis unfolding s(3) [symmetric] fdf kqueue_interest_iff [OF s(2)] by (auto simp: awaits_def)
  qed
  moreover have "aw_total s = of_nat (card (dom m))"
    using s(2) unfolding s(3) [symmetric] by (simp add: kqueue_inv_def aw_inv_def dom_awaits dom_map_of_conv_image_fst)
  moreover have "\<exists>r s' ps. kqueue_pollAwaitableResourcesFor sys bx timeout s = Some (r, s') \<and>
      (aw_total s \<noteq> 0 \<longrightarrow> set ps \<subseteq> dom m \<and> length ps \<le> 16 \<and>
         aw_base s' = fold (\<lambda>p. bx_schedule bx p (bx_now bx (aw_base s))) ps (aw_base s))" for timeout
    using kqueue_poll_law [OF s(2), of bx timeout] unfolding s(3) MaxEvents_def by blast
  ultimately show ?thesis using s(1) by blast
qed

text \<open>
  With epoll one descriptor can have one callback only: a second callback on the same
  descriptor takes the entry over (registering it fails, but moving it into place modifies
  the entry), and its end makes the first callback deaf while it is still counted. This is
  why the CAN media opens two sockets.
\<close>
theorem second_callback_on_fd_deafens_first:
  assumes law: "epoll_law sys interest" and empty: "interest k = Map.empty"
    and addrs: "distinct [0, a, b, c]" and fd: "0 \<le> fd"
  shows "\<exists>s1 s2. run_ops (epoll_step sys bx) [AwRegister a b f (Readable fd), AwRegister a c g (Writable fd)] (awaiter_init k x) = Some s1 \<and>
    interest (aw_kernel s1) fd = Some (EPOLLOUT, c) \<and>
    epoll_step sys bx (AwDestroy c) s1 = Some s2 \<and> interest (aw_kernel s2) fd = None \<and>
    map_of (aw_nodes s2) b = Some \<lparr>an_fd = fd, an_events = EPOLLIN\<rparr> \<and> aw_total s2 = 1"
  using addrs fd empty
  by (simp add: epoll_step_def awaiter_init_def epoll_registerAwaitableCallback_def epoll_node_make_def epoll_node_setup_def
      epoll_node_move_def epoll_node_destroy_def um_simps epoll_lawD [OF law])

text \<open>
  The wait of \<open>epoll_wait\<close> never exceeds the timeout asked for, falls short of it by less
  than a millisecond (unless the timeout is beyond the \<open>int\<close> range), fits an \<open>int\<close>, and is
  infinite only without a timeout; the driving loops wait for at most one second.
\<close>
theorem clamped_timeout_bounds:
  "0 \<le> clamped_timeout_ms (Some t) \<and> clamped_timeout_ms (Some t) \<le> INT_MAX \<and>
   1000 * clamped_timeout_ms (Some t) \<le> max 0 t \<and>
   (t < 1000 * INT_MAX \<longrightarrow> t < 1000 * clamped_timeout_ms (Some t) + 1000) \<and>
   clamped_timeout_ms None = -1 \<and>
   clamped_timeout_ms (Some (poll_timeout next_exec_time now)) \<le> 1000"
proof -
  have q: "t sdiv 1000 = t div 1000" if "0 \<le> t" for t :: int using that by (simp add: signed_divide_int_def sgn_if)
  have n: "t sdiv 1000 \<le> 0" if "t < 0" for t :: int
    using that by (simp add: signed_divide_int_def sgn_if pos_imp_zdiv_nonneg_iff)
  have le: "clamped_timeout_ms (Some t) \<le> 1000" if "t \<le> 1000000" for t
    using q [of t] n [of t] that by (cases "0 \<le> t") (auto simp: clamped_timeout_ms_def)
  have "poll_timeout next_exec_time now \<le> 1000000" by (simp add: poll_timeout_def split: option.split)
  from le [OF this] show ?thesis
    using q [of t] n [of t] by (cases "0 \<le> t") (auto simp: clamped_timeout_ms_def INT_MAX_def)
qed

text \<open>
  The kqueue executor puts the whole timeout into \<open>tv_nsec\<close>. A kernel that refuses a
  \<open>timespec\<close> of a billion nanoseconds and more, as POSIX has it, fails every wait of a second
  or longer with \<open>EINVAL\<close>, and a second is what both loops ask for when nothing is scheduled:
  they then spin without waiting and see no event.
\<close>
theorem kqueue_one_second_rejected:
  assumes "\<forall>n ns k. 1000000000 \<le> ns \<longrightarrow> kevent_wait sys n (Some ns) k = (Inl EINVAL, k)" "aw_total s \<noteq> 0" "1000000 \<le> t"
  shows "kqueue_pollAwaitableResourcesFor sys bx (Some t) s = Some (Some (PollPlatformError EINVAL), s) \<and>
    kqueue_pollAwaitableResourcesFor sys bx (Some (poll_timeout None now)) s = Some (Some (PollPlatformError EINVAL), s)"
proof -
  have "kqueue_pollAwaitableResourcesFor sys bx (Some t) s = Some (Some (PollPlatformError EINVAL), s)" if "1000000 \<le> t" for t
  proof -
    have "1000000000 \<le> timeout_spec_nsec t" using that by (simp add: timeout_spec_nsec_def)
    with assms(1,2) show ?thesis by (simp add: kqueue_pollAwaitableResourcesFor_def EINVAL_def EINTR_def)
  qed
  with assms(3) show ?thesis by (simp add: poll_timeout_def)
qed

section \<open>The loops\<close>

text \<open>One turn of a loop: spin, then poll.\<close>

definition loop_turn :: "'w executor \<Rightarrow> 'w \<Rightarrow> 'w" where
  "loop_turn ex w =
     (let (next_exec_time, w1) = ex_spinOnce ex w
      in snd (ex_poll ex (Some (poll_timeout next_exec_time (ex_now ex w1))) w1))"

lemma runWhile_unfold: "runWhile ex p w = (if p w then runWhile ex p (loop_turn ex w) else Some w)"
  by (subst runWhile.simps) (simp add: loop_turn_def case_prod_beta Let_def)

lemma waitPollingUntil_unfold:
  "waitPollingUntil ex p w =
     (if p w then Some w else if p (snd (ex_spinOnce ex w)) then Some (snd (ex_spinOnce ex w))
      else waitPollingUntil ex p (loop_turn ex w))"
  by (subst waitPollingUntil.simps) (simp add: loop_turn_def case_prod_beta Let_def)

lemma runWhile_Some:
  assumes "runWhile ex p w = Some w'"
  shows "while_option p (loop_turn ex) w = Some w'"
  using assms
proof (induction ex p w w' rule: runWhile.raw_induct [rotated, consumes 1, case_names 1])
  case (1 f ex p w w')
  show ?case
  proof (cases "p w")
    case True
    with 1(2) have "f ex p (loop_turn ex w) = Some w'" by (simp add: loop_turn_def case_prod_beta Let_def)
    from 1(1) [OF this] True show ?thesis by (subst while_option_unfold) simp
  next
    case False
    with 1(2) show ?thesis by (subst while_option_unfold) simp
  qed
qed

text \<open>
  The run loop of the daemon is the while loop over spin and poll: it returns exactly
  when the predicate becomes false, in the first state where it is.
\<close>
theorem runWhile_is_while: "runWhile ex loop_predicate w = while_option loop_predicate (loop_turn ex) w"
proof (cases "while_option loop_predicate (loop_turn ex) w")
  case None
  then show ?thesis using runWhile_Some by (cases "runWhile ex loop_predicate w") fastforce+
next
  case (Some w')
  define k where "k = (LEAST k. \<not> loop_predicate ((loop_turn ex ^^ k) w))"
  from Some have ex_k: "\<exists>k. \<not> loop_predicate ((loop_turn ex ^^ k) w)" and w': "w' = (loop_turn ex ^^ k) w"
    by (auto simp: while_option_def k_def split: if_splits)
  have k: "\<forall>j<k. loop_predicate ((loop_turn ex ^^ j) w)" "\<not> loop_predicate ((loop_turn ex ^^ k) w)"
    unfolding k_def using not_less_Least LeastI_ex [OF ex_k] by auto
  have "runWhile ex loop_predicate w = Some ((loop_turn ex ^^ k) w)"
    using k
  proof (induction k arbitrary: w)
    case (Suc k)
    have "loop_predicate w" using Suc.prems(1) by (metis funpow_0 zero_less_Suc)
    moreover have "runWhile ex loop_predicate (loop_turn ex w) = Some ((loop_turn ex ^^ k) (loop_turn ex w))"
    proof (rule Suc.IH)
      show "\<forall>j<k. loop_predicate ((loop_turn ex ^^ j) (loop_turn ex w))"
        using Suc.prems(1) by (metis Suc_mono funpow_simps_right(2) o_apply)
      show "\<not> loop_predicate ((loop_turn ex ^^ k) (loop_turn ex w))"
        using Suc.prems(2) by (metis funpow_simps_right(2) o_apply)
    qed
    ultimately show ?case by (subst runWhile_unfold) (simp only: if_True funpow_simps_right(2) o_apply)
  next
    case 0
    then show ?case by (subst runWhile_unfold) simp
  qed
  with Some w' show ?thesis by simp
qed

section \<open>Instances\<close>

text \<open>Kernels that report everything that is registered, and a base class that logs its schedule.\<close>

definition log_base :: "(unit, (nat \<times> int) list) base_executor" where
  "log_base = \<lparr>bx_make = (\<lambda>_ _ x. x), bx_insert = (\<lambda>_ x. x), bx_move = (\<lambda>_ _ x. x), bx_destroy = (\<lambda>_ x. x),
     bx_schedule = (\<lambda>p t x. x @ [(p, t)]), bx_now = (\<lambda>x. 5), bx_sleep = (\<lambda>_ x. x)\<rparr>"

definition list_epoll :: "(int, u32 \<times> nat) umap epoll_sys" where
  "list_epoll =
     \<lparr>epoll_ctl = (\<lambda>op fd ev p k.
        case op of
          EPOLL_CTL_ADD \<Rightarrow> um_emplace fd (ev, p) k
        | EPOLL_CTL_MOD \<Rightarrow> (if map_of k fd = None then k else um_assign fd (ev, p) k)
        | EPOLL_CTL_DEL \<Rightarrow> um_erase fd k),
      epoll_wait = (\<lambda>n t k. (Inr (take n (map snd (AList.clearjunk k))), k))\<rparr>"

lemma list_epoll_law: "epoll_law list_epoll map_of"
proof -
  have "snd ` set (take n (map snd (AList.clearjunk k))) \<subseteq> snd ` ran (map_of k)" for n and k :: "(int, u32 \<times> nat) umap"
    using set_take_subset [of n "map snd (AList.clearjunk k)"] by (auto simp: AList.ran_map_of)
  then show ?thesis
    by (auto simp: epoll_law_def list_epoll_def um_simps split: option.split)
qed

definition list_kqueue :: "(int \<times> 16 word, nat) umap kqueue_sys" where
  "list_kqueue =
     \<lparr>kevent_change = (\<lambda>act fd f p k. case act of EV_ADD \<Rightarrow> um_assign (fd, f) p k | EV_DELETE \<Rightarrow> um_erase (fd, f) k),
      kevent_wait = (\<lambda>n t k. (Inr (take n (map snd (AList.clearjunk k))), k))\<rparr>"

lemma list_kqueue_law: "kqueue_law list_kqueue map_of"
proof -
  have "set (take n (map snd (AList.clearjunk k))) \<subseteq> ran (map_of k)" for n and k :: "(int \<times> 16 word, nat) umap"
    using set_take_subset [of n "map snd (AList.clearjunk k)"] by (auto simp: AList.ran_map_of)
  then show ?thesis by (simp add: kqueue_law_def list_kqueue_def um_simps)
qed

theorem epoll_executor_safe_witness:
  "\<exists>s. run_ops (epoll_step list_epoll log_base)
       [AwRegister 1 2 () (Readable 7), AwRegister 1 3 () (Writable 8), AwMove 2 4, AwPoll (Some 10), AwDestroy 3] (awaiter_init [] []) = Some s \<and>
     (\<exists>ev. map_of (aw_kernel s) 7 = Some (ev, 4)) \<and> aw_total s = 1"
proof -
  have "run_ops (aw_spec trigger_fd)
      [AwRegister 1 2 () (Readable 7), AwRegister 1 3 () (Writable 8), AwMove 2 4, AwPoll (Some 10), AwDestroy 3] Map.empty = Some [4 \<mapsto> 7]"
    by auto
  from epoll_executor_safe [OF list_epoll_law _ this, of "[]" log_base "[]"] show ?thesis by auto
qed

theorem kqueue_executor_safe_witness:
  "\<exists>s. run_ops (kqueue_step list_kqueue log_base)
       [AwRegister 1 2 () (Readable 7), AwRegister 1 3 () (Writable 7), AwMove 2 4] (awaiter_init [] []) = Some s \<and>
     map_of (aw_kernel s) (7, EVFILT_READ) = Some 4 \<and> map_of (aw_kernel s) (7, EVFILT_WRITE) = Some 3"
proof -
  have "run_ops (aw_spec trigger_filter)
      [AwRegister 1 2 () (Readable 7), AwRegister 1 3 () (Writable 7), AwMove 2 4] Map.empty =
      Some [3 \<mapsto> (7, EVFILT_WRITE), 4 \<mapsto> (7, EVFILT_READ)]"
    by (auto simp: EVFILT_READ_def EVFILT_WRITE_def)
  from kqueue_executor_safe [OF list_kqueue_law _ this, of "[]" log_base "[]"] show ?thesis by auto
qed

theorem second_callback_on_fd_deafens_first_witness:
  "\<exists>s1 s2. run_ops (epoll_step list_epoll log_base) [AwRegister 1 2 () (Readable 7), AwRegister 1 3 () (Writable 7)] (awaiter_init [] []) = Some s1 \<and>
    epoll_step list_epoll log_base (AwDestroy 3) s1 = Some s2 \<and> map_of (aw_kernel s2) 7 = None \<and> aw_total s2 = 1"
  using second_callback_on_fd_deafens_first [OF list_epoll_law, of "[]" 1 2 3 7 log_base "()" "()" "[]"] by auto

theorem clamped_timeout_bounds_witness:
  "clamped_timeout_ms (Some 1999) = 1 \<and> (1999 :: int) < 1000 * clamped_timeout_ms (Some 1999) + 1000"
  using clamped_timeout_bounds [of 1999 None 0] by (auto simp: INT_MAX_def)

theorem kqueue_one_second_rejected_witness:
  "kqueue_pollAwaitableResourcesFor
     (list_kqueue\<lparr>kevent_wait := \<lambda>n ns k. case ns of None \<Rightarrow> (Inr [], k) | Some t \<Rightarrow> (if 1000000000 \<le> t then Inl EINVAL else Inr [], k)\<rparr>)
     log_base (Some 1000000) ((awaiter_init [] [])\<lparr>aw_total := 1\<rparr>) =
   Some (Some (PollPlatformError EINVAL), (awaiter_init [] [])\<lparr>aw_total := 1\<rparr>)"
  using kqueue_one_second_rejected [of
      "list_kqueue\<lparr>kevent_wait := \<lambda>n ns k. case ns of None \<Rightarrow> (Inr [], k) | Some t \<Rightarrow> (if 1000000000 \<le> t then Inl EINVAL else Inr [], k)\<rparr>"
      "(awaiter_init [] [])\<lparr>aw_total := 1\<rparr>" 1000000 log_base 0] by simp

end
