(* ===== verification/Execution.thy ===== *)
theory Execution
  imports Executor Relay_Sessions
begin

text \<open>
  \<^verbatim>\<open>include/ocvsmd/sdk/execution.hpp\<close>: senders, \<open>just\<close>, \<open>then\<close> and the two \<open>sync_wait\<close> algorithms, and the
  typed operations built on them in \<^verbatim>\<open>node_pub_sub.hpp\<close> and \<^verbatim>\<open>node_rpc_client.hpp\<close>.

  A sender is what its \<open>submit\<close> does with a receiver; a receiver acts on the state of the
  program. The result cell of \<open>sync_wait\<close> is a field of that state, which the rest of the
  program extends. A failed allocation is not modelled.
\<close>

section \<open>Senders\<close>

type_synonym ('a, 'w) receiver = "'a \<Rightarrow> 'w \<Rightarrow> 'w"
type_synonym ('a, 'w) sender = "('a, 'w) receiver \<Rightarrow> 'w \<Rightarrow> 'w"

definition sender_submit :: "('a, 'w) sender \<Rightarrow> ('a, 'w) receiver \<Rightarrow> 'w \<Rightarrow> 'w" where
  "sender_submit submitImpl receiver = submitImpl (\<lambda>result. receiver result)"

definition just :: "'a \<Rightarrow> ('a, 'w) sender" where
  "just result = (\<lambda>receiver. receiver result)"

definition then_sender :: "('a, 'w) sender \<Rightarrow> ('a \<Rightarrow> 'b) \<Rightarrow> ('b, 'w) sender" where
  "then_sender input_sender transform_func = (\<lambda>receiver. sender_submit input_sender (\<lambda>input. receiver (transform_func input)))"

section \<open>Waiting for a result\<close>

record 'a state_of =
  maybe_result :: "'a option"

definition StateOf_completed :: "('a, 'z) state_of_scheme \<Rightarrow> bool" where
  "StateOf_completed w = (maybe_result w \<noteq> None)"

definition StateOf_complete :: "'a \<Rightarrow> ('a, 'z) state_of_scheme \<Rightarrow> ('a, 'z) state_of_scheme" where
  "StateOf_complete result w = (if maybe_result w = None then w\<lparr>maybe_result := Some result\<rparr> else w)"

definition sync_wait ::
    "('a, 'z) state_of_scheme executor \<Rightarrow> ('a, ('a, 'z) state_of_scheme) sender \<Rightarrow> ('a, 'z) state_of_scheme \<Rightarrow>
     ('a \<times> ('a, 'z) state_of_scheme) option" where
  "sync_wait ex sender w = do {
     let w1 = sender_submit sender StateOf_complete (w\<lparr>maybe_result := None\<rparr>);
     w2 \<leftarrow> waitPollingUntil ex StateOf_completed w1;
     result \<leftarrow> maybe_result w2;
     Some (result, w2)
   }"

text \<open>The one-shot callback of an executor: made and scheduled for a deadline, and destroyed.\<close>

record 'w timer =
  tm_schedule :: "int \<Rightarrow> ('w \<Rightarrow> 'w) \<Rightarrow> 'w \<Rightarrow> 'w"
  tm_destroy :: "'w \<Rightarrow> 'w"

definition sync_wait_timeout ::
    "(sdk_error + 'a, 'z) state_of_scheme executor \<Rightarrow> (sdk_error + 'a, 'z) state_of_scheme timer \<Rightarrow>
     (sdk_error + 'a, (sdk_error + 'a, 'z) state_of_scheme) sender \<Rightarrow> int \<Rightarrow> (sdk_error + 'a, 'z) state_of_scheme \<Rightarrow>
     ((sdk_error + 'a) \<times> (sdk_error + 'a, 'z) state_of_scheme) option" where
  "sync_wait_timeout ex tm sender timeout w = do {
     let w1 = sender_submit sender StateOf_complete (w\<lparr>maybe_result := None\<rparr>);
     let deadline = ex_now ex w1 + timeout;
     let w2 = tm_schedule tm deadline (StateOf_complete (Inl (mkError TimedOut))) w1;
     w3 \<leftarrow> waitPollingUntil ex StateOf_completed w2;
     result \<leftarrow> maybe_result w3;
     Some (result, tm_destroy tm w3)
   }"

section \<open>Typed operations\<close>

definition sdk_tryPerformOnSerialized ::
    "'m msg_codec \<Rightarrow> (sdk_error \<Rightarrow> 'a) \<Rightarrow> 'm \<Rightarrow> (byte list \<Rightarrow> ('a, 'w) sender) \<Rightarrow> ('a, 'w) sender" where
  "sdk_tryPerformOnSerialized mc of_error msg action =
     (case msg_serialize mc msg of
        Some payload \<Rightarrow> action payload
      | None \<Rightarrow> just (of_error (mkError InvalidArgument)))"

definition Publisher_publish ::
    "'m msg_codec \<Rightarrow> (byte list \<Rightarrow> u64 \<Rightarrow> (opt_error, 'w) sender) \<Rightarrow> 'm \<Rightarrow> u64 \<Rightarrow> (opt_error, 'w) sender" where
  "Publisher_publish mc raw_publish message timeout =
     sdk_tryPerformOnSerialized mc Some message (\<lambda>raw_payload. raw_publish raw_payload timeout)"

definition receive_transform :: "'m msg_codec \<Rightarrow> raw_receive \<Rightarrow> sdk_error + 'm \<times> u8 \<times> u16 option" where
  "receive_transform mc raw_result =
     (case raw_result of
        Inl failure \<Rightarrow> Inl failure
      | Inr (payload, priority, publisher_node_id) \<Rightarrow>
          (case msg_deserialize mc payload of
             None \<Rightarrow> Inl (mkError InvalidArgument)
           | Some message \<Rightarrow> Inr (message, priority, publisher_node_id)))"

definition Subscriber_receive ::
    "'m msg_codec \<Rightarrow> (raw_receive, 'w) sender \<Rightarrow> (sdk_error + 'm \<times> u8 \<times> u16 option, 'w) sender" where
  "Subscriber_receive mc raw_receive = then_sender raw_receive (receive_transform mc)"

definition call_transform :: "'m msg_codec \<Rightarrow> raw_call \<Rightarrow> sdk_error + 'm \<times> u8 \<times> u16" where
  "call_transform mc raw_result =
     (case raw_result of
        Inl failure \<Rightarrow> Inl failure
      | Inr (raw_response, priority, server_node_id) \<Rightarrow>
          (case msg_deserialize mc raw_response of
             None \<Rightarrow> Inl (mkError InvalidArgument)
           | Some response \<Rightarrow> Inr (response, priority, server_node_id)))"

definition NodeRpcClient_call ::
    "'q msg_codec \<Rightarrow> 'm msg_codec \<Rightarrow> (byte list \<Rightarrow> u64 \<Rightarrow> u64 \<Rightarrow> (raw_call, 'w) sender) \<Rightarrow> 'q \<Rightarrow> u64 \<Rightarrow> u64 \<Rightarrow>
     (sdk_error + 'm \<times> u8 \<times> u16, 'w) sender" where
  "NodeRpcClient_call mcq mcr raw_call request request_timeout response_timeout =
     (let raw_call_sender = sdk_tryPerformOnSerialized mcq Inl request
            (\<lambda>raw_request. raw_call raw_request request_timeout response_timeout)
      in then_sender raw_call_sender (call_transform mcr))"

section \<open>When the loop returns\<close>

text \<open>The predicate holds in the \<open>n\<close>-th turn, before or after its spin, and in no turn before.\<close>

definition fulfilled_at :: "'w executor \<Rightarrow> ('w \<Rightarrow> bool) \<Rightarrow> 'w \<Rightarrow> bool" where
  "fulfilled_at ex p w \<longleftrightarrow> p w \<or> p (snd (ex_spinOnce ex w))"

definition fulfilled_state :: "'w executor \<Rightarrow> ('w \<Rightarrow> bool) \<Rightarrow> 'w \<Rightarrow> 'w" where
  "fulfilled_state ex p w = (if p w then w else snd (ex_spinOnce ex w))"

lemma waitPollingUntil_step:
  "waitPollingUntil ex p w =
     (if fulfilled_at ex p w then Some (fulfilled_state ex p w) else waitPollingUntil ex p (loop_turn ex w))"
  by (subst waitPollingUntil_unfold) (simp add: fulfilled_at_def fulfilled_state_def)

lemma waitPollingUntil_after:
  assumes "fulfilled_at ex p ((loop_turn ex ^^ n) w)" "\<And>j. j < n \<Longrightarrow> \<not> fulfilled_at ex p ((loop_turn ex ^^ j) w)"
  shows "waitPollingUntil ex p w = Some (fulfilled_state ex p ((loop_turn ex ^^ n) w))"
  using assms
proof (induction n arbitrary: w)
  case 0
  then show ?case by (subst waitPollingUntil_step) simp
next
  case (Suc n)
  have "\<not> fulfilled_at ex p w" using Suc.prems(2) [of 0] by simp
  then have "waitPollingUntil ex p w = waitPollingUntil ex p (loop_turn ex w)"
    by (subst waitPollingUntil_step) simp
  also have "\<dots> = Some (fulfilled_state ex p ((loop_turn ex ^^ n) (loop_turn ex w)))"
  proof (rule Suc.IH)
    show "fulfilled_at ex p ((loop_turn ex ^^ n) (loop_turn ex w))"
      using Suc.prems(1) by (simp only: funpow_simps_right(2) o_apply)
    show "\<not> fulfilled_at ex p ((loop_turn ex ^^ j) (loop_turn ex w))" if "j < n" for j
      using Suc.prems(2) [of "Suc j"] that by (simp only: funpow_simps_right(2) o_apply Suc_less_eq not_False_eq_True)
  qed
  finally show ?case by (simp only: funpow_simps_right(2) o_apply)
qed

lemma waitPollingUntil_returns:
  assumes "fulfilled_at ex p ((loop_turn ex ^^ n) w)"
  shows "\<exists>m w'. waitPollingUntil ex p w = Some w' \<and> p w' \<and> m \<le> n \<and> w' = fulfilled_state ex p ((loop_turn ex ^^ m) w)"
proof -
  define m where "m = (LEAST m. fulfilled_at ex p ((loop_turn ex ^^ m) w))"
  have m: "fulfilled_at ex p ((loop_turn ex ^^ m) w)" "m \<le> n"
    unfolding m_def
    by (rule LeastI [where P = "\<lambda>m. fulfilled_at ex p ((loop_turn ex ^^ m) w)", OF assms],
        rule Least_le [where P = "\<lambda>m. fulfilled_at ex p ((loop_turn ex ^^ m) w)", OF assms])
  have "\<not> fulfilled_at ex p ((loop_turn ex ^^ j) w)" if "j < m" for j
    using not_less_Least that unfolding m_def by blast
  from waitPollingUntil_after [OF m(1) this] m show ?thesis
    by (auto simp: fulfilled_at_def fulfilled_state_def)
qed

lemma waitPollingUntil_Some:
  assumes "waitPollingUntil ex p w = Some w'"
  shows "\<exists>n. fulfilled_at ex p ((loop_turn ex ^^ n) w)"
  using assms
proof (induction ex p w w' rule: waitPollingUntil.raw_induct [rotated, consumes 1, case_names 1])
  case (1 f ex p w w')
  show ?case
  proof (cases "fulfilled_at ex p w")
    case True
    then show ?thesis by (intro exI [of _ 0]) simp
  next
    case False
    with 1(2) have "f ex p (loop_turn ex w) = Some w'"
      by (simp add: fulfilled_at_def loop_turn_def case_prod_beta Let_def split: if_splits)
    from 1(1) [OF this] obtain n where "fulfilled_at ex p ((loop_turn ex ^^ n) (loop_turn ex w))" ..
    then show ?thesis by (intro exI [of _ "Suc n"]) (simp only: funpow_simps_right(2) o_apply)
  qed
qed


section \<open>Waiting with a timeout\<close>

text \<open>
  What \<open>sync_wait\<close> relies on: the executor runs a scheduled callback in the first spin at or
  after its deadline and keeps it until then (\<open>due\<close> is the pending deadline), spinning and
  polling keep a result that is there, and time goes on from turn to turn.
\<close>

definition timer_law ::
    "(sdk_error + 'a, 'z) state_of_scheme executor \<Rightarrow> (sdk_error + 'a, 'z) state_of_scheme timer \<Rightarrow>
     ((sdk_error + 'a, 'z) state_of_scheme \<Rightarrow> int option) \<Rightarrow> bool" where
  "timer_law ex tm due \<longleftrightarrow>
     (\<forall>d w. due (tm_schedule tm d (StateOf_complete (Inl (mkError TimedOut))) w) = Some d) \<and>
     (\<forall>d f w. maybe_result (tm_schedule tm d f w) = maybe_result w) \<and>
     (\<forall>d w. due w = Some d \<and> d \<le> ex_now ex w \<longrightarrow> maybe_result (snd (ex_spinOnce ex w)) \<noteq> None) \<and>
     (\<forall>d w. due w = Some d \<and> maybe_result (snd (ex_spinOnce ex w)) = None \<longrightarrow> due (snd (ex_spinOnce ex w)) = Some d) \<and>
     (\<forall>d t w. due w = Some d \<longrightarrow> due (snd (ex_poll ex t w)) = Some d) \<and>
     (\<forall>w D. \<exists>n. D \<le> ex_now ex ((loop_turn ex ^^ n) w))"

lemma timer_lawD:
  assumes "timer_law ex tm due"
  shows "due (tm_schedule tm d (StateOf_complete (Inl (mkError TimedOut))) w) = Some d"
    "maybe_result (tm_schedule tm d f w) = maybe_result w"
    "due w = Some d \<Longrightarrow> d \<le> ex_now ex w \<Longrightarrow> maybe_result (snd (ex_spinOnce ex w)) \<noteq> None"
    "due w = Some d \<Longrightarrow> maybe_result (snd (ex_spinOnce ex w)) = None \<Longrightarrow> due (snd (ex_spinOnce ex w)) = Some d"
    "due w = Some d \<Longrightarrow> due (snd (ex_poll ex t w)) = Some d"
    "\<exists>n. D \<le> ex_now ex ((loop_turn ex ^^ n) w)"
  using assms unfolding timer_law_def by - (elim conjE, (simp; fail | blast))+

lemma due_until_fulfilled:
  assumes law: "timer_law ex tm due" and due: "due w = Some d"
    and "\<And>j. j < n \<Longrightarrow> \<not> fulfilled_at ex StateOf_completed ((loop_turn ex ^^ j) w)"
  shows "due ((loop_turn ex ^^ n) w) = Some d"
  using assms(3)
proof (induction n)
  case (Suc n)
  let ?w = "(loop_turn ex ^^ n) w"
  have "due ?w = Some d" using Suc by simp
  moreover have "maybe_result (snd (ex_spinOnce ex ?w)) = None"
    using Suc.prems [of n] by (simp add: fulfilled_at_def StateOf_completed_def)
  moreover have "due (loop_turn ex v) = Some d" if "due v = Some d" "maybe_result (snd (ex_spinOnce ex v)) = None" for v
    using that by (simp add: loop_turn_def case_prod_beta Let_def timer_lawD(4,5) [OF law])
  ultimately show ?case by (simp only: funpow.simps(2) o_apply)
qed (simp add: due)


section \<open>Typed messages over the relay\<close>

text \<open>A typed message on the network: its serialized bytes in any fragments.\<close>

definition carries :: "'m msg_codec \<Rightarrow> 'm \<times> u8 \<times> u16 option \<Rightarrow> 'r sub_op \<Rightarrow> bool" where
  "carries mc msg op =
     (case (msg, op) of
        ((m, p, n), OpMessage p' n' fragments) \<Rightarrow>
          p' = p \<and> n' = n \<and> msg_serialize mc m = Some (concat fragments) \<and> length (concat fragments) \<le> 2 ^ 20
      | _ \<Rightarrow> False)"

lemma carries_spec:
  assumes "msg_codec_law mc" "list_all2 (carries mc) msgs ops"
  shows "list_all sub_op_ok ops \<and>
    map (map_prod (\<lambda>r. r) (receive_transform mc)) (sub_spec (Some r) ops) = map (\<lambda>msg. (r, Inr msg)) msgs"
  using assms(2)
proof (induction rule: list_all2_induct)
  case (Cons msg msgs op ops)
  from Cons.hyps(1) obtain m p n frs where "msg = (m, p, n)" "op = OpMessage p n frs"
    "msg_serialize mc m = Some (concat frs)" "length (concat frs) \<le> 2 ^ 20"
    by (cases op; cases msg) (auto simp: carries_def)
  with Cons.IH assms(1) show ?case by (auto simp: sub_op_ok_def receive_transform_def msg_codec_law_def)
qed simp

text \<open>
  A typed subscription delivers typed messages: whatever the daemon's node receives on the
  subject, each message serialized by its publisher and cut into any fragments, reaches the
  receiver as the same message, in order, with its priority and publisher, once the
  subscription is open.
\<close>
theorem typed_subscription_delivers:
  fixes t :: "(sub_fsm, subscriber_response rc_act list, 'w) relay_service" and mc :: "'m msg_codec"
  assumes "raw_codec_law mcq (\<lambda>_. True)" "raw_codec_law mcr sub_response_valid" "msg_codec_law mc"
    and "list_all2 (carries mc) msgs ops" "cyr_makeSubscriber cy subject_id extent_bytes (rs_net t) = (Inr h, w1)"
  shows "map_option (\<lambda>(calls, _). map_sum (\<lambda>e. e) (map (map_prod (\<lambda>r. r) (receive_transform mc))) calls)
      (sub_session mcq mcr cy subject_id extent_bytes (OpReceive r # ops) close t) =
    Some (Inr (map (\<lambda>msg. (r, Inr msg)) msgs))"
proof -
  note spec = carries_spec [OF assms(3,4), of r]
  have "list_all sub_op_ok (OpReceive r # ops)" using spec by (simp add: sub_op_ok_def)
  from sub_session_eq [OF assms(1,2) this, of cy subject_id extent_bytes close t] assms(5) spec
  show ?thesis by (simp add: sub_session_spec_def)
qed

text \<open>
  A typed call either reports \<open>InvalidArgument\<close> at once, when its request cannot be
  serialized (nothing is sent), or makes the raw call with the serialized request; its
  receiver then gets the failure of the call, the typed response, or \<open>InvalidArgument\<close> for a
  response that cannot be read.
\<close>
theorem typed_call_outcomes:
  "(msg_serialize mcq request = None \<longrightarrow>
      sender_submit (NodeRpcClient_call mcq mcr raw request t1 t2) rcv w = rcv (Inl (mkError InvalidArgument)) w) \<and>
   (\<forall>bs failure. msg_serialize mcq request = Some bs \<and> raw bs t1 t2 = just (Inl failure) \<longrightarrow>
      sender_submit (NodeRpcClient_call mcq mcr raw request t1 t2) rcv w = rcv (Inl failure) w) \<and>
   (\<forall>bs response m p n. msg_serialize mcq request = Some bs \<and> raw bs t1 t2 = just (Inr (response, p, n)) \<longrightarrow>
      sender_submit (NodeRpcClient_call mcq mcr raw request t1 t2) rcv w =
        rcv (case msg_deserialize mcr response of None \<Rightarrow> Inl (mkError InvalidArgument) | Some m \<Rightarrow> Inr (m, p, n)) w)"
  by (auto simp: NodeRpcClient_call_def sdk_tryPerformOnSerialized_def then_sender_def sender_submit_def just_def
      call_transform_def)

section \<open>Instances\<close>

text \<open>
  An executor whose only event is the timer: a spin runs a callback that is due, a poll
  takes a tenth of a second.
\<close>

record 'a timed_state = "'a state_of" +
  clock :: int
  pending :: "int option"

definition timed_spin :: "(sdk_error + 'a) timed_state \<Rightarrow> int option \<times> (sdk_error + 'a) timed_state" where
  "timed_spin w =
     (case pending w of
        None \<Rightarrow> (None, w)
      | Some d \<Rightarrow> if d \<le> clock w then (None, StateOf_complete (Inl (mkError TimedOut)) (w\<lparr>pending := None\<rparr>)) else (Some d, w))"

definition timed_executor :: "(sdk_error + 'a) timed_state executor" where
  "timed_executor = \<lparr>ex_spinOnce = timed_spin, ex_now = clock, ex_poll = (\<lambda>t w. (None, w\<lparr>clock := clock w + 100000\<rparr>))\<rparr>"

definition timed_timer :: "(sdk_error + 'a) timed_state timer" where
  "timed_timer = \<lparr>tm_schedule = (\<lambda>d f w. w\<lparr>pending := Some d\<rparr>), tm_destroy = (\<lambda>w. w\<lparr>pending := None\<rparr>)\<rparr>"

lemma timed_clock: "clock ((loop_turn timed_executor ^^ n) w) = clock w + 100000 * int n"
  by (induction n) (auto simp: loop_turn_def timed_executor_def timed_spin_def StateOf_complete_def Let_def split: option.split)

lemma timed_law: "timer_law timed_executor timed_timer pending"
proof -
  have "\<exists>n. D \<le> ex_now timed_executor ((loop_turn timed_executor ^^ n) w)" for D and w :: "(sdk_error + 'a) timed_state"
  proof
    have "D - clock w \<le> int (nat (D - clock w))" by simp
    then show "D \<le> ex_now timed_executor ((loop_turn timed_executor ^^ nat (D - clock w)) w)"
      using timed_clock [of "nat (D - clock w)" w] by (simp add: timed_executor_def)
  qed
  then show ?thesis
    unfolding timer_law_def
    by (simp add: timed_timer_def) (auto simp: timed_executor_def timed_spin_def StateOf_complete_def)
qed


theorem typed_subscription_delivers_witness:
  "map_option (\<lambda>(calls, _). map_sum (\<lambda>e. e) (map (map_prod (\<lambda>r. r) (receive_transform (wire (\<lambda>b. [b]) (\<lambda>bs. case bs of [b] \<Rightarrow> Some b | _ \<Rightarrow> None))))) calls)
      (sub_session (wire sub_request_bytes sub_request_of_bytes) (wire sub_response_bytes sub_response_of_bytes) log_net 42 64
         [OpReceive ''a'', OpMessage 1 (Some 5) [[], [7]], OpMessage 2 None [[9]]] None relay_idle) =
    Some (Inr [(''a'', Inr (7, 1, Some 5)), (''a'', Inr (9, 2, None))])"
proof -
  let ?mc = "wire (\<lambda>b. [b]) (\<lambda>bs. case bs of [b] \<Rightarrow> Some b | _ \<Rightarrow> None) :: byte msg_codec"
  have mc: "msg_codec_law ?mc" by (auto simp: msg_codec_law_def wire_def)
  have cs: "list_all2 (carries ?mc) [(7, 1, Some 5), (9, 2, None)] [OpMessage 1 (Some 5) [[], [7]], OpMessage 2 None [[9]]]"
    by (simp add: carries_def wire_def)
  have mk: "cyr_makeSubscriber log_net 42 64 (rs_net relay_idle) = (Inr 7, [NlPort 42])" by (simp add: relay_idle_def)
  show ?thesis using typed_subscription_delivers [OF sub_wire_law mc cs mk, of "''a''" None] by simp
qed

theorem typed_call_outcomes_witness:
  "sender_submit (NodeRpcClient_call (wire (\<lambda>b. [b]) (\<lambda>bs. None)) (wire (\<lambda>b. [b]) (\<lambda>bs. case bs of [b] \<Rightarrow> Some b | _ \<Rightarrow> None))
     (\<lambda>bs t1 t2. just (Inr (bs, 4, 5))) (7 :: byte) 0 0) (\<lambda>x w. Some x) None = Some (Inr (7 :: byte, 4, 5))"
  using typed_call_outcomes [of "wire (\<lambda>b. [b]) (\<lambda>bs. None)" "7 :: byte"
      "wire (\<lambda>b. [b]) (\<lambda>bs. case bs of [b] \<Rightarrow> Some b | _ \<Rightarrow> None) :: byte msg_codec" "\<lambda>bs t1 t2. just (Inr (bs, 4, 5))" 0 0 "\<lambda>x w. Some x" None]
  by (simp add: wire_def)

end
