(* ===== verification/Sdk_Daemon.thy ===== *)
theory Sdk_Daemon
  imports Sdk_Calls Execution Socket_Pipes
begin

text \<open>
  The client side of the daemon: \<open>Daemon::make\<close> (\<^verbatim>\<open>src/sdk/daemon.cpp\<close>), the calls for a single
  node (\<^verbatim>\<open>include/ocvsmd/sdk/node_registry_client.hpp\<close>), and the handshake of the two routers. The
  file server, the command client and the registry client that \<open>start\<close> makes only keep a
  pointer to the router.
\<close>

section \<open>Making the daemon object\<close>

type_synonym ('h, 'a) sdk_router = "(socket_client, 'h, 'a) client_router"

record ('h, 'a) sdk_daemon =
  sd_ipc_router :: "('h, 'a) sdk_router option"

definition ClientRouter_start ::
    "('w, 'z) pipe_sys_scheme \<Rightarrow> ('h, 'a) sdk_router \<Rightarrow> 'w \<Rightarrow> (opt_error \<times> ('h, 'a) sdk_router \<times> 'w) option" where
  "ClientRouter_start sys r w =
     map_option (\<lambda>(e, p, w1). (e, r\<lparr>cr_pipe := p\<rparr>, w1)) (SocketClient_start sys (cr_pipe r) w)"

definition DaemonImpl_start ::
    "inet_env \<Rightarrow> ('w, 'z) pipe_sys_scheme \<Rightarrow> 'a \<Rightarrow> byte list \<Rightarrow> ('h, 'a) sdk_daemon \<Rightarrow> 'w \<Rightarrow>
     (opt_error \<times> ('h, 'a) sdk_daemon \<times> 'w) option" where
  "DaemonImpl_start inet sys app connection d w =
     (case SocketAddress_parse inet connection 0 of
        Inl failure \<Rightarrow> Some (Some failure, d, w)
      | Inr socket_address \<Rightarrow>
          let client_pipe = SocketClient_make socket_address;
              ipc_router = ClientRouterImpl_init client_pipe app
          in map_option (\<lambda>(opt_error, r, w1). (opt_error, d\<lparr>sd_ipc_router := Some r\<rparr>, w1)) (ClientRouter_start sys ipc_router w))"

text \<open>The end of the daemon object ends the router and its pipe, which owns a descriptor.\<close>

definition DaemonImpl_destroy :: "('w, 'z) pipe_sys_scheme \<Rightarrow> ('h, 'a) sdk_daemon \<Rightarrow> 'w \<Rightarrow> 'w" where
  "DaemonImpl_destroy sys d w =
     (case sd_ipc_router d of
        None \<Rightarrow> w
      | Some r \<Rightarrow> OwnedFd_destroy (sys_close sys) (io_fd (sc_io (cr_pipe r))) w)"

definition Daemon_make ::
    "inet_env \<Rightarrow> ('w, 'z) pipe_sys_scheme \<Rightarrow> 'a \<Rightarrow> byte list \<Rightarrow> 'w \<Rightarrow> (('h, 'a) sdk_daemon option \<times> 'w) option" where
  "Daemon_make inet sys app connection w =
     map_option (\<lambda>(opt_error, daemon, w1).
         if opt_error \<noteq> None then (None, DaemonImpl_destroy sys daemon w1) else (Some daemon, w1))
       (DaemonImpl_start inet sys app connection \<lparr>sd_ipc_router = None\<rparr> w)"

text \<open>
  C26. Making the daemon object always returns. A null result leaves no descriptor behind;
  otherwise the object has exactly one new descriptor, which waits for its connection, no
  channel yet, and its end gives the descriptor back.
\<close>
theorem sdk_daemon_made:
  assumes law: "returns_law sys" "fd_law sys opened"
  shows "\<exists>res w'. (Daemon_make inet sys app connection w :: (('h, 'a) sdk_daemon option \<times> 'w) option) = Some (res, w') \<and>
    (case res of
       None \<Rightarrow> opened w' = opened w
     | Some d \<Rightarrow> \<exists>r fd. sd_ipc_router d = Some r \<and> fd \<notin> opened w \<and> opened w' = insert fd (opened w) \<and>
         sc_callback (cr_pipe r) = Some (AwaitConnect fd) \<and> \<not> cr_is_connected r \<and> cr_map_of_gateways r = [] \<and>
         opened (DaemonImpl_destroy sys d w') = opened w)"
proof (cases "SocketAddress_parse inet connection 0")
  case (Inl failure)
  then show ?thesis by (simp add: Daemon_make_def DaemonImpl_start_def DaemonImpl_destroy_def)
next
  case (Inr a)
  from client_start [OF law, of a w] obtain e c w1 where start: "SocketClient_start sys (SocketClient_make a) w = Some (e, c, w1)"
    and res: "if e = None then sc_inv opened (opened w) c w1 \<and> phase_of c = Connecting \<and> consumed (sc_io c) = []
      else opened w1 = opened w \<and> c = SocketClient_make a" by blast
  have make: "(Daemon_make inet sys app connection w :: (('h, 'a) sdk_daemon option \<times> 'w) option) =
      (let d = \<lparr>sd_ipc_router = Some ((ClientRouterImpl_init (SocketClient_make a) app)\<lparr>cr_pipe := c\<rparr>)\<rparr>
       in Some (if e \<noteq> None then (None, DaemonImpl_destroy sys d w1) else (Some d, w1)))"
    using Inr start by (simp add: Daemon_make_def DaemonImpl_start_def ClientRouter_start_def ClientRouterImpl_init_def Let_def)
  show ?thesis
  proof (cases e)
    case None
    with res have inv: "sc_inv opened (opened w) c w1" by simp
    from start None have cb: "sc_callback c = Some (AwaitConnect (io_fd (sc_io c)))"
      by (auto simp: SocketClient_start_def split: option.splits)
    with inv have fd: "0 \<le> io_fd (sc_io c)" "io_fd (sc_io c) \<notin> opened w" "opened w1 = insert (io_fd (sc_io c)) (opened w)"
      by (simp_all add: sc_inv_def)
    with cb None make show ?thesis
      by (auto simp: ClientRouterImpl_init_def DaemonImpl_destroy_def OwnedFd_destroy_def OwnedFd_reset_def fd_lawD(11) [OF law(2)])
  next
    case (Some err)
    with res have "opened w1 = opened w" "io_fd (sc_io c) = -1" by (simp_all add: SocketClient_make_def IoState_init_def OwnedFd_empty_def)
    with Some make show ?thesis
      by (simp add: DaemonImpl_destroy_def OwnedFd_destroy_def OwnedFd_reset_def)
  qed
qed

theorem sdk_daemon_made_witness:
  "\<exists>res w'. (Daemon_make demo_inet demo_sys () (ascii ''unix:'' @ [120]) demo_start :: ((unit, unit) sdk_daemon option \<times> demo_world) option) =
      Some (res, w') \<and> (res = None \<longrightarrow> set (dw_open w') = set (dw_open demo_start))"
  using sdk_daemon_made [OF demo_returns_law demo_fd_law, where 'h = unit and inet = demo_inet and app = "()" and
      connection = "ascii ''unix:'' @ [120]" and w = demo_start]
  by (elim ex_forward conj_forward) auto

section \<open>Single nodes\<close>

text \<open>The lambda of the three calls.\<close>

definition single_node :: "u16 \<Rightarrow> sdk_error + (u16, sdk_error + 'a) umap \<Rightarrow> sdk_error + 'a" where
  "single_node node_id result =
     (case result of
        Inl failure \<Rightarrow> Inl failure
      | Inr lst \<Rightarrow> (case map_of lst node_id of Some r \<Rightarrow> r | None \<Rightarrow> Inl (mkError NoEntry)))"

definition registry_list_single ::
    "(u16 list \<Rightarrow> u64 \<Rightarrow> (sdk_error + (u16, list_outcome) umap, 'w) sender) \<Rightarrow> u16 \<Rightarrow> u64 \<Rightarrow> (list_outcome, 'w) sender" where
  "registry_list_single lst node_id timeout = then_sender (lst [node_id] timeout) (single_node node_id)"

definition registry_read_single ::
    "(u16 list \<Rightarrow> byte list list \<Rightarrow> u64 \<Rightarrow> (sdk_error + (u16, access_outcome) umap, 'w) sender) \<Rightarrow>
     u16 \<Rightarrow> byte list list \<Rightarrow> u64 \<Rightarrow> (access_outcome, 'w) sender" where
  "registry_read_single read node_id registers timeout = then_sender (read [node_id] registers timeout) (single_node node_id)"

definition registry_write_single ::
    "(u16 list \<Rightarrow> reg_key_value list \<Rightarrow> u64 \<Rightarrow> (sdk_error + (u16, access_outcome) umap, 'w) sender) \<Rightarrow>
     u16 \<Rightarrow> reg_key_value list \<Rightarrow> u64 \<Rightarrow> (access_outcome, 'w) sender" where
  "registry_write_single write node_id registers timeout = then_sender (write [node_id] registers timeout) (single_node node_id)"

text \<open>
  Reading the registers of a single node gives them all. Once the node has answered often
  enough, the client of the call gets one result, and the receiver of the single-node call
  is given all requested registers in order, each with its value or error.
\<close>
theorem single_node_read_complete:
  fixes s :: "'w access_service"
  assumes "is_order (cy_order net)" "\<And>n w. fst (cy_makeClient net n w) = None"
    and "keys \<noteq> []" "[] \<notin> set keys" "length keys < 2 ^ 16" "length keys \<le> count_list (map fst evs) n"
  defines "i \<equiv> svc_next_fsm_id s"
  shows "\<exists>c1 q qs s0 s1 s2 s3 c2 res items.
    access_client_handleEvent recording_ops ChConnected (AccessRegistersClientImpl_read [n] keys timeout []) = Some c1 \<and>
    ncl_channel c1 = map ClSend (q # qs) @ [ClComplete None True] \<and>
    access_new_channel q s = Some (i, s0) \<and> access_inputs i qs s0 = Some s1 \<and>
    access_handleEvent net i (AccessCompleted True) s1 = Some s2 \<and> access_run net i evs s2 = Some s3 \<and>
    ncl_events recording_ops access_client_input (ch_events_of i (drop (length (svc_out s)) (svc_out s3))) c1 = Some c2 \<and>
    ncl_received c2 = [res] \<and> map fst items = keys \<and>
    (\<forall>read rcv (v :: 'v). (\<forall>rcv v. sender_submit (read [n] keys timeout) rcv v = rcv res v) \<longrightarrow>
       sender_submit (registry_read_single read n keys timeout) rcv v = rcv (Inr items) v)"
proof -
  have enough: "\<forall>m\<in>set [n]. length keys \<le> count_list (map fst evs) m" using assms(6) by simp
  from access_read_to_nodes [OF assms(1,2) _ assms(3-5) enough, of timeout s] obtain c1 q qs s0 s1 s2 s3 c2 m items where
    r: "access_client_handleEvent recording_ops ChConnected (AccessRegistersClientImpl_read [n] keys timeout []) = Some c1"
    "ncl_channel c1 = map ClSend (q # qs) @ [ClComplete None True]"
    "access_new_channel q s = Some (i, s0)" "access_inputs i qs s0 = Some s1"
    "access_handleEvent net i (AccessCompleted True) s1 = Some s2" "access_run net i evs s2 = Some s3"
    "ncl_events recording_ops access_client_input (ch_events_of i (drop (length (svc_out s)) (svc_out s3))) c1 = Some c2"
    "ncl_received c2 = [Inr m]" and m: "map_of m n = Some (Inr items)" "map fst items = keys"
    unfolding i_def by force
  have "single_node n (Inr m) = Inr items" using m(1) by (simp add: single_node_def)
  then have "\<forall>read rcv (v :: 'v). (\<forall>rcv v. sender_submit (read [n] keys timeout) rcv v = rcv (Inr m) v) \<longrightarrow>
       sender_submit (registry_read_single read n keys timeout) rcv v = rcv (Inr items) v"
    by (simp add: registry_read_single_def then_sender_def sender_submit_def)
  with r m(2) show ?thesis by blast
qed

theorem single_node_read_complete_witness:
  "\<exists>c1 c2 evs res items. access_client_handleEvent recording_ops ChConnected (AccessRegistersClientImpl_read [5] [[1]] 7 []) = Some c1 \<and>
    ncl_events recording_ops access_client_input evs c1 = Some c2 \<and> ncl_received c2 = [res] \<and> map fst items = [[1]] \<and>
    sender_submit (registry_read_single (\<lambda>ns ks t. just res) 5 [[1]] 7) (\<lambda>x xs. xs @ [x]) [] = [Inr items]"
proof -
  let ?evs = "[(9, AccessValue []), (5, AccessFailure ResponsePromiseExpired)]"
  have h: "[[1 :: byte]] \<noteq> []" "[] \<notin> set [[1 :: byte]]" "length [[1 :: byte]] < 2 ^ 16"
    "length [[1 :: byte]] \<le> count_list (map fst ?evs) 5" by simp_all
  from single_node_read_complete [OF refusing_net_simps(1) [of 9] refusing_net_simps(2) h, where s = "access_init ()" and timeout = 7
      and 'v = "access_outcome list"]
  obtain c1 c2 res items and s3 :: "unit access_service" where
    r: "access_client_handleEvent recording_ops ChConnected (AccessRegistersClientImpl_read [5] [[1]] 7 []) = Some c1"
      "ncl_events recording_ops access_client_input
        (ch_events_of (svc_next_fsm_id (access_init ())) (drop (length (svc_out (access_init ()))) (svc_out s3))) c1 = Some c2"
      "ncl_received c2 = [res]" "map fst items = [[1]]"
    and all: "\<forall>read rcv (v :: access_outcome list). (\<forall>rcv v. sender_submit (read [5] [[1]] 7) rcv v = rcv res v) \<longrightarrow>
       sender_submit (registry_read_single read 5 [[1]] 7) rcv v = rcv (Inr items) v"
    by (elim exE conjE) (rule that, assumption+)
  have "sender_submit (just res) rcv v = rcv res v" for rcv :: "_ \<Rightarrow> access_outcome list \<Rightarrow> _" and v
    by (simp add: sender_submit_def just_def)
  with all have "sender_submit (registry_read_single (\<lambda>ns ks t. just res) 5 [[1]] 7) (\<lambda>x xs. xs @ [x]) [] = [Inr items]" by simp
  with r show ?thesis by (intro exI [of _ c1] exI [of _ c2] exI [of _ res] exI [of _ items] exI conjI)
qed

section \<open>The handshake\<close>

text \<open>
  C34. The routers of the SDK and of the daemon find each other. When the pipe of the client
  connects, the client sends one message; the server answers it with one message and knows
  the client from then on; with this answer the client is connected and every gateway it has
  made in the meantime is told so once.
\<close>
theorem handshake_connects:
  assumes codec: "route_codec_law c" "\<And>r. route_serialize c r \<noteq> None"
    and inv: "cr_inv (\<lambda>_. {#}) L s" "\<not> cr_is_connected s"
    and new: "cl \<notin> set (um_keys (sr_clients t))"
  shows "\<exists>m m' s1 t1 s2 gws.
    cr_handlePipeEvent (wire_client_env c) cr_log_handler CP_Connected s = Some (None, s1) \<and> cr_pipe s1 = cr_pipe s @ [m] \<and>
    sr_run (wire_server_env c) h fac [SP_Connected cl, SP_Message cl m] t = Some t1 \<and>
    sr_pipe t1 = sr_pipe t @ [(cl, m')] \<and> map_of (sr_clients t1) cl = Some [] \<and>
    cr_handlePipeEvent (wire_client_env c) cr_log_handler (CP_Message m') s1 = Some (None, s2) \<and> cr_is_connected s2 \<and>
    mset gws = mset (cr_map_of_gateways s) \<and>
    cr_app s2 = cr_app s @ concat (map (gw_notes (cr_heap s) GwConnected) (map snd gws))"
proof -
  obtain m where m: "route_serialize c (Route_connect VERSION_MAJOR VERSION_MINOR \<lparr>error_code = 0, raw_errno = 0\<rparr>) = Some m"
    using codec(2) by blast
  obtain m' where m': "route_serialize c (Route_connect VERSION_MAJOR VERSION_MINOR (optErrorToDsdlError None)) = Some m'"
    using codec(2) by blast
  have read: "route_deserialize c m = Some (Route_connect VERSION_MAJOR VERSION_MINOR \<lparr>error_code = 0, raw_errno = 0\<rparr>)"
    "route_deserialize c m' = Some (Route_connect VERSION_MAJOR VERSION_MINOR (optErrorToDsdlError None))"
    using route_codec_law.roundtrip [OF codec(1) m, of "[]"] route_codec_law.roundtrip [OF codec(1) m', of "[]"] by simp_all
  let ?s = "s\<lparr>cr_pipe := cr_pipe s @ [m]\<rparr>" and ?t = "t\<lparr>sr_pipe := sr_pipe t @ [(cl, m')], sr_clients := um_emplace cl [] (sr_clients t)\<rparr>"
  have "cr_handlePipeEvent (wire_client_env c) cr_log_handler CP_Connected s = Some (None, ?s)"
    using m by (simp add: cr_handleConnected_def client_send_route_def tryPerformOnSerialized_def client_pipe_send_def wire_client_env_def)
  moreover have "sr_run (wire_server_env c) h fac [SP_Connected cl, SP_Message cl m] t = Some ?t"
    using m' read(1) by (simp add: sr_handleConnected_def sr_handleMessage_def sr_handleRouteConnect_def server_send_route_def
        tryPerformOnSerialized_def server_pipe_send_def wire_server_env_def)
  moreover have "map_of (sr_clients t) cl = None" using new by (simp add: map_of_eq_None_iff)
  then have "map_of (sr_clients ?t) cl = Some []" by (simp add: um_simps)
  moreover have "cr_inv (\<lambda>_. {#}) L ?s" using inv(1) by (simp add: cr_inv_def)
  then have "\<exists>gws. mset gws = mset (cr_map_of_gateways ?s) \<and>
      cr_handlePipeEvent (wire_client_env c) cr_log_handler (CP_Message m') ?s =
        Some (None, ?s\<lparr>cr_is_connected := True, cr_app := cr_app ?s @ concat (map (gw_notes (cr_heap ?s) GwConnected) (map snd gws))\<rparr>)"
    using client_connect_notifies_once [of L ?s "wire_client_env c" m'] read(2) inv(2)
    by (simp add: wire_client_env_def is_order_id)
  then obtain gws where gws: "mset gws = mset (cr_map_of_gateways s)" "cr_handlePipeEvent (wire_client_env c) cr_log_handler (CP_Message m') ?s =
        Some (None, ?s\<lparr>cr_is_connected := True, cr_app := cr_app s @ concat (map (gw_notes (cr_heap s) GwConnected) (map snd gws))\<rparr>)" by auto
  ultimately show ?thesis using gws(1)
    by (intro exI [of _ m] exI [of _ m'] exI [of _ ?s] exI [of _ ?t] exI [of _ gws]
        exI [of _ "?s\<lparr>cr_is_connected := True, cr_app := cr_app s @ concat (map (gw_notes (cr_heap s) GwConnected) (map snd gws))\<rparr>"])
      (simp del: cr_handlePipeEvent.simps)
qed

theorem handshake_connects_witness:
  "\<exists>m m' s1 t1 s2.
    cr_handlePipeEvent (wire_client_env dsdl_codec) cr_log_handler CP_Connected (two_gateways False) = Some (None, s1) \<and>
    cr_pipe s1 = cr_pipe (two_gateways False) @ [m] \<and>
    sr_run (wire_server_env dsdl_codec) keep_handler (keep_factory (wire_server_env dsdl_codec)) [SP_Connected 9, SP_Message 9 m] served = Some t1 \<and>
    sr_pipe t1 = sr_pipe served @ [(9, m')] \<and>
    cr_handlePipeEvent (wire_client_env dsdl_codec) cr_log_handler (CP_Message m') s1 = Some (None, s2) \<and> cr_is_connected s2"
proof -
  have ser: "route_serialize dsdl_codec r \<noteq> None" for r by (simp add: dsdl_codec_def)
  have "\<not> cr_is_connected (two_gateways False)" "9 \<notin> set (um_keys (sr_clients served))"
    by (simp_all add: two_gateways_simps served_def registerChannelFactory_def ServerRouterImpl_init_def)
  from handshake_connects [OF dsdl.route_codec_law_axioms ser two_gateways_inv [of False] this,
      where h = keep_handler and fac = "keep_factory (wire_server_env dsdl_codec)"]
  show ?thesis by blast
qed

end
