(* ===== verification/Cli_Scenarios.thy ===== *)
theory Cli_Scenarios
  imports Sdk_Daemon "HOL-Library.List_Lexorder"
begin

text \<open>
  \<^verbatim>\<open>src/cli/main.cpp\<close>: the command line client, which goes through a fixed list of scenarios. A call of the
  SDK with its \<open>sync_wait\<close> is one operation of the environment: the request, the time to wait in
  microseconds, and the result; that such waits return is shown in \<open>Execution\<close>. What is only
  logged is left out.
\<close>

section \<open>The environment\<close>

type_synonym ('x, 'w) waited = "int \<Rightarrow> 'w \<Rightarrow> (sdk_error + 'x) \<times> 'w"

record ('sub, 'pub, 'rpc, 'w) cli_env =
  cl_restart :: "u16 list \<Rightarrow> ((u16, exec_outcome) umap, 'w) waited"
  cl_beginSoftwareUpdate :: "u16 list \<Rightarrow> byte list \<Rightarrow> ((u16, exec_outcome) umap, 'w) waited"
  cl_pushRoot :: "byte list \<Rightarrow> bool \<Rightarrow> (unit, 'w) waited"
  cl_popRoot :: "byte list \<Rightarrow> bool \<Rightarrow> (unit, 'w) waited"
  cl_listRoots :: "(byte list list, 'w) waited"
  cl_list :: "u16 list \<Rightarrow> u64 \<Rightarrow> ((u16, list_outcome) umap, 'w) waited"
  cl_read :: "u16 list \<Rightarrow> byte list list \<Rightarrow> u64 \<Rightarrow> ((u16, access_outcome) umap, 'w) waited"
  cl_write :: "u16 list \<Rightarrow> reg_key_value list \<Rightarrow> u64 \<Rightarrow> ((u16, access_outcome) umap, 'w) waited"
  cl_list_single :: "u16 \<Rightarrow> u64 \<Rightarrow> int \<Rightarrow> 'w \<Rightarrow> list_outcome \<times> 'w"
  cl_read_single :: "u16 \<Rightarrow> byte list list \<Rightarrow> u64 \<Rightarrow> int \<Rightarrow> 'w \<Rightarrow> access_outcome \<times> 'w"
  cl_write_single :: "u16 \<Rightarrow> reg_key_value list \<Rightarrow> u64 \<Rightarrow> int \<Rightarrow> 'w \<Rightarrow> access_outcome \<times> 'w"
  cl_string_value :: "byte list \<Rightarrow> byte list"
  cl_makeSubscriber :: "('sub, 'w) waited"
  cl_receive :: "'sub \<Rightarrow> (unit, 'w) waited"
  cl_makePublisher :: "('pub, 'w) waited"
  cl_setPriority :: "'pub \<Rightarrow> u8 \<Rightarrow> 'w \<Rightarrow> opt_error \<times> 'w"
  cl_publish :: "'pub \<Rightarrow> int \<Rightarrow> u64 \<Rightarrow> int \<Rightarrow> 'w \<Rightarrow> opt_error \<times> 'w"
  cl_makeRpcClient :: "u16 \<Rightarrow> ('rpc, 'w) waited"
  cl_setCallPriority :: "'rpc \<Rightarrow> u8 \<Rightarrow> 'w \<Rightarrow> opt_error \<times> 'w"
  cl_call :: "'rpc \<Rightarrow> u64 \<Rightarrow> u64 \<Rightarrow> (unit, 'w) waited"
  cl_now :: "'w \<Rightarrow> int"
  cl_usleep :: "int \<Rightarrow> 'w \<Rightarrow> 'w"

definition PriorityHigh :: u8 where "PriorityHigh = 3"
definition PriorityLow :: u8 where "PriorityLow = 5"

section \<open>The scenarios\<close>

definition cli_node_ids :: "u16 list" where "cli_node_ids = [42, 43, 44]"

definition tryResetNodesScenario :: "('s, 'p, 'r, 'w) cli_env \<Rightarrow> 'w \<Rightarrow> 'w" where
  "tryResetNodesScenario e w = cl_usleep e 100000 (snd (cl_restart e cli_node_ids 2000000 w))"

definition tryBeginSoftwareUpdateScenario :: "('s, 'p, 'r, 'w) cli_env \<Rightarrow> 'w \<Rightarrow> 'w" where
  "tryBeginSoftwareUpdateScenario e w = snd (cl_beginSoftwareUpdate e cli_node_ids (ascii ''firmware.bin'') 2000000 w)"

definition tryPushRootScenario :: "('s, 'p, 'r, 'w) cli_env \<Rightarrow> 'w \<Rightarrow> 'w" where
  "tryPushRootScenario e w = snd (cl_pushRoot e (ascii ''key'') True 2000000 w)"

definition tryPopRootScenario :: "('s, 'p, 'r, 'w) cli_env \<Rightarrow> 'w \<Rightarrow> 'w" where
  "tryPopRootScenario e w = snd (cl_popRoot e (ascii ''key'') True 2000000 w)"

definition tryListRootsScenario :: "('s, 'p, 'r, 'w) cli_env \<Rightarrow> 'w \<Rightarrow> 'w" where
  "tryListRootsScenario e w = snd (cl_listRoots e 2000000 w)"

text \<open>\<open>std::set<std::string>\<close> is kept in order; its insertion ignores what is there.\<close>

definition logRegistryListNodeResult :: "list_outcome \<Rightarrow> byte list list \<Rightarrow> byte list list" where
  "logRegistryListNodeResult result reg_names_set =
     (case result of
        Inl failure \<Rightarrow> reg_names_set
      | Inr node_regs \<Rightarrow> fold insort_insert node_regs reg_names_set)"

definition setRegisterValue :: "('s, 'p, 'r, 'w) cli_env \<Rightarrow> byte list \<Rightarrow> byte list" where
  "setRegisterValue e str = cl_string_value e str"

definition tryListReadWriteRegsOfNodesScenario :: "('s, 'p, 'r, 'w) cli_env \<Rightarrow> 'w \<Rightarrow> 'w" where
  "tryListReadWriteRegsOfNodesScenario e w =
     (case cl_list e cli_node_ids 1000000 2000000 w of
        (Inl list_failure, w1) \<Rightarrow> w1
      | (Inr node_id_to_regs, w1) \<Rightarrow>
          let reg_names = fold (\<lambda>(node_id, regs). logRegistryListNodeResult regs) node_id_to_regs [];
              w2 = snd (cl_read e cli_node_ids reg_names 1000000 2000000 w1);
              reg_keys_and_values =
                [\<lparr>reg_key = ascii ''uavcan.node.description'', reg_value = setRegisterValue e (ascii ''libcyphal demo node3'')\<rparr>]
          in snd (cl_write e cli_node_ids reg_keys_and_values 1000000 2000000 w2))"

definition tryListReadWriteRegsOfSingleNodeScenario :: "('s, 'p, 'r, 'w) cli_env \<Rightarrow> 'w \<Rightarrow> 'w" where
  "tryListReadWriteRegsOfSingleNodeScenario e w =
     (let w1 = snd (cl_list_single e 42 1000000 2000000 w);
          reg_keys_and_values =
            [\<lparr>reg_key = ascii ''uavcan.node.description'', reg_value = setRegisterValue e (ascii ''libcyphal demo node42'')\<rparr>];
          w2 = snd (cl_write_single e 42 reg_keys_and_values 1000000 2000000 w1)
      in snd (cl_read_single e 42 [ascii ''uavcan.node.description''] 1000000 2000000 w2))"

partial_function (option) receive_loop :: "('s, 'p, 'r, 'w) cli_env \<Rightarrow> 's \<Rightarrow> int \<Rightarrow> 'w \<Rightarrow> 'w option" where
  "receive_loop e subscriber until w =
     (if cl_now e w < until then
        (case cl_receive e subscriber (until - cl_now e w) w of
           (Inl failure, w1) \<Rightarrow> Some w1
         | (Inr _, w1) \<Rightarrow> receive_loop e subscriber until w1)
      else Some w)"

definition trySubscriberScenario :: "('s, 'p, 'r, 'w) cli_env \<Rightarrow> 'w \<Rightarrow> 'w option" where
  "trySubscriberScenario e w =
     (case cl_makeSubscriber e 2000000 w of
        (Inl failure, w1) \<Rightarrow> Some w1
      | (Inr subscriber, w1) \<Rightarrow> receive_loop e subscriber (cl_now e w1 + 10 * 1000000) w1)"

text \<open>\<open>timestamp\<close> is the previous transmission, in the message of the next one.\<close>

partial_function (option) publish_loop ::
    "('s, 'p, 'r, 'w) cli_env \<Rightarrow> 'p \<Rightarrow> int \<Rightarrow> int \<Rightarrow> int \<Rightarrow> 'w \<Rightarrow> 'w option" where
  "publish_loop e publisher until counter timestamp w =
     (if cl_now e w < until then
        let counter1 = counter + 1;
            w1 = (if counter1 = 15 then snd (cl_setPriority e publisher PriorityHigh w) else w);
            timeout = until - cl_now e w1
        in (case cl_publish e publisher timestamp 1000000 timeout w1 of
              (Some err, w2) \<Rightarrow> Some w2
            | (None, w2) \<Rightarrow> publish_loop e publisher until counter1 (cl_now e w2) (cl_usleep e 1000000 w2))
      else Some w)"

definition tryPublisherScenario :: "('s, 'p, 'r, 'w) cli_env \<Rightarrow> 'w \<Rightarrow> 'w option" where
  "tryPublisherScenario e w =
     (case cl_makePublisher e 2000000 w of
        (Inl failure, w1) \<Rightarrow> Some w1
      | (Inr publisher, w1) \<Rightarrow>
          let w2 = snd (cl_setPriority e publisher PriorityLow w1)
          in publish_loop e publisher (cl_now e w2 + 30 * 1000000) 0 0 w2)"

definition tryRpcClientScenario :: "('s, 'p, 'r, 'w) cli_env \<Rightarrow> 'w \<Rightarrow> 'w" where
  "tryRpcClientScenario e w =
     (case cl_makeRpcClient e 42 2000000 w of
        (Inl failure, w1) \<Rightarrow> w1
      | (Inr rpc_client, w1) \<Rightarrow>
          let w2 = snd (cl_setCallPriority e rpc_client PriorityLow w1)
          in snd (cl_call e rpc_client 1000000 1990000 2000000 w2))"

text \<open>The exit status; \<open>make_daemon\<close> says whether \<open>Daemon::make\<close> gives an object.\<close>

definition cli_main ::
    "('s, 'p, 'r, 'w) cli_env \<Rightarrow> (byte list \<Rightarrow> 'w \<Rightarrow> bool \<times> 'w) \<Rightarrow> byte list option \<Rightarrow> 'w \<Rightarrow> (int \<times> 'w) option" where
  "cli_main e make_daemon env_connection_str w =
     (let ipc_connection = (case env_connection_str of
                              Some c \<Rightarrow> c_str c | None \<Rightarrow> ascii ''unix-abstract:org.opencyphal.ocvsmd.ipc'')
      in case make_daemon ipc_connection w of
           (False, w1) \<Rightarrow> Some (1, w1)
         | (True, w1) \<Rightarrow> do {
             let w2 = tryListRootsScenario e (tryPopRootScenario e (tryPushRootScenario e
                        (tryBeginSoftwareUpdateScenario e (tryResetNodesScenario e w1))));
             let w3 = tryListReadWriteRegsOfSingleNodeScenario e (tryListReadWriteRegsOfNodesScenario e w2);
             w4 \<leftarrow> trySubscriberScenario e w3;
             w5 \<leftarrow> tryPublisherScenario e w4;
             Some (0, tryRpcClientScenario e w5)
           })"

section \<open>The registers\<close>

lemma insort_insert_all:
  "sorted acc \<Longrightarrow> distinct acc \<Longrightarrow> sorted (fold insort_insert xs acc) \<and> distinct (fold insort_insert xs acc) \<and>
     set (fold insort_insert xs acc) = set xs \<union> set acc"
  by (induction xs arbitrary: acc) (auto simp: sorted_insort_insert distinct_insort_insert set_insort_insert)

lemma collected_names:
  "sorted acc \<Longrightarrow> distinct acc \<Longrightarrow>
   let names = fold (\<lambda>(node_id, regs). logRegistryListNodeResult regs) m acc
   in sorted names \<and> distinct names \<and> set names = set acc \<union> {name. \<exists>n regs. (n, Inr regs) \<in> set m \<and> name \<in> set regs}"
proof (induction m arbitrary: acc)
  case (Cons x m)
  obtain n regs where x: "x = (n, regs)" by force
  let ?acc = "logRegistryListNodeResult regs acc"
  have "sorted ?acc" "distinct ?acc" "set ?acc = set acc \<union> {name. \<exists>rs. regs = Inr rs \<and> name \<in> set rs}"
    using Cons.prems insort_insert_all [of acc] by (auto simp: logRegistryListNodeResult_def split: sum.splits)
  with Cons.IH [of ?acc] show ?case by (auto simp: x Let_def)
qed simp

text \<open>
  The client reads what it has listed: the read request goes to the three nodes and names,
  each once and in order, exactly the registers that some node has reported. The description
  is written whatever the read gave; when the listing fails nothing is read or written.
\<close>
theorem cli_reads_listed_registers:
  "case cl_list e [42, 43, 44] 1000000 2000000 w of
     (Inl failure, w1) \<Rightarrow> tryListReadWriteRegsOfNodesScenario e w = w1
   | (Inr m, w1) \<Rightarrow>
       tryListReadWriteRegsOfNodesScenario e w =
         snd (cl_write e [42, 43, 44]
           [\<lparr>reg_key = ascii ''uavcan.node.description'', reg_value = cl_string_value e (ascii ''libcyphal demo node3'')\<rparr>] 1000000 2000000
           (snd (cl_read e [42, 43, 44] (sorted_list_of_set {name. \<exists>n regs. (n, Inr regs) \<in> set m \<and> name \<in> set regs}) 1000000 2000000 w1)))"
proof -
  let ?names = "\<lambda>m. fold (\<lambda>(node_id, regs). logRegistryListNodeResult regs) m []"
  have "?names m = sorted_list_of_set {name. \<exists>n regs. (n, Inr regs) \<in> set m \<and> name \<in> set regs}" for m :: "(u16, list_outcome) umap"
    using collected_names [of "[]" m] sorted_list_of_set.idem_if_sorted_distinct [of "?names m"] by (simp add: Let_def)
  then show ?thesis
    by (auto simp: tryListReadWriteRegsOfNodesScenario_def cli_node_ids_def setRegisterValue_def Let_def split: prod.split sum.split)
qed

section \<open>The publications\<close>

text \<open>
  What is relied on: time does not go back, a sleep takes its time, and the publisher uses the
  priority set last; \<open>pubs\<close> are the priorities of the publications so far.
\<close>

locale publishing =
  fixes e :: "('s, 'p, 'r, 'w) cli_env" and pubs :: "'w \<Rightarrow> u8 list" and prio :: "'w \<Rightarrow> u8"
  assumes set_priority: "cl_setPriority e p x w = (r, w1) \<Longrightarrow> cl_now e w \<le> cl_now e w1 \<and> pubs w1 = pubs w \<and> prio w1 = x"
    and publish: "cl_publish e p ts t u w = (r, w1) \<Longrightarrow> cl_now e w \<le> cl_now e w1 \<and> pubs w1 = pubs w @ [prio w] \<and> prio w1 = prio w"
    and sleep: "cl_now e w + us \<le> cl_now e (cl_usleep e us w)" "pubs (cl_usleep e us w) = pubs w" "prio (cl_usleep e us w) = prio w"
begin

lemma loop_returns:
  "cl_now e w + 1000000 * int n \<ge> until \<Longrightarrow> 0 \<le> c \<Longrightarrow> (prio w = (if c < 15 then PriorityLow else PriorityHigh)) \<Longrightarrow>
   \<exists>w' k. publish_loop e p until c ts w = Some w' \<and> k \<le> n \<and>
     pubs w' = pubs w @ map (\<lambda>i. if c + 1 + int i < 15 then PriorityLow else PriorityHigh) [0..<k]"
proof (induction n arbitrary: w c ts)
  case 0
  then show ?case by (subst publish_loop.simps) auto
next
  case (Suc n)
  show ?case
  proof (cases "cl_now e w < until")
    case False
    then show ?thesis by (subst publish_loop.simps) (auto intro!: exI [of _ 0])
  next
    case True
    define w1 where "w1 = (if c + 1 = 15 then snd (cl_setPriority e p PriorityHigh w) else w)"
    have w1: "cl_now e w \<le> cl_now e w1" "pubs w1 = pubs w" "prio w1 = (if c + 1 < 15 then PriorityLow else PriorityHigh)"
      using Suc.prems(3) set_priority [of p PriorityHigh w] by (auto simp: w1_def prod_eq_iff)
    obtain r w2 where pub: "cl_publish e p ts 1000000 (until - cl_now e w1) w1 = (r, w2)" by force
    note w2 = publish [OF pub]
    have unfold: "publish_loop e p until c ts w =
        (if r \<noteq> None then Some w2 else publish_loop e p until (c + 1) (cl_now e w2) (cl_usleep e 1000000 w2))"
      using True pub unfolding w1_def by (subst publish_loop.simps) (cases r; auto simp: Let_def)
    let ?q = "if c + 1 < 15 then PriorityLow else PriorityHigh"
    show ?thesis
    proof (cases r)
      case (Some err)
      with unfold w1 w2 show ?thesis by (intro exI [of _ w2] exI [of _ "Suc 0"]) simp
    next
      case None
      let ?w = "cl_usleep e 1000000 w2"
      have "until \<le> cl_now e ?w + 1000000 * int n" using Suc.prems(1) w1(1) w2 sleep(1) [of w2 1000000] by simp
      moreover have "prio ?w = ?q" using w1 w2 sleep(3) by simp
      ultimately obtain w' k where k: "publish_loop e p until (c + 1) (cl_now e w2) ?w = Some w'" "k \<le> n"
        "pubs w' = pubs ?w @ map (\<lambda>i. if c + 1 + 1 + int i < 15 then PriorityLow else PriorityHigh) [0..<k]"
        using Suc.IH [of ?w "c + 1" "cl_now e w2"] Suc.prems(2) by auto
      have "pubs w' = pubs w @ map (\<lambda>i. if c + 1 + int i < 15 then PriorityLow else PriorityHigh) [0..<Suc k]"
        using k(3) w1 w2 sleep(2) by (simp add: map_upt_Suc add.assoc add.commute del: upt_Suc)
      with k unfold None show ?thesis by (intro exI [of _ w'] exI [of _ "Suc k"]) simp
    qed
  qed
qed

end

text \<open>
  The publishing scenario ends, after at most 30 publications: the first 14 of them with
  the low priority, all others with the high one.
\<close>
theorem cli_publishes_and_ends:
  assumes "publishing e pubs prio"
    and "cl_makePublisher e 2000000 w = (Inr p, w1)" "pubs w1 = []"
  shows "\<exists>w' k. tryPublisherScenario e w = Some w' \<and> k \<le> 30 \<and>
    pubs w' = replicate (min k 14) PriorityLow @ replicate (k - 14) PriorityHigh"
proof -
  define w2 where "w2 = snd (cl_setPriority e p PriorityLow w1)"
  have w2: "pubs w2 = []" "prio w2 = PriorityLow"
    using publishing.set_priority [OF assms(1), of p PriorityLow w1] assms(3) by (auto simp: w2_def prod_eq_iff)
  from publishing.loop_returns [OF assms(1), of "cl_now e w2 + 30 * 1000000" w2 30 0 p 0] w2 obtain w' k where
    k: "publish_loop e p (cl_now e w2 + 30 * 1000000) 0 0 w2 = Some w'" "k \<le> 30"
      "pubs w' = map (\<lambda>i. if 1 + int i < 15 then PriorityLow else PriorityHigh) [0..<k]" by auto
  have "tryPublisherScenario e w = Some w'" using assms(2) k(1) by (simp add: tryPublisherScenario_def w2_def Let_def)
  moreover have "map (\<lambda>i. if 1 + int i < 15 then PriorityLow else PriorityHigh) [0..<k] =
      replicate (min k 14) PriorityLow @ replicate (k - 14) PriorityHigh"
    by (rule nth_equalityI) (auto simp: nth_append)
  ultimately show ?thesis using k(2,3) by auto
qed

text \<open>A world that counts its time; every call is answered at once.\<close>

record cli_world =
  cw_now :: int
  cw_prio :: u8
  cw_pubs :: "u8 list"

definition calm_cli :: "(unit, unit, unit, cli_world) cli_env" where
  "calm_cli = \<lparr>cl_restart = (\<lambda>ns t w. (Inr [], w)), cl_beginSoftwareUpdate = (\<lambda>ns f t w. (Inr [], w)), cl_pushRoot = (\<lambda>r b t w. (Inr (), w)),
     cl_popRoot = (\<lambda>r b t w. (Inr (), w)), cl_listRoots = (\<lambda>t w. (Inr [], w)), cl_list = (\<lambda>ns u t w. (Inr [], w)),
     cl_read = (\<lambda>ns ks u t w. (Inr [], w)), cl_write = (\<lambda>ns ks u t w. (Inr [], w)), cl_list_single = (\<lambda>n u t w. (Inr [], w)),
     cl_read_single = (\<lambda>n ks u t w. (Inr [], w)), cl_write_single = (\<lambda>n ks u t w. (Inr [], w)), cl_string_value = (\<lambda>s. s),
     cl_makeSubscriber = (\<lambda>t w. (Inr (), w)), cl_receive = (\<lambda>s t w. (Inl (mkError TimedOut), w\<lparr>cw_now := cw_now w + t\<rparr>)),
     cl_makePublisher = (\<lambda>t w. (Inr (), w)), cl_setPriority = (\<lambda>p x w. (None, w\<lparr>cw_prio := x\<rparr>)),
     cl_publish = (\<lambda>p ts u t w. (None, w\<lparr>cw_pubs := cw_pubs w @ [cw_prio w]\<rparr>)),
     cl_makeRpcClient = (\<lambda>n t w. (Inr (), w)), cl_setCallPriority = (\<lambda>r x w. (None, w)), cl_call = (\<lambda>r u v t w. (Inr (), w)),
     cl_now = cw_now, cl_usleep = (\<lambda>us w. w\<lparr>cw_now := cw_now w + us\<rparr>)\<rparr>"

interpretation calm: publishing calm_cli cw_pubs cw_prio
  by unfold_locales (auto simp: calm_cli_def)

theorem cli_publishes_and_ends_witness:
  "\<exists>w' k. tryPublisherScenario calm_cli \<lparr>cw_now = 0, cw_prio = 4, cw_pubs = []\<rparr> = Some w' \<and> k \<le> 30 \<and>
    cw_pubs w' = replicate (min k 14) PriorityLow @ replicate (k - 14) PriorityHigh"
  by (rule cli_publishes_and_ends [OF calm.publishing_axioms, where p = "()" and ?w1.0 = "\<lparr>cw_now = 0, cw_prio = 4, cw_pubs = []\<rparr>"])
    (simp_all add: calm_cli_def)

end
