(* ===== verification/Socket_Can.thy ===== *)
theory Socket_Can
  imports Executor Socket_Buffer
begin

unbundle bit_operations_syntax

text \<open>
  \<^verbatim>\<open>src/daemon/engine/platform/can/socketcan.c\<close>: the SocketCAN functions. System calls are parameters; the
  fields of a \<open>canfd_frame\<close> are read from and written to its bytes. \<open>errno\<close> is what the last
  failing call left, \<open>close\<close> included. A copy outside an array is undefined (\<open>None\<close>).
\<close>

section \<open>System calls\<close>

definition EFBIG :: errno where [errno_simps]: "EFBIG = 27"
definition ENAMETOOLONG :: errno where [errno_simps]: "ENAMETOOLONG = 36"
definition EBADF :: errno where [errno_simps]: "EBADF = 9"

datatype can_option = CAN_RAW_FD_FRAMES | SO_TIMESTAMP | CAN_RAW_RECV_OWN_MSGS

text \<open>What \<open>recvmsg\<close> gives: the bytes, \<open>msg_flags\<close>, and the ancillary data (level, type, time).\<close>

record can_msg =
  cmsg_bytes :: "byte list"
  cmsg_flags :: u32
  cmsg_hdr :: "(bool \<times> u64 \<times> u64) option"

record can_filter =
  flt_can_id :: u32
  flt_can_mask :: u32

record 'w can_sys =
  can_socket :: "'w \<Rightarrow> int sysret \<times> 'w"
  can_ifindex :: "int \<Rightarrow> byte list \<Rightarrow> 'w \<Rightarrow> int sysret \<times> 'w"
  can_bind :: "int \<Rightarrow> int \<Rightarrow> 'w \<Rightarrow> unit sysret \<times> 'w"
  can_setsockopt :: "int \<Rightarrow> can_option \<Rightarrow> 'w \<Rightarrow> unit sysret \<times> 'w"
  can_setfilter :: "int \<Rightarrow> can_filter list \<Rightarrow> 'w \<Rightarrow> unit sysret \<times> 'w"
  can_ppoll :: "int \<Rightarrow> u32 \<Rightarrow> int \<times> int \<Rightarrow> 'w \<Rightarrow> (nat \<times> u32) sysret \<times> 'w"
  can_write :: "int \<Rightarrow> byte list \<Rightarrow> 'w \<Rightarrow> unit sysret \<times> 'w"
  can_recvmsg :: "int \<Rightarrow> nat \<Rightarrow> 'w \<Rightarrow> can_msg sysret \<times> 'w"
  can_close :: "int \<Rightarrow> 'w \<Rightarrow> errno option \<times> 'w"

definition INT16_MIN :: int where "INT16_MIN = - 32768"

definition getNegatedErrno :: "errno \<Rightarrow> int" where
  "getNegatedErrno errno =
     (let out = - \<bar>sint errno\<bar> in if out < 0 \<and> INT16_MIN \<le> out then out else INT16_MIN)"

abbreviation neg_errno :: "errno \<Rightarrow> int" where
  "neg_errno e \<equiv> - sint e"

section \<open>Polling and opening\<close>

definition POLLIN :: u32 where "POLLIN = 1"
definition POLLOUT :: u32 where "POLLOUT = 4"

definition poll_timespec :: "u64 \<Rightarrow> int \<times> int" where
  "poll_timespec timeout_usec = (uint (timeout_usec div 1000000), uint (timeout_usec mod 1000000) * 1000)"

definition doPoll :: "'w can_sys \<Rightarrow> int \<Rightarrow> u32 \<Rightarrow> u64 \<Rightarrow> 'w \<Rightarrow> int \<times> 'w" where
  "doPoll sys fd events timeout_usec w =
     (case can_ppoll sys fd events (poll_timespec timeout_usec) w of
        (SysErr errno, w1) \<Rightarrow> (getNegatedErrno errno, w1)
      | (SysOk (poll_result, revents), w1) \<Rightarrow>
          if poll_result = 0 then (0, w1)
          else if revents AND events = 0 then (neg_errno EIO, w1)
          else (1, w1))"

definition IFNAMSIZ :: nat where "IFNAMSIZ = 16"
definition CAN_MAX_DLEN :: nat where "CAN_MAX_DLEN = 8"
definition CANFD_MAX_DLEN :: nat where "CANFD_MAX_DLEN = 64"

text \<open>The end of a failed \<open>socketcanOpen\<close>: \<open>close\<close>, and only then \<open>errno\<close>.\<close>

definition can_open_failed :: "'w can_sys \<Rightarrow> int \<Rightarrow> errno \<Rightarrow> 'w \<Rightarrow> int \<times> 'w" where
  "can_open_failed sys fd errno w =
     (case can_close sys fd w of
        (None, w1) \<Rightarrow> (getNegatedErrno errno, w1)
      | (Some errno', w1) \<Rightarrow> (getNegatedErrno errno', w1))"

fun can_set_options :: "'w can_sys \<Rightarrow> int \<Rightarrow> can_option list \<Rightarrow> 'w \<Rightarrow> unit sysret \<times> 'w" where
  "can_set_options sys fd [] w = (SysOk (), w)"
| "can_set_options sys fd (opt # opts) w =
     (case can_setsockopt sys fd opt w of
        (SysErr errno, w1) \<Rightarrow> (SysErr errno, w1)
      | (SysOk _, w1) \<Rightarrow> can_set_options sys fd opts w1)"

definition socketcanOpen :: "'w can_sys \<Rightarrow> byte list \<Rightarrow> nat \<Rightarrow> 'w \<Rightarrow> int \<times> 'w" where
  "socketcanOpen sys iface_name can_mtu w =
     (if length iface_name + 1 > IFNAMSIZ then (neg_errno ENAMETOOLONG, w)
      else
        (case can_socket sys w of
           (SysErr errno, w1) \<Rightarrow> can_open_failed sys (-1) errno w1
         | (SysOk fd, w1) \<Rightarrow>
             (case can_ifindex sys fd iface_name w1 of
                (SysErr errno, w2) \<Rightarrow> can_open_failed sys fd errno w2
              | (SysOk ifr_ifindex, w2) \<Rightarrow>
                  (case can_bind sys fd ifr_ifindex w2 of
                     (SysErr errno, w3) \<Rightarrow> can_open_failed sys fd errno w3
                   | (SysOk _, w3) \<Rightarrow>
                       (case can_set_options sys fd
                               ((if can_mtu > CAN_MAX_DLEN then [CAN_RAW_FD_FRAMES] else []) @ [SO_TIMESTAMP, CAN_RAW_RECV_OWN_MSGS]) w3 of
                          (SysErr errno, w4) \<Rightarrow> can_open_failed sys fd errno w4
                        | (SysOk _, w4) \<Rightarrow> (fd, w4))))))"

section \<open>Frames\<close>

record canard_frame =
  extended_can_id :: u32
  cf_payload :: payload

record canfd_frame =
  cfd_can_id :: u32
  cfd_len :: u8
  cfd_flags :: u8
  cfd_data :: "byte list"

definition CAN_EFF_FLAG :: u32 where "CAN_EFF_FLAG = 0x80000000"
definition CAN_RTR_FLAG :: u32 where "CAN_RTR_FLAG = 0x40000000"
definition CAN_ERR_FLAG :: u32 where "CAN_ERR_FLAG = 0x20000000"
definition CAN_EFF_MASK :: u32 where "CAN_EFF_MASK = 0x1FFFFFFF"
definition CANFD_BRS :: u8 where "CANFD_BRS = 1"
definition CAN_MTU :: nat where "CAN_MTU = 16"
definition CANFD_MTU :: nat where "CANFD_MTU = 72"
definition MSG_CONFIRM :: u32 where "MSG_CONFIRM = 0x800"

text \<open>The object representation: id, length, flags, two reserved bytes, 64 data bytes.\<close>

definition canfd_bytes :: "canfd_frame \<Rightarrow> byte list" where
  "canfd_bytes cfd = le_bytes 4 (cfd_can_id cfd) @ [cfd_len cfd, cfd_flags cfd, 0, 0] @ cfd_data cfd"

definition canfd_of_bytes :: "byte list \<Rightarrow> canfd_frame" where
  "canfd_of_bytes bs = \<lparr>cfd_can_id = le_word (take 4 bs), cfd_len = bs ! 4, cfd_flags = bs ! 5, cfd_data = take 64 (drop 8 bs)\<rparr>"

definition socketcanPush :: "'w can_sys \<Rightarrow> int \<Rightarrow> canard_frame option \<Rightarrow> u64 \<Rightarrow> 'w \<Rightarrow> (int \<times> 'w) option" where
  "socketcanPush sys fd frame timeout_usec w =
     (case frame of
        None \<Rightarrow> Some (neg_errno EINVAL, w)
      | Some fr \<Rightarrow>
          (case cf_payload fr of
             NullSpan n \<Rightarrow> Some (neg_errno EINVAL, w)
           | Span bs \<Rightarrow>
               if length bs > 255 then Some (neg_errno EINVAL, w)
               else
                 let (poll_result, w1) = doPoll sys fd POLLOUT timeout_usec w
                 in if 0 < poll_result then
                      if length bs > CANFD_MAX_DLEN then None
                      else
                        let cfd = \<lparr>cfd_can_id = extended_can_id fr OR CAN_EFF_FLAG, cfd_len = of_nat (length bs),
                                   cfd_flags = CANFD_BRS, cfd_data = bs @ replicate (CANFD_MAX_DLEN - length bs) 0\<rparr>;
                            mtu = (if length bs > CAN_MAX_DLEN then CANFD_MTU else CAN_MTU)
                        in (case can_write sys fd (take mtu (canfd_bytes cfd)) w1 of
                              (SysErr errno, w2) \<Rightarrow> Some (getNegatedErrno errno, w2)
                            | (SysOk _, w2) \<Rightarrow> Some (poll_result, w2))
                    else Some (poll_result, w1)))"

text \<open>
  The results of \<open>socketcanPop\<close>: the return value, the frame, the time stamp and the loopback
  flag that were stored. The caller may ask for the time stamp and for the flag.
\<close>

record can_pop =
  pop_result :: int
  pop_frame :: "canard_frame option"
  pop_timestamp :: "u64 option"
  pop_loopback :: "bool option"

definition pop_nothing :: "int \<Rightarrow> can_pop" where
  "pop_nothing r = \<lparr>pop_result = r, pop_frame = None, pop_timestamp = None, pop_loopback = None\<rparr>"

definition pop_message :: "can_msg \<Rightarrow> bool \<Rightarrow> nat \<Rightarrow> bool \<Rightarrow> int \<Rightarrow> can_pop option" where
  "pop_message msg want_timestamp payload_buffer_size want_loopback poll_result =
     (let read_size = length (cmsg_bytes msg)
      in if read_size \<noteq> CAN_MTU \<and> read_size \<noteq> CANFD_MTU then Some (pop_nothing (neg_errno EIO))
         else
           let sockcan_frame = canfd_of_bytes (write_at (replicate CANFD_MTU 0) 0 (cmsg_bytes msg));
               len = unat (cfd_len sockcan_frame);
               can_id = cfd_can_id sockcan_frame;
               loopback_frame = (cmsg_flags msg AND MSG_CONFIRM \<noteq> 0)
           in if len > payload_buffer_size then Some (pop_nothing (neg_errno EFBIG))
              else if \<not> (can_id AND CAN_EFF_FLAG \<noteq> 0 \<and> can_id AND CAN_ERR_FLAG = 0 \<and> can_id AND CAN_RTR_FLAG = 0)
                then Some (pop_nothing 0)
              else if \<not> want_loopback \<and> loopback_frame then Some (pop_nothing 0)
              else
                let lb = (if want_loopback then Some loopback_frame else None);
                    finish = (\<lambda>ts.
                      if len > CANFD_MAX_DLEN then None
                      else Some \<lparr>pop_result = poll_result,
                                 pop_frame = Some \<lparr>extended_can_id = can_id AND CAN_EFF_MASK,
                                                   cf_payload = Span (take len (cfd_data sockcan_frame))\<rparr>,
                                 pop_timestamp = ts, pop_loopback = lb\<rparr>)
                in if \<not> want_timestamp then finish None
                   else (case cmsg_hdr msg of
                           None \<Rightarrow> None
                         | Some (is_timestamp, tv_sec, tv_usec) \<Rightarrow>
                             if is_timestamp then finish (Some (tv_sec * 1000000 + tv_usec))
                             else Some ((pop_nothing (neg_errno EIO))\<lparr>pop_loopback := lb\<rparr>)))"

text \<open>\<open>payload_buffer\<close> is the size of the buffer, \<open>None\<close> for a null pointer.\<close>

definition socketcanPop ::
    "'w can_sys \<Rightarrow> int \<Rightarrow> bool \<Rightarrow> nat option \<Rightarrow> u64 \<Rightarrow> bool \<Rightarrow> 'w \<Rightarrow> (can_pop \<times> 'w) option" where
  "socketcanPop sys fd want_timestamp payload_buffer timeout_usec want_loopback w =
     (case payload_buffer of
        None \<Rightarrow> Some (pop_nothing (neg_errno EINVAL), w)
      | Some payload_buffer_size \<Rightarrow>
          let (poll_result, w1) = doPoll sys fd POLLIN timeout_usec w
          in if 0 < poll_result then
               (case can_recvmsg sys fd CANFD_MTU w1 of
                  (SysErr errno, w2) \<Rightarrow> Some (pop_nothing (getNegatedErrno errno), w2)
                | (SysOk msg, w2) \<Rightarrow>
                    map_option (\<lambda>p. (p, w2)) (pop_message msg want_timestamp payload_buffer_size want_loopback poll_result))
             else Some (pop_nothing poll_result, w1))"

section \<open>Filters\<close>

record canard_filter =
  cflt_id :: u32
  cflt_mask :: u32

definition CAN_RAW_FILTER_MAX :: nat where "CAN_RAW_FILTER_MAX = 512"

definition to_can_filter :: "canard_filter \<Rightarrow> can_filter" where
  "to_can_filter c =
     \<lparr>flt_can_id = (cflt_id c AND CAN_EFF_MASK) OR CAN_EFF_FLAG,
      flt_can_mask = (cflt_mask c AND CAN_EFF_MASK) OR CAN_EFF_FLAG OR CAN_RTR_FLAG\<rparr>"

text \<open>\<open>configs\<close> is \<open>None\<close> for a null pointer.\<close>

definition socketcanFilter :: "'w can_sys \<Rightarrow> int \<Rightarrow> canard_filter list option \<Rightarrow> 'w \<Rightarrow> int \<times> 'w" where
  "socketcanFilter sys fd configs w =
     (case configs of
        None \<Rightarrow> (neg_errno EINVAL, w)
      | Some cs \<Rightarrow>
          if length cs > CAN_RAW_FILTER_MAX then (neg_errno EFBIG, w)
          else
            (case can_setfilter sys fd (map to_can_filter cs) w of
               (SysErr errno, w1) \<Rightarrow> (getNegatedErrno errno, w1)
             | (SysOk _, w1) \<Rightarrow> (0, w1)))"

section \<open>Identifiers and flags\<close>

lemma bit_flag: "m < 32 \<Longrightarrow> bit (2 ^ m :: u32) n \<longleftrightarrow> n = m"
  by (auto simp: bit_exp_iff)

lemma and_flag: "(x AND 2 ^ m = 0) \<longleftrightarrow> \<not> bit (x :: u32) m"
  using bit_iff_and_push_bit_not_eq_0 [of x m] by (simp add: push_bit_eq_mult)

lemma u32_eq_iff: "(x :: u32) = y \<longleftrightarrow> (\<forall>n<32. bit x n = bit y n)"
  by (auto intro: bit_word_eqI)

lemma can_flag_powers:
  "CAN_EFF_FLAG = 2 ^ 31" "CAN_RTR_FLAG = 2 ^ 30" "CAN_ERR_FLAG = 2 ^ 29" "CAN_EFF_MASK = mask 29"
  by (simp_all add: CAN_EFF_FLAG_def CAN_RTR_FLAG_def CAN_ERR_FLAG_def CAN_EFF_MASK_def mask_eq_exp_minus_1)

lemma bit_can_flags [simp]:
  "bit CAN_EFF_FLAG n \<longleftrightarrow> n = 31" "bit CAN_RTR_FLAG n \<longleftrightarrow> n = 30" "bit CAN_ERR_FLAG n \<longleftrightarrow> n = 29"
  "bit CAN_EFF_MASK n \<longleftrightarrow> n < 29"
  unfolding can_flag_powers by (rule bit_flag, simp)+ (auto simp: bit_mask_iff)

lemma can_flag_set:
  "(x AND CAN_EFF_FLAG = 0) = (\<not> bit x 31)" "(x AND CAN_RTR_FLAG = 0) = (\<not> bit x 30)" "(x AND CAN_ERR_FLAG = 0) = (\<not> bit x 29)"
  unfolding can_flag_powers by (rule and_flag)+

text \<open>An extended identifier has 29 bits.\<close>

definition ext_id :: "u32 \<Rightarrow> bool" where
  "ext_id x \<longleftrightarrow> x AND CAN_EFF_MASK = x"

lemma ext_id_bits: "ext_id x \<Longrightarrow> bit x n \<Longrightarrow> n < 29"
  unfolding ext_id_def by (metis bit_and_iff bit_can_flags(4))

lemma ext_id_flagged:
  assumes "ext_id x"
  shows "bit (x OR CAN_EFF_FLAG) 31" "\<not> bit (x OR CAN_EFF_FLAG) 30" "\<not> bit (x OR CAN_EFF_FLAG) 29"
    "(x OR CAN_EFF_FLAG) AND CAN_EFF_MASK = x"
proof -
  show "(x OR CAN_EFF_FLAG) AND CAN_EFF_MASK = x"
    by (rule bit_word_eqI) (use ext_id_bits [OF assms] in \<open>auto simp: bit_or_iff bit_and_iff\<close>)
qed (use ext_id_bits [OF assms, of 30] ext_id_bits [OF assms, of 29] in \<open>auto simp: bit_or_iff\<close>)

text \<open>
  The rule of the kernel for a filter: the identifiers agree under the mask. The rule of a
  Cyphal filter: an extended data frame whose 29 bits agree under the mask.
\<close>

definition can_filter_accepts :: "can_filter list \<Rightarrow> u32 \<Rightarrow> bool" where
  "can_filter_accepts fs can_id \<longleftrightarrow>
     list_ex (\<lambda>f. can_id AND flt_can_mask f = flt_can_id f AND flt_can_mask f) fs"

definition canard_filter_accepts :: "canard_filter list \<Rightarrow> u32 \<Rightarrow> bool" where
  "canard_filter_accepts cs can_id \<longleftrightarrow>
     bit can_id 31 \<and> \<not> bit can_id 30 \<and>
     list_ex (\<lambda>c. (can_id AND CAN_EFF_MASK) AND cflt_mask c = (cflt_id c AND CAN_EFF_MASK) AND cflt_mask c) cs"

lemma to_can_filter_accepts:
  "(can_id AND flt_can_mask (to_can_filter c) = flt_can_id (to_can_filter c) AND flt_can_mask (to_can_filter c)) \<longleftrightarrow>
   bit can_id 31 \<and> \<not> bit can_id 30 \<and> (can_id AND CAN_EFF_MASK) AND cflt_mask c = (cflt_id c AND CAN_EFF_MASK) AND cflt_mask c"
proof -
  have "(can_id AND flt_can_mask (to_can_filter c) = flt_can_id (to_can_filter c) AND flt_can_mask (to_can_filter c)) \<longleftrightarrow>
     (\<forall>n<32. (n < 29 \<longrightarrow> bit (cflt_mask c) n \<longrightarrow> (bit can_id n \<longleftrightarrow> bit (cflt_id c) n)) \<and>
             (n = 31 \<longrightarrow> bit can_id n) \<and> (n = 30 \<longrightarrow> \<not> bit can_id n))"
    by (auto simp: u32_eq_iff to_can_filter_def bit_or_iff bit_and_iff)
  moreover have "((can_id AND CAN_EFF_MASK) AND cflt_mask c = (cflt_id c AND CAN_EFF_MASK) AND cflt_mask c) \<longleftrightarrow>
     (\<forall>n<32. n < 29 \<longrightarrow> bit (cflt_mask c) n \<longrightarrow> (bit can_id n \<longleftrightarrow> bit (cflt_id c) n))"
    by (auto simp: u32_eq_iff bit_and_iff)
  ultimately show ?thesis by (auto dest: spec [of _ 31] spec [of _ 30])
qed

section \<open>Frames survive the bus\<close>

lemma canfd_roundtrip:
  assumes "length (cfd_data cfd) = 64"
  shows "canfd_of_bytes (canfd_bytes cfd) = cfd"
proof -
  have "take 4 (canfd_bytes cfd) = le_bytes 4 (cfd_can_id cfd)" by (simp add: canfd_bytes_def)
  with assms show ?thesis by (cases cfd) (simp add: canfd_of_bytes_def canfd_bytes_def nth_append le_word_bytes)
qed

text \<open>The bytes \<open>socketcanPush\<close> writes for a frame.\<close>

definition canfd_wire :: "u32 \<Rightarrow> byte list \<Rightarrow> byte list" where
  "canfd_wire i bs =
     take (if length bs > CAN_MAX_DLEN then CANFD_MTU else CAN_MTU)
       (canfd_bytes \<lparr>cfd_can_id = i OR CAN_EFF_FLAG, cfd_len = of_nat (length bs), cfd_flags = CANFD_BRS,
                     cfd_data = bs @ replicate (CANFD_MAX_DLEN - length bs) 0\<rparr>)"

lemma canfd_wire_read:
  assumes "length bs \<le> 64"
  shows "write_at (replicate CANFD_MTU 0) 0 (canfd_wire i bs) =
      canfd_bytes \<lparr>cfd_can_id = i OR CAN_EFF_FLAG, cfd_len = of_nat (length bs), cfd_flags = CANFD_BRS,
                   cfd_data = bs @ replicate (CANFD_MAX_DLEN - length bs) 0\<rparr>"
    and "length (canfd_wire i bs) = CAN_MTU \<or> length (canfd_wire i bs) = CANFD_MTU"
proof -
  note defs = canfd_wire_def canfd_bytes_def write_at_def CAN_MAX_DLEN_def CANFD_MTU_def CAN_MTU_def CANFD_MAX_DLEN_def
  show "write_at (replicate CANFD_MTU 0) 0 (canfd_wire i bs) =
      canfd_bytes \<lparr>cfd_can_id = i OR CAN_EFF_FLAG, cfd_len = of_nat (length bs), cfd_flags = CANFD_BRS,
                   cfd_data = bs @ replicate (CANFD_MAX_DLEN - length bs) 0\<rparr>"
    using assms by (auto simp: defs replicate_add [symmetric] simp del: replicate.simps intro!: arg_cong [of _ _ "\<lambda>n. replicate n 0"])
  show "length (canfd_wire i bs) = CAN_MTU \<or> length (canfd_wire i bs) = CANFD_MTU"
    using assms by (simp add: defs)
qed

lemma pop_message_wire:
  assumes "ext_id i" "length bs \<le> 64" "length bs \<le> n" "cmsg_bytes msg = canfd_wire i bs"
  shows "pop_message msg False n True r =
    Some \<lparr>pop_result = r, pop_frame = Some \<lparr>extended_can_id = i, cf_payload = Span bs\<rparr>, pop_timestamp = None,
          pop_loopback = Some (cmsg_flags msg AND MSG_CONFIRM \<noteq> 0)\<rparr>"
proof -
  define x where "x = i OR CAN_EFF_FLAG"
  have x: "bit x 31" "\<not> bit x 30" "\<not> bit x 29" "x AND CAN_EFF_MASK = i"
    using ext_id_flagged [OF assms(1)] by (simp_all add: x_def)
  let ?cfd = "\<lparr>cfd_can_id = x, cfd_len = of_nat (length bs), cfd_flags = CANFD_BRS,
               cfd_data = bs @ replicate (CANFD_MAX_DLEN - length bs) 0\<rparr>"
  have read: "canfd_of_bytes (write_at (replicate CANFD_MTU 0) 0 (cmsg_bytes msg)) = ?cfd"
    unfolding assms(4) canfd_wire_read(1) [OF assms(2)] x_def
    by (rule canfd_roundtrip) (use assms(2) in \<open>simp add: CANFD_MAX_DLEN_def\<close>)
  have len: "unat (of_nat (length bs) :: u8) = length bs" using assms(2) by (simp add: unat_of_nat)
  have size: "length (cmsg_bytes msg) = CAN_MTU \<or> length (cmsg_bytes msg) = CANFD_MTU"
    unfolding assms(4) by (rule canfd_wire_read(2) [OF assms(2)])
  show ?thesis
    unfolding pop_message_def Let_def read using size assms(2,3) len x
    by (auto simp: can_flag_set CANFD_MAX_DLEN_def)
qed


section \<open>The media\<close>

text \<open>\<^verbatim>\<open>can_media.hpp\<close>. Failures of the media are error codes.\<close>

record can_media =
  cm_rx_fd :: int
  cm_tx_fd :: int
  cm_iface_address :: "byte list"
  cm_iface_mtu :: nat

definition can_close_fd :: "'w can_sys \<Rightarrow> int \<Rightarrow> 'w \<Rightarrow> 'w" where
  "can_close_fd sys fd w = snd (can_close sys fd w)"

definition CanMedia_make :: "'w can_sys \<Rightarrow> byte list \<Rightarrow> nat \<Rightarrow> 'w \<Rightarrow> (int + can_media) \<times> 'w" where
  "CanMedia_make sys iface_address iface_mtu w =
     (let (socket_can_rx_fd, w1) = socketcanOpen sys (c_str iface_address) iface_mtu w
      in if socket_can_rx_fd < 0 then (Inl (- socket_can_rx_fd), w1)
         else
           let (socket_can_tx_fd, w2) = socketcanOpen sys (c_str iface_address) iface_mtu w1
           in if socket_can_tx_fd < 0 then (Inl (- socket_can_tx_fd), can_close_fd sys socket_can_rx_fd w2)
              else (Inr \<lparr>cm_rx_fd = socket_can_rx_fd, cm_tx_fd = socket_can_tx_fd,
                         cm_iface_address = iface_address, cm_iface_mtu = iface_mtu\<rparr>, w2))"

definition CanMedia_destroy :: "'w can_sys \<Rightarrow> can_media \<Rightarrow> 'w \<Rightarrow> 'w" where
  "CanMedia_destroy sys m w =
     (let w1 = (if 0 \<le> cm_rx_fd m then can_close_fd sys (cm_rx_fd m) w else w)
      in if 0 \<le> cm_tx_fd m then can_close_fd sys (cm_tx_fd m) w1 else w1)"

text \<open>Move construction: the new object and what is left.\<close>

definition CanMedia_move :: "can_media \<Rightarrow> can_media \<times> can_media" where
  "CanMedia_move other = (other, other\<lparr>cm_rx_fd := -1, cm_tx_fd := -1, cm_iface_address := []\<rparr>)"

definition CanMedia_tryReopen :: "'w can_sys \<Rightarrow> can_media \<Rightarrow> 'w \<Rightarrow> can_media \<times> 'w" where
  "CanMedia_tryReopen sys m w =
     (let w1 = CanMedia_destroy sys m w;
          m1 = m\<lparr>cm_rx_fd := if 0 \<le> cm_rx_fd m then -1 else cm_rx_fd m, cm_tx_fd := if 0 \<le> cm_tx_fd m then -1 else cm_tx_fd m\<rparr>;
          (rx_fd, w2) = socketcanOpen sys (c_str (cm_iface_address m)) (cm_iface_mtu m) w1;
          m2 = (if 0 \<le> rx_fd then m1\<lparr>cm_rx_fd := rx_fd\<rparr> else m1);
          (tx_fd, w3) = socketcanOpen sys (c_str (cm_iface_address m)) (cm_iface_mtu m) w2;
          m3 = (if 0 \<le> tx_fd then m2\<lparr>cm_tx_fd := tx_fd\<rparr> else m2)
      in (m3, w3))"

text \<open>Whether \<open>data()\<close> of an empty vector is null is up to the library: \<open>empty_is_null\<close>.\<close>

definition CanMedia_setFilters :: "'w can_sys \<Rightarrow> bool \<Rightarrow> can_media \<Rightarrow> canard_filter list \<Rightarrow> 'w \<Rightarrow> int option \<times> 'w" where
  "CanMedia_setFilters sys empty_is_null m filters w =
     (let (result, w1) = socketcanFilter sys (cm_rx_fd m) (if filters = [] \<and> empty_is_null then None else Some filters) w
      in (if result < 0 then Some (- result) else None, w1))"

text \<open>\<open>push\<close>: a failure, or whether the frame was accepted; its payload is then released.\<close>

definition CanMedia_push :: "'w can_sys \<Rightarrow> can_media \<Rightarrow> u32 \<Rightarrow> payload \<Rightarrow> 'w \<Rightarrow> ((int + bool) \<times> payload \<times> 'w) option" where
  "CanMedia_push sys m can_id payload w =
     map_option (\<lambda>(result, w1).
       if result < 0 then (Inl (- result), payload, w1)
       else if 0 < result then (Inr True, NullSpan 0, w1) else (Inr False, payload, w1))
     (socketcanPush sys (cm_tx_fd m) (Some \<lparr>extended_can_id = can_id, cf_payload = payload\<rparr>) 0 w)"

text \<open>\<open>pop\<close>: a failure, nothing, or identifier and payload; the time is that of the executor.\<close>

definition CanMedia_pop ::
    "'w can_sys \<Rightarrow> ('w \<Rightarrow> int) \<Rightarrow> can_media \<Rightarrow> nat option \<Rightarrow> 'w \<Rightarrow> ((int + (int \<times> u32 \<times> payload) option) \<times> 'w) option" where
  "CanMedia_pop sys now m payload_buffer w =
     Option.bind (socketcanPop sys (cm_rx_fd m) False payload_buffer 0 True w) (\<lambda>(p, w1).
       if pop_result p < 0 then Some (Inl (- pop_result p), w1)
       else if pop_result p = 0 then Some (Inr None, w1)
       else (case pop_frame p of
               None \<Rightarrow> None
             | Some fr \<Rightarrow> Some (Inr (Some (now w1, extended_can_id fr, cf_payload fr)), w1)))"

definition registerPushCallback :: "can_media \<Rightarrow> trigger" where
  "registerPushCallback m = Writable (cm_tx_fd m)"

definition registerPopCallback :: "can_media \<Rightarrow> trigger" where
  "registerPopCallback m = Readable (cm_rx_fd m)"

section \<open>Roundtrip\<close>

text \<open>
  A bus that is always writable and gives what was written, in order, with some flags and
  ancillary data.
\<close>

definition can_bus_law :: "'w can_sys \<Rightarrow> ('w \<Rightarrow> byte list list) \<Rightarrow> bool" where
  "can_bus_law sys queue \<longleftrightarrow>
     (\<forall>fd ts w. \<exists>w'. can_ppoll sys fd POLLOUT ts w = (SysOk (1, POLLOUT), w') \<and> queue w' = queue w) \<and>
     (\<forall>fd ts w. queue w \<noteq> [] \<longrightarrow> (\<exists>w'. can_ppoll sys fd POLLIN ts w = (SysOk (1, POLLIN), w') \<and> queue w' = queue w)) \<and>
     (\<forall>fd b w. \<exists>w'. can_write sys fd b w = (SysOk (), w') \<and> queue w' = queue w @ [b]) \<and>
     (\<forall>fd w b bs. queue w = b # bs \<longrightarrow>
        (\<exists>msg w'. can_recvmsg sys fd CANFD_MTU w = (SysOk msg, w') \<and> cmsg_bytes msg = b \<and> queue w' = bs))"

fun can_push_all :: "'w can_sys \<Rightarrow> can_media \<Rightarrow> (u32 \<times> byte list) list \<Rightarrow> 'w \<Rightarrow> 'w option" where
  "can_push_all sys m [] w = Some w"
| "can_push_all sys m ((i, bs) # frs) w =
     (case CanMedia_push sys m i (Span bs) w of
        Some (Inr True, _, w1) \<Rightarrow> can_push_all sys m frs w1
      | _ \<Rightarrow> None)"

fun can_pop_all :: "'w can_sys \<Rightarrow> ('w \<Rightarrow> int) \<Rightarrow> can_media \<Rightarrow> nat \<Rightarrow> 'w \<Rightarrow> (u32 \<times> byte list) list option" where
  "can_pop_all sys now m 0 w = Some []"
| "can_pop_all sys now m (Suc n) w =
     (case CanMedia_pop sys now m (Some 64) w of
        Some (Inr (Some (_, i, Span bs)), w1) \<Rightarrow> map_option ((#) (i, bs)) (can_pop_all sys now m n w1)
      | _ \<Rightarrow> None)"

lemma can_bus_lawD:
  assumes "can_bus_law sys queue"
  shows "\<exists>w'. can_ppoll sys fd POLLOUT ts w = (SysOk (1, POLLOUT), w') \<and> queue w' = queue w"
    "queue w \<noteq> [] \<Longrightarrow> \<exists>w'. can_ppoll sys fd POLLIN ts w = (SysOk (1, POLLIN), w') \<and> queue w' = queue w"
    "\<exists>w'. can_write sys fd b w = (SysOk (), w') \<and> queue w' = queue w @ [b]"
    "queue w = b # bs \<Longrightarrow> \<exists>msg w'. can_recvmsg sys fd CANFD_MTU w = (SysOk msg, w') \<and> cmsg_bytes msg = b \<and> queue w' = bs"
  using assms unfolding can_bus_law_def by - (elim conjE, (simp; fail | blast))+

lemma can_push_wire:
  assumes law: "can_bus_law sys queue" and "length bs \<le> 64"
  shows "\<exists>w'. CanMedia_push sys m i (Span bs) w = Some (Inr True, NullSpan 0, w') \<and> queue w' = queue w @ [canfd_wire i bs]"
proof -
  from can_bus_lawD(1) [OF law, of "cm_tx_fd m" "poll_timespec 0" w] obtain w1 where
    w1: "can_ppoll sys (cm_tx_fd m) POLLOUT (poll_timespec 0) w = (SysOk (1, POLLOUT), w1)" "queue w1 = queue w" by blast
  from can_bus_lawD(3) [OF law, of "cm_tx_fd m" "canfd_wire i bs" w1] obtain w2 where
    w2: "can_write sys (cm_tx_fd m) (canfd_wire i bs) w1 = (SysOk (), w2)" "queue w2 = queue w1 @ [canfd_wire i bs]" by blast
  have "doPoll sys (cm_tx_fd m) POLLOUT 0 w = (1, w1)" using w1 by (simp add: doPoll_def POLLOUT_def)
  then have "socketcanPush sys (cm_tx_fd m) (Some \<lparr>extended_can_id = i, cf_payload = Span bs\<rparr>) 0 w = Some (1, w2)"
    using w2(1) assms(2) by (simp add: socketcanPush_def canfd_wire_def CANFD_MAX_DLEN_def)
  with w1 w2 show ?thesis by (simp add: CanMedia_push_def)
qed

lemma can_pop_wire:
  assumes law: "can_bus_law sys queue" and q: "queue w = canfd_wire i bs # q" and fr: "ext_id i" "length bs \<le> 64"
  shows "\<exists>t w'. CanMedia_pop sys now m (Some 64) w = Some (Inr (Some (t, i, Span bs)), w') \<and> queue w' = q"
proof -
  from can_bus_lawD(2) [OF law, of w "cm_rx_fd m" "poll_timespec 0"] q obtain w1 where
    w1: "can_ppoll sys (cm_rx_fd m) POLLIN (poll_timespec 0) w = (SysOk (1, POLLIN), w1)" "queue w1 = queue w" by auto
  from can_bus_lawD(4) [OF law, of w1] w1(2) q obtain msg w2 where
    w2: "can_recvmsg sys (cm_rx_fd m) CANFD_MTU w1 = (SysOk msg, w2)" "cmsg_bytes msg = canfd_wire i bs" "queue w2 = q" by metis
  have "doPoll sys (cm_rx_fd m) POLLIN 0 w = (1, w1)" using w1 by (simp add: doPoll_def POLLIN_def)
  with w2(1) pop_message_wire [OF fr(1,2) fr(2) w2(2)] show ?thesis
    using w2(3) by (simp add: CanMedia_pop_def socketcanPop_def)
qed

text \<open>
  C18. CAN frames survive the bus: the frames pushed through one media (29-bit identifiers, up
  to 64 bytes, classic and FD) are accepted, and a media on a bus that carries the written
  bytes in order pops exactly these identifiers and payloads, in order.
\<close>
theorem can_frames_roundtrip:
  assumes "can_bus_law sys queue" "queue w = []" "\<forall>(i, bs)\<in>set frs. ext_id i \<and> length bs \<le> 64"
  shows "\<exists>w'. can_push_all sys tx frs w = Some w' \<and> can_pop_all sys now rx (length frs) w' = Some frs"
proof -
  have push: "\<exists>w'. can_push_all sys tx frs w = Some w' \<and> queue w' = queue w @ map (\<lambda>(i, bs). canfd_wire i bs) frs"
    if "\<forall>(i, bs)\<in>set frs. ext_id i \<and> length bs \<le> 64" for w frs
    using that
  proof (induction frs arbitrary: w)
    case (Cons fr frs)
    obtain i bs where fr: "fr = (i, bs)" by (cases fr)
    with Cons.prems have "length bs \<le> 64" by simp
    from can_push_wire [OF assms(1) this, of tx i w] obtain w1 where
      "CanMedia_push sys tx i (Span bs) w = Some (Inr True, NullSpan 0, w1)" "queue w1 = queue w @ [canfd_wire i bs]" by blast
    with Cons.IH [of w1] Cons.prems fr show ?case by auto
  qed simp
  have pop: "can_pop_all sys now rx (length frs) w = Some frs"
    if "queue w = map (\<lambda>(i, bs). canfd_wire i bs) frs" "\<forall>(i, bs)\<in>set frs. ext_id i \<and> length bs \<le> 64" for w frs
    using that
  proof (induction frs arbitrary: w)
    case (Cons fr frs)
    obtain i bs where fr: "fr = (i, bs)" by (cases fr)
    with Cons.prems obtain q where "queue w = canfd_wire i bs # q" "ext_id i" "length bs \<le> 64"
      "q = map (\<lambda>(i, bs). canfd_wire i bs) frs" by simp
    with can_pop_wire [OF assms(1) this(1-3), of now rx] obtain t w1 where
      "CanMedia_pop sys now rx (Some 64) w = Some (Inr (Some (t, i, Span bs)), w1)" "queue w1 = map (\<lambda>(i, bs). canfd_wire i bs) frs" by blast
    with Cons.IH [of w1] Cons.prems fr show ?case by simp
  qed simp
  from push [OF assms(3), of w] pop [OF _ assms(3)] assms(2) show ?thesis by auto
qed

text \<open>
  C29. The filters handed to the kernel accept exactly what the Cyphal filters mean: extended
  frames that are no remote requests and whose 29-bit identifier agrees with one of the
  filters under its mask; bits of a filter above the identifier play no role.
\<close>
theorem can_filter_equivalence:
  "can_filter_accepts (map to_can_filter cs) can_id = canard_filter_accepts cs can_id"
  by (auto simp: can_filter_accepts_def canard_filter_accepts_def list_ex_iff to_can_filter_accepts)


text \<open>
  When no socket can be made, \<open>socketcanOpen\<close> closes the descriptor \<open>-1\<close> before it reads
  \<open>errno\<close>: the caller gets \<open>EBADF\<close>, whatever the reason was.
\<close>
theorem can_open_error_masked:
  assumes "length iface_name < IFNAMSIZ" "can_socket sys w = (SysErr errno, w1)" "can_close sys (-1) w1 = (Some EBADF, w2)"
  shows "socketcanOpen sys iface_name can_mtu w = (-9, w2)"
  using assms by (simp add: socketcanOpen_def can_open_failed_def getNegatedErrno_def EBADF_def INT16_MIN_def)

text \<open>
  With a library whose empty vectors have no storage, removing all filters fails with
  \<open>EINVAL\<close> and the kernel keeps the filters it had.
\<close>
theorem can_no_filters_rejected:
  "CanMedia_setFilters sys True m [] w = (Some 22, w)"
  by (simp add: CanMedia_setFilters_def socketcanFilter_def EINVAL_def)

section \<open>Descriptors\<close>

text \<open>What the kernel promises about descriptors: \<open>opened\<close> are those in use.\<close>

definition can_fd_law :: "'w can_sys \<Rightarrow> ('w \<Rightarrow> int set) \<Rightarrow> bool" where
  "can_fd_law sys opened \<longleftrightarrow>
     (\<forall>w fd w'. can_socket sys w = (SysOk fd, w') \<longrightarrow> 0 \<le> fd \<and> fd \<notin> opened w \<and> opened w' = insert fd (opened w)) \<and>
     (\<forall>w e w'. can_socket sys w = (SysErr e, w') \<longrightarrow> opened w' = opened w) \<and>
     (\<forall>fd i w. opened (snd (can_ifindex sys fd i w)) = opened w) \<and>
     (\<forall>fd i w. opened (snd (can_bind sys fd i w)) = opened w) \<and>
     (\<forall>fd opt w. opened (snd (can_setsockopt sys fd opt w)) = opened w) \<and>
     (\<forall>fd w. opened (snd (can_close sys fd w)) = opened w - {fd}) \<and>
     (\<forall>w. -1 \<notin> opened w)"

lemma can_fd_lawD:
  assumes "can_fd_law sys opened"
  shows "can_socket sys w = (SysOk fd, w') \<Longrightarrow> 0 \<le> fd \<and> fd \<notin> opened w \<and> opened w' = insert fd (opened w)"
    "can_socket sys w = (SysErr e, w') \<Longrightarrow> opened w' = opened w"
    "can_ifindex sys fd i w = (r, w') \<Longrightarrow> opened w' = opened w"
    "can_bind sys fd j w = (u, w') \<Longrightarrow> opened w' = opened w"
    "can_setsockopt sys fd opt w = (u, w') \<Longrightarrow> opened w' = opened w"
    "can_close sys fd w = (c, w') \<Longrightarrow> opened w' = opened w - {fd}"
    "-1 \<notin> opened w"
  using assms unfolding can_fd_law_def by (auto dest: arg_cong [of _ _ snd] simp: prod_eq_iff)

lemma can_set_options_keeps:
  assumes "can_fd_law sys opened"
  shows "can_set_options sys fd opts w = (r, w') \<Longrightarrow> opened w' = opened w"
proof (induction opts arbitrary: w)
  case (Cons opt opts)
  obtain u w1 where u: "can_setsockopt sys fd opt w = (u, w1)" by (cases "can_setsockopt sys fd opt w")
  note can_fd_lawD(5) [OF assms u]
  with Cons u show ?case by (cases u) auto
qed simp

lemma getNegatedErrno_neg: "getNegatedErrno e < 0"
  by (simp add: getNegatedErrno_def INT16_MIN_def Let_def)

lemma can_open_failed_law:
  assumes "can_fd_law sys opened" "can_open_failed sys fd e w = (r, w')"
  shows "r < 0 \<and> opened w' = opened w - {fd}"
proof -
  obtain c w1 where c: "can_close sys fd w = (c, w1)" by (cases "can_close sys fd w")
  have "r = getNegatedErrno (case c of None \<Rightarrow> e | Some e' \<Rightarrow> e')" "w' = w1"
    using assms(2) c by (simp_all add: can_open_failed_def split: option.splits)
  with can_fd_lawD(6) [OF assms(1) c] getNegatedErrno_neg show ?thesis by simp
qed

text \<open>A socket is opened or nothing is: the descriptor is new.\<close>

lemma socketcanOpen_law:
  assumes law: "can_fd_law sys opened" and "socketcanOpen sys name mtu w = (r, w')"
  shows "if r < 0 then opened w' = opened w else r \<notin> opened w \<and> opened w' = insert r (opened w)"
proof (cases "length name + 1 > IFNAMSIZ")
  case True
  with assms(2) show ?thesis by (auto simp: socketcanOpen_def ENAMETOOLONG_def)
next
  case False
  show ?thesis
  proof (cases "can_socket sys w")
    case (Pair s w1)
    show ?thesis
    proof (cases s)
      case (SysErr e)
      from False assms(2) Pair SysErr have "can_open_failed sys (-1) e w1 = (r, w')" by (simp add: socketcanOpen_def)
      with can_open_failed_law [OF law this] can_fd_lawD(2,7) [OF law] Pair SysErr show ?thesis by auto
    next
      case (SysOk fd)
      note fd = can_fd_lawD(1) [OF law Pair [unfolded SysOk]]
      have "(\<exists>e w2. opened w2 = opened w1 \<and> can_open_failed sys fd e w2 = (r, w')) \<or> (r = fd \<and> opened w' = opened w1)"
      proof -
        obtain a w2 where a: "can_ifindex sys fd name w1 = (a, w2)" by (cases "can_ifindex sys fd name w1")
        obtain b w3 where b: "can_bind sys fd (case a of SysOk i \<Rightarrow> i | SysErr _ \<Rightarrow> 0) w2 = (b, w3)" by fastforce
        obtain c w4 where c: "can_set_options sys fd
            ((if mtu > CAN_MAX_DLEN then [CAN_RAW_FD_FRAMES] else []) @ [SO_TIMESTAMP, CAN_RAW_RECV_OWN_MSGS]) w3 = (c, w4)" by fastforce
        have same: "opened w2 = opened w1" "opened w3 = opened w2" "opened w4 = opened w3"
          by (rule can_fd_lawD(3) [OF law a] can_fd_lawD(4) [OF law b] can_set_options_keeps [OF law c])+
        show ?thesis
          using False assms(2) Pair SysOk a b c same
          by (cases a; cases b; cases c) (auto simp: socketcanOpen_def)
      qed
      then show ?thesis using fd can_open_failed_law [OF law] by fastforce
    qed
  qed
qed

section \<open>A loopback bus\<close>

text \<open>
  A concrete system: its state is the open descriptors and the frames on the bus, which comes
  back to every socket.
\<close>

definition loop_can :: "(int list \<times> byte list list) can_sys" where
  "loop_can = \<lparr>
     can_socket = (\<lambda>(fds, q). (SysOk (fresh_fd fds), (fresh_fd fds # fds, q))),
     can_ifindex = (\<lambda>fd name w. (SysOk 3, w)),
     can_bind = (\<lambda>fd i w. (SysOk (), w)),
     can_setsockopt = (\<lambda>fd opt w. (SysOk (), w)),
     can_setfilter = (\<lambda>fd fs w. (SysOk (), w)),
     can_ppoll = (\<lambda>fd events ts w. (SysOk (1, events), w)),
     can_write = (\<lambda>fd b (fds, q). (SysOk (), (fds, q @ [b]))),
     can_recvmsg = (\<lambda>fd n (fds, q). case q of
         [] \<Rightarrow> (SysErr EAGAIN, (fds, q))
       | b # bs \<Rightarrow> (SysOk \<lparr>cmsg_bytes = b, cmsg_flags = 0, cmsg_hdr = None\<rparr>, (fds, bs))),
     can_close = (\<lambda>fd (fds, q). (if fd \<in> set fds then None else Some EBADF, (removeAll fd fds, q)))\<rparr>"

lemma loop_can_fd_law: "can_fd_law loop_can open_fds"
  using fresh_fd_new by (auto simp: can_fd_law_def loop_can_def open_fds_def)

lemma loop_can_bus_law: "can_bus_law loop_can snd"
  by (simp add: can_bus_law_def loop_can_def split_beta)

theorem can_frames_roundtrip_witness:
  "\<exists>w'. can_push_all loop_can \<lparr>cm_rx_fd = 1, cm_tx_fd = 2, cm_iface_address = [], cm_iface_mtu = 64\<rparr>
      [(0x107D552A, [1, 2, 3]), (5, replicate 20 7)] ([], []) = Some w' \<and>
    can_pop_all loop_can (\<lambda>_. 0) \<lparr>cm_rx_fd = 3, cm_tx_fd = 4, cm_iface_address = [], cm_iface_mtu = 64\<rparr> 2 w' =
      Some [(0x107D552A, [1, 2, 3]), (5, replicate 20 7)]"
  using can_frames_roundtrip [OF loop_can_bus_law, of "([], [])" "[(0x107D552A, [1, 2, 3]), (5, replicate 20 7)]"
      "\<lparr>cm_rx_fd = 1, cm_tx_fd = 2, cm_iface_address = [], cm_iface_mtu = 64\<rparr>" "\<lambda>_. 0"
      "\<lparr>cm_rx_fd = 3, cm_tx_fd = 4, cm_iface_address = [], cm_iface_mtu = 64\<rparr>"]
  by (simp add: ext_id_def CAN_EFF_MASK_def numeral_2_eq_2 del: can_push_all.simps can_pop_all.simps)

theorem can_open_error_masked_witness:
  "socketcanOpen (loop_can\<lparr>can_socket := \<lambda>w. (SysErr 24, w)\<rparr>) [118, 99] 8 ([], []) = (-9, ([], []))"
  by (rule can_open_error_masked [where errno = 24 and ?w1.0 = "([], [])"]) (simp_all add: loop_can_def IFNAMSIZ_def)

end
