(* ===== verification/Socket_Udp.thy ===== *)
theory Socket_Udp
  imports Executor Socket_Buffer
begin

unbundle bit_operations_syntax

text \<open>
  \<^verbatim>\<open>src/daemon/engine/platform/udp/\<close>: \<open>udp.c\<close> and the sockets of \<open>udp_sockets.hpp\<close>. System calls and
  allocations are parameters; a call that fails leaves its reason in \<open>errno\<close>, which is read
  from the state of the system. Results of the C functions are the values of their \<open>int16_t\<close>.
\<close>

section \<open>System calls\<close>

datatype udp_setup_call =
    UdpBind u32 u16
  | UdpNonBlock
  | UdpMulticastTtl nat
  | UdpMulticastIf u32
  | UdpReuseAddr
  | UdpReusePort
  | UdpAddMembership u32 u32

record 'w udp_sys =
  udp_socket :: "'w \<Rightarrow> int \<times> 'w"
  udp_setup :: "int \<Rightarrow> udp_setup_call \<Rightarrow> 'w \<Rightarrow> bool \<times> 'w"
  udp_set_tos :: "int \<Rightarrow> nat \<Rightarrow> 'w \<Rightarrow> 'w"
  udp_sendto :: "int \<Rightarrow> byte list \<Rightarrow> u32 \<Rightarrow> u16 \<Rightarrow> 'w \<Rightarrow> int \<times> 'w"
  udp_recv :: "int \<Rightarrow> nat \<Rightarrow> 'w \<Rightarrow> byte list option \<times> 'w"
  udp_close :: "int \<Rightarrow> 'w \<Rightarrow> 'w"
  udp_errno :: "'w \<Rightarrow> errno"
  udp_inet_pton :: "byte list \<Rightarrow> u32 option"
  udp_alloc :: "nat \<Rightarrow> 'w \<Rightarrow> bool \<times> 'w"

text \<open>\<open>htonl\<close> and \<open>ntohl\<close> reverse the bytes of a word; so does \<open>htons\<close>.\<close>

definition swap32 :: "u32 \<Rightarrow> u32" where
  "swap32 x = le_word (rev (le_bytes 4 x))"

definition swap16 :: "u16 \<Rightarrow> u16" where
  "swap16 x = le_word (rev (le_bytes 2 x))"

definition int16_neg_errno :: "errno \<Rightarrow> int" where
  "int16_neg_errno errno = sint (ucast (- errno) :: 16 word)"

definition OVERRIDE_TTL :: nat where "OVERRIDE_TTL = 16"
definition DSCP_MAX :: u8 where "DSCP_MAX = 63"

definition isMulticast :: "u32 \<Rightarrow> bool" where
  "isMulticast address \<longleftrightarrow> address AND 0xF0000000 = 0xE0000000"

fun udp_setup_all :: "'w udp_sys \<Rightarrow> int \<Rightarrow> udp_setup_call list \<Rightarrow> 'w \<Rightarrow> bool \<times> 'w" where
  "udp_setup_all sys fd [] w = (True, w)"
| "udp_setup_all sys fd (c # cs) w =
     (let (ok, w1) = udp_setup sys fd c w in if ok then udp_setup_all sys fd cs w1 else (False, w1))"

text \<open>The common shape of the two \<open>Init\<close> functions: the result and \<open>self->fd\<close>.\<close>

definition udp_init :: "'w udp_sys \<Rightarrow> udp_setup_call list \<Rightarrow> 'w \<Rightarrow> int \<times> int \<times> 'w" where
  "udp_init sys cs w =
     (let (fd, w1) = udp_socket sys w;
          (ok, w2) = (if 0 \<le> fd then udp_setup_all sys fd cs w1 else (False, w1))
      in if ok then (0, fd, w2) else (int16_neg_errno (udp_errno sys w2), -1, udp_close sys fd w2))"

definition udpTxInit :: "'w udp_sys \<Rightarrow> int \<Rightarrow> u32 \<Rightarrow> 'w \<Rightarrow> int \<times> int \<times> 'w" where
  "udpTxInit sys self_fd local_iface_address w =
     (if 0 < local_iface_address then
        udp_init sys [UdpBind (swap32 local_iface_address) 0, UdpNonBlock, UdpMulticastTtl OVERRIDE_TTL,
                      UdpMulticastIf (swap32 local_iface_address)] w
      else (- sint EINVAL, self_fd, w))"

text \<open>\<open>payload\<close> is \<open>NullSpan\<close> for a null pointer.\<close>

definition udpTxSend :: "'w udp_sys \<Rightarrow> int \<Rightarrow> u32 \<Rightarrow> u16 \<Rightarrow> u8 \<Rightarrow> payload \<Rightarrow> 'w \<Rightarrow> int \<times> 'w" where
  "udpTxSend sys self_fd remote_address remote_port dscp payload w =
     (case payload of
        NullSpan n \<Rightarrow> (- sint EINVAL, w)
      | Span bs \<Rightarrow>
          if 0 \<le> self_fd \<and> 0 < remote_address \<and> 0 < remote_port \<and> dscp \<le> DSCP_MAX then
            let w1 = udp_set_tos sys self_fd (unat dscp * 4) w;
                (send_result, w2) = udp_sendto sys self_fd bs (swap32 remote_address) (swap16 remote_port) w1
            in if send_result = int (length bs) then (1, w2)
               else if udp_errno sys w2 = EAGAIN then (0, w2)
               else (int16_neg_errno (udp_errno sys w2), w2)
          else (- sint EINVAL, w))"

definition udpTxClose :: "'w udp_sys \<Rightarrow> int \<Rightarrow> 'w \<Rightarrow> int \<times> 'w" where
  "udpTxClose sys self_fd w = (if 0 \<le> self_fd then (-1, udp_close sys self_fd w) else (self_fd, w))"

definition udpRxInit :: "'w udp_sys \<Rightarrow> int \<Rightarrow> u32 \<Rightarrow> u32 \<Rightarrow> u16 \<Rightarrow> 'w \<Rightarrow> int \<times> int \<times> 'w" where
  "udpRxInit sys self_fd local_iface_address multicast_group remote_port w =
     (if 0 < local_iface_address \<and> isMulticast multicast_group \<and> 0 < remote_port then
        udp_init sys [UdpNonBlock, UdpReuseAddr, UdpReusePort, UdpBind (swap32 multicast_group) (swap16 remote_port),
                      UdpAddMembership (swap32 multicast_group) (swap32 local_iface_address)] w
      else (- sint EINVAL, self_fd, w))"

text \<open>The result and what was received; \<open>recv\<close> cuts a datagram to the size of the buffer.\<close>

definition udpRxReceive :: "'w udp_sys \<Rightarrow> int \<Rightarrow> nat \<Rightarrow> 'w \<Rightarrow> int \<times> byte list \<times> 'w" where
  "udpRxReceive sys self_fd inout_payload_size w =
     (if 0 \<le> self_fd then
        (case udp_recv sys self_fd inout_payload_size w of
           (Some bs, w1) \<Rightarrow> (1, bs, w1)
         | (None, w1) \<Rightarrow>
             if udp_errno sys w1 = EAGAIN then (0, [], w1) else (int16_neg_errno (udp_errno sys w1), [], w1))
      else (- sint EINVAL, [], w))"

definition udpRxClose :: "'w udp_sys \<Rightarrow> int \<Rightarrow> 'w \<Rightarrow> int \<times> 'w" where
  "udpRxClose sys self_fd w = (if 0 \<le> self_fd then (-1, udp_close sys self_fd w) else (self_fd, w))"

definition POLLIN :: u16 where "POLLIN = 1"
definition POLLOUT :: u16 where "POLLOUT = 4"

text \<open>
  \<open>tx\<close> and \<open>rx\<close> are arrays of descriptors with their ready flags, or null. The array \<open>fds\<close> is made
  before the counts are checked: with no element it is undefined, as is reading behind the
  end of an array. \<open>poll\<close> gives the events of each entry, or an error.
\<close>

definition udpWait ::
    "((int \<times> u16) list \<Rightarrow> int \<Rightarrow> 'w \<Rightarrow> u16 list option \<times> 'w) \<Rightarrow> 'w udp_sys \<Rightarrow> u64 \<Rightarrow>
     nat \<Rightarrow> (int \<times> bool) list option \<Rightarrow> nat \<Rightarrow> (int \<times> bool) list option \<Rightarrow> 'w \<Rightarrow>
     (int \<times> (int \<times> bool) list option \<times> (int \<times> bool) list option \<times> 'w) option" where
  "udpWait poll sys timeout_usec tx_count tx rx_count rx w =
     (let total_count = tx_count + rx_count
      in if total_count = 0 then None
         else case (tx, rx) of
           (Some t, Some r) \<Rightarrow>
             if int total_count \<le> INT_MAX then
               if length t < tx_count \<or> length r < rx_count then None
               else
                 let fds = map (\<lambda>a. (fst a, POLLOUT)) (take tx_count t) @ map (\<lambda>a. (fst a, POLLIN)) (take rx_count r);
                     timeout_ms = timeout_usec div 1000
                 in case poll fds (if INT_MAX < uint timeout_ms then INT_MAX else uint timeout_ms) w of
                      (Some revents, w1) \<Rightarrow>
                        Some (0,
                          Some (map2 (\<lambda>a ev. (fst a, ev AND POLLOUT \<noteq> 0)) (take tx_count t) (take tx_count revents) @ drop tx_count t),
                          Some (map2 (\<lambda>a ev. (fst a, ev AND POLLIN \<noteq> 0)) (take rx_count r) (drop tx_count revents) @ drop rx_count r), w1)
                    | (None, w1) \<Rightarrow> Some (int16_neg_errno (udp_errno sys w1), tx, rx, w1)
             else Some (- sint EINVAL, tx, rx, w)
         | _ \<Rightarrow> Some (- sint EINVAL, tx, rx, w))"

definition udpParseIfaceAddress :: "'w udp_sys \<Rightarrow> byte list \<Rightarrow> u32" where
  "udpParseIfaceAddress sys address =
     (case udp_inet_pton sys (c_str address) of None \<Rightarrow> 0 | Some s_addr \<Rightarrow> swap32 s_addr)"

text \<open>
  A successful wait sets the flag of each descriptor to what \<open>poll\<close> said of it, the sending
  ones for \<open>POLLOUT\<close> and the receiving ones for \<open>POLLIN\<close>, and waits no longer than asked.
\<close>

lemma udpWait_flags:
  assumes poll: "poll (map (\<lambda>a. (fst a, POLLOUT)) t @ map (\<lambda>a. (fst a, POLLIN)) r) (min INT_MAX (uint (timeout div 1000))) w =
      (Some (evt @ evr), w1)"
    and len: "length evt = length t" "length evr = length r" "t @ r \<noteq> []" "int (length t + length r) \<le> INT_MAX"
  shows "udpWait poll sys timeout (length t) (Some t) (length r) (Some r) w =
    Some (0, Some (zip (map fst t) (map (\<lambda>ev. ev AND POLLOUT \<noteq> 0) evt)), Some (zip (map fst r) (map (\<lambda>ev. ev AND POLLIN \<noteq> 0) evr)), w1)"
proof -
  have "(if INT_MAX < uint (timeout div 1000) then INT_MAX else uint (timeout div 1000)) = min INT_MAX (uint (timeout div 1000))"
    by simp
  moreover have "map2 (\<lambda>a ev. (fst a, P ev)) xs evs = zip (map fst xs) (map P evs)" for P :: "u16 \<Rightarrow> bool" and xs :: "(int \<times> bool) list" and evs
    by (simp add: zip_map_map)
  ultimately show ?thesis using assms by (simp add: udpWait_def Let_def)
qed

section \<open>The sockets\<close>

datatype media_failure = MediaPlatformError int | MediaMemoryError

record udp_tx_socket =
  tx_fd :: int
  tx_mtu :: nat

definition UdpTxSocket_make :: "'w udp_sys \<Rightarrow> byte list \<Rightarrow> nat \<Rightarrow> 'w \<Rightarrow> (media_failure + udp_tx_socket) \<times> 'w" where
  "UdpTxSocket_make sys iface_address iface_mtu w =
     (let (result, fd, w1) = udpTxInit sys (-1) (udpParseIfaceAddress sys iface_address) w
      in if result < 0 then (Inl (MediaPlatformError (- result)), w1)
         else
           let (allocated, w2) = udp_alloc sys 0 w1
           in if \<not> allocated then (Inl MediaMemoryError, snd (udpTxClose sys fd w2))
              else (Inr \<lparr>tx_fd = fd, tx_mtu = iface_mtu\<rparr>, w2))"

definition UdpTxSocket_destroy :: "'w udp_sys \<Rightarrow> udp_tx_socket \<Rightarrow> 'w \<Rightarrow> 'w" where
  "UdpTxSocket_destroy sys s w = snd (udpTxClose sys (tx_fd s) w)"

text \<open>Only the first fragment is sent; without one the access is undefined.\<close>

definition UdpTxSocket_send ::
    "'w udp_sys \<Rightarrow> udp_tx_socket \<Rightarrow> u32 \<Rightarrow> u16 \<Rightarrow> u8 \<Rightarrow> payload list \<Rightarrow> 'w \<Rightarrow> ((int + bool) \<times> 'w) option" where
  "UdpTxSocket_send sys s ip_address udp_port dscp payload_fragments w =
     (case payload_fragments of
        [] \<Rightarrow> None
      | frag # _ \<Rightarrow>
          (let (result, w1) = udpTxSend sys (tx_fd s) ip_address udp_port dscp frag w
           in Some (if result < 0 then (Inl (- result), w1) else (Inr (result = 1), w1))))"

definition UdpTxSocket_registerCallback :: "udp_tx_socket \<Rightarrow> trigger" where
  "UdpTxSocket_registerCallback s = Writable (tx_fd s)"

type_synonym udp_rx_socket = int

definition UdpRxSocket_make :: "'w udp_sys \<Rightarrow> byte list \<Rightarrow> u32 \<Rightarrow> u16 \<Rightarrow> 'w \<Rightarrow> (media_failure + udp_rx_socket) \<times> 'w" where
  "UdpRxSocket_make sys address ip_address udp_port w =
     (let (result, fd, w1) = udpRxInit sys (-1) (udpParseIfaceAddress sys address) ip_address udp_port w
      in if result < 0 then (Inl (MediaPlatformError (- result)), w1)
         else
           let (allocated, w2) = udp_alloc sys 0 w1
           in if \<not> allocated then (Inl MediaMemoryError, snd (udpRxClose sys fd w2))
              else (Inr fd, w2))"

definition UdpRxSocket_destroy :: "'w udp_sys \<Rightarrow> udp_rx_socket \<Rightarrow> 'w \<Rightarrow> 'w" where
  "UdpRxSocket_destroy sys fd w = snd (udpRxClose sys fd w)"

definition UdpRx_BufferSize :: nat where "UdpRx_BufferSize = 2000"

definition UdpRxSocket_receive ::
    "'w udp_sys \<Rightarrow> ('w \<Rightarrow> int) \<Rightarrow> udp_rx_socket \<Rightarrow> 'w \<Rightarrow> (media_failure + (int \<times> byte list) option) \<times> 'w" where
  "UdpRxSocket_receive sys now fd w =
     (let (result, buffer, w1) = udpRxReceive sys fd UdpRx_BufferSize w
      in if result < 0 then (Inl (MediaPlatformError (- result)), w1)
         else if result = 0 then (Inr None, w1)
         else
           let (allocated, w2) = udp_alloc sys (length buffer) w1
           in if \<not> allocated then (Inl MediaMemoryError, w2) else (Inr (Some (now w2, buffer)), w2))"

definition UdpRxSocket_registerCallback :: "udp_rx_socket \<Rightarrow> trigger" where
  "UdpRxSocket_registerCallback fd = Readable fd"

section \<open>Descriptors\<close>

definition udp_fd_law :: "'w udp_sys \<Rightarrow> ('w \<Rightarrow> int set) \<Rightarrow> bool" where
  "udp_fd_law sys opened \<longleftrightarrow>
     (\<forall>w fd w'. udp_socket sys w = (fd, w') \<longrightarrow>
        (if 0 \<le> fd then fd \<notin> opened w \<and> opened w' = insert fd (opened w) else opened w' = opened w)) \<and>
     (\<forall>fd c w. opened (snd (udp_setup sys fd c w)) = opened w) \<and>
     (\<forall>fd w. opened (udp_close sys fd w) = opened w - {fd}) \<and>
     (\<forall>n w. opened (snd (udp_alloc sys n w)) = opened w) \<and>
     (\<forall>w fd. fd \<in> opened w \<longrightarrow> 0 \<le> fd) \<and>
     (\<forall>fd c w w'. udp_setup sys fd c w = (False, w') \<longrightarrow> 0 < sint (udp_errno sys w') \<and> sint (udp_errno sys w') < 32768) \<and>
     (\<forall>w fd w'. udp_socket sys w = (fd, w') \<and> fd < 0 \<longrightarrow> 0 < sint (udp_errno sys w') \<and> sint (udp_errno sys w') < 32768)"

lemma int16_neg_errno_neg:
  assumes "0 < sint e" "sint e < 32768"
  shows "int16_neg_errno e < 0"
proof -
  have "- e = word_of_int (- sint e)" by simp
  moreover have "ucast (word_of_int k :: u32) = (word_of_int k :: 16 word)" for k
    by (simp add: unsigned_of_int word_of_int_eq_iff)
  ultimately have "ucast (- e) = (word_of_int (- sint e) :: 16 word)" by metis
  moreover have "sint (word_of_int k :: 16 word) = signed_take_bit 15 k" for k by (simp add: sint_sbintrunc')
  ultimately have "int16_neg_errno e = signed_take_bit 15 (- sint e)" unfolding int16_neg_errno_def by metis
  also have "\<dots> = - sint e" by (rule signed_take_bit_int_eq_self) (use assms in simp_all)
  finally show ?thesis using assms by simp
qed

lemma udp_fd_lawD:
  assumes "udp_fd_law sys opened"
  shows "udp_socket sys w = (fd, w') \<Longrightarrow> 0 \<le> fd \<Longrightarrow> fd \<notin> opened w \<and> opened w' = insert fd (opened w)"
    "udp_socket sys w = (fd, w') \<Longrightarrow> fd < 0 \<Longrightarrow> opened w' = opened w"
    "udp_setup sys fd c w = (ok, w') \<Longrightarrow> opened w' = opened w"
    "opened (udp_close sys fd w) = opened w - {fd}"
    "udp_alloc sys n w = (ok, w') \<Longrightarrow> opened w' = opened w"
    "fd \<in> opened w \<Longrightarrow> 0 \<le> fd"
    "udp_setup sys fd c w = (False, w') \<Longrightarrow> int16_neg_errno (udp_errno sys w') < 0"
    "udp_socket sys w = (fd, w') \<Longrightarrow> fd < 0 \<Longrightarrow> int16_neg_errno (udp_errno sys w') < 0"
proof -
  note law = assms [unfolded udp_fd_law_def]
  show "udp_socket sys w = (fd, w') \<Longrightarrow> 0 \<le> fd \<Longrightarrow> fd \<notin> opened w \<and> opened w' = insert fd (opened w)"
    "udp_socket sys w = (fd, w') \<Longrightarrow> fd < 0 \<Longrightarrow> opened w' = opened w"
    using law by (metis not_le)+
  show "udp_setup sys fd c w = (ok, w') \<Longrightarrow> opened w' = opened w" "opened (udp_close sys fd w) = opened w - {fd}"
    "udp_alloc sys n w = (ok, w') \<Longrightarrow> opened w' = opened w" "fd \<in> opened w \<Longrightarrow> 0 \<le> fd"
    using law by (metis snd_conv)+
  show "udp_setup sys fd c w = (False, w') \<Longrightarrow> int16_neg_errno (udp_errno sys w') < 0"
    "udp_socket sys w = (fd, w') \<Longrightarrow> fd < 0 \<Longrightarrow> int16_neg_errno (udp_errno sys w') < 0"
    using law by (metis int16_neg_errno_neg)+
qed

lemma udp_setup_all_law:
  assumes law: "udp_fd_law sys opened"
  shows "udp_setup_all sys fd cs w = (ok, w') \<Longrightarrow> opened w' = opened w \<and> (\<not> ok \<longrightarrow> int16_neg_errno (udp_errno sys w') < 0)"
proof (induction cs arbitrary: w)
  case (Cons c cs)
  obtain b w1 where b: "udp_setup sys fd c w = (b, w1)" by (cases "udp_setup sys fd c w")
  from Cons udp_fd_lawD(3,7) [OF law] b show ?case by (cases b) auto
qed simp

text \<open>A socket is set up or nothing is left of it.\<close>

lemma udp_init_law:
  assumes law: "udp_fd_law sys opened" and init: "udp_init sys cs w = (res, fd, w')"
  shows "if res < 0 then opened w' = opened w else 0 \<le> fd \<and> fd \<notin> opened w \<and> opened w' = insert fd (opened w)"
proof -
  obtain f w1 where f: "udp_socket sys w = (f, w1)" by (cases "udp_socket sys w")
  show ?thesis
  proof (cases "0 \<le> f")
    case True
    obtain ok w2 where ok: "udp_setup_all sys f cs w1 = (ok, w2)" by (cases "udp_setup_all sys f cs w1")
    note f_new = udp_fd_lawD(1) [OF law f True] and set_all = udp_setup_all_law [OF law ok]
    show ?thesis
    proof (cases ok)
      case True
      with init f \<open>0 \<le> f\<close> ok have "res = 0 \<and> fd = f \<and> w' = w2" by (simp add: udp_init_def)
      with f_new set_all \<open>0 \<le> f\<close> show ?thesis by simp
    next
      case False
      with init f \<open>0 \<le> f\<close> ok have "res = int16_neg_errno (udp_errno sys w2) \<and> w' = udp_close sys f w2" by (simp add: udp_init_def)
      with f_new set_all False show ?thesis by (simp add: udp_fd_lawD(4) [OF law])
    qed
  next
    case False
    then have "f \<notin> opened w" using udp_fd_lawD(6) [OF law] by auto
    moreover from False init f have "res = int16_neg_errno (udp_errno sys w1) \<and> w' = udp_close sys f w1" by (simp add: udp_init_def)
    ultimately show ?thesis using False udp_fd_lawD(2,8) [OF law f] by (simp add: udp_fd_lawD(4) [OF law])
  qed
qed

text \<open>
  UDP sockets do not leak descriptors: making a socket, for sending or for receiving,
  either fails and leaves the open descriptors as they were, or gives a socket with a new
  descriptor, which its destruction closes; also when the address is invalid, any step of
  the set-up fails or memory runs out.
\<close>
theorem udp_sockets_own_descriptors:
  assumes law: "udp_fd_law sys opened"
  shows "(case UdpTxSocket_make sys address mtu w of
      (Inl _, w') \<Rightarrow> opened w' = opened w
    | (Inr s, w') \<Rightarrow> 0 \<le> tx_fd s \<and> tx_fd s \<notin> opened w \<and> opened w' = insert (tx_fd s) (opened w) \<and>
        opened (UdpTxSocket_destroy sys s w') = opened w) \<and>
   (case UdpRxSocket_make sys address mgroup port w of
      (Inl _, w') \<Rightarrow> opened w' = opened w
    | (Inr fd, w') \<Rightarrow> 0 \<le> fd \<and> fd \<notin> opened w \<and> opened w' = insert fd (opened w) \<and>
        opened (UdpRxSocket_destroy sys fd w') = opened w)"
proof (intro conjI)
  obtain res fd w1 where tx: "udpTxInit sys (-1) (udpParseIfaceAddress sys address) w = (res, fd, w1)"
    by (cases "udpTxInit sys (-1) (udpParseIfaceAddress sys address) w") auto
  obtain ok w2 where ok: "udp_alloc sys 0 w1 = (ok, w2)" by (cases "udp_alloc sys 0 w1")
  have "if res < 0 then opened w1 = opened w else 0 \<le> fd \<and> fd \<notin> opened w \<and> opened w1 = insert fd (opened w)"
    using tx udp_init_law [OF law] by (auto simp: udpTxInit_def EINVAL_def split: if_splits)
  with tx ok udp_fd_lawD(5) [OF law ok] show "case UdpTxSocket_make sys address mtu w of
      (Inl _, w') \<Rightarrow> opened w' = opened w
    | (Inr s, w') \<Rightarrow> 0 \<le> tx_fd s \<and> tx_fd s \<notin> opened w \<and> opened w' = insert (tx_fd s) (opened w) \<and>
        opened (UdpTxSocket_destroy sys s w') = opened w"
    by (auto simp: UdpTxSocket_make_def UdpTxSocket_destroy_def udpTxClose_def udp_fd_lawD(4) [OF law] split: if_splits)
next
  obtain res fd w1 where rx: "udpRxInit sys (-1) (udpParseIfaceAddress sys address) mgroup port w = (res, fd, w1)"
    by (cases "udpRxInit sys (-1) (udpParseIfaceAddress sys address) mgroup port w") auto
  obtain ok w2 where ok: "udp_alloc sys 0 w1 = (ok, w2)" by (cases "udp_alloc sys 0 w1")
  have "if res < 0 then opened w1 = opened w else 0 \<le> fd \<and> fd \<notin> opened w \<and> opened w1 = insert fd (opened w)"
    using rx udp_init_law [OF law] by (auto simp: udpRxInit_def EINVAL_def split: if_splits)
  with rx ok udp_fd_lawD(5) [OF law ok] show "case UdpRxSocket_make sys address mgroup port w of
      (Inl _, w') \<Rightarrow> opened w' = opened w
    | (Inr fd, w') \<Rightarrow> 0 \<le> fd \<and> fd \<notin> opened w \<and> opened w' = insert fd (opened w) \<and>
        opened (UdpRxSocket_destroy sys fd w') = opened w"
    by (auto simp: UdpRxSocket_make_def UdpRxSocket_destroy_def udpRxClose_def udp_fd_lawD(4) [OF law] split: if_splits)
qed

section \<open>Datagrams\<close>

text \<open>A network that carries datagrams in order; receiving cuts them to the buffer.\<close>

definition udp_net_law :: "'w udp_sys \<Rightarrow> ('w \<Rightarrow> byte list list) \<Rightarrow> bool" where
  "udp_net_law sys queue \<longleftrightarrow>
     (\<forall>fd n w. queue (udp_set_tos sys fd n w) = queue w) \<and>
     (\<forall>n w. \<exists>w'. udp_alloc sys n w = (True, w') \<and> queue w' = queue w) \<and>
     (\<forall>fd bs a p w. \<exists>w'. udp_sendto sys fd bs a p w = (int (length bs), w') \<and> queue w' = queue w @ [bs]) \<and>
     (\<forall>fd n w d ds. queue w = d # ds \<longrightarrow> (\<exists>w'. udp_recv sys fd n w = (Some (take n d), w') \<and> queue w' = ds))"

lemma udp_net_lawD:
  assumes "udp_net_law sys queue"
  shows "queue (udp_set_tos sys fd n w) = queue w"
    "\<exists>w'. udp_alloc sys n w = (True, w') \<and> queue w' = queue w"
    "\<exists>w'. udp_sendto sys fd bs a p w = (int (length bs), w') \<and> queue w' = queue w @ [bs]"
    "queue w = d # ds \<Longrightarrow> \<exists>w'. udp_recv sys fd n w = (Some (take n d), w') \<and> queue w' = ds"
  using assms unfolding udp_net_law_def by - (elim conjE, (simp; fail | blast))+

fun udp_send_all :: "'w udp_sys \<Rightarrow> udp_tx_socket \<Rightarrow> u32 \<Rightarrow> u16 \<Rightarrow> u8 \<Rightarrow> byte list list \<Rightarrow> 'w \<Rightarrow> 'w option" where
  "udp_send_all sys s a p dscp [] w = Some w"
| "udp_send_all sys s a p dscp (d # ds) w =
     (case UdpTxSocket_send sys s a p dscp [Span d] w of
        Some (Inr True, w1) \<Rightarrow> udp_send_all sys s a p dscp ds w1
      | _ \<Rightarrow> None)"

fun udp_receive_all :: "'w udp_sys \<Rightarrow> ('w \<Rightarrow> int) \<Rightarrow> udp_rx_socket \<Rightarrow> nat \<Rightarrow> 'w \<Rightarrow> byte list list option" where
  "udp_receive_all sys now fd 0 w = Some []"
| "udp_receive_all sys now fd (Suc n) w =
     (case UdpRxSocket_receive sys now fd w of
        (Inr (Some (_, d)), w1) \<Rightarrow> map_option ((#) d) (udp_receive_all sys now fd n w1)
      | _ \<Rightarrow> None)"


section \<open>A loopback network\<close>

definition loop_udp :: "(int list \<times> byte list list) udp_sys" where
  "loop_udp = \<lparr>
     udp_socket = (\<lambda>(fds, q). (fresh_fd fds, (fresh_fd fds # fds, q))),
     udp_setup = (\<lambda>fd c w. (c \<noteq> UdpReusePort, w)),
     udp_set_tos = (\<lambda>fd n w. w),
     udp_sendto = (\<lambda>fd bs a p (fds, q). (int (length bs), (fds, q @ [bs]))),
     udp_recv = (\<lambda>fd n (fds, q). case q of [] \<Rightarrow> (None, (fds, q)) | d # ds \<Rightarrow> (Some (take n d), (fds, ds))),
     udp_close = (\<lambda>fd (fds, q). (removeAll fd fds, q)),
     udp_errno = (\<lambda>w. EAGAIN),
     udp_inet_pton = (\<lambda>s. if s = [49] then Some 0x0100007F else None),
     udp_alloc = (\<lambda>n w. (True, w))\<rparr>"

lemma loop_udp_fd_law: "udp_fd_law loop_udp open_fds"
  using fresh_fd_new by (auto simp: udp_fd_law_def loop_udp_def open_fds_def EAGAIN_def)

lemma loop_udp_net_law: "udp_net_law loop_udp snd"
  by (simp add: udp_net_law_def loop_udp_def split_beta)

theorem udp_sockets_own_descriptors_witness:
  "(case UdpTxSocket_make loop_udp [49] 1408 ([], []) of
      (Inl _, w') \<Rightarrow> False
    | (Inr s, w') \<Rightarrow> open_fds w' = {tx_fd s} \<and> open_fds (UdpTxSocket_destroy loop_udp s w') = {}) \<and>
   (case UdpRxSocket_make loop_udp [49] 0xEF000001 9382 ([], []) of
      (Inl _, w') \<Rightarrow> open_fds w' = {}
    | (Inr fd, w') \<Rightarrow> False)"
proof -
  have tx: "UdpTxSocket_make loop_udp [49] 1408 ([], []) = (Inr \<lparr>tx_fd = 1, tx_mtu = 1408\<rparr>, ([1], []))" by code_simp
  have rx: "UdpRxSocket_make loop_udp [49] 0xEF000001 9382 ([], []) = (Inl (MediaPlatformError 11), ([], []))" by code_simp
  show ?thesis
    using udp_sockets_own_descriptors [OF loop_udp_fd_law, where address = "[49]" and mtu = 1408 and w = "([], [])"
        and mgroup = "0xEF000001" and port = "9382"]
    unfolding tx rx by (simp add: open_fds_def)
qed


end
