(* ===== verification/Media_Collections.thy ===== *)
theory Media_Collections
  imports Socket_Can Socket_Udp Daemon_Config "HOL-Library.Sublist"
begin

text \<open>
  The media collections of \<^verbatim>\<open>can_media.hpp\<close> and \<^verbatim>\<open>udp_media.hpp\<close>, and the transport bags of
  \<^verbatim>\<open>src/daemon/engine/cyphal/\<close> that choose the interfaces of the configuration. Making the transport
  itself is libcyphal's part, a parameter. A pointer to an element of an array is its index,
  \<open>None\<close> is the null pointer.
\<close>

section \<open>Splitting a list of addresses\<close>

abbreviation comma :: byte where "comma \<equiv> 44"

definition find_from :: "byte \<Rightarrow> byte list \<Rightarrow> nat \<Rightarrow> nat option" where
  "find_from c s pos =
     (let n = length (takeWhile (\<lambda>b. b \<noteq> c) (drop pos s)) in if pos + n < length s then Some (pos + n) else None)"

text \<open>\<open>substr(pos, next - pos)\<close>, to the end of the string when \<open>next\<close> is \<open>npos\<close>.\<close>

definition substr_to :: "byte list \<Rightarrow> nat \<Rightarrow> nat option \<Rightarrow> byte list" where
  "substr_to s pos nxt = (case nxt of None \<Rightarrow> drop pos s | Some n \<Rightarrow> take (n - pos) (drop pos s))"

lemma find_from_Some: "find_from c s pos = Some n \<Longrightarrow> pos \<le> n \<and> n < length s"
  by (auto simp: find_from_def Let_def split: if_splits)

text \<open>An array of pointers: how many are not null, and what they point to.\<close>

definition count_ifaces :: "nat option list \<Rightarrow> nat" where
  "count_ifaces ifaces = length (filter (\<lambda>p. p \<noteq> None) ifaces)"

section \<open>UDP media\<close>

record udp_media =
  um_iface_address :: "byte list"
  um_iface_mtu :: nat

definition UDPARD_MTU_DEFAULT :: nat where "UDPARD_MTU_DEFAULT = 1408"
definition MaxUdpMedia :: nat where "MaxUdpMedia = 3"

definition UdpMedia_new :: "byte list \<Rightarrow> udp_media" where
  "UdpMedia_new iface_address = \<lparr>um_iface_address = iface_address, um_iface_mtu = UDPARD_MTU_DEFAULT\<rparr>"

definition UdpMedia_setAddress :: "byte list \<Rightarrow> udp_media \<Rightarrow> udp_media" where
  "UdpMedia_setAddress a m = m\<lparr>um_iface_address := a\<rparr>"

definition UdpMedia_setMtu :: "nat \<Rightarrow> udp_media \<Rightarrow> udp_media" where
  "UdpMedia_setMtu mtu m = m\<lparr>um_iface_mtu := mtu\<rparr>"

definition UdpMedia_makeTxSocket :: "'w udp_sys \<Rightarrow> udp_media \<Rightarrow> 'w \<Rightarrow> (media_failure + udp_tx_socket) \<times> 'w" where
  "UdpMedia_makeTxSocket sys m w = UdpTxSocket_make sys (um_iface_address m) (um_iface_mtu m) w"

definition UdpMedia_makeRxSocket :: "'w udp_sys \<Rightarrow> udp_media \<Rightarrow> u32 \<Rightarrow> u16 \<Rightarrow> 'w \<Rightarrow> (media_failure + udp_rx_socket) \<times> 'w" where
  "UdpMedia_makeRxSocket sys m ip port w = UdpRxSocket_make sys (um_iface_address m) ip port w"

record udp_collection =
  uc_media_array :: "udp_media list"
  uc_media_ifaces :: "nat option list"

definition UdpMediaCollection_make :: udp_collection where
  "UdpMediaCollection_make =
     \<lparr>uc_media_array = replicate MaxUdpMedia (UdpMedia_new []), uc_media_ifaces = replicate MaxUdpMedia None\<rparr>"

text \<open>The body of the loop for one address.\<close>

definition udp_take_address :: "nat option \<Rightarrow> byte list \<Rightarrow> nat \<Rightarrow> udp_media list \<Rightarrow> nat \<times> udp_media list" where
  "udp_take_address opt_iface_mtu iface_address index media_array =
     (if iface_address \<noteq> [] then
        (index + 1,
         media_array[index :=
           (let m = UdpMedia_setAddress iface_address (media_array ! index)
            in case opt_iface_mtu of None \<Rightarrow> m | Some mtu \<Rightarrow> UdpMedia_setMtu mtu m)])
      else (index, media_array))"

function udp_parse_loop ::
    "byte list \<Rightarrow> nat option \<Rightarrow> nat \<Rightarrow> nat \<Rightarrow> udp_media list \<Rightarrow> nat \<times> udp_media list" where
  "udp_parse_loop iface_addresses opt_iface_mtu pos index media_array =
     (if index < MaxUdpMedia then
        let nxt = find_from comma iface_addresses pos;
            (index', arr) = udp_take_address opt_iface_mtu (substr_to iface_addresses pos nxt) index media_array
        in (case nxt of
              None \<Rightarrow> (index', arr)
            | Some n \<Rightarrow> udp_parse_loop iface_addresses opt_iface_mtu (n + 1) index' arr)
      else (index, media_array))"
  by pat_completeness auto
termination
  by (relation "measure (\<lambda>(s, mtu, pos, i, a). length s - pos)") (auto dest!: find_from_Some [OF sym] simp: diff_less_mono2)

declare udp_parse_loop.simps [simp del]

definition UdpMediaCollection_parse :: "byte list \<Rightarrow> nat option \<Rightarrow> udp_collection \<Rightarrow> udp_collection" where
  "UdpMediaCollection_parse iface_addresses opt_iface_mtu c =
     (let (index, arr) = udp_parse_loop iface_addresses opt_iface_mtu 0 0 (uc_media_array c)
      in \<lparr>uc_media_array = arr, uc_media_ifaces = map Some [0..<index] @ replicate (MaxUdpMedia - index) None\<rparr>)"

definition UdpMediaCollection_span :: "udp_collection \<Rightarrow> udp_media option list" where
  "UdpMediaCollection_span c = map (map_option (\<lambda>i. uc_media_array c ! i)) (uc_media_ifaces c)"

definition UdpMediaCollection_count :: "udp_collection \<Rightarrow> nat" where
  "UdpMediaCollection_count c = count_ifaces (uc_media_ifaces c)"

section \<open>CAN media\<close>

definition MaxCanMedia :: nat where "MaxCanMedia = 3"

record can_collection =
  cc_media_array :: "can_media option list"
  cc_media_ifaces :: "nat option list"

definition CanMediaCollection_make :: can_collection where
  "CanMediaCollection_make =
     \<lparr>cc_media_array = replicate MaxCanMedia None, cc_media_ifaces = replicate MaxCanMedia None\<rparr>"

definition can_media_reset :: "'w can_sys \<Rightarrow> can_media option \<Rightarrow> 'w \<Rightarrow> 'w" where
  "can_media_reset sys m w = (case m of None \<Rightarrow> w | Some m \<Rightarrow> CanMedia_destroy sys m w)"

text \<open>
  The body of the loop for one address; the moved-from result of \<open>CanMedia::make\<close> is destroyed
  at the end of its scope.
\<close>

definition can_take_address ::
    "'w can_sys \<Rightarrow> nat \<Rightarrow> byte list \<Rightarrow> nat \<times> can_collection \<times> 'w \<Rightarrow> nat \<times> can_collection \<times> 'w" where
  "can_take_address sys iface_mtu iface_address = (\<lambda>(index, c, w).
     (if iface_address \<noteq> [] then
        (case CanMedia_make sys iface_address iface_mtu w of
           (Inr maybe_media, w1) \<Rightarrow>
             (let (media, rest) = CanMedia_move maybe_media
              in (index + 1,
                  \<lparr>cc_media_array = (cc_media_array c)[index := Some media],
                   cc_media_ifaces = (cc_media_ifaces c)[index := Some index]\<rparr>,
                  CanMedia_destroy sys rest w1))
         | (Inl _, w1) \<Rightarrow> (index, c, w1))
      else (index, c, w)))"

function can_parse_loop ::
    "'w can_sys \<Rightarrow> byte list \<Rightarrow> nat \<Rightarrow> nat \<Rightarrow> nat \<times> can_collection \<times> 'w \<Rightarrow> nat \<times> can_collection \<times> 'w" where
  "can_parse_loop sys iface_addresses iface_mtu pos st =
     (if fst st < MaxCanMedia then
        let nxt = find_from comma iface_addresses pos;
            st' = can_take_address sys iface_mtu (substr_to iface_addresses pos nxt) st
        in (case nxt of None \<Rightarrow> st' | Some n \<Rightarrow> can_parse_loop sys iface_addresses iface_mtu (n + 1) st')
      else st)"
  by pat_completeness auto
termination
  by (relation "measure (\<lambda>(sys, s, mtu, pos, st). length s - pos)") (auto dest!: find_from_Some [OF sym] simp: diff_less_mono2)

declare can_parse_loop.simps [simp del]

definition CanMediaCollection_parse ::
    "'w can_sys \<Rightarrow> byte list \<Rightarrow> nat \<Rightarrow> can_collection \<Rightarrow> 'w \<Rightarrow> can_collection \<times> 'w" where
  "CanMediaCollection_parse sys iface_addresses iface_mtu c w =
     snd (can_parse_loop sys iface_addresses iface_mtu 0
       (0, CanMediaCollection_make, fold (can_media_reset sys) (cc_media_array c) w))"

definition CanMediaCollection_span :: "can_collection \<Rightarrow> can_media option list" where
  "CanMediaCollection_span c = map (\<lambda>p. Option.bind p (\<lambda>i. cc_media_array c ! i)) (cc_media_ifaces c)"

definition CanMediaCollection_count :: "can_collection \<Rightarrow> nat" where
  "CanMediaCollection_count c = count_ifaces (cc_media_ifaces c)"

text \<open>The elements of an array are destroyed last to first.\<close>

definition CanMediaCollection_destroy :: "'w can_sys \<Rightarrow> can_collection \<Rightarrow> 'w \<Rightarrow> 'w" where
  "CanMediaCollection_destroy sys c w = fold (can_media_reset sys) (rev (cc_media_array c)) w"

section \<open>Transport bags\<close>

text \<open>
  libcyphal's \<open>makeTransport\<close>, on a span of media and a queue capacity, and the
  \<open>setTransientErrorHandler\<close> of the transport it made.
\<close>

record ('m, 'tr, 'w) transport_lib =
  lib_makeTransport :: "'m option list \<Rightarrow> nat \<Rightarrow> 'w \<Rightarrow> (cy_failure + 'tr) \<times> 'w"
  lib_setTransientErrorHandler :: "'tr \<Rightarrow> 'w \<Rightarrow> 'w"

definition prefixed_ifaces :: "byte list \<Rightarrow> byte list list \<Rightarrow> byte list" where
  "prefixed_ifaces pre ifaces =
     concat (map (\<lambda>iface. drop (length pre) iface @ [comma])
       (filter (\<lambda>iface. take (length pre) iface = pre) ifaces))"

definition UdpTxQueueCapacity :: nat where "UdpTxQueueCapacity = 16"
definition CanTxQueueCapacity :: nat where "CanTxQueueCapacity = 2 * (313 + 8) div 7"
definition CANARD_MTU_CAN_CLASSIC :: nat where "CANARD_MTU_CAN_CLASSIC = 8"

definition UdpTransportBag_make ::
    "'t toml_env \<Rightarrow> (udp_media, 'tr, 'w) transport_lib \<Rightarrow> 't config \<Rightarrow> 'w \<Rightarrow> (udp_collection \<times> 'tr) option \<times> 'w" where
  "UdpTransportBag_make te lib c w =
     (let udp_ifaces = prefixed_ifaces (ascii ''udp://'') (getCyphalTransportInterfaces te c);
          media_collection =
            UdpMediaCollection_parse udp_ifaces (map_option unat (getCyphalTransportMtu te c)) UdpMediaCollection_make
      in if UdpMediaCollection_count media_collection = 0 then (None, w)
         else
           (case lib_makeTransport lib (UdpMediaCollection_span media_collection) UdpTxQueueCapacity w of
              (Inl failure, w1) \<Rightarrow> (None, w1)
            | (Inr transport, w1) \<Rightarrow>
                (Some (media_collection, transport), lib_setTransientErrorHandler lib transport w1)))"

definition CanTransportBag_make ::
    "'t toml_env \<Rightarrow> 'w can_sys \<Rightarrow> (can_media, 'tr, 'w) transport_lib \<Rightarrow> 't config \<Rightarrow> 'w \<Rightarrow>
     (can_collection \<times> 'tr) option \<times> 'w" where
  "CanTransportBag_make te sys lib c w =
     (let can_ifaces = prefixed_ifaces (ascii ''socketcan:'') (getCyphalTransportInterfaces te c);
          can_mtu = (case getCyphalTransportMtu te c of None \<Rightarrow> CANARD_MTU_CAN_CLASSIC | Some mtu \<Rightarrow> unat mtu);
          (media_collection, w1) = CanMediaCollection_parse sys can_ifaces can_mtu CanMediaCollection_make w
      in if CanMediaCollection_count media_collection = 0 then (None, CanMediaCollection_destroy sys media_collection w1)
         else
           (case lib_makeTransport lib (CanMediaCollection_span media_collection) CanTxQueueCapacity w1 of
              (Inl failure, w2) \<Rightarrow> (None, CanMediaCollection_destroy sys media_collection w2)
            | (Inr transport, w2) \<Rightarrow>
                (Some (media_collection, transport), lib_setTransientErrorHandler lib transport w2)))"

section \<open>The loops take the parts between the commas\<close>

fun split_commas :: "byte list \<Rightarrow> byte list list" where
  "split_commas [] = [[]]"
| "split_commas (b # bs) =
     (if b = comma then [] # split_commas bs
      else (case split_commas bs of [] \<Rightarrow> [[b]] | p # ps \<Rightarrow> (b # p) # ps))"

abbreviation address_parts :: "byte list \<Rightarrow> byte list list" where
  "address_parts s \<equiv> filter (\<lambda>p. p \<noteq> []) (split_commas s)"

lemma split_commas_takeWhile:
  "split_commas s = takeWhile (\<lambda>b. b \<noteq> comma) s # (case dropWhile (\<lambda>b. b \<noteq> comma) s of [] \<Rightarrow> [] | _ # r \<Rightarrow> split_commas r)"
  by (induction s) auto

lemma split_commas_at:
  "split_commas (drop pos s) =
     substr_to s pos (find_from comma s pos) #
     (case find_from comma s pos of None \<Rightarrow> [] | Some n \<Rightarrow> split_commas (drop (n + 1) s))"
proof -
  let ?t = "takeWhile (\<lambda>b. b \<noteq> comma) (drop pos s)"
  have d: "dropWhile (\<lambda>b. b \<noteq> comma) (drop pos s) = drop (pos + length ?t) s"
    by (simp add: dropWhile_eq_drop add.commute)
  show ?thesis
  proof (cases "pos + length ?t < length s")
    case True
    then have "drop (pos + length ?t) s = s ! (pos + length ?t) # drop (pos + length ?t + 1) s"
      by (simp add: Cons_nth_drop_Suc)
    with True d show ?thesis
      by (subst split_commas_takeWhile) (simp add: find_from_def substr_to_def takeWhile_eq_take [symmetric])
  next
    case False
    then have "dropWhile (\<lambda>b. b \<noteq> comma) (drop pos s) = []" using d by simp
    moreover from this have "?t = drop pos s" by (metis append_Nil2 takeWhile_dropWhile_id)
    ultimately show ?thesis using False
      by (subst split_commas_takeWhile) (simp add: find_from_def substr_to_def del: dropWhile_eq_Nil_conv)
  qed
qed

lemma split_commas_nonempty [simp]: "split_commas s \<noteq> []"
  by (subst split_commas_takeWhile) simp

lemma split_commas_append: "split_commas (a @ comma # s) = split_commas a @ split_commas s"
  by (induction a) (auto split: list.splits)

lemma address_parts_append: "address_parts (a @ comma # s) = address_parts a @ address_parts s"
  by (simp add: split_commas_append)

lemma prefixed_ifaces_parts:
  "address_parts (prefixed_ifaces pre ifaces) =
     concat (map (\<lambda>i. address_parts (drop (length pre) i)) (filter (\<lambda>i. take (length pre) i = pre) ifaces))"
proof (induction ifaces)
  case (Cons i ifaces)
  then show ?case by (simp add: prefixed_ifaces_def split_commas_append)
qed (simp add: prefixed_ifaces_def)

lemma address_parts_at:
  "address_parts (drop pos s) =
     (let p = substr_to s pos (find_from comma s pos) in if p = [] then [] else [p]) @
     (case find_from comma s pos of None \<Rightarrow> [] | Some n \<Rightarrow> address_parts (drop (n + 1) s))"
  by (subst split_commas_at) (simp add: Let_def split: option.splits)

text \<open>The media of an address.\<close>

definition udp_media_at :: "nat option \<Rightarrow> byte list \<Rightarrow> udp_media" where
  "udp_media_at opt_iface_mtu a =
     \<lparr>um_iface_address = a, um_iface_mtu = (case opt_iface_mtu of None \<Rightarrow> UDPARD_MTU_DEFAULT | Some mtu \<Rightarrow> mtu)\<rparr>"

lemma udp_take_address_law:
  assumes "index < 3" "length arr = 3" "\<forall>m\<in>set (drop index arr). um_iface_mtu m = UDPARD_MTU_DEFAULT" "a \<noteq> []"
  shows "\<exists>arr'. udp_take_address opt a index arr = (Suc index, arr') \<and> length arr' = 3 \<and>
     take (Suc index) arr' = take index arr @ [udp_media_at opt a] \<and>
     (\<forall>m\<in>set (drop (Suc index) arr'). um_iface_mtu m = UDPARD_MTU_DEFAULT)"
proof -
  have "arr ! index \<in> set (drop index arr)" using assms(1,2) by (metis Cons_nth_drop_Suc list.set_intros(1))
  with assms(3) have "um_iface_mtu (arr ! index) = UDPARD_MTU_DEFAULT" by blast
  then have m: "(let m = UdpMedia_setAddress a (arr ! index)
         in case opt of None \<Rightarrow> m | Some mtu \<Rightarrow> UdpMedia_setMtu mtu m) = udp_media_at opt a"
    by (simp add: UdpMedia_setAddress_def UdpMedia_setMtu_def udp_media_at_def Let_def split: option.splits)
  have "set (drop (Suc index) arr) \<subseteq> set (drop index arr)" by (simp add: set_drop_subset_set_drop)
  with assms show ?thesis unfolding udp_take_address_def m by (auto simp: take_Suc_conv_app_nth)
qed

lemma udp_parse_loop_takes:
  assumes "index \<le> 3" "length arr = 3" "\<forall>m\<in>set (drop index arr). um_iface_mtu m = UDPARD_MTU_DEFAULT"
  shows "\<exists>arr'. udp_parse_loop s opt pos index arr = (index + length (take (3 - index) (address_parts (drop pos s))), arr') \<and>
     length arr' = 3 \<and>
     take (index + length (take (3 - index) (address_parts (drop pos s)))) arr' =
       take index arr @ map (udp_media_at opt) (take (3 - index) (address_parts (drop pos s)))"
  using assms
proof (induction s opt pos index arr rule: udp_parse_loop.induct)
  case (1 s opt pos index arr)
  show ?case
  proof (cases "index < 3")
    case True
    let ?p = "substr_to s pos (find_from comma s pos)"
    obtain i arr1 where step: "udp_take_address opt ?p index arr = (i, arr1)" by (cases "udp_take_address opt ?p index arr")
    have law: "length arr1 = 3 \<and> (\<forall>m\<in>set (drop i arr1). um_iface_mtu m = UDPARD_MTU_DEFAULT) \<and>
        i = index + (if ?p = [] then 0 else 1) \<and>
        take i arr1 = take index arr @ (if ?p = [] then [] else [udp_media_at opt ?p])"
    proof (cases "?p = []")
      case True
      with step "1.prems" show ?thesis by (auto simp: udp_take_address_def)
    next
      case False
      with step udp_take_address_law [OF True "1.prems"(2,3) False, of opt] show ?thesis by auto
    qed
    show ?thesis
    proof (cases "find_from comma s pos")
      case None
      with law have tk: "take (3 - index) (address_parts (drop pos s)) = (if ?p = [] then [] else [?p])"
        using True by (subst address_parts_at) (simp add: Let_def)
      define p where "p = ?p"
      have loop: "udp_parse_loop s opt pos index arr = (i, arr1)"
        using True step None by (subst udp_parse_loop.simps) (simp add: MaxUdpMedia_def)
      from law show ?thesis unfolding tk loop p_def [symmetric] by (cases "p = []") auto
    next
      case (Some n)
      from law True have i: "i \<le> 3" by simp
      from "1.IH" [unfolded MaxUdpMedia_def, OF True refl step [symmetric] refl Some i] law obtain arr' where
        IH: "udp_parse_loop s opt (n + 1) i arr1 = (i + length (take (3 - i) (address_parts (drop (n + 1) s))), arr')"
        "length arr' = 3"
        "take (i + length (take (3 - i) (address_parts (drop (n + 1) s)))) arr' =
           take i arr1 @ map (udp_media_at opt) (take (3 - i) (address_parts (drop (n + 1) s)))" by blast
      have parts: "address_parts (drop pos s) = (if ?p = [] then [] else [?p]) @ address_parts (drop (n + 1) s)"
        by (subst address_parts_at) (simp add: Some Let_def)
      have "3 - index = (if ?p = [] then 0 else 1) + (3 - i)" using law True by simp
      then have tk: "take (3 - index) (address_parts (drop pos s)) =
          (if ?p = [] then [] else [?p]) @ take (3 - i) (address_parts (drop (n + 1) s))" unfolding parts by simp
      define p where "p = ?p"
      have loop: "udp_parse_loop s opt pos index arr = udp_parse_loop s opt (n + 1) i arr1"
        using True step Some by (subst udp_parse_loop.simps) (simp add: MaxUdpMedia_def)
      from IH law show ?thesis unfolding tk loop IH(1) p_def [symmetric] by (cases "p = []") auto
    qed
  next
    case False
    with "1.prems" show ?thesis by (subst udp_parse_loop.simps) (simp add: MaxUdpMedia_def)
  qed
qed

lemma map_option_Some_list: "map (map_option f) (map Some xs) = map Some (map f xs)"
  by simp

text \<open>
  C28. UDP interfaces: the transport is made from the first three non-empty addresses among the
  comma separated parts of the \<open>udp://\<close> interfaces of the configuration, in their order, each
  with the configured MTU or the default one; without such an address there is none.
\<close>
theorem udp_bag_takes_addresses:
  "\<exists>coll. UdpTransportBag_make te lib c w =
     (let addresses = take 3 (concat (map (\<lambda>i. address_parts (drop 6 i))
            (filter (\<lambda>i. take 6 i = ascii ''udp://'') (getCyphalTransportInterfaces te c))));
          media = map (udp_media_at (map_option unat (getCyphalTransportMtu te c))) addresses
      in if addresses = [] then (None, w)
         else
           (case lib_makeTransport lib (map Some media @ replicate (3 - length media) None) 16 w of
              (Inl _, w1) \<Rightarrow> (None, w1)
            | (Inr transport, w1) \<Rightarrow> (Some (coll, transport), lib_setTransientErrorHandler lib transport w1)))"
proof -
  let ?s = "prefixed_ifaces (ascii ''udp://'') (getCyphalTransportInterfaces te c)"
  let ?o = "map_option unat (getCyphalTransportMtu te c)"
  have prefix_length: "length (ascii ''udp://'') = 6" by (simp add: ascii_def)
  define addresses where "addresses = take 3 (address_parts ?s)"
  have addresses: "addresses = take 3 (concat (map (\<lambda>i. address_parts (drop 6 i))
            (filter (\<lambda>i. take 6 i = ascii ''udp://'') (getCyphalTransportInterfaces te c))))"
    unfolding addresses_def prefixed_ifaces_parts prefix_length ..
  have "\<exists>arr. udp_parse_loop ?s ?o 0 0 (uc_media_array UdpMediaCollection_make) = (length addresses, arr) \<and> length arr = 3 \<and>
      take (length addresses) arr = map (udp_media_at ?o) addresses"
    using udp_parse_loop_takes [of 0 "uc_media_array UdpMediaCollection_make" ?s ?o 0]
    by (simp add: UdpMediaCollection_make_def MaxUdpMedia_def UdpMedia_new_def addresses_def)
  then obtain arr where arr: "udp_parse_loop ?s ?o 0 0 (uc_media_array UdpMediaCollection_make) = (length addresses, arr)"
    "length arr = 3" "take (length addresses) arr = map (udp_media_at ?o) addresses" by blast
  define coll where "coll = UdpMediaCollection_parse ?s ?o UdpMediaCollection_make"
  have n: "length addresses \<le> 3" by (simp add: addresses_def)
  have ifaces: "uc_media_array coll = arr" "uc_media_ifaces coll = map Some [0..<length addresses] @ replicate (3 - length addresses) None"
    unfolding coll_def UdpMediaCollection_parse_def arr(1) by (simp_all add: MaxUdpMedia_def)
  have count: "UdpMediaCollection_count coll = length addresses"
    by (simp add: UdpMediaCollection_count_def count_ifaces_def ifaces comp_def)
  have "map ((!) arr) [0..<length addresses] = map (udp_media_at ?o) addresses"
    using arr(2) n unfolding arr(3) [symmetric] by (intro nth_equalityI) simp_all
  then have span: "UdpMediaCollection_span coll = map Some (map (udp_media_at ?o) addresses) @ replicate (3 - length addresses) None"
    unfolding UdpMediaCollection_span_def ifaces 
    using map_option_Some_list [of "(!) arr" "[0..<length addresses]"] by simp
  show ?thesis
    unfolding addresses [symmetric] UdpTransportBag_make_def Let_def coll_def [symmetric] count span UdpTxQueueCapacity_def
    by (rule exI [of _ coll]) simp
qed

section \<open>CAN media and their descriptors\<close>

text \<open>What the loop does, over the list of addresses: open media until \<open>n\<close> of them are open.\<close>

fun can_open_each :: "'w can_sys \<Rightarrow> nat \<Rightarrow> nat \<Rightarrow> byte list list \<Rightarrow> 'w \<Rightarrow> can_media list \<times> 'w" where
  "can_open_each sys mtu (Suc n) (a # as) w =
     (case CanMedia_make sys a mtu w of
        (Inr m, w1) \<Rightarrow> map_prod ((#) m) id (can_open_each sys mtu n as w1)
      | (Inl _, w1) \<Rightarrow> can_open_each sys mtu (Suc n) as w1)"
| "can_open_each sys mtu n as w = ([], w)"

text \<open>The collection with the given media.\<close>

definition can_coll :: "can_media list \<Rightarrow> can_collection" where
  "can_coll ms = \<lparr>cc_media_array = map Some ms @ replicate (3 - length ms) None,
                  cc_media_ifaces = map Some [0..<length ms] @ replicate (3 - length ms) None\<rparr>"

lemma can_coll_add:
  assumes "length ms < 3"
  shows "\<lparr>cc_media_array = (cc_media_array (can_coll ms))[length ms := Some m],
          cc_media_ifaces = (cc_media_ifaces (can_coll ms))[length ms := Some (length ms)]\<rparr> = can_coll (ms @ [m])"
proof -
  from assms obtain k where "3 - length ms = Suc k" by (cases "3 - length ms") simp_all
  then show ?thesis by (simp add: can_coll_def list_update_append)
qed

lemma can_coll_facts:
  assumes "length ms \<le> 3"
  shows "CanMediaCollection_count (can_coll ms) = length ms"
    "CanMediaCollection_span (can_coll ms) = map Some ms @ replicate (3 - length ms) None"
    "can_coll [] = CanMediaCollection_make"
    "CanMediaCollection_destroy sys (can_coll ms) w = fold (CanMedia_destroy sys) (rev ms) w"
proof -
  show "CanMediaCollection_count (can_coll ms) = length ms"
    by (simp add: CanMediaCollection_count_def can_coll_def count_ifaces_def comp_def)
  show "CanMediaCollection_span (can_coll ms) = map Some ms @ replicate (3 - length ms) None"
    unfolding CanMediaCollection_span_def can_coll_def
    by (rule nth_equalityI) (use assms in \<open>auto simp: nth_append\<close>)
  show "can_coll [] = CanMediaCollection_make"
    by (simp add: can_coll_def CanMediaCollection_make_def MaxCanMedia_def)
  have "fold (can_media_reset sys) (replicate k None) w = w" for k w by (induction k) (simp_all add: can_media_reset_def)
  moreover have "fold (can_media_reset sys) (map Some xs) w = fold (CanMedia_destroy sys) xs w" for xs w
    by (induction xs arbitrary: w) (simp_all add: can_media_reset_def)
  ultimately show "CanMediaCollection_destroy sys (can_coll ms) w = fold (CanMedia_destroy sys) (rev ms) w"
    by (simp add: CanMediaCollection_destroy_def can_coll_def rev_map)
qed

lemma can_take_address_cases:
  assumes "length ms < 3"
  shows "can_take_address sys mtu a (length ms, can_coll ms, w) =
     (if a = [] then (length ms, can_coll ms, w)
      else (case CanMedia_make sys a mtu w of
              (Inr m, w1) \<Rightarrow> (length (ms @ [m]), can_coll (ms @ [m]), w1)
            | (Inl _, w1) \<Rightarrow> (length ms, can_coll ms, w1)))"
  using assms
  by (auto simp: can_take_address_def can_coll_add CanMedia_move_def CanMedia_destroy_def split: prod.splits sum.splits)

lemma can_open_each_step:
  "can_open_each sys mtu (Suc n) ((if a = [] then [] else [a]) @ as) w =
     (if a = [] then can_open_each sys mtu (Suc n) as w
      else (case CanMedia_make sys a mtu w of
              (Inr m, w1) \<Rightarrow> map_prod ((#) m) id (can_open_each sys mtu n as w1)
            | (Inl _, w1) \<Rightarrow> can_open_each sys mtu (Suc n) as w1))"
  by simp

lemma can_parse_loop_opens:
  assumes "length ms \<le> 3"
  shows "can_parse_loop sys s mtu pos (length ms, can_coll ms, w) =
     (let (ms', w') = can_open_each sys mtu (3 - length ms) (address_parts (drop pos s)) w
      in (length (ms @ ms'), can_coll (ms @ ms'), w'))"
  using assms
proof (induction "length s - pos" arbitrary: pos ms w rule: less_induct)
  case less
  show ?case
  proof (cases "length ms < 3")
    case True
    let ?p = "substr_to s pos (find_from comma s pos)"
    let ?st = "can_take_address sys mtu ?p (length ms, can_coll ms, w)"
    let ?as = "case find_from comma s pos of None \<Rightarrow> [] | Some n \<Rightarrow> address_parts (drop (n + 1) s)"
    from True obtain k where k: "3 - length ms = Suc k" by (cases "3 - length ms") simp_all
    define rest where "rest st = (case find_from comma s pos of None \<Rightarrow> st | Some n \<Rightarrow> can_parse_loop sys s mtu (n + 1) st)" for st
    have rest: "rest (length ms1, can_coll ms1, w1) =
       (let (ms', w') = can_open_each sys mtu (3 - length ms1) ?as w1 in (length (ms1 @ ms'), can_coll (ms1 @ ms'), w'))"
      if "length ms1 \<le> 3" for ms1 w1
    proof (cases "find_from comma s pos")
      case None
      then show ?thesis by (simp add: rest_def)
    next
      case (Some n)
      then have "length s - (n + 1) < length s - pos" using find_from_Some [OF Some] by (auto simp: diff_less_mono2)
      from less.hyps [OF this that, of w1] Some show ?thesis by (simp add: rest_def)
    qed
    have "can_parse_loop sys s mtu pos (length ms, can_coll ms, w) = rest ?st"
      using True by (subst can_parse_loop.simps) (simp add: MaxCanMedia_def rest_def Let_def)
    also have "\<dots> = (let (ms', w') = can_open_each sys mtu (Suc k) ((if ?p = [] then [] else [?p]) @ ?as) w
      in (length (ms @ ms'), can_coll (ms @ ms'), w'))"
    proof (cases "CanMedia_make sys ?p mtu w")
      case (Pair r w1)
      have k1: "3 - length (ms @ [m]) = k" and le3: "length (ms @ [m]) \<le> 3" for m using k by simp_all
      show ?thesis
      proof (cases "?p = []")
        case False
        with Pair show ?thesis
          unfolding can_take_address_cases [OF True] can_open_each_step
          by (cases r) (use True k rest [OF le3] in \<open>simp_all add: rest k1 case_prod_beta del: length_append\<close>)
      qed (use True k in \<open>simp add: can_take_address_cases rest\<close>)
    qed
    finally show ?thesis unfolding k by (subst address_parts_at) (simp add: Let_def)
  next
    case False
    with less.prems show ?thesis by (subst can_parse_loop.simps) (simp add: MaxCanMedia_def)
  qed
qed

text \<open>The descriptors of media.\<close>

definition can_media_fds :: "can_media \<Rightarrow> int list" where
  "can_media_fds m = [cm_rx_fd m, cm_tx_fd m]"

lemma CanMedia_make_law:
  assumes law: "can_fd_law sys opened" and make: "CanMedia_make sys a mtu w = (r, w')"
  shows "case r of
      Inl _ \<Rightarrow> opened w' = opened w
    | Inr m \<Rightarrow> distinct (can_media_fds m) \<and> (\<forall>fd\<in>set (can_media_fds m). 0 \<le> fd \<and> fd \<notin> opened w) \<and>
        opened w' = opened w \<union> set (can_media_fds m) \<and> cm_iface_address m = a \<and> cm_iface_mtu m = mtu"
proof -
  obtain rx w1 where rx: "socketcanOpen sys (c_str a) mtu w = (rx, w1)" by fastforce
  obtain tx w2 where tx: "socketcanOpen sys (c_str a) mtu w1 = (tx, w2)" by fastforce
  note law1 = socketcanOpen_law [OF law rx] and law2 = socketcanOpen_law [OF law tx]
  have closed: "opened (can_close_fd sys rx w2) = opened w2 - {rx}"
    unfolding can_close_fd_def by (rule can_fd_lawD(6) [OF law prod.collapse [symmetric]])
  show ?thesis
  proof (cases "rx < 0 \<or> tx < 0")
    case True
    with make rx tx law1 law2 closed show ?thesis by (auto simp: CanMedia_make_def split: if_splits)
  next
    case False
    with make rx tx law1 law2 show ?thesis by (auto simp: CanMedia_make_def can_media_fds_def)
  qed
qed

lemma can_open_each_law:
  assumes "can_fd_law sys opened" and "can_open_each sys mtu n as w = (ms, w')"
  shows "length ms \<le> n \<and> distinct (concat (map can_media_fds ms)) \<and>
     (\<forall>fd\<in>set (concat (map can_media_fds ms)). 0 \<le> fd \<and> fd \<notin> opened w) \<and>
     opened w' = opened w \<union> set (concat (map can_media_fds ms)) \<and>
     subseq (map cm_iface_address ms) as"
  using assms
proof (induction sys mtu n as w arbitrary: ms w' rule: can_open_each.induct)
  case (1 sys mtu n a as w)
  obtain r w1 where r: "CanMedia_make sys a mtu w = (r, w1)" by fastforce
  note made = CanMedia_make_law [OF "1.prems"(1) r]
  show ?case
  proof (cases r)
    case (Inl e)
    with "1.IH"(1) [OF r [symmetric, unfolded Inl] refl] "1.prems" r made show ?thesis by auto
  next
    case (Inr m)
    obtain ms1 w2 where rest: "can_open_each sys mtu n as w1 = (ms1, w2)" by fastforce
    with "1.prems"(2) r Inr have "ms = m # ms1" "w' = w2" by simp_all
    then have eq: "ms = m # ms1" "w' = w2" .
    from "1.IH"(2) [OF r [symmetric, unfolded Inr] refl "1.prems"(1) rest] have
      "length ms1 \<le> n" "distinct (concat (map can_media_fds ms1))" "subseq (map cm_iface_address ms1) as" and
      new: "\<forall>fd\<in>set (concat (map can_media_fds ms1)). 0 \<le> fd \<and> fd \<notin> opened w1" and
      ow2: "opened w2 = opened w1 \<union> set (concat (map can_media_fds ms1))" by blast+
    moreover from made Inr have "distinct (can_media_fds m)" "\<forall>fd\<in>set (can_media_fds m). 0 \<le> fd \<and> fd \<notin> opened w"
      "cm_iface_address m = a" and ow1: "opened w1 = opened w \<union> set (can_media_fds m)" by simp_all
    ultimately show ?thesis using new unfolding eq ow2 ow1 by auto
  qed
qed simp_all

lemma CanMedia_destroy_law:
  assumes law: "can_fd_law sys opened" and "\<forall>fd\<in>set (can_media_fds m). 0 \<le> fd"
  shows "opened (CanMedia_destroy sys m w) = opened w - set (can_media_fds m)"
proof -
  have "opened (can_close_fd sys fd w) = opened w - {fd}" for fd w
    unfolding can_close_fd_def by (rule can_fd_lawD(6) [OF law prod.collapse [symmetric]])
  with assms(2) show ?thesis by (auto simp: CanMedia_destroy_def can_media_fds_def)
qed

lemma can_destroy_all_law:
  assumes law: "can_fd_law sys opened" and "\<forall>fd\<in>set (concat (map can_media_fds ms)). 0 \<le> fd"
  shows "opened (fold (CanMedia_destroy sys) ms w) = opened w - set (concat (map can_media_fds ms))"
  using assms(2)
proof (induction ms arbitrary: w)
  case (Cons m ms)
  then have "\<forall>fd\<in>set (can_media_fds m). 0 \<le> fd" by simp
  from CanMedia_destroy_law [OF law this] Cons show ?case by auto
qed simp

text \<open>What is assumed of libcyphal: making a transport leaves the descriptors alone.\<close>

definition lib_fd_law :: "(can_media, 'tr, 'w) transport_lib \<Rightarrow> ('w \<Rightarrow> int set) \<Rightarrow> bool" where
  "lib_fd_law lib opened \<longleftrightarrow>
     (\<forall>ms n w. opened (snd (lib_makeTransport lib ms n w)) = opened w) \<and>
     (\<forall>tr w. opened (lib_setTransientErrorHandler lib tr w) = opened w)"

text \<open>
  C17. The CAN transport does not leak descriptors. Without a usable interface, or when libcyphal
  refuses the media, the open descriptors are what they were before. Otherwise one to three
  interfaces of the configuration are open, in its order; each has two descriptors of its own,
  all distinct and new, so that the executor never gets two callbacks for one of them, and
  destroying the collection closes exactly these.
\<close>
theorem can_bag_owns_descriptors:
  assumes law: "can_fd_law sys opened" and lib: "lib_fd_law lib opened"
  shows "case CanTransportBag_make te sys lib c w of
      (None, w') \<Rightarrow> opened w' = opened w
    | (Some (coll, tr), w') \<Rightarrow>
        (\<exists>ms. CanMediaCollection_span coll = map Some ms @ replicate (3 - length ms) None \<and>
           ms \<noteq> [] \<and> length ms \<le> 3 \<and>
           subseq (map cm_iface_address ms) (concat (map (\<lambda>i. address_parts (drop 10 i))
             (filter (\<lambda>i. take 10 i = ascii ''socketcan:'') (getCyphalTransportInterfaces te c)))) \<and>
           distinct (concat (map can_media_fds ms)) \<and>
           opened w \<inter> set (concat (map can_media_fds ms)) = {} \<and>
           opened w' = opened w \<union> set (concat (map can_media_fds ms)) \<and>
           opened (CanMediaCollection_destroy sys coll w') = opened w)"
proof -
  let ?s = "prefixed_ifaces (ascii ''socketcan:'') (getCyphalTransportInterfaces te c)"
  let ?mtu = "case getCyphalTransportMtu te c of None \<Rightarrow> CANARD_MTU_CAN_CLASSIC | Some mtu \<Rightarrow> unat mtu"
  have pre_length: "length (ascii ''socketcan:'') = 10" by (simp add: ascii_def)
  have parts: "address_parts ?s = concat (map (\<lambda>i. address_parts (drop 10 i))
      (filter (\<lambda>i. take 10 i = ascii ''socketcan:'') (getCyphalTransportInterfaces te c)))"
    unfolding prefixed_ifaces_parts pre_length ..
  obtain ms w1 where ms: "can_open_each sys ?mtu 3 (address_parts ?s) w = (ms, w1)" by fastforce
  have "fold (can_media_reset sys) (cc_media_array CanMediaCollection_make) w = w"
    by (simp add: CanMediaCollection_make_def MaxCanMedia_def numeral_3_eq_3 can_media_reset_def)
  then have parse: "CanMediaCollection_parse sys ?s ?mtu CanMediaCollection_make w = (can_coll ms, w1)"
    using can_parse_loop_opens [of "[]" sys ?s ?mtu 0 w] ms by (simp add: CanMediaCollection_parse_def can_coll_facts(3) [of "[]", simplified])
  from can_open_each_law [OF law ms] have n: "length ms \<le> 3" and dist: "distinct (concat (map can_media_fds ms))" and
    sub: "subseq (map cm_iface_address ms) (address_parts ?s)" and
    new: "\<forall>fd\<in>set (concat (map can_media_fds ms)). 0 \<le> fd \<and> fd \<notin> opened w" and
    ow1: "opened w1 = opened w \<union> set (concat (map can_media_fds ms))" by blast+
  have closed: "opened (CanMediaCollection_destroy sys (can_coll ms) w2) = opened w" if "opened w2 = opened w1" for w2
  proof -
    have "set (concat (map can_media_fds (rev ms))) = set (concat (map can_media_fds ms))" by simp
    with new can_destroy_all_law [OF law, of "rev ms" w2] that ow1 show ?thesis
      unfolding can_coll_facts(4) [OF n] by (auto simp del: set_concat)
  qed
  show ?thesis
  proof (cases "ms = []")
    case True
    with parse closed [of w1] show ?thesis
      by (simp add: CanTransportBag_make_def can_coll_facts(1))
  next
    case False
    obtain r w2 where r: "lib_makeTransport lib (CanMediaCollection_span (can_coll ms)) CanTxQueueCapacity w1 = (r, w2)" by fastforce
    with lib have ow2: "opened w2 = opened w1" unfolding lib_fd_law_def by (metis snd_conv)
    have ow3: "opened (lib_setTransientErrorHandler lib tr w2) = opened w1" for tr
      using lib ow2 by (simp add: lib_fd_law_def)
    have count: "CanMediaCollection_count (can_coll ms) \<noteq> 0" using False by (simp add: can_coll_facts(1) [OF n])
    show ?thesis
    proof (cases r)
      case (Inl e)
      with parse r count closed [OF ow2] show ?thesis by (simp add: CanTransportBag_make_def)
    next
      case (Inr tr)
      then have "CanTransportBag_make te sys lib c w = (Some (can_coll ms, tr), lib_setTransientErrorHandler lib tr w2)"
        using parse r count by (simp add: CanTransportBag_make_def)
      moreover have "opened w \<inter> set (concat (map can_media_fds ms)) = {}" using new by blast
      ultimately show ?thesis
        using False n dist sub [unfolded parts] closed [OF ow3] can_coll_facts(2) [OF n] ow3 ow1
        by (simp del: set_concat) (intro exI [of _ ms], simp del: set_concat)
    qed
  qed
qed

section \<open>A concrete configuration\<close>

text \<open>A document that holds only the interfaces, and a library that accepts every span.\<close>

definition ifaces_toml :: "byte list list toml_env" where
  "ifaces_toml = \<lparr>toml_find_strings = (\<lambda>p t. Some t), toml_find_string = (\<lambda>p t. None), toml_find_u16 = (\<lambda>p t. None),
     toml_find_size = (\<lambda>p t. None), toml_find_bytes = (\<lambda>p t. None), toml_set_strings = (\<lambda>p xs t. t),
     toml_set_bytes_hex = (\<lambda>p xs t. t), toml_set_time = (\<lambda>p n t. t), toml_format = (\<lambda>t. None), toml_parse = (\<lambda>s. None)\<rparr>"

definition ifaces_config :: "byte list list config" where
  "ifaces_config = \<lparr>cfg_file_path = [], cfg_root = [ascii ''udp://127.0.0.1'', ascii ''socketcan:vcan0,,vcan1''], cfg_is_dirty = False\<rparr>"

definition accepting_lib :: "('m, nat, 'w) transport_lib" where
  "accepting_lib = \<lparr>lib_makeTransport = (\<lambda>ms n w. (Inr n, w)), lib_setTransientErrorHandler = (\<lambda>tr w. w)\<rparr>"

theorem can_bag_owns_descriptors_witness:
  "case CanTransportBag_make ifaces_toml loop_can accepting_lib ifaces_config ([], []) of
      (None, w') \<Rightarrow> False
    | (Some (coll, tr), w') \<Rightarrow> open_fds w' = {1, 2, 3, 4} \<and> open_fds (CanMediaCollection_destroy loop_can coll w') = {}"
proof -
  have bag: "CanTransportBag_make ifaces_toml loop_can accepting_lib ifaces_config ([], []) =
      (Some (can_coll [\<lparr>cm_rx_fd = 1, cm_tx_fd = 2, cm_iface_address = ascii ''vcan0'', cm_iface_mtu = 8\<rparr>,
                       \<lparr>cm_rx_fd = 3, cm_tx_fd = 4, cm_iface_address = ascii ''vcan1'', cm_iface_mtu = 8\<rparr>], 91), ([4, 3, 2, 1], []))"
    by code_simp
  have "lib_fd_law accepting_lib open_fds" by (simp add: lib_fd_law_def accepting_lib_def)
  from can_bag_owns_descriptors [OF loop_can_fd_law this, where te = ifaces_toml and c = ifaces_config and w = "([], [])"]
  show ?thesis unfolding bag by (auto simp: open_fds_def)
qed

end
