(* ===== verification/Engine.thy ===== *)
theory Engine
  imports Media_Collections Socket_Pipes File_Provider Ipc_Channel
begin

text \<open>
  \<^verbatim>\<open>src/daemon/engine/engine.cpp\<close>: how the daemon brings itself up, and the registration of its
  services (\<^verbatim>\<open>svc/*/services.cpp\<close>). The presentation layer and the node of libcyphal, the servers of
  the file provider and the random number generator are parameters; the transports, the file
  provider, the configuration, the server pipe and the router are those of the other theories.
  The state of the operating system is \<open>'w\<close>, the file that keeps the configuration is apart.
\<close>

section \<open>Services\<close>

datatype service =
    ExecCmdService | ListRegistersService | AccessRegistersService
  | RawPublisherService | RawRpcClientService | RawSubscriberService
  | ListRootsService | PopRootService | PushRootService

fun svc_full_name :: "service \<Rightarrow> string" where
  "svc_full_name ExecCmdService = ''ocvsmd.svc.node.exec_cmd''"
| "svc_full_name ListRegistersService = ''ocvsmd.svc.node.list_registers''"
| "svc_full_name AccessRegistersService = ''ocvsmd.svc.node.access_registers''"
| "svc_full_name RawPublisherService = ''ocvsmd.svc.relay.raw_publisher''"
| "svc_full_name RawRpcClientService = ''ocvsmd.svc.relay.raw_rpc_client''"
| "svc_full_name RawSubscriberService = ''ocvsmd.svc.relay.raw_subscriber''"
| "svc_full_name ListRootsService = ''ocvsmd.svc.file_server.list_roots''"
| "svc_full_name PopRootService = ''ocvsmd.svc.file_server.pop_root''"
| "svc_full_name PushRootService = ''ocvsmd.svc.file_server.push_root''"

text \<open>The name of a service is not empty, so that of its request type plays no role.\<close>

definition service_id :: "(string \<Rightarrow> u64) \<Rightarrow> service \<Rightarrow> u64" where
  "service_id crc64 svc = fst (getServiceDesc crc64 [] (svc_full_name svc))"

type_synonym ('h, 'a) engine_router = "(socket_server, service, 'h, 'a) server_router"

definition registerWithContext :: "(string \<Rightarrow> u64) \<Rightarrow> service \<Rightarrow> ('h, 'a) engine_router \<Rightarrow> ('h, 'a) engine_router" where
  "registerWithContext crc64 svc r = registerChannelFactory (service_id crc64 svc) svc r"

definition node_registerAllServices :: "(string \<Rightarrow> u64) \<Rightarrow> ('h, 'a) engine_router \<Rightarrow> ('h, 'a) engine_router" where
  "node_registerAllServices crc64 r =
     registerWithContext crc64 AccessRegistersService
       (registerWithContext crc64 ListRegistersService (registerWithContext crc64 ExecCmdService r))"

definition relay_registerAllServices :: "(string \<Rightarrow> u64) \<Rightarrow> ('h, 'a) engine_router \<Rightarrow> ('h, 'a) engine_router" where
  "relay_registerAllServices crc64 r =
     registerWithContext crc64 RawSubscriberService
       (registerWithContext crc64 RawRpcClientService (registerWithContext crc64 RawPublisherService r))"

definition file_server_registerAllServices :: "(string \<Rightarrow> u64) \<Rightarrow> ('h, 'a) engine_router \<Rightarrow> ('h, 'a) engine_router" where
  "file_server_registerAllServices crc64 r =
     registerWithContext crc64 PushRootService
       (registerWithContext crc64 PopRootService (registerWithContext crc64 ListRootsService r))"

text \<open>\<open>ServerRouter::start\<close> starts the pipe.\<close>

definition ServerRouter_start ::
    "('w, 'z) pipe_sys_scheme \<Rightarrow> ('h, 'a) engine_router \<Rightarrow> 'w \<Rightarrow> (opt_error \<times> ('h, 'a) engine_router \<times> 'w) option" where
  "ServerRouter_start sys r w =
     map_option (\<lambda>(e, p, w1). (e, r\<lparr>sr_pipe := p\<rparr>, w1)) (SocketServer_start sys (sr_pipe r) w)"

section \<open>The transfer ids\<close>

type_synonym 'spec transfer_id_map = "('spec, u64) umap"

definition getIdFor :: "'spec \<Rightarrow> 'spec transfer_id_map \<Rightarrow> u64" where
  "getIdFor session_spec m = (case map_of m session_spec of Some i \<Rightarrow> i | None \<Rightarrow> 0)"

definition setIdFor :: "'spec \<Rightarrow> u64 \<Rightarrow> 'spec transfer_id_map \<Rightarrow> 'spec transfer_id_map" where
  "setIdFor session_spec transfer_id m = um_assign session_spec transfer_id m"

section \<open>The engine\<close>

datatype 'tr any_transport_bag = UdpBag udp_collection 'tr | CanBag can_collection 'tr

fun getTransport :: "'tr any_transport_bag \<Rightarrow> 'tr" where
  "getTransport (UdpBag _ tr) = tr"
| "getTransport (CanBag _ tr) = tr"

record ('t, 'w, 'tr, 'p, 'n) engine_env =
  ee_toml :: "'t toml_env"
  ee_udp_lib :: "(udp_media, 'tr, 'w) transport_lib"
  ee_can_lib :: "(can_media, 'tr, 'w) transport_lib"
  ee_can :: "'w can_sys"
  ee_pipe :: "'w pipe_sys"
  ee_inet :: inet_env
  ee_crc64 :: "string \<Rightarrow> u64"
  ee_setLocalNodeId :: "'tr \<Rightarrow> u16 \<Rightarrow> 'w \<Rightarrow> cy_failure option \<times> 'w"
  ee_makePresentation :: "'tr \<Rightarrow> 'w \<Rightarrow> 'p \<times> 'w"
  ee_makeNode :: "'p \<Rightarrow> 'w \<Rightarrow> (cy_failure + 'n) \<times> 'w"
  ee_setNodeInfo :: "'n \<Rightarrow> byte list \<Rightarrow> 'w \<Rightarrow> 'w"
  ee_makeReadServer :: "'p \<Rightarrow> 'w \<Rightarrow> cy_failure option \<times> 'w"
  ee_makeGetInfoServer :: "'p \<Rightarrow> 'w \<Rightarrow> cy_failure option \<times> 'w"
  ee_random_id :: "'w \<Rightarrow> byte list \<times> 'w"
  ee_time :: "'w \<Rightarrow> nat"

record ('t, 'tr, 'p, 'n, 'h, 'a) engine =
  eg_config :: "'t config"
  eg_any_transport_bag :: "'tr any_transport_bag option"
  eg_presentation :: "'p option"
  eg_node :: "'n option"
  eg_file_provider :: "'t file_provider option"
  eg_ipc_router :: "('h, 'a) engine_router option"

definition Engine_make :: "'t config \<Rightarrow> ('t, 'tr, 'p, 'n, 'h, 'a) engine" where
  "Engine_make c = \<lparr>eg_config = c, eg_any_transport_bag = None, eg_presentation = None, eg_node = None,
                    eg_file_provider = None, eg_ipc_router = None\<rparr>"

datatype init_failure =
    NoCyphalTransport
  | NoCyphalNode opt_error
  | NoFileProvider
  | NoIpcConnections
  | BadIpcConnection sdk_error
  | RouterNotStarted sdk_error

text \<open>Step 1: first UDP, then CAN.\<close>

definition make_transport_bag ::
    "('t, 'w, 'tr, 'p, 'n) engine_env \<Rightarrow> 't config \<Rightarrow> 'w \<Rightarrow> 'tr any_transport_bag option \<times> 'w" where
  "make_transport_bag e c w =
     (case UdpTransportBag_make (ee_toml e) (ee_udp_lib e) c w of
        (Some (coll, tr), w1) \<Rightarrow> (Some (UdpBag coll tr), w1)
      | (None, w1) \<Rightarrow>
          (case CanTransportBag_make (ee_toml e) (ee_can e) (ee_can_lib e) c w1 of
             (Some (coll, tr), w2) \<Rightarrow> (Some (CanBag coll tr), w2)
           | (None, w2) \<Rightarrow> (None, w2)))"

text \<open>The result of \<open>setLocalNodeId\<close> is not looked at.\<close>

definition set_node_id :: "('t, 'w, 'tr, 'p, 'n) engine_env \<Rightarrow> 't config \<Rightarrow> 'tr \<Rightarrow> 'w \<Rightarrow> 'w" where
  "set_node_id e c tr w =
     (case getCyphalAppNodeId (ee_toml e) c of
        Some node_id \<Rightarrow> snd (ee_setLocalNodeId e tr node_id w)
      | None \<Rightarrow> w)"

text \<open>Step 6: the router, its services, and only then the start.\<close>

definition start_router ::
    "('t, 'w, 'tr, 'p, 'n) engine_env \<Rightarrow> 'a \<Rightarrow> socket_address \<Rightarrow> 'w \<Rightarrow> (opt_error \<times> ('h, 'a) engine_router \<times> 'w) option" where
  "start_router e app socket_address w =
     (let ipc_router = ServerRouterImpl_init (SocketServer_make socket_address) app;
          r1 = node_registerAllServices (ee_crc64 e) ipc_router;
          r2 = relay_registerAllServices (ee_crc64 e) r1;
          r3 = file_server_registerAllServices (ee_crc64 e) r2
      in ServerRouter_start (ee_pipe e) r3 w)"

type_synonym ('t, 'tr, 'p, 'n, 'h, 'a, 'w) init_result =
  "(init_failure option \<times> ('t, 'tr, 'p, 'n, 'h, 'a) engine \<times> file_store \<times> 'w) option"

definition engine_init_ipc ::
    "('t, 'w, 'tr, 'p, 'n) engine_env \<Rightarrow> 'a \<Rightarrow> ('t, 'tr, 'p, 'n, 'h, 'a) engine \<Rightarrow> file_store \<Rightarrow> 'w \<Rightarrow>
     ('t, 'tr, 'p, 'n, 'h, 'a, 'w) init_result" where
  "engine_init_ipc e app eg fs w =
     (case getIpcConnections (ee_toml e) (eg_config eg) of
        [] \<Rightarrow> Some (Some NoIpcConnections, eg, fs, w)
      | conn # _ \<Rightarrow>
          (case SocketAddress_parse (ee_inet e) conn 0 of
             Inl failure \<Rightarrow> Some (Some (BadIpcConnection failure), eg, fs, w)
           | Inr socket_address \<Rightarrow>
               map_option (\<lambda>(opt_error, r, w1). (map_option RouterNotStarted opt_error, eg\<lparr>eg_ipc_router := Some r\<rparr>, fs, w1))
                 (start_router e app socket_address w)))"

definition engine_init ::
    "('t, 'w, 'tr, 'p, 'n) engine_env \<Rightarrow> 'a \<Rightarrow> ('t, 'tr, 'p, 'n, 'h, 'a) engine \<Rightarrow> file_store \<Rightarrow> 'w \<Rightarrow>
     ('t, 'tr, 'p, 'n, 'h, 'a, 'w) init_result" where
  "engine_init e app eg fs w =
     (case make_transport_bag e (eg_config eg) w of
        (None, w1) \<Rightarrow> Some (Some NoCyphalTransport, eg, fs, w1)
      | (Some bag, w1) \<Rightarrow>
          let eg1 = eg\<lparr>eg_any_transport_bag := Some bag\<rparr>;
              w2 = set_node_id e (eg_config eg) (getTransport bag) w1;
              (presentation, w3) = ee_makePresentation e (getTransport bag) w2;
              eg2 = eg1\<lparr>eg_presentation := Some presentation\<rparr>
          in (case ee_makeNode e presentation w3 of
                (Inl failure, w4) \<Rightarrow> Some (Some (NoCyphalNode (cyFailureToOptError failure)), eg2, fs, w4)
              | (Inr node, w4) \<Rightarrow>
                  let (fresh, w5) = (case getCyphalAppUniqueId (ee_toml e) (eg_config eg2) of
                                       Some _ \<Rightarrow> ([], w4) | None \<Rightarrow> ee_random_id e w4);
                      (unique_id, config, fs1) = engine_getUniqueId (ee_toml e) (ee_time e w5) fresh (eg_config eg2) fs;
                      w6 = ee_setNodeInfo e node unique_id w5;
                      (read_srv, w7) = ee_makeReadServer e presentation w6;
                      (get_info_srv, w8) = ee_makeGetInfoServer e presentation w7;
                      eg3 = eg2\<lparr>eg_node := Some node, eg_config := config,
                                eg_file_provider := FileProvider_make (ee_toml e) read_srv get_info_srv config\<rparr>
                  in if eg_file_provider eg3 = None then Some (Some NoFileProvider, eg3, fs1, w8)
                     else engine_init_ipc e app eg3 fs1 w8))"

section \<open>The services of a started engine\<close>

lemma registered_services:
  fixes pipe :: socket_server and app :: 'a
  assumes "inj (service_id crc64)"
  defines "r \<equiv> (file_server_registerAllServices crc64 (relay_registerAllServices crc64 (node_registerAllServices crc64
     (ServerRouterImpl_init pipe app))) :: ('h, 'a) engine_router)"
  shows "map_of (sr_factories r) i = (if i \<in> range (service_id crc64) then Some (inv (service_id crc64) i) else None)"
    "sr_clients r = []" "sr_heap r = (\<lambda>_. None)" "sr_next_addr r = 0" "sr_app r = app" "sr_pipe r = pipe"
proof -
  note defs = r_def file_server_registerAllServices_def relay_registerAllServices_def node_registerAllServices_def
    registerWithContext_def registerChannelFactory_def ServerRouterImpl_init_def
  show "sr_clients r = []" "sr_heap r = (\<lambda>_. None)" "sr_next_addr r = 0" "sr_app r = app" "sr_pipe r = pipe"
    by (simp_all add: defs)
  have upd: "map_of (sr_factories r) (service_id crc64 svc) = Some svc" for svc
    using assms(1) by (cases svc) (simp_all add: defs um_simps inj_eq)
  have "map_of (sr_factories r) i = None" if "i \<notin> range (service_id crc64)"
    using that by (auto simp: defs um_simps)
  with upd show "map_of (sr_factories r) i = (if i \<in> range (service_id crc64) then Some (inv (service_id crc64) i) else None)"
    using inv_f_f [OF assms(1)] by auto
qed

lemma registered_pipe:
  "sr_pipe (file_server_registerAllServices f (relay_registerAllServices f (node_registerAllServices f
     (ServerRouterImpl_init pipe app)))) = pipe"
  by (simp add: file_server_registerAllServices_def relay_registerAllServices_def node_registerAllServices_def
      registerWithContext_def registerChannelFactory_def ServerRouterImpl_init_def)

lemma SocketServer_start_listens:
  assumes "SocketServer_start sys s w = Some (None, s', w')"
  shows "ss_accept_callback s' = Some (ss_fd s')"
  using assms by (auto simp: SocketServer_start_def split: option.splits sysret.splits)

text \<open>A start that succeeds has gone through all the steps.\<close>

lemma engine_init_ipc_started:
  assumes "engine_init_ipc e app eg fs w = Some (None, eg', fs', w')"
  obtains conn conns address r where "getIpcConnections (ee_toml e) (eg_config eg) = conn # conns"
    "SocketAddress_parse (ee_inet e) conn 0 = Inr address" "start_router e app address w = Some (None, r, w')"
    "eg' = eg\<lparr>eg_ipc_router := Some r\<rparr>"
  using assms
  by (auto simp: engine_init_ipc_def map_option_case split: list.splits sum.splits option.splits)

lemma engine_init_started:
  assumes "engine_init e app eg fs w = Some (None, eg', fs', w')"
  obtains bag node p fp eg3 fs3 w3 where "engine_init_ipc e app eg3 fs3 w3 = Some (None, eg', fs', w')"
    "eg_any_transport_bag eg3 = Some bag" "eg_presentation eg3 = Some p" "eg_node eg3 = Some node" "eg_file_provider eg3 = Some fp"
  using assms
  by (fastforce simp: engine_init_def Let_def split: prod.splits option.splits sum.splits if_splits)

lemma start_router_started:
  fixes r :: "('h, 'a) engine_router"
  assumes "inj (service_id (ee_crc64 e))" "start_router e app address w = Some (None, r, w')"
  shows "map_of (sr_factories r) (service_id (ee_crc64 e) svc) = Some svc"
    "sr_clients r = []" "sr_heap r = (\<lambda>_. None)" "sr_next_addr r = 0" "sr_app r = app"
    "ss_accept_callback (sr_pipe r) = Some (ss_fd (sr_pipe r))"
proof -
  let ?r = "file_server_registerAllServices (ee_crc64 e) (relay_registerAllServices (ee_crc64 e)
      (node_registerAllServices (ee_crc64 e) (ServerRouterImpl_init (SocketServer_make address) app))) :: ('h, 'a) engine_router"
  from assms(2) obtain s' where s': "SocketServer_start (ee_pipe e) (sr_pipe ?r) w = Some (None, s', w')" "r = ?r\<lparr>sr_pipe := s'\<rparr>"
    by (auto simp: start_router_def ServerRouter_start_def Let_def)
  then show "map_of (sr_factories r) (service_id (ee_crc64 e) svc) = Some svc" "sr_clients r = []" "sr_heap r = (\<lambda>_. None)"
    "sr_next_addr r = 0" "sr_app r = app"
    by (simp_all add: registered_services [OF assms(1)] inv_f_f [OF assms(1)])
  from SocketServer_start_listens [OF s'(1)] s'(2) show "ss_accept_callback (sr_pipe r) = Some (ss_fd (sr_pipe r))" by simp
qed

lemma started_engine_serves:
  assumes init: "engine_init e ([], []) (Engine_make c) fs w = Some (None, eg, fs', w')"
    and crc: "inj (service_id (ee_crc64 e))"
    and env: "\<forall>b p. fst (se_pipe_send se cl b p) = None"
      "route_serialize (se_codec se) (Route_connect VERSION_MAJOR VERSION_MINOR (optErrorToDsdlError None)) \<noteq> None"
    and hello: "route_deserialize (se_codec se) hello = Some (Route_connect major minor err)"
    and msg: "route_deserialize (se_codec se) msg = Some (Route_channel_msg tag 0 (service_id (ee_crc64 e) svc) sz)"
      "subspan msg (of_nat (length msg) - sz) = Some payload"
  shows "\<exists>r r'. eg_ipc_router eg = Some r \<and> ss_accept_callback (sr_pipe r) = Some (ss_fd (sr_pipe r)) \<and>
    sr_run se keep_handler (keep_factory se) [SP_Connected cl, SP_Message cl hello, SP_Message cl msg] r = Some r' \<and>
    snd (sr_app r') = [Opened svc 0 payload, Noted 0 GwConnected]"
proof -
  from init obtain eg3 fs3 w3 where "engine_init_ipc e ([], []) eg3 fs3 w3 = Some (None, eg, fs', w')" by (rule engine_init_started)
  then obtain address r where r: "start_router e ([], []) address w3 = Some (None, r, w')" "eg = eg3\<lparr>eg_ipc_router := Some r\<rparr>"
    by (rule engine_init_ipc_started)
  note started = start_router_started [OF crc r(1)]
  from env(2) obtain bs where bs: "route_serialize (se_codec se) (Route_connect VERSION_MAJOR VERSION_MINOR (optErrorToDsdlError None)) = Some bs"
    by blast
  from env(1) obtain p' where "se_pipe_send se cl (SocketBuffer_of (Span bs)) (sr_pipe r) = (None, p')" by (metis prod.collapse)
  with bs have send: "server_send_route se cl (Route_connect VERSION_MAJOR VERSION_MINOR (optErrorToDsdlError None)) r = (None, r\<lparr>sr_pipe := p'\<rparr>)"
    by (simp add: server_send_route_def tryPerformOnSerialized_def server_pipe_send_def)
  define r1 where "r1 = r\<lparr>sr_pipe := p', sr_clients := [(cl, [])]\<rparr>"
  have "sr_handleMessage se keep_handler (keep_factory se) cl hello r = Some (None, r1)"
    using hello send started(2) by (simp add: sr_handleMessage_def sr_handleRouteConnect_def r1_def um_emplace_def)
  moreover have "\<exists>r2. sr_handleMessage se keep_handler (keep_factory se) cl msg r1 = Some (None, r2) \<and>
      snd (sr_app r2) = [Opened svc 0 payload, Noted 0 GwConnected]"
    using sr_keep_open [of r1 cl "[]" tag "service_id (ee_crc64 e) svc" svc msg sz payload se] started msg
    by (simp add: sr_handleMessage_def r1_def)
  ultimately show ?thesis using r(2) started(6) by (auto simp: sr_handleConnected_def)
qed

text \<open>
  A daemon that has come up serves all its services. Its socket listens, and each of the
  nine services, whichever a client asks for after its connection, gets a new channel with
  the first message of the client, and nothing else is told to any service.
\<close>
theorem engine_serves:
  assumes init: "engine_init e ([], []) (Engine_make c) fs w = Some (None, eg, fs', w')"
    and crc: "inj (service_id (ee_crc64 e))"
    and env: "\<forall>b p. fst (se_pipe_send se cl b p) = None"
      "route_serialize (se_codec se) (Route_connect VERSION_MAJOR VERSION_MINOR (optErrorToDsdlError None)) \<noteq> None"
    and hello: "route_deserialize (se_codec se) hello = Some (Route_connect major minor err)"
    and msg: "route_deserialize (se_codec se) msg = Some (Route_channel_msg tag 0 (service_id (ee_crc64 e) svc) sz)"
      "subspan msg (of_nat (length msg) - sz) = Some payload"
  shows "\<exists>r r'. eg_ipc_router eg = Some r \<and> ss_accept_callback (sr_pipe r) = Some (ss_fd (sr_pipe r)) \<and>
    sr_run se keep_handler (keep_factory se) [SP_Connected cl, SP_Message cl hello, SP_Message cl msg] r = Some r' \<and>
    snd (sr_app r') = [Opened svc 0 payload, Noted 0 GwConnected]"
  by (rule started_engine_serves [OF assms])

text \<open>
  Bringing the engine up always comes to an end, with success or with one of its
  failures, when system calls are not interrupted forever.
\<close>
theorem engine_init_returns:
  assumes "returns_law (ee_pipe e)" "fd_law (ee_pipe e) opened"
  shows "\<exists>failure eg' fs' w'. engine_init e app eg fs w = Some (failure, eg', fs', w')"
proof -
  have start: "\<exists>opt_error r w'. start_router e app address w = Some (opt_error, r, w')" for address w
  proof -
    from server_start [OF assms, of address w] obtain x s w' where
      "SocketServer_start (ee_pipe e) (SocketServer_make address) w = Some (x, s, w')" by blast
    then show ?thesis by (simp add: start_router_def ServerRouter_start_def Let_def registered_pipe)
  qed
  have "\<exists>x eg' fs' w'. engine_init_ipc e app eg fs w = Some (x, eg', fs', w')" for eg fs w
    using start by (fastforce simp: engine_init_ipc_def split: list.splits sum.splits)
  then show ?thesis by (auto simp: engine_init_def Let_def split: prod.splits option.splits sum.splits)
qed

section \<open>A concrete engine\<close>

definition no_can :: "'w can_sys" where
  "no_can = \<lparr>can_socket = (\<lambda>w. (SysErr EIO, w)), can_ifindex = (\<lambda>fd n w. (SysErr EIO, w)), can_bind = (\<lambda>fd i w. (SysErr EIO, w)),
     can_setsockopt = (\<lambda>fd opt w. (SysErr EIO, w)), can_setfilter = (\<lambda>fd fs w. (SysErr EIO, w)),
     can_ppoll = (\<lambda>fd ev ts w. (SysErr EIO, w)), can_write = (\<lambda>fd b w. (SysErr EIO, w)), can_recvmsg = (\<lambda>fd n w. (SysErr EIO, w)),
     can_close = (\<lambda>fd w. (None, w))\<rparr>"

text \<open>A checksum that tells the nine names apart.\<close>

definition name_sum :: "string \<Rightarrow> u64" where
  "name_sum s = of_nat (length s * 65536 + of_char (s ! 11) * 256 + of_char (last s))"

definition engine_toml :: "unit toml_env" where
  "engine_toml = \<lparr>toml_find_strings = (\<lambda>p t. if hd p = ''ipc'' then Some [ascii ''unix:'' @ [120]] else Some [ascii ''udp://127.0.0.1'']),
     toml_find_string = (\<lambda>p t. None), toml_find_u16 = (\<lambda>p t. Some 42), toml_find_size = (\<lambda>p t. None), toml_find_bytes = (\<lambda>p t. Some [7]),
     toml_set_strings = (\<lambda>p xs t. t), toml_set_bytes_hex = (\<lambda>p xs t. t), toml_set_time = (\<lambda>p n t. t),
     toml_format = (\<lambda>t. None), toml_parse = (\<lambda>s. Some ())\<rparr>"

definition engine_config :: "unit config" where
  "engine_config = \<lparr>cfg_file_path = [], cfg_root = (), cfg_is_dirty = False\<rparr>"

definition demo_engine :: "(unit, demo_world, nat, unit, unit) engine_env" where
  "demo_engine = \<lparr>ee_toml = engine_toml, ee_udp_lib = accepting_lib, ee_can_lib = accepting_lib, ee_can = no_can, ee_pipe = demo_sys,
     ee_inet = demo_inet, ee_crc64 = name_sum, ee_setLocalNodeId = (\<lambda>tr i w. (None, w)), ee_makePresentation = (\<lambda>tr w. ((), w)),
     ee_makeNode = (\<lambda>p w. (Inr (), w)), ee_setNodeInfo = (\<lambda>n i w. w), ee_makeReadServer = (\<lambda>p w. (None, w)),
     ee_makeGetInfoServer = (\<lambda>p w. (None, w)), ee_random_id = (\<lambda>w. ([], w)), ee_time = (\<lambda>w. 0)\<rparr>"

lemma name_sums:
  "service_id name_sum ExecCmdService = 1601124"
  "service_id name_sum ListRegistersService = 1994355"
  "service_id name_sum AccessRegistersService = 2125427"
  "service_id name_sum RawPublisherService = 1995378"
  "service_id name_sum RawRpcClientService = 2060916"
  "service_id name_sum RawSubscriberService = 2060914"
  "service_id name_sum ListRootsService = 2188915"
  "service_id name_sum PopRootService = 2057844"
  "service_id name_sum PushRootService = 2123380"
  by (simp_all add: service_id_def getServiceDesc_def name_sum_def)

lemma name_sum_inj: "inj (service_id name_sum)"
proof (rule inj_on_inverseI)
  fix x
  let ?tbl = "[(1601124, ExecCmdService), (1994355, ListRegistersService), (2125427, AccessRegistersService),
    (1995378, RawPublisherService), (2060916, RawRpcClientService), (2060914, RawSubscriberService),
    (2188915, ListRootsService), (2057844, PopRootService), (2123380, PushRootService)] :: (int \<times> service) list"
  show "the (map_of ?tbl (uint (service_id name_sum x))) = x"
    by (cases x) (simp_all add: name_sums)
qed

lemma demo_udp_bag:
  "\<exists>coll. UdpTransportBag_make engine_toml accepting_lib c w = (Some (coll, 16), w)"
proof -
  have count: "UdpMediaCollection_count (UdpMediaCollection_parse (prefixed_ifaces (ascii ''udp://'') [ascii ''udp://127.0.0.1''])
      None UdpMediaCollection_make) \<noteq> 0" by code_simp
  have "getCyphalTransportInterfaces engine_toml c = [ascii ''udp://127.0.0.1'']"
    "getCyphalTransportMtu engine_toml c = None"
    by (simp_all add: getCyphalTransportInterfaces_def getCyphalTransportMtu_def find_or_nil_def engine_toml_def)
  with count show ?thesis by (simp add: UdpTransportBag_make_def accepting_lib_def UdpTxQueueCapacity_def)
qed

lemma demo_engine_init:
  "\<exists>eg w'. engine_init demo_engine app (Engine_make c) fs demo_start = Some (None, eg, fs, w')"
proof -
  obtain coll where "UdpTransportBag_make engine_toml accepting_lib c demo_start = (Some (coll, 16), demo_start)"
    by (rule exE [OF demo_udp_bag [of c demo_start]])
  then have bag: "make_transport_bag demo_engine c demo_start = (Some (UdpBag coll 16), demo_start)"
    by (simp add: make_transport_bag_def demo_engine_def)
  have conns: "getIpcConnections engine_toml c = [ascii ''unix:'' @ [120]]"
    by (simp add: getIpcConnections_def find_or_nil_def engine_toml_def)
  have id: "engine_getUniqueId engine_toml n i c fs = ([7], c, fs)"
    "getCyphalAppUniqueId engine_toml c = Some [7]" for n i
    by (simp_all add: engine_getUniqueId_def getCyphalAppUniqueId_def engine_toml_def)
  have sels: "ee_toml demo_engine = engine_toml" "ee_inet demo_engine = demo_inet" "ee_pipe demo_engine = demo_sys"
    "ee_makePresentation demo_engine tr w = ((), w)" "ee_makeNode demo_engine p w = (Inr (), w)"
    "ee_setLocalNodeId demo_engine tr i w = (None, w)" "ee_setNodeInfo demo_engine n u w = w"
    "ee_makeReadServer demo_engine p w = (None, w)" "ee_makeGetInfoServer demo_engine p w = (None, w)" for tr p i n u w
    by (simp_all add: demo_engine_def)
  have parse: "SocketAddress_parse demo_inet (ascii ''unix:'' @ [120]) 0 = Inr (unix_address [120])" by (simp add: parse_unix)
  have start: "\<exists>r w'. start_router demo_engine app (unix_address [120]) demo_start = Some (None, r, w')"
    using demo_server_start by (simp add: start_router_def ServerRouter_start_def Let_def registered_pipe sels)
  have node_id: "set_node_id demo_engine c tr w = w" for tr w
    by (simp add: set_node_id_def sels split: option.splits)
  show ?thesis
    using start
    by (auto simp: engine_init_def bag Engine_make_def node_id sels id conns parse engine_init_ipc_def
        FileProvider_make_def makeServer_def)
qed

text \<open>The daemon above is up, and its first client pops a root.\<close>

definition no_files :: file_store where
  "no_files = \<lparr>fst_files = (\<lambda>_. None), fst_writable = (\<lambda>_. False)\<rparr>"

definition engine_server_env :: "socket_server server_env" where
  "engine_server_env = \<lparr>se_codec = dsdl_codec, se_pipe_send = (\<lambda>cl b p. (None, p)), se_order = (\<lambda>gws. gws)\<rparr>"

lemma dsdl_read: "route_deserialize dsdl_codec (dsdl_route_bytes r) = Some r"
  using dsdl_codec_read [of r "[]"] by simp

lemma pop_root_tail:
  "subspan (dsdl_route_bytes (Route_channel_msg 5 0 (service_id name_sum PopRootService) 0))
     (of_nat (length (dsdl_route_bytes (Route_channel_msg 5 0 (service_id name_sum PopRootService) 0))) - 0) = Some []"
proof -
  let ?msg = "dsdl_route_bytes (Route_channel_msg 5 0 (service_id name_sum PopRootService) 0)"
  have "subspan (?msg @ []) (of_nat (length (?msg @ [])) - of_nat (length ([] :: byte list))) = Some []"
    by (rule subspan_tail) simp
  then show ?thesis by (simp only: append_Nil2 list.size semiring_1_class.of_nat_0)
qed

theorem engine_serves_witness:
  "\<exists>eg w' r r'. engine_init demo_engine ([], []) (Engine_make engine_config) no_files demo_start = Some (None, eg, no_files, w') \<and>
     eg_ipc_router eg = Some r \<and> sr_run engine_server_env keep_handler (keep_factory engine_server_env)
       [SP_Connected 7, SP_Message 7 (dsdl_route_bytes (Route_connect 1 0 (optErrorToDsdlError None))),
        SP_Message 7 (dsdl_route_bytes (Route_channel_msg 5 0 2057844 0))] r = Some r' \<and>
     snd (sr_app r') = [Opened PopRootService 0 [], Noted 0 GwConnected]"
proof -
  let ?msg = "dsdl_route_bytes (Route_channel_msg 5 0 (service_id name_sum PopRootService) 0)"
  obtain eg :: "(unit, nat, unit, unit, nat, service keeper) engine" and w' where
    init: "engine_init demo_engine ([], []) (Engine_make engine_config) no_files demo_start = Some (None, eg, no_files, w')"
    using demo_engine_init [of "([], [])" engine_config no_files] by (elim exE) (rule that)
  have crc: "ee_crc64 demo_engine = name_sum" by (simp add: demo_engine_def)
  have codec: "se_codec engine_server_env = dsdl_codec" "\<forall>b p. fst (se_pipe_send engine_server_env 7 b p) = None"
    by (simp_all add: engine_server_env_def)
  have ser: "route_serialize dsdl_codec rt \<noteq> None" for rt by (simp add: dsdl_codec_def)
  from engine_serves [OF init, of engine_server_env 7 _ _ _ _ ?msg 5 PopRootService 0 "[]", unfolded crc codec(1),
      OF name_sum_inj codec(2) ser
      dsdl_read [of "Route_connect 1 0 (optErrorToDsdlError None)"] dsdl_read pop_root_tail]
  have "\<exists>r r'. eg_ipc_router eg = Some r \<and> sr_run engine_server_env keep_handler (keep_factory engine_server_env)
      [SP_Connected 7, SP_Message 7 (dsdl_route_bytes (Route_connect 1 0 (optErrorToDsdlError None))), SP_Message 7 ?msg] r = Some r' \<and>
     snd (sr_app r') = [Opened PopRootService 0 [], Noted 0 GwConnected]" by blast
  with init show ?thesis unfolding name_sums by blast
qed

theorem engine_init_returns_witness:
  "\<exists>failure eg' fs' w'. engine_init demo_engine () (Engine_make engine_config) no_files demo_start = Some (failure, eg', fs', w')"
proof -
  have "ee_pipe demo_engine = demo_sys" by (simp add: demo_engine_def)
  with engine_init_returns [of demo_engine "\<lambda>w. set (dw_open w)" "()" "Engine_make engine_config" no_files demo_start]
    demo_returns_law demo_fd_law show ?thesis by simp
qed

end
