(* ===== verification/Daemon_Main.thy ===== *)
theory Daemon_Main
  imports Daemon_Config
begin

text \<open>
  \<^verbatim>\<open>src/daemon/main.cpp\<close>: how the daemon detaches itself and how the process that started it learns
  whether the start succeeded. A process is its table of descriptors and what it has written to
  which open file; a fork copies the table. The outcomes of the system calls, of the logging
  set-up and of the engine are parameters (\<open>os_env\<close>). Left values are exits of the process;
  \<open>None\<close> is a loop whose counter overflows.
\<close>

section \<open>Processes\<close>

datatype open_file = StdStream nat | OtherFile nat | PipeReadEnd | PipeWriteEnd | DevNull | PidFile

record process =
  pr_fds :: "(nat, open_file) umap"
  pr_written :: "(open_file \<times> byte list) list"

type_synonym 'a step_result = "(int \<times> process) + 'a"

definition EXIT_SUCCESS :: int where "EXIT_SUCCESS = 0"
definition EXIT_FAILURE :: int where "EXIT_FAILURE = 1"

text \<open>A new descriptor is the lowest one that is free.\<close>

definition lowest_fd :: "process \<Rightarrow> nat" where
  "lowest_fd p = hd (filter (\<lambda>fd. fd \<notin> set (um_keys (pr_fds p))) [0..<Suc (length (pr_fds p))])"

definition os_open :: "open_file \<Rightarrow> process \<Rightarrow> nat \<times> process" where
  "os_open f p = (lowest_fd p, p\<lparr>pr_fds := um_assign (lowest_fd p) f (pr_fds p)\<rparr>)"

definition os_close :: "nat \<Rightarrow> process \<Rightarrow> process" where
  "os_close fd p = p\<lparr>pr_fds := um_erase fd (pr_fds p)\<rparr>"

definition os_dup2 :: "nat \<Rightarrow> nat \<Rightarrow> process \<Rightarrow> process" where
  "os_dup2 fd fd2 p =
     (case map_of (pr_fds p) fd of
        None \<Rightarrow> p
      | Some f \<Rightarrow> if fd = fd2 then p else p\<lparr>pr_fds := um_assign fd2 f (pr_fds p)\<rparr>)"

definition writeString :: "nat \<Rightarrow> byte list \<Rightarrow> process \<Rightarrow> process" where
  "writeString fd str p =
     (case map_of (pr_fds p) fd of
        None \<Rightarrow> p
      | Some f \<Rightarrow> p\<lparr>pr_written := pr_written p @ [(f, c_str str)]\<rparr>)"

text \<open>What the engine gives: nothing, the text of a failure, or an exception.\<close>

datatype engine_start = EngineOk | EngineFailed "byte list" | EngineThrows

record 't os_env =
  os_rlimit :: "u64 option"
  os_pipe :: bool
  os_fork1 :: bool
  os_setsid :: bool
  os_fork2 :: bool
  os_open_null :: bool
  os_chdir :: bool
  os_open_pid :: bool
  os_lock_pid :: bool
  os_truncate_pid :: bool
  os_write_pid :: bool
  os_err_txt :: "byte list"
  os_toml :: "'t toml_env"
  os_files :: file_store
  os_what :: "byte list"
  os_logging :: "'t config \<Rightarrow> byte list option"
  os_engine :: "'t config \<Rightarrow> engine_start"

section \<open>The steps\<close>

definition exitWithFailure :: "'t os_env \<Rightarrow> nat \<Rightarrow> byte list \<Rightarrow> process \<Rightarrow> int \<times> process" where
  "exitWithFailure e fd msg p = (EXIT_FAILURE, writeString fd (os_err_txt e) (writeString fd msg p))"

definition cerr_and_exit :: "'t os_env \<Rightarrow> byte list \<Rightarrow> process \<Rightarrow> int \<times> process" where
  "cerr_and_exit e msg p = (EXIT_FAILURE, writeString 2 (msg @ os_err_txt e @ ascii ''\<newline>'') p)"

text \<open>
  The loop closes the descriptors from 3 up to the limit; its counter is an \<open>int\<close>. Then the pipe
  is made: its two descriptors.
\<close>

definition step_01_close_all_file_descriptors :: "'t os_env \<Rightarrow> process \<Rightarrow> (nat \<times> nat \<times> process) step_result option" where
  "step_01_close_all_file_descriptors e p =
     (case os_rlimit e of
        None \<Rightarrow> Some (Inl (cerr_and_exit e (ascii ''Failed to getrlimit(RLIMIT_NOFILE): '') p))
      | Some rlim_cur \<Rightarrow>
          if uint rlim_cur \<ge> 2 ^ 31 - 1 then None
          else
            let p1 = fold os_close [3..<Suc (unat rlim_cur)] p
            in if \<not> os_pipe e then Some (Inl (cerr_and_exit e (ascii ''Failed to create pipe: '') p1))
               else let (r, p2) = os_open PipeReadEnd p1; (w, p3) = os_open PipeWriteEnd p2 in Some (Inr (r, w, p3)))"

text \<open>The fork: the child and what is left of the parent.\<close>

definition step_05_fork_to_background :: "'t os_env \<Rightarrow> nat \<Rightarrow> nat \<Rightarrow> process \<Rightarrow> (process \<times> process) step_result" where
  "step_05_fork_to_background e r w p =
     (if \<not> os_fork1 e then Inl (cerr_and_exit e (ascii ''Failed to fork: '') p)
      else Inr (os_close r p, os_close w p))"

definition step_06_create_new_session :: "'t os_env \<Rightarrow> nat \<Rightarrow> process \<Rightarrow> process step_result" where
  "step_06_create_new_session e pipe_write_fd p =
     (if \<not> os_setsid e then Inl (exitWithFailure e pipe_write_fd (ascii ''Failed to setsid: '') p) else Inr p)"

definition step_07_08_fork_and_exit_again :: "'t os_env \<Rightarrow> nat \<Rightarrow> process \<Rightarrow> process step_result" where
  "step_07_08_fork_and_exit_again e pipe_write_fd p =
     (if \<not> os_fork2 e then Inl (exitWithFailure e pipe_write_fd (ascii ''Failed to fork: '') p) else Inr p)"

definition step_09_redirect_stdio_to_devnull :: "'t os_env \<Rightarrow> nat \<Rightarrow> process \<Rightarrow> process step_result" where
  "step_09_redirect_stdio_to_devnull e pipe_write_fd p =
     (if \<not> os_open_null e then Inl (exitWithFailure e pipe_write_fd (ascii ''Failed to open(/dev/null): '') p)
      else
        let (fd, p1) = os_open DevNull p;
            p2 = os_dup2 fd 2 (os_dup2 fd 1 (os_dup2 fd 0 p1))
        in Inr (if 2 < fd then os_close fd p2 else p2))"

definition step_11_change_curr_dir :: "'t os_env \<Rightarrow> nat \<Rightarrow> process \<Rightarrow> process step_result" where
  "step_11_change_curr_dir e pipe_write_fd p =
     (if \<not> os_chdir e then Inl (exitWithFailure e pipe_write_fd (ascii ''Failed to chdir(/): '') p) else Inr p)"

definition step_12_create_pid_file :: "'t os_env \<Rightarrow> nat \<Rightarrow> process \<Rightarrow> process step_result" where
  "step_12_create_pid_file e pipe_write_fd p =
     (if \<not> os_open_pid e then Inl (exitWithFailure e pipe_write_fd (ascii ''Failed to create on PID file: '') p)
      else
        let (fd, p1) = os_open PidFile p
        in if \<not> os_lock_pid e then Inl (exitWithFailure e pipe_write_fd (ascii ''Failed to lock PID file: '') p1)
           else if \<not> os_truncate_pid e then Inl (exitWithFailure e pipe_write_fd (ascii ''Failed to ftruncate PID file: '') p1)
           else if \<not> os_write_pid e then Inl (exitWithFailure e pipe_write_fd (ascii ''Failed to write to PID file: '') p1)
           else Inr p1)"

definition s_init_complete :: "byte list" where
  "s_init_complete = ascii ''init_complete''"

definition step_14_notify_init_complete :: "nat \<Rightarrow> process \<Rightarrow> process" where
  "step_14_notify_init_complete pipe_write_fd p = os_close pipe_write_fd (writeString pipe_write_fd s_init_complete p)"

text \<open>The original process: \<open>chunk\<close> is what \<open>read\<close> gave it, \<open>None\<close> an error.\<close>

definition step_15_exit_org_process :: "'t os_env \<Rightarrow> nat \<Rightarrow> byte list option \<Rightarrow> process \<Rightarrow> int \<times> process" where
  "step_15_exit_org_process e pipe_read_fd chunk p =
     (case chunk of
        None \<Rightarrow> cerr_and_exit e (ascii ''Failed to read pipe: '') p
      | Some msg_from_child \<Rightarrow>
          if c_str msg_from_child \<noteq> s_init_complete then
            (EXIT_FAILURE, writeString 2 (ascii ''Child init failed: '' @ c_str msg_from_child @ ascii ''\<newline>'') p)
          else (EXIT_SUCCESS, os_close pipe_read_fd p))"

section \<open>The main program\<close>

text \<open>The last matching argument wins; the first one is the name of the program.\<close>

definition config_file_path :: "bool \<Rightarrow> byte list list \<Rightarrow> byte list" where
  "config_file_path is_daemonized argv =
     fold (\<lambda>arg path. if take 14 (c_str arg) = ascii ''--config-file='' then drop 14 (c_str arg) else path) (drop 1 argv)
       (ascii (if is_daemonized then ''/etc/ocvsmd/'' else ''./'') @ ascii ''ocvsmd.toml'')"

definition loadConfig :: "'t os_env \<Rightarrow> nat \<Rightarrow> bool \<Rightarrow> byte list list \<Rightarrow> process \<Rightarrow> 't config step_result" where
  "loadConfig e err_fd is_daemonized argv p =
     (let cfg_file_path = config_file_path is_daemonized argv
      in case Config_make (os_toml e) cfg_file_path (os_files e) of
           Some c \<Rightarrow> Inr c
         | None \<Rightarrow>
             Inl (EXIT_FAILURE,
                  writeString err_fd (ascii ''Failed to load configuration file (path='' @ [39] @ cfg_file_path @ [39] @ ascii '').'' @
                    ascii ''\<newline>'' @ os_what e) p))"

definition setupLogging :: "'t os_env \<Rightarrow> nat \<Rightarrow> 't config \<Rightarrow> process \<Rightarrow> process step_result" where
  "setupLogging e err_fd c p =
     (case os_logging e c of
        None \<Rightarrow> Inr p
      | Some what \<Rightarrow> Inl (EXIT_FAILURE, writeString err_fd what (writeString err_fd (ascii ''Failed to setup logging: '') p)))"

definition should_daemonize :: "byte list list \<Rightarrow> bool" where
  "should_daemonize argv \<longleftrightarrow> \<not> list_ex (\<lambda>arg. c_str arg = ascii ''--no-daemon'') (drop 1 argv)"

text \<open>From the configuration to the run loop. An exception ends the program with a failure.\<close>

definition main_start :: "'t os_env \<Rightarrow> bool \<Rightarrow> byte list list \<Rightarrow> nat \<Rightarrow> process \<Rightarrow> process step_result" where
  "main_start e daemonized argv pipe_write_fd p =
     (case loadConfig e pipe_write_fd daemonized argv p of
        Inl x \<Rightarrow> Inl x
      | Inr config \<Rightarrow>
          (case setupLogging e pipe_write_fd config p of
             Inl x \<Rightarrow> Inl x
           | Inr p1 \<Rightarrow>
               (case os_engine e config of
                  EngineFailed failure_str \<Rightarrow>
                    Inl (EXIT_FAILURE, writeString pipe_write_fd failure_str (writeString pipe_write_fd (ascii ''Failed to init engine: '') p1))
                | EngineThrows \<Rightarrow> Inl (EXIT_FAILURE, p1)
                | EngineOk \<Rightarrow> Inr (if daemonized then step_14_notify_init_complete pipe_write_fd p1 else p1))))"

text \<open>The child of the first fork, up to the run loop: its steps one after the other.\<close>

definition and_then :: "'a step_result \<Rightarrow> ('a \<Rightarrow> 'b step_result) \<Rightarrow> 'b step_result" where
  "and_then r f = (case r of Inl x \<Rightarrow> Inl x | Inr a \<Rightarrow> f a)"

fun run_steps :: "(process \<Rightarrow> process step_result) list \<Rightarrow> process \<Rightarrow> process step_result" where
  "run_steps [] p = Inr p"
| "run_steps (f # fs) p = and_then (f p) (run_steps fs)"

definition daemon_process :: "'t os_env \<Rightarrow> byte list list \<Rightarrow> nat \<Rightarrow> process \<Rightarrow> process step_result" where
  "daemon_process e argv pipe_write_fd =
     run_steps
       [step_06_create_new_session e pipe_write_fd, step_07_08_fork_and_exit_again e pipe_write_fd,
        step_09_redirect_stdio_to_devnull e pipe_write_fd, step_11_change_curr_dir e pipe_write_fd,
        step_12_create_pid_file e pipe_write_fd, main_start e True argv pipe_write_fd]"

text \<open>Both processes: the pipe's reading end and the original process, and how the daemon fares.\<close>

definition daemonize ::
    "'t os_env \<Rightarrow> byte list list \<Rightarrow> process \<Rightarrow> (nat \<times> process \<times> process step_result) step_result option" where
  "daemonize e argv p =
     map_option (\<lambda>res. and_then res (\<lambda>(r, w, p1).
       and_then (step_05_fork_to_background e r w p1) (\<lambda>(child, parent). Inr (r, parent, daemon_process e argv w child))))
     (step_01_close_all_file_descriptors e p)"

section \<open>The pipe\<close>

definition pipe_writes :: "process \<Rightarrow> byte list list" where
  "pipe_writes q = map snd (filter (\<lambda>(f, _). f = PipeWriteEnd) (pr_written q))"

fun last_state :: "process step_result \<Rightarrow> process" where
  "last_state (Inl (_, q)) = q"
| "last_state (Inr q) = q"

text \<open>
  What the one \<open>read\<close> of the original process can give: nothing when all writers are gone, or
  else the first write (writes of this size are not split) and any more that has arrived, up
  to the size of the buffer.
\<close>

definition pipe_read :: "byte list list \<Rightarrow> byte list \<Rightarrow> bool" where
  "pipe_read ws chunk \<longleftrightarrow>
     (if ws = [] then chunk = []
      else length chunk \<le> 1023 \<and> min 1023 (length (hd ws)) \<le> length chunk \<and> chunk = take (length chunk) (concat ws))"

definition listening :: "nat \<Rightarrow> process \<Rightarrow> bool" where
  "listening w q \<longleftrightarrow> 2 < w \<and> map_of (pr_fds q) w = Some PipeWriteEnd \<and> pipe_writes q = []"

text \<open>The first word of a failure, or silence.\<close>

definition reports_failure :: "process \<Rightarrow> bool" where
  "reports_failure q \<longleftrightarrow> (case pipe_writes q of [] \<Rightarrow> True | m # _ \<Rightarrow> \<exists>t. m = 70 # t)"

lemma lowest_fd_free: "lowest_fd p \<notin> set (um_keys (pr_fds p))"
proof -
  let ?free = "filter (\<lambda>fd. fd \<notin> set (um_keys (pr_fds p))) [0..<Suc (length (pr_fds p))]"
  have "card (set (um_keys (pr_fds p))) \<le> length (pr_fds p)" by (metis card_length length_map)
  then have "\<not> {0..<Suc (length (pr_fds p))} \<subseteq> set (um_keys (pr_fds p))"
    using card_mono [of "set (um_keys (pr_fds p))" "{0..<Suc (length (pr_fds p))}"] by auto
  then have "?free \<noteq> []" by (simp add: filter_empty_conv subset_eq del: upt_Suc)
  then have "hd ?free \<in> set ?free" by (rule hd_in_set)
  then show ?thesis by (simp add: lowest_fd_def del: upt_Suc)
qed

lemma lowest_fd_None [simp]: "map_of (pr_fds p) (lowest_fd p) = None"
  using lowest_fd_free [of p] by (simp add: map_of_eq_None_iff)

lemma written_simps [simp]:
  "pr_written (os_close fd p) = pr_written p" "pr_written (os_dup2 fd fd2 p) = pr_written p"
  "pr_written (snd (os_open f p)) = pr_written p"
  by (simp_all add: os_close_def os_dup2_def os_open_def split: option.split)

lemma pipe_writes_cong: "pr_written p = pr_written q \<Longrightarrow> pipe_writes p = pipe_writes q"
  by (simp add: pipe_writes_def)

lemma fds_simps [simp]:
  "map_of (pr_fds (os_close fd p)) x = (if x = fd then None else map_of (pr_fds p) x)"
  "map_of (pr_fds (snd (os_open f p))) x = (if x = lowest_fd p then Some f else map_of (pr_fds p) x)"
  "fst (os_open f p) = lowest_fd p"
  "pr_fds (writeString fd str p) = pr_fds p"
  by (simp_all add: os_close_def os_open_def writeString_def um_simps split: option.split)

lemma map_of_dup2:
  "map_of (pr_fds (os_dup2 fd fd2 p)) x =
     (if x = fd2 \<and> map_of (pr_fds p) fd \<noteq> None then map_of (pr_fds p) fd else map_of (pr_fds p) x)"
  by (auto simp: os_dup2_def um_simps split: option.split)

lemma pipe_writes_writeString:
  "pipe_writes (writeString fd str p) =
     (if map_of (pr_fds p) fd = Some PipeWriteEnd then pipe_writes p @ [c_str str] else pipe_writes p)"
  by (auto simp: writeString_def pipe_writes_def split: option.split)

section \<open>The report of a failure\<close>

lemma exit_reports:
  assumes "listening w q" "c_str msg = 70 # t"
  shows "reports_failure (writeString w txt (writeString w msg q))" "reports_failure (writeString w msg q)"
  using assms by (auto simp: reports_failure_def listening_def pipe_writes_writeString)

definition step_ok :: "nat \<Rightarrow> (process \<Rightarrow> process step_result) \<Rightarrow> bool" where
  "step_ok w f \<longleftrightarrow>
     (\<forall>q. listening w q \<longrightarrow> (case f q of Inl (_, q') \<Rightarrow> reports_failure q' | Inr q' \<Rightarrow> listening w q'))"

lemma failed_text: "c_str (ascii (CHR ''F'' # s)) = 70 # c_str (ascii s)"
  by (simp add: ascii_def c_str_def)

lemma listening_open: "listening w q \<Longrightarrow> listening w (snd (os_open f q))"
  by (auto simp: listening_def pipe_writes_def)

lemma step_06_ok: "step_ok w (step_06_create_new_session e w)"
  using exit_reports(1) by (auto simp: step_ok_def step_06_create_new_session_def exitWithFailure_def failed_text)

lemma step_07_ok: "step_ok w (step_07_08_fork_and_exit_again e w)"
  using exit_reports(1) by (auto simp: step_ok_def step_07_08_fork_and_exit_again_def exitWithFailure_def failed_text)

lemma step_11_ok: "step_ok w (step_11_change_curr_dir e w)"
  using exit_reports(1) by (auto simp: step_ok_def step_11_change_curr_dir_def exitWithFailure_def failed_text)

lemma step_12_ok: "step_ok w (step_12_create_pid_file e w)"
  unfolding step_ok_def step_12_create_pid_file_def exitWithFailure_def
  using exit_reports(1) listening_open [of w _ PidFile] by (auto simp: failed_text case_prod_beta Let_def)

lemma step_09_ok: "step_ok w (step_09_redirect_stdio_to_devnull e w)"
proof -
  have "listening w q'" if "listening w q" "step_09_redirect_stdio_to_devnull e w q = Inr q'" for q q'
  proof -
    let ?fd = "lowest_fd q" and ?q = "snd (os_open DevNull q)"
    have "w \<noteq> ?fd" using that(1) by (auto simp: listening_def)
    moreover have "q' = (let p2 = os_dup2 ?fd 2 (os_dup2 ?fd 1 (os_dup2 ?fd 0 ?q)) in if 2 < ?fd then os_close ?fd p2 else p2)"
      using that(2) by (simp add: step_09_redirect_stdio_to_devnull_def case_prod_beta Let_def split: if_splits)
    ultimately show ?thesis using listening_open [OF that(1), of DevNull]
      by (auto simp: listening_def map_of_dup2 Let_def pipe_writes_def split: if_splits)
  qed
  moreover have "reports_failure q'" if "listening w q" "step_09_redirect_stdio_to_devnull e w q = Inl (c, q')" for q c q'
    using that exit_reports(1) [OF that(1)]
    by (auto simp: step_09_redirect_stdio_to_devnull_def exitWithFailure_def failed_text case_prod_beta Let_def split: if_splits)
  ultimately show ?thesis by (auto simp: step_ok_def split: sum.split)
qed

lemma main_start_reports:
  assumes "listening w q"
  shows "case main_start e True argv w q of Inl (_, q') \<Rightarrow> reports_failure q' | Inr q' \<Rightarrow> pipe_writes q' = [s_init_complete]"
proof -
  have "c_str (ascii ''Failed to load configuration file (path='' @ t) = 70 # c_str (ascii ''ailed to load configuration file (path='' @ t)" for t
    by (simp add: ascii_def c_str_def)
  then have "loadConfig e w True argv q = Inl x \<Longrightarrow> reports_failure (snd x)" for x
    using exit_reports(2) [OF assms] by (auto simp: loadConfig_def Let_def split: option.splits)
  moreover have "setupLogging e w c q = Inl x \<Longrightarrow> reports_failure (snd x)" "setupLogging e w c q = Inr q' \<Longrightarrow> q' = q" for c x q'
    using exit_reports(1) [OF assms] by (auto simp: setupLogging_def failed_text split: option.splits)
  moreover have "reports_failure q" using assms by (simp add: listening_def reports_failure_def)
  moreover have "pipe_writes (step_14_notify_init_complete w q) = [s_init_complete]"
    using assms pipe_writes_writeString [of w s_init_complete q]
    by (simp add: step_14_notify_init_complete_def listening_def pipe_writes_def s_init_complete_def ascii_def c_str_def)
  moreover note exit_reports(1) [OF assms failed_text]
  ultimately show ?thesis
    by (fastforce simp: main_start_def split: sum.splits engine_start.splits)
qed

lemma run_steps_ok:
  assumes "list_all (step_ok w) fs" "listening w q"
    and "\<And>q. listening w q \<Longrightarrow> case f q of Inl (_, q') \<Rightarrow> reports_failure q' | Inr q' \<Rightarrow> P q'"
  shows "case run_steps (fs @ [f]) q of Inl (_, q') \<Rightarrow> reports_failure q' | Inr q' \<Rightarrow> P q'"
  using assms(1,2)
proof (induction fs arbitrary: q)
  case Nil
  then show ?case using assms(3) [of q] by (auto simp: and_then_def split: sum.splits)
next
  case (Cons g fs)
  then have "case g q of Inl (_, q') \<Rightarrow> reports_failure q' | Inr q' \<Rightarrow> listening w q'" by (simp add: step_ok_def)
  with Cons show ?case by (cases "g q") (auto simp: and_then_def)
qed

lemma daemon_process_reports:
  assumes "listening w q"
  shows "case daemon_process e argv w q of Inl (_, q') \<Rightarrow> reports_failure q' | Inr q' \<Rightarrow> pipe_writes q' = [s_init_complete]"
proof -
  have "list_all (step_ok w) [step_06_create_new_session e w, step_07_08_fork_and_exit_again e w,
      step_09_redirect_stdio_to_devnull e w, step_11_change_curr_dir e w, step_12_create_pid_file e w]"
    by (simp add: step_06_ok step_07_ok step_09_ok step_11_ok step_12_ok)
  from run_steps_ok [OF this assms main_start_reports] show ?thesis by (simp add: daemon_process_def)
qed

lemma close_fds:
  "map_of (pr_fds (fold os_close fds p)) x = (if x \<in> set fds then None else map_of (pr_fds p) x)"
  "pr_written (fold os_close fds p) = pr_written p"
  by (induction fds arbitrary: p) auto

text \<open>The pipe after the first step, over a table \<open>q\<close> that has the old standard streams.\<close>

lemma step_01_state:
  assumes "step_01_close_all_file_descriptors e p = Some (Inr (r, w, p1))"
  obtains q where "r = lowest_fd q" "w = lowest_fd (snd (os_open PipeReadEnd q))"
    "p1 = snd (os_open PipeWriteEnd (snd (os_open PipeReadEnd q)))"
    "\<And>fd. fd \<le> 2 \<Longrightarrow> map_of (pr_fds q) fd = map_of (pr_fds p) fd" "pr_written q = pr_written p"
proof -
  from assms obtain rlim where rlim: "os_rlimit e = Some rlim" by (cases "os_rlimit e") (simp_all add: step_01_close_all_file_descriptors_def)
  define q where "q = fold os_close [3..<Suc (unat rlim)] p"
  have "r = lowest_fd q" "w = lowest_fd (snd (os_open PipeReadEnd q))" "p1 = snd (os_open PipeWriteEnd (snd (os_open PipeReadEnd q)))"
    using assms rlim
    by (auto simp: step_01_close_all_file_descriptors_def q_def Let_def case_prod_beta os_open_def simp del: upt_Suc split: if_splits)
  moreover have "map_of (pr_fds q) fd = map_of (pr_fds p) fd" if "fd \<le> 2" for fd
    using that by (simp add: q_def close_fds del: upt_Suc)
  moreover have "pr_written q = pr_written p" by (simp add: q_def close_fds del: upt_Suc)
  ultimately show ?thesis by (rule that)
qed

lemma step_01_pipe:
  assumes "step_01_close_all_file_descriptors e p = Some (Inr (r, w, p1))"
  shows "map_of (pr_fds p1) w = Some PipeWriteEnd" "r \<noteq> w" "pr_written p1 = pr_written p"
    "fd \<le> 2 \<Longrightarrow> map_of (pr_fds p) fd \<noteq> None \<Longrightarrow> fd \<noteq> w"
proof -
  from assms obtain q where q: "r = lowest_fd q" "w = lowest_fd (snd (os_open PipeReadEnd q))"
    "p1 = snd (os_open PipeWriteEnd (snd (os_open PipeReadEnd q)))"
    "\<And>fd. fd \<le> 2 \<Longrightarrow> map_of (pr_fds q) fd = map_of (pr_fds p) fd" "pr_written q = pr_written p" by (rule step_01_state) blast
  have "map_of (pr_fds (snd (os_open PipeReadEnd q))) (lowest_fd q) = Some PipeReadEnd" by simp
  then have ne: "lowest_fd (snd (os_open PipeReadEnd q)) \<noteq> lowest_fd q" using lowest_fd_None by (metis option.distinct(1))
  then have "map_of (pr_fds q) w = None"
    using lowest_fd_None [of "snd (os_open PipeReadEnd q)"] unfolding q(2) by (simp only: fds_simps if_False)
  then show "fd \<le> 2 \<Longrightarrow> map_of (pr_fds p) fd \<noteq> None \<Longrightarrow> fd \<noteq> w" using q(4) by metis
  show "map_of (pr_fds p1) w = Some PipeWriteEnd" "r \<noteq> w" "pr_written p1 = pr_written p" using ne q by simp_all
qed

lemma daemonize_Inr:
  assumes "daemonize e argv p = Some (Inr (r, parent, d))"
  obtains w p1 where "step_01_close_all_file_descriptors e p = Some (Inr (r, w, p1))"
    "parent = os_close w p1" "d = daemon_process e argv w (os_close r p1)"
proof -
  from assms obtain res where res: "step_01_close_all_file_descriptors e p = Some res"
    by (cases "step_01_close_all_file_descriptors e p") (simp_all add: daemonize_def)
  with assms obtain r' w p1 where "res = Inr (r', w, p1)" by (cases res) (auto simp: daemonize_def and_then_def)
  with assms res that show ?thesis
    by (auto simp: daemonize_def and_then_def step_05_fork_to_background_def split: if_splits)
qed

lemma read_of_failure:
  assumes "reports_failure q" "pipe_read (pipe_writes q) chunk"
  shows "c_str chunk \<noteq> s_init_complete"
proof (cases "pipe_writes q")
  case Nil
  with assms(2) show ?thesis by (simp add: pipe_read_def c_str_def s_init_complete_def ascii_def)
next
  case (Cons m ms)
  with assms(1) obtain t where m: "m = 70 # t" by (auto simp: reports_failure_def)
  with assms(2) Cons have "chunk = take (length chunk) (70 # t @ concat ms)" "0 < length chunk"
    by (auto simp: pipe_read_def)
  then obtain u where "chunk = 70 # u" by (cases "length chunk") simp_all
  then show ?thesis by (simp add: c_str_def s_init_complete_def ascii_def)
qed

lemma read_of_success:
  assumes "pipe_read [s_init_complete] chunk"
  shows "c_str chunk = s_init_complete"
proof -
  have len: "length s_init_complete = 13" by (simp add: s_init_complete_def ascii_def)
  with assms have "13 \<le> length chunk" "chunk = take (length chunk) s_init_complete"
    by (simp_all add: pipe_read_def)
  with len have "chunk = s_init_complete" by simp
  then show ?thesis by (simp add: s_init_complete_def ascii_def c_str_def)
qed

lemma child_listening:
  assumes "step_01_close_all_file_descriptors e p = Some (Inr (r, w, p1))"
    and "map_of (pr_fds p) 0 \<noteq> None" "map_of (pr_fds p) 1 \<noteq> None" "map_of (pr_fds p) 2 \<noteq> None" "pr_written p = []"
  shows "listening w (os_close r p1)"
proof -
  note pipe = step_01_pipe [OF assms(1)]
  have "w \<noteq> 0" "w \<noteq> 1" "w \<noteq> 2" using pipe(4) [of 0] pipe(4) [of 1] pipe(4) [of 2] assms(2-4) by auto
  with pipe(1-3) assms(5) show ?thesis by (simp add: listening_def pipe_writes_def)
qed

lemma start_reported:
  assumes start: "daemonize e argv p = Some (Inr (r, parent, d))"
    and streams: "map_of (pr_fds p) 0 \<noteq> None" "map_of (pr_fds p) 1 \<noteq> None" "map_of (pr_fds p) 2 \<noteq> None" "pr_written p = []"
    and chunk: "pipe_read (pipe_writes (last_state d)) chunk"
  shows "fst (step_15_exit_org_process e r (Some chunk) parent) = EXIT_SUCCESS \<longleftrightarrow> (\<exists>q. d = Inr q)"
proof -
  from start obtain w p1 where s1: "step_01_close_all_file_descriptors e p = Some (Inr (r, w, p1))"
    and d: "d = daemon_process e argv w (os_close r p1)" by (rule daemonize_Inr)
  note reports = daemon_process_reports [OF child_listening [OF s1 streams], of e argv, folded d]
  show ?thesis
  proof (cases d)
    case (Inl x)
    with reports chunk have "c_str chunk \<noteq> s_init_complete" by (cases x) (auto dest: read_of_failure)
    with Inl show ?thesis by (simp add: step_15_exit_org_process_def EXIT_SUCCESS_def EXIT_FAILURE_def)
  next
    case (Inr q)
    with reports chunk have "c_str chunk = s_init_complete" by (intro read_of_success) simp
    with Inr show ?thesis by (simp add: step_15_exit_org_process_def)
  qed
qed

text \<open>When all system calls succeed the daemon gets to its configuration.\<close>

lemma daemon_process_main:
  assumes "listening w q"
    and "os_setsid e" "os_fork2 e" "os_open_null e" "os_chdir e" "os_open_pid e" "os_lock_pid e" "os_truncate_pid e" "os_write_pid e"
  obtains q' where "listening w q'" "daemon_process e argv w q = main_start e True argv w q'"
proof -
  from assms(4) obtain q1 where q1: "step_09_redirect_stdio_to_devnull e w q = Inr q1"
    by (simp add: step_09_redirect_stdio_to_devnull_def case_prod_beta Let_def)
  with step_09_ok [of w e] assms(1) have "listening w q1" by (force simp: step_ok_def split: sum.splits)
  moreover from assms(6-9) obtain q2 where q2: "step_12_create_pid_file e w q1 = Inr q2"
    by (simp add: step_12_create_pid_file_def case_prod_beta Let_def)
  ultimately have "listening w q2" using step_12_ok [of w e] by (force simp: step_ok_def split: sum.splits)
  moreover have "and_then x Inr = x" for x :: "process step_result" by (cases x) (simp_all add: and_then_def)
  ultimately show ?thesis using that [of q2] assms q1 q2
    by (simp add: daemon_process_def step_06_create_new_session_def step_07_08_fork_and_exit_again_def
        step_11_change_curr_dir_def and_then_def split: sum.split)
qed

lemma daemon_process_up:
  assumes "daemon_process e argv w p = Inr q"
  obtains c where "Config_make (os_toml e) (config_file_path True argv) (os_files e) = Some c" "os_engine e c = EngineOk"
  using assms
  by (auto simp: daemon_process_def and_then_def main_start_def loadConfig_def Let_def split: sum.splits option.splits engine_start.splits)

text \<open>
  C12. The process that starts the daemon tells the truth. Started with its three standard
  streams open, it exits with success exactly when the daemon has come up: configuration
  read, logging and engine initialised. Any failure on the way, reported through the pipe or
  not, whatever part of the report the single \<open>read\<close> returns, makes it exit with a failure.
\<close>
theorem daemon_start_reported:
  assumes start: "daemonize e argv p = Some (Inr (r, parent, d))"
    and streams: "map_of (pr_fds p) 0 \<noteq> None" "map_of (pr_fds p) 1 \<noteq> None" "map_of (pr_fds p) 2 \<noteq> None" "pr_written p = []"
    and chunk: "pipe_read (pipe_writes (last_state d)) chunk"
  shows "fst (step_15_exit_org_process e r (Some chunk) parent) = EXIT_SUCCESS \<longleftrightarrow> (\<exists>q. d = Inr q)"
  by (rule start_reported [OF assms])

section \<open>Closed standard streams\<close>

lemma lowest_fd_0: "map_of (pr_fds p) 0 = None \<Longrightarrow> lowest_fd p = 0"
  by (simp add: lowest_fd_def upt_conv_Cons map_of_eq_None_iff del: upt_Suc)

lemma lowest_fd_1: "map_of (pr_fds p) 0 \<noteq> None \<Longrightarrow> map_of (pr_fds p) 1 = None \<Longrightarrow> lowest_fd p = 1"
proof -
  assume "map_of (pr_fds p) 0 \<noteq> None" "map_of (pr_fds p) 1 = None"
  then have "0 \<in> set (um_keys (pr_fds p))" "1 \<notin> set (um_keys (pr_fds p))" "pr_fds p \<noteq> []"
    by (auto simp: map_of_eq_None_iff)
  then show ?thesis by (cases "length (pr_fds p)") (simp_all add: lowest_fd_def upt_conv_Cons del: upt_Suc)
qed

text \<open>A process that says nothing through the pipe any more.\<close>

definition deaf :: "nat \<Rightarrow> process \<Rightarrow> bool" where
  "deaf w q \<longleftrightarrow> map_of (pr_fds q) w = Some DevNull \<and> pipe_writes q = []"

lemma deaf_open: "deaf w q \<Longrightarrow> deaf w (snd (os_open f q))"
  by (auto simp: deaf_def pipe_writes_def)

lemma deaf_main_start:
  assumes "deaf w q" "main_start e True argv w q = Inr q'"
  shows "pipe_writes q' = []"
  using assms pipe_writes_writeString [of w s_init_complete q]
  by (auto simp: main_start_def setupLogging_def step_14_notify_init_complete_def deaf_def pipe_writes_def
      split: sum.splits engine_start.splits option.splits)

text \<open>
  Started without standard input and output, the original process reports a failure
  although the daemon runs: the pipe gets the descriptors 0 and 1, the redirection of the
  standard streams replaces its writing end, and the notification goes to \<open>/dev/null\<close>.
\<close>
theorem closed_streams_misreport:
  assumes start: "daemonize e argv p = Some (Inr (r, parent, Inr q))"
    and streams: "map_of (pr_fds p) 0 = None" "map_of (pr_fds p) 1 = None" "pr_written p = []"
    and chunk: "pipe_read (pipe_writes q) chunk"
  shows "fst (step_15_exit_org_process e r (Some chunk) parent) = EXIT_FAILURE"
proof -
  from start obtain w p1 where s1: "step_01_close_all_file_descriptors e p = Some (Inr (r, w, p1))"
    and d: "daemon_process e argv w (os_close r p1) = Inr q" by (rule daemonize_Inr) simp
  from s1 obtain q1 where q1: "r = lowest_fd q1" "w = lowest_fd (snd (os_open PipeReadEnd q1))"
    "p1 = snd (os_open PipeWriteEnd (snd (os_open PipeReadEnd q1)))"
    "\<And>fd. fd \<le> 2 \<Longrightarrow> map_of (pr_fds q1) fd = map_of (pr_fds p) fd" "pr_written q1 = pr_written p" by (rule step_01_state) blast
  have r: "r = 0" unfolding q1(1) by (rule lowest_fd_0) (simp add: q1(4) streams)
  then have w: "w = 1" unfolding q1(2) by (intro lowest_fd_1) (simp_all add: q1(1) [symmetric] q1(4) streams streams(2) [unfolded One_nat_def])
  define c where "c = os_close 0 p1"
  have c: "map_of (pr_fds c) 0 = None" "map_of (pr_fds c) 1 = Some PipeWriteEnd" "pr_written c = []"
    using r w q1 streams by (simp_all add: c_def)
  from d r w have run: "main_start e True argv 1 q3 = Inr q" if
      "step_09_redirect_stdio_to_devnull e 1 c = Inr q2" "step_12_create_pid_file e 1 q2 = Inr q3" for q2 q3
    using that
    by (auto simp: daemon_process_def and_then_def c_def step_06_create_new_session_def step_07_08_fork_and_exit_again_def
        step_11_change_curr_dir_def split: sum.splits if_splits)
  obtain q2 where q2: "step_09_redirect_stdio_to_devnull e 1 c = Inr q2"
    using d r w by (auto simp: daemon_process_def and_then_def c_def step_06_create_new_session_def
        step_07_08_fork_and_exit_again_def split: sum.splits if_splits)
  obtain q3 where q3: "step_12_create_pid_file e 1 q2 = Inr q3"
    using d r w q2 by (auto simp: daemon_process_def and_then_def c_def step_06_create_new_session_def
        step_07_08_fork_and_exit_again_def step_11_change_curr_dir_def split: sum.splits if_splits)
  have "deaf 1 q2"
    using q2 lowest_fd_0 [OF c(1)] c
    by (auto simp: step_09_redirect_stdio_to_devnull_def deaf_def map_of_dup2 case_prod_beta Let_def pipe_writes_def split: if_splits)
  moreover have "q3 = snd (os_open PidFile q2)"
    using q3 by (simp add: step_12_create_pid_file_def case_prod_beta Let_def split: if_splits)
  ultimately have "deaf 1 q3" by (simp add: deaf_open)
  from deaf_main_start [OF this run [OF q2 q3]] have "pipe_writes q = []" .
  with chunk have "chunk = []" by (simp add: pipe_read_def)
  then show ?thesis by (simp add: step_15_exit_org_process_def c_str_def s_init_complete_def ascii_def)
qed

section \<open>Concrete starts\<close>

definition demo_env :: "engine_start \<Rightarrow> unit os_env" where
  "demo_env start = \<lparr>os_rlimit = Some 5, os_pipe = True, os_fork1 = True, os_setsid = True, os_fork2 = True, os_open_null = True,
     os_chdir = True, os_open_pid = True, os_lock_pid = True, os_truncate_pid = True, os_write_pid = True, os_err_txt = [],
     os_toml = \<lparr>toml_find_strings = (\<lambda>p t. None), toml_find_string = (\<lambda>p t. None), toml_find_u16 = (\<lambda>p t. None),
       toml_find_size = (\<lambda>p t. None), toml_find_bytes = (\<lambda>p t. None), toml_set_strings = (\<lambda>p xs t. t),
       toml_set_bytes_hex = (\<lambda>p xs t. t), toml_set_time = (\<lambda>p n t. t), toml_format = (\<lambda>t. None), toml_parse = (\<lambda>s. Some ())\<rparr>,
     os_files = \<lparr>fst_files = (\<lambda>f. if f = ascii ''/etc/ocvsmd/ocvsmd.toml'' then Some [] else None), fst_writable = (\<lambda>_. True)\<rparr>,
     os_what = [], os_logging = (\<lambda>_. None), os_engine = (\<lambda>_. start)\<rparr>"

definition open_streams :: process where
  "open_streams = \<lparr>pr_fds = [(0, StdStream 0), (1, StdStream 1), (2, StdStream 2), (4, OtherFile 4)], pr_written = []\<rparr>"

definition closed_streams :: process where
  "closed_streams = \<lparr>pr_fds = [(2, StdStream 2)], pr_written = []\<rparr>"

lemma demo_pipe:
  "step_01_close_all_file_descriptors (demo_env s) open_streams =
     Some (Inr (3, 4, \<lparr>pr_fds = [(0, StdStream 0), (1, StdStream 1), (2, StdStream 2), (3, PipeReadEnd), (4, PipeWriteEnd)], pr_written = []\<rparr>))"
  "step_01_close_all_file_descriptors (demo_env s) closed_streams =
     Some (Inr (0, 1, \<lparr>pr_fds = [(2, StdStream 2), (0, PipeReadEnd), (1, PipeWriteEnd)], pr_written = []\<rparr>))"
  by (simp_all add: step_01_close_all_file_descriptors_def demo_env_def open_streams_def closed_streams_def os_open_def os_close_def
      lowest_fd_def um_assign_def um_erase_def upt_conv_Cons Let_def del: One_nat_def)

lemma demo_path: "config_file_path True [[]] = ascii ''/etc/ocvsmd/ocvsmd.toml''"
  by (simp add: config_file_path_def ascii_def c_str_def)

lemma demo_main:
  "main_start (demo_env EngineOk) True [[]] w p = Inr (step_14_notify_init_complete w p)"
  "main_start (demo_env EngineThrows) True [[]] w p = Inl (1, p)"
  unfolding main_start_def loadConfig_def demo_path
  by (simp_all add: demo_env_def Config_make_def setupLogging_def EXIT_FAILURE_def)

lemma demo_steps:
  "step_06_create_new_session (demo_env s) w p = Inr p" "step_07_08_fork_and_exit_again (demo_env s) w p = Inr p"
  "step_11_change_curr_dir (demo_env s) w p = Inr p" "step_12_create_pid_file (demo_env s) w p = Inr (snd (os_open PidFile p))"
  by (simp_all add: step_06_create_new_session_def step_07_08_fork_and_exit_again_def step_11_change_curr_dir_def
      step_12_create_pid_file_def demo_env_def case_prod_beta Let_def)

lemma demo_null:
  "step_09_redirect_stdio_to_devnull (demo_env s) 4
     \<lparr>pr_fds = [(0, StdStream 0), (1, StdStream 1), (2, StdStream 2), (4, PipeWriteEnd)], pr_written = []\<rparr> =
   Inr \<lparr>pr_fds = [(0, DevNull), (1, DevNull), (2, DevNull), (4, PipeWriteEnd)], pr_written = []\<rparr>"
  "step_09_redirect_stdio_to_devnull (demo_env s) 1 \<lparr>pr_fds = [(2, StdStream 2), (1, PipeWriteEnd)], pr_written = []\<rparr> =
   Inr \<lparr>pr_fds = [(2, DevNull), (1, DevNull), (0, DevNull)], pr_written = []\<rparr>"
  by (simp_all add: step_09_redirect_stdio_to_devnull_def demo_env_def os_open_def os_close_def os_dup2_def
      lowest_fd_def um_assign_def um_erase_def upt_conv_Cons Let_def del: One_nat_def)

lemma demo_starts:
  "daemonize (demo_env EngineOk) [[]] open_streams =
     Some (Inr (3, \<lparr>pr_fds = [(0, StdStream 0), (1, StdStream 1), (2, StdStream 2), (3, PipeReadEnd)], pr_written = []\<rparr>,
       Inr \<lparr>pr_fds = [(0, DevNull), (1, DevNull), (2, DevNull), (3, PidFile)], pr_written = [(PipeWriteEnd, s_init_complete)]\<rparr>))"
  "daemonize (demo_env EngineThrows) [[]] open_streams =
     Some (Inr (3, \<lparr>pr_fds = [(0, StdStream 0), (1, StdStream 1), (2, StdStream 2), (3, PipeReadEnd)], pr_written = []\<rparr>,
       Inl (1, \<lparr>pr_fds = [(0, DevNull), (1, DevNull), (2, DevNull), (4, PipeWriteEnd), (3, PidFile)], pr_written = []\<rparr>)))"
  "daemonize (demo_env EngineOk) [[]] closed_streams =
     Some (Inr (0, \<lparr>pr_fds = [(2, StdStream 2), (0, PipeReadEnd)], pr_written = []\<rparr>,
       Inr \<lparr>pr_fds = [(2, DevNull), (0, DevNull), (3, PidFile)], pr_written = [(DevNull, s_init_complete)]\<rparr>))"
proof -
  have fork: "step_05_fork_to_background (demo_env s) r w p = Inr (os_close r p, os_close w p)" for s r w p
    by (simp add: step_05_fork_to_background_def demo_env_def)
  have msg: "c_str s_init_complete = s_init_complete" by (simp add: s_init_complete_def ascii_def c_str_def)
  note run = daemonize_def demo_pipe fork and_then_def daemon_process_def demo_steps demo_main
    os_close_def um_erase_def demo_null os_open_def lowest_fd_def um_assign_def upt_conv_Cons step_14_notify_init_complete_def
    writeString_def msg
  show "daemonize (demo_env EngineOk) [[]] open_streams =
     Some (Inr (3, \<lparr>pr_fds = [(0, StdStream 0), (1, StdStream 1), (2, StdStream 2), (3, PipeReadEnd)], pr_written = []\<rparr>,
       Inr \<lparr>pr_fds = [(0, DevNull), (1, DevNull), (2, DevNull), (3, PidFile)], pr_written = [(PipeWriteEnd, s_init_complete)]\<rparr>))"
    by (simp add: run del: One_nat_def)
  show "daemonize (demo_env EngineThrows) [[]] open_streams =
     Some (Inr (3, \<lparr>pr_fds = [(0, StdStream 0), (1, StdStream 1), (2, StdStream 2), (3, PipeReadEnd)], pr_written = []\<rparr>,
       Inl (1, \<lparr>pr_fds = [(0, DevNull), (1, DevNull), (2, DevNull), (4, PipeWriteEnd), (3, PidFile)], pr_written = []\<rparr>)))"
    by (simp add: run del: One_nat_def)
  show "daemonize (demo_env EngineOk) [[]] closed_streams =
     Some (Inr (0, \<lparr>pr_fds = [(2, StdStream 2), (0, PipeReadEnd)], pr_written = []\<rparr>,
       Inr \<lparr>pr_fds = [(2, DevNull), (0, DevNull), (3, PidFile)], pr_written = [(DevNull, s_init_complete)]\<rparr>))"
    by (simp add: run del: One_nat_def)
qed

theorem daemon_start_reported_witness:
  "\<exists>parent d parent' d'.
     daemonize (demo_env EngineOk) [[]] open_streams = Some (Inr (3, parent, d)) \<and>
     fst (step_15_exit_org_process (demo_env EngineOk) 3 (Some s_init_complete) parent) = EXIT_SUCCESS \<and>
     daemonize (demo_env EngineThrows) [[]] open_streams = Some (Inr (3, parent', d')) \<and>
     fst (step_15_exit_org_process (demo_env EngineThrows) 3 (Some []) parent') \<noteq> EXIT_SUCCESS"
proof -
  have streams: "map_of (pr_fds open_streams) 0 \<noteq> None" "map_of (pr_fds open_streams) 1 \<noteq> None"
    "map_of (pr_fds open_streams) 2 \<noteq> None" "pr_written open_streams = []" by (simp_all add: open_streams_def)
  have ok: "pipe_read [s_init_complete] s_init_complete" by (simp add: pipe_read_def s_init_complete_def ascii_def)
  have bad: "pipe_read [] []" by (simp add: pipe_read_def)
  have writes: "pipe_writes \<lparr>pr_fds = fds, pr_written = [(PipeWriteEnd, m)]\<rparr> = [m]" "pipe_writes \<lparr>pr_fds = fds, pr_written = []\<rparr> = []"
    for fds m by (simp_all add: pipe_writes_def)
  show ?thesis
    using daemon_start_reported [OF demo_starts(1) streams, of s_init_complete]
      daemon_start_reported [OF demo_starts(2) streams, of "[]"] ok bad demo_starts(1,2)
    by (simp add: writes)
qed

theorem closed_streams_misreport_witness:
  "\<exists>parent q. daemonize (demo_env EngineOk) [[]] closed_streams = Some (Inr (0, parent, Inr q)) \<and>
     fst (step_15_exit_org_process (demo_env EngineOk) 0 (Some []) parent) = EXIT_FAILURE"
  using closed_streams_misreport [OF demo_starts(3), of "[]"] demo_starts(3)
  by (simp add: closed_streams_def pipe_read_def pipe_writes_def)

end
