(* ===== verification/Error_Text.thy ===== *)
theory Error_Text
  imports Socket_Address
begin

text \<open>
  The texts of errors in messages: the formatters of \<^verbatim>\<open>src/common/common_helpers.hpp\<close>.
\<close>

section \<open>Texts of errors\<close>

text \<open>\<open>fmt\<close> prints an \<open>int\<close> in decimal.\<close>

definition dec_int :: "int \<Rightarrow> byte list" where
  "dec_int i = (if i < 0 then 45 # dec_digits (nat (- i)) else dec_digits (nat i))"

fun error_name :: "sdk_code \<Rightarrow> string" where
  "error_name Other = ''Other''"
| "error_name Busy = ''Busy''"
| "error_name NoEntry = ''NoEntry''"
| "error_name TimedOut = ''TimedOut''"
| "error_name OutOfMemory = ''OutOfMemory''"
| "error_name AlreadyExists = ''AlreadyExists''"
| "error_name InvalidArgument = ''InvalidArgument''"
| "error_name Canceled = ''Canceled''"
| "error_name NotConnected = ''NotConnected''"
| "error_name Disconnected = ''Disconnected''"
| "error_name Shutdown = ''Shutdown''"
| "error_name OperationInProgress = ''OperationInProgress''"
| "error_name (UnnamedCode _) = ''ErrorCode''"

definition format_Error :: "sdk_error \<Rightarrow> byte list" where
  "format_Error err =
     (case getOptErrno err of
        Some opt_errno \<Rightarrow> ascii (error_name (getCode err)) @ ascii ''(errno='' @ dec_int (sint opt_errno) @ ascii '')''
      | None \<Rightarrow> ascii (error_name (getCode err)))"

definition format_OptError :: "opt_error \<Rightarrow> byte list" where
  "format_OptError opt_error = (case opt_error of Some err \<Rightarrow> format_Error err | None \<Rightarrow> ascii ''null'')"

definition has_name :: "sdk_error \<Rightarrow> bool" where
  "has_name err \<longleftrightarrow> (\<forall>u. getCode err \<noteq> UnnamedCode u)"

lemma ascii_inject [simp]: "ascii s = ascii t \<longleftrightarrow> s = t"
proof -
  have "inj (\<lambda>c. of_nat (of_char c) :: byte)"
  proof (rule injI)
    fix c d assume "(of_nat (of_char c) :: byte) = of_nat (of_char d)"
    then have "unat (of_nat (of_char c) :: byte) = unat (of_nat (of_char d) :: byte)" by simp
    then show "c = d" by (simp add: unat_of_nat)
  qed
  then show ?thesis by (simp add: ascii_def inj_map_eq_map)
qed

lemma ascii_eq_Nil [simp]: "ascii s = [] \<longleftrightarrow> s = []"
  by (simp add: ascii_def)

lemma dec_digits_inject:
  assumes "dec_digits m = dec_digits n"
  shows "m = n"
proof -
  have "snd (eat_digits 10 0 (dec_digits k)) = [] \<and> fst (eat_digits 10 0 (dec_digits k)) = k" for k
    unfolding eat_dec_digits by simp
  with assms show ?thesis by metis
qed

lemma dec_int_inject:
  assumes "dec_int i = dec_int j"
  shows "i = j"
proof -
  have "(45 :: byte) \<notin> set (dec_digits n)" for n by (rule dec_digits_avoid) simp
  then have "dec_digits n \<noteq> 45 # xs" "45 # xs \<noteq> dec_digits n" for n xs by (metis list.set_intros(1))+
  with assms have "(i < 0) = (j < 0)" "nat (- i) = nat (- j) \<or> nat i = nat j"
    by (auto simp: dec_int_def split: if_splits dest!: dec_digits_inject)
  with assms show ?thesis by (auto simp: dec_int_def split: if_splits dest!: dec_digits_inject)
qed

lemma error_name_inject:
  assumes "error_name c = error_name d" "\<forall>u. c \<noteq> UnnamedCode u" "\<forall>u. d \<noteq> UnnamedCode u"
  shows "c = d"
  using assms by (cases c; cases d) simp_all

text \<open>A name ends where the bracket of the error number opens.\<close>

lemma name_bytes: "40 \<notin> set (ascii (error_name c))" "0 \<notin> set (ascii (error_name c))"
  by (cases c; simp add: ascii_def)+

lemma dec_int_bytes: "b \<in> set (dec_int i) \<Longrightarrow> b = 45 \<or> 48 \<le> b \<and> b \<le> 57"
  using dec_digits_bytes by (auto simp: dec_int_def split: if_splits)

definition errno_text :: "c_int option \<Rightarrow> byte list" where
  "errno_text n = (case n of Some x \<Rightarrow> ascii ''(errno='' @ dec_int (sint x) @ ascii '')'' | None \<Rightarrow> [])"

lemma format_Error_parts:
  "takeWhile (\<lambda>b. b \<noteq> 40) (format_Error err) = ascii (error_name (getCode err))"
  "dropWhile (\<lambda>b. b \<noteq> 40) (format_Error err) = errno_text (getOptErrno err)"
proof -
  have "format_Error err = ascii (error_name (getCode err)) @ errno_text (getOptErrno err)"
    by (simp add: format_Error_def errno_text_def split: option.split)
  moreover have "takeWhile (\<lambda>b. b \<noteq> 40) (errno_text n) = []" "dropWhile (\<lambda>b. b \<noteq> 40) (errno_text n) = errno_text n" for n
    by (simp_all add: errno_text_def ascii_def split: option.split)
  moreover have "\<forall>b \<in> set (ascii (error_name (getCode err))). b \<noteq> 40" using name_bytes(1) by metis
  ultimately show "takeWhile (\<lambda>b. b \<noteq> 40) (format_Error err) = ascii (error_name (getCode err))"
    "dropWhile (\<lambda>b. b \<noteq> 40) (format_Error err) = errno_text (getOptErrno err)"
    by (simp_all add: takeWhile_append2 dropWhile_append2)
qed

lemma format_Error_inject:
  assumes "format_Error e1 = format_Error e2" "has_name e1" "has_name e2"
  shows "e1 = e2"
proof -
  have "ascii (error_name (getCode e1)) = ascii (error_name (getCode e2))" "errno_text (getOptErrno e1) = errno_text (getOptErrno e2)"
    using assms(1) format_Error_parts by metis+
  then have "error_name (getCode e1) = error_name (getCode e2)" "getOptErrno e1 = getOptErrno e2"
    by (auto simp: errno_text_def signed_word_eqI split: option.splits dest!: dec_int_inject)
  with assms(2,3) show ?thesis using error_name_inject [of "getCode e1" "getCode e2"] by (simp add: has_name_def)
qed

text \<open>
  The text of an error tells the error: two optional errors with named codes and the
  same text are equal, error numbers included.
\<close>
theorem error_text_faithful:
  assumes "format_OptError x = format_OptError y" "\<forall>e. x = Some e \<longrightarrow> has_name e" "\<forall>e. y = Some e \<longrightarrow> has_name e"
  shows "x = y"
proof -
  have null: "format_Error e \<noteq> ascii ''null''" for e
  proof
    assume "format_Error e = ascii ''null''"
    then have "takeWhile (\<lambda>b. b \<noteq> 40) (ascii ''null'') = ascii (error_name (getCode e))" using format_Error_parts(1) by metis
    moreover have "takeWhile (\<lambda>b. b \<noteq> 40) (ascii ''null'') = ascii ''null''" by (simp add: ascii_def)
    ultimately have "error_name (getCode e) = ''null''" by simp
    then show False by (cases "getCode e") simp_all
  qed
  from null [symmetric] null assms show ?thesis
    by (cases x; cases y) (auto simp: format_OptError_def dest: format_Error_inject)
qed

theorem error_text_faithful_witness:
  "format_OptError (Some (mkErrorErrno Busy 16)) \<noteq> format_OptError (Some (mkErrorErrno Busy (- 16)))"
  using error_text_faithful [of "Some (mkErrorErrno Busy 16)" "Some (mkErrorErrno Busy (- 16))"] by (auto simp: has_name_def)

lemma format_no_nul: "0 \<notin> set (format_Error err)" "0 \<notin> set (format_OptError oe)"
proof -
  show "0 \<notin> set (format_Error err)" for err
    using name_bytes(2) dec_int_bytes [of 0] by (auto simp: format_Error_def ascii_def split: option.split)
  then show "0 \<notin> set (format_OptError oe)" by (auto simp: format_OptError_def ascii_def split: option.split)
qed

end
