(* ===== verification/Daemon_Start.thy ===== *)
theory Daemon_Start
  imports Engine Daemon_Main Error_Text
begin

text \<open>
  From the command line to the services: the messages of \<open>Engine::init\<close>
  (\<^verbatim>\<open>src/daemon/engine/engine.cpp\<close>), and the daemon of \<open>Daemon_Main\<close> with the engine of \<open>Engine\<close>
  in the place of its parameter.
\<close>

section \<open>The engine of the daemon\<close>

fun init_failure_text :: "init_failure \<Rightarrow> byte list" where
  "init_failure_text NoCyphalTransport = ascii ''Failed to create Cyphal transport.''"
| "init_failure_text (NoCyphalNode opt_error) =
     ascii ''Failed to create cyphal node (err='' @ format_OptError opt_error @ ascii '').''"
| "init_failure_text NoFileProvider = ascii ''Failed to create cyphal file provider.''"
| "init_failure_text NoIpcConnections = ascii ''No IPC connections configured.''"
| "init_failure_text (BadIpcConnection failure) =
     ascii ''Failed to parse IPC connection (err='' @ format_Error failure @ ascii '').''"
| "init_failure_text (RouterNotStarted err) =
     ascii ''Failed to start IPC router (err='' @ format_Error err @ ascii '').''"

text \<open>The engine as \<open>main\<close> sees it; its services only keep their channels.\<close>

definition engine_outcome ::
    "('t, 'w, 'tr, 'p, 'n) engine_env \<Rightarrow> 't config \<Rightarrow> file_store \<Rightarrow> 'w \<Rightarrow> engine_start option" where
  "engine_outcome ee config fs w =
     map_option (\<lambda>(failure, _). case failure of None \<Rightarrow> EngineOk | Some f \<Rightarrow> EngineFailed (init_failure_text f))
       (engine_init ee ([], []) (Engine_make config :: ('t, 'tr, 'p, 'n, nat, service keeper) engine) fs w)"

lemma engine_outcome_ok:
  assumes "engine_outcome ee c fs w = Some EngineOk"
  obtains eg :: "('t, 'tr, 'p, 'n, nat, service keeper) engine" and fs' w' where
    "engine_init (ee :: ('t, 'w, 'tr, 'p, 'n) engine_env) ([], []) (Engine_make c) fs w = Some (None, eg, fs', w')"
  using assms by (auto simp: engine_outcome_def split: option.splits)

section \<open>Properties\<close>

text \<open>
  C11. What the exit status of the original process promises. When it is success, and the
  standard streams were open, the configuration has been read, the engine has come up, its
  socket listens, and whichever of the nine services a first client asks for gets a channel
  with the message of the client.
\<close>
theorem exit_success_means_service:
  fixes ee :: "('t, 'w, 'tr, 'p, 'n) engine_env" and e :: "'t os_env"
  assumes start: "daemonize e argv p = Some (Inr (r, parent, d))"
    and streams: "map_of (pr_fds p) 0 \<noteq> None" "map_of (pr_fds p) 1 \<noteq> None" "map_of (pr_fds p) 2 \<noteq> None" "pr_written p = []"
    and chunk: "pipe_read (pipe_writes (last_state d)) chunk"
    and engine: "\<forall>c. engine_outcome ee c (os_files e) w = Some (os_engine e c)"
    and success: "fst (step_15_exit_org_process e r (Some chunk) parent) = EXIT_SUCCESS"
    and crc: "inj (service_id (ee_crc64 ee))"
    and env: "\<forall>b p. fst (se_pipe_send se cl b p) = None"
      "route_serialize (se_codec se) (Route_connect VERSION_MAJOR VERSION_MINOR (optErrorToDsdlError None)) \<noteq> None"
    and hello: "route_deserialize (se_codec se) hello = Some (Route_connect major minor err)"
    and msg: "route_deserialize (se_codec se) msg = Some (Route_channel_msg tag 0 (service_id (ee_crc64 ee) svc) sz)"
      "subspan msg (of_nat (length msg) - sz) = Some payload"
  shows "\<exists>c eg fs' w' rt rt'. Config_make (os_toml e) (config_file_path True argv) (os_files e) = Some c \<and>
    engine_init ee ([], []) (Engine_make c) (os_files e) w = Some (None, eg, fs', w') \<and>
    eg_ipc_router eg = Some rt \<and> ss_accept_callback (sr_pipe rt) = Some (ss_fd (sr_pipe rt)) \<and>
    sr_run se keep_handler (keep_factory se) [SP_Connected cl, SP_Message cl hello, SP_Message cl msg] rt = Some rt' \<and>
    snd (sr_app rt') = [Opened svc 0 payload, Noted 0 GwConnected]"
proof -
  from start_reported [OF start streams chunk] success obtain q where "d = Inr q" by blast
  with start obtain v p1 where "daemon_process e argv v p1 = Inr q" by (elim daemonize_Inr) metis
  then obtain c where c: "Config_make (os_toml e) (config_file_path True argv) (os_files e) = Some c" "os_engine e c = EngineOk"
    by (rule daemon_process_up)
  with engine have "engine_outcome ee c (os_files e) w = Some EngineOk" by metis
  then obtain eg :: "('t, 'tr, 'p, 'n, nat, service keeper) engine" and fs' w' where "engine_init ee ([], []) (Engine_make c) (os_files e) w = Some (None, eg, fs', w')"
    by (rule engine_outcome_ok)
  with started_engine_serves [OF this crc env hello msg] c(1) show ?thesis by blast
qed

lemma open_streams_streams:
  "map_of (pr_fds open_streams) 0 \<noteq> None" "map_of (pr_fds open_streams) 1 \<noteq> None"
  "map_of (pr_fds open_streams) 2 \<noteq> None" "pr_written open_streams = []"
  by (simp_all add: open_streams_def)

lemma demo_outcome: "engine_outcome demo_engine c fs demo_start = Some EngineOk"
proof -
  obtain eg :: "(unit, nat, unit, unit, nat, service keeper) engine" and w' where
    "engine_init demo_engine ([], []) (Engine_make c) fs demo_start = Some (None, eg, fs, w')"
    using demo_engine_init [of "([], [])" c fs] by (elim exE) (rule that)
  then show ?thesis by (simp add: engine_outcome_def)
qed

theorem exit_success_means_service_witness:
  "\<exists>parent d c eg fs' w' rt rt'. daemonize (demo_env EngineOk) [[]] open_streams = Some (Inr (3, parent, d)) \<and>
     fst (step_15_exit_org_process (demo_env EngineOk) 3 (Some s_init_complete) parent) = EXIT_SUCCESS \<and>
     engine_init demo_engine ([], []) (Engine_make c) (os_files (demo_env EngineOk)) demo_start = Some (None, eg, fs', w') \<and>
     eg_ipc_router eg = Some rt \<and>
     sr_run engine_server_env keep_handler (keep_factory engine_server_env)
       [SP_Connected 7, SP_Message 7 (dsdl_route_bytes (Route_connect 1 0 (optErrorToDsdlError None))),
        SP_Message 7 (dsdl_route_bytes (Route_channel_msg 5 0 (service_id name_sum PopRootService) 0))] rt = Some rt' \<and>
     snd (sr_app rt') = [Opened PopRootService 0 [], Noted 0 GwConnected]"
proof -
  let ?msg = "dsdl_route_bytes (Route_channel_msg 5 0 (service_id name_sum PopRootService) 0)"
  have crc: "ee_crc64 demo_engine = name_sum" by (simp add: demo_engine_def)
  have codec: "se_codec engine_server_env = dsdl_codec" "\<forall>b p. fst (se_pipe_send engine_server_env 7 b p) = None"
    by (simp_all add: engine_server_env_def)
  have ser: "route_serialize dsdl_codec rt \<noteq> None" for rt by (simp add: dsdl_codec_def)
  have engine: "\<forall>c. engine_outcome demo_engine c (os_files (demo_env EngineOk)) demo_start = Some (os_engine (demo_env EngineOk) c)"
    using demo_outcome by (simp add: demo_env_def)
  have exit: "fst (step_15_exit_org_process (demo_env EngineOk) 3 (Some s_init_complete) parent) = EXIT_SUCCESS" for parent
    by (simp add: step_15_exit_org_process_def c_str_def s_init_complete_def ascii_def)
  have read: "pipe_read (pipe_writes (last_state (Inr \<lparr>pr_fds = [(0, DevNull), (1, DevNull), (2, DevNull), (3, PidFile)],
      pr_written = [(PipeWriteEnd, s_init_complete)]\<rparr>))) s_init_complete"
    by (simp add: pipe_read_def pipe_writes_def s_init_complete_def ascii_def)
  from exit_success_means_service [OF demo_starts(1) open_streams_streams read engine exit,
      of engine_server_env 7 _ _ _ _ ?msg 5 PopRootService 0 "[]", unfolded crc codec(1),
      OF name_sum_inj codec(2) ser dsdl_read [of "Route_connect 1 0 (optErrorToDsdlError None)"] dsdl_read pop_root_tail]
  have "\<exists>c eg fs' w' rt rt'. engine_init demo_engine ([], []) (Engine_make c) (os_files (demo_env EngineOk)) demo_start = Some (None, eg, fs', w') \<and>
     eg_ipc_router eg = Some rt \<and> sr_run engine_server_env keep_handler (keep_factory engine_server_env)
       [SP_Connected 7, SP_Message 7 (dsdl_route_bytes (Route_connect 1 0 (optErrorToDsdlError None))), SP_Message 7 ?msg] rt = Some rt' \<and>
     snd (sr_app rt') = [Opened PopRootService 0 [], Noted 0 GwConnected]" by blast
  with demo_starts(1) exit show ?thesis by blast
qed



end
