(* ===== verification/Spec2Isabelle.thy ===== *)
theory Spec2Isabelle
  imports Socket_Pipes
    File_Server Relay_Sessions Cli_Scenarios Daemon_Start
begin

text \<open>
  A verification library for the Open Cyphal Vehicle System Management Daemon (ocvsmd).

  \<^bold>\<open>The program.\<close> A daemon (\<^verbatim>\<open>src/daemon\<close>) is a node of a Cyphal network and offers services to
  local programs, which link the SDK (\<^verbatim>\<open>src/sdk\<close>, \<^verbatim>\<open>include/ocvsmd/sdk\<close>) and talk to the daemon over a
  stream socket (\<^verbatim>\<open>src/common\<close>). From the bottom up: a pipe moves framed messages over a socket;
  a router on each side splits the messages of a pipe into channels, one gateway per channel;
  typed channels put DSDL messages on gateways; a service of the daemon keeps a state machine
  per channel, which uses the Cyphal node; a client of the SDK opens a channel and gives the
  result to the receiver of a sender. The engine brings up the transport, the node, the file
  provider, the router and the services; the main program detaches the daemon and reports
  to the process that started it. Everything on one side runs in one thread, on an executor
  that polls descriptors (\<^verbatim>\<open>include/ocvsmd/platform\<close>). All source paths below are relative to \<^verbatim>\<open>src/\<close> of
  the repository root.

  \<^bold>\<open>The theories\<close>, with the files they model and what they show. Records have the fields of
  the classes, an operation is one definition with the name of the method (prefixed by its
  class where names clash), and each operation takes and returns the state of its object.

  \<^item> \<open>Prelude\<close>: machine types, little-endian images of integers, \<open>std::unordered_map\<close> as an
    association list (\<open>um_\<close> operations), C strings, fresh descriptors.
  \<^item> \<open>Sdk_Error\<close>, \<open>Error_Text\<close>: the error type of \<^verbatim>\<open>sdk/defines.hpp\<close>, the conversions and the texts of
    \<^verbatim>\<open>common_helpers.hpp\<close> and \<^verbatim>\<open>engine_helpers.hpp\<close>. Conversions round-trip, texts determine errors.
  \<^item> \<open>Posix_Io\<close>: \<open>posixSyscallError\<close> and \<open>OwnedFd\<close> (\<^verbatim>\<open>io.cpp\<close>): the retry loop returns exactly when the
    interrupts end; every descriptor is closed once.
  \<^item> \<open>Socket_Buffer\<close>, \<open>Socket_Base\<close>: \<^verbatim>\<open>socket_buffer.hpp\<close>, \<^verbatim>\<open>socket_base.cpp\<close>. A buffer refines a byte string;
    framed messages arrive once, in order, for every segmentation of the stream.
  \<^item> \<open>Socket_Address\<close>: \<^verbatim>\<open>socket_address.cpp\<close> on the bytes of \<open>sockaddr_storage\<close>: parsed addresses are
    well formed, printed addresses parse back.
  \<^item> \<open>Socket_Pipes\<close>: \<^verbatim>\<open>socket_client.cpp\<close>, \<^verbatim>\<open>socket_server.cpp\<close>, \<^verbatim>\<open>client_context.hpp\<close>: both pipes refine abstract
    pipes (connections, streams of messages), clients are isolated, descriptors accounted for.
  \<^item> \<open>Gateway\<close>, \<open>Client_Router\<close>, \<open>Server_Router\<close>: \<^verbatim>\<open>gateway.hpp\<close>, \<^verbatim>\<open>client_router.cpp\<close>, \<^verbatim>\<open>server_router.cpp\<close>. Gateways are
    objects on an explicit heap with the count of their \<open>shared_ptr\<close> owners, because event handlers
    may drop their own gateway; an invariant of ownership shows that no event uses a dead gateway.
  \<^item> \<open>Service_Channel\<close>, \<open>Ipc_Channel\<close>: what services and clients do with a channel, and \<^verbatim>\<open>channel.hpp\<close>.
  \<^item> \<open>Node_Fsm\<close>, \<open>Exec_Cmd_Service\<close>, \<open>List_Registers_Service\<close>, \<open>Access_Registers_Service\<close>: the services of
    \<^verbatim>\<open>svc/node\<close>: every node is answered, in order, and the channel is completed once, for every
    failure of a request and every order of the answers.
  \<^item> \<open>Node_Clients\<close>, \<open>Sdk_Calls\<close>: \<^verbatim>\<open>sdk/svc/node\<close>, \<^verbatim>\<open>node_command_client.cpp\<close>, \<^verbatim>\<open>node_registry_client.cpp\<close>, composed
    with the services: one result per node reaches the caller.
  \<^item> \<open>Relay_Services\<close>, \<open>Relay_Clients\<close>, \<open>Relay_Sessions\<close>: \<^verbatim>\<open>svc/relay\<close> on both sides: a publisher, subscriber or RPC
    client of the SDK refines the one of the Cyphal node.
  \<^item> \<open>Daemon_Config\<close>, \<open>File_Provider\<close>, \<open>File_Server\<close>: \<^verbatim>\<open>config.cpp\<close>, \<^verbatim>\<open>file_provider.cpp\<close>, \<^verbatim>\<open>svc/file_server\<close>: served files lie
    under a root, a fetched file is intact, root management refines a double-ended list.
  \<^item> \<open>Executor\<close>, \<open>Execution\<close>: the two executors, \<open>waitPollingUntil\<close>, \<open>runWhile\<close>, \<^verbatim>\<open>execution.hpp\<close> and the typed calls of
    \<^verbatim>\<open>node_pub_sub.hpp\<close> and \<^verbatim>\<open>node_rpc_client.hpp\<close>: the kernel knows exactly the living callbacks, waits with a
    timeout return.
  \<^item> \<open>Socket_Can\<close>, \<open>Socket_Udp\<close>, \<open>Media_Collections\<close>: \<^verbatim>\<open>platform/can\<close>, \<^verbatim>\<open>platform/udp\<close> and the transport bags of
    \<^verbatim>\<open>engine/cyphal\<close>: frames and datagrams arrive as sent, filters mean what they say, no
    descriptor leaks.
  \<^item> \<open>Engine\<close>, \<open>Daemon_Main\<close>, \<open>Daemon_Start\<close>: \<^verbatim>\<open>engine.cpp\<close>, \<^verbatim>\<open>services.cpp\<close>, \<^verbatim>\<open>daemon/main.cpp\<close>: an exit status of success
    means that the services are there, a failure is told.
  \<^item> \<open>Sdk_Daemon\<close>: \<^verbatim>\<open>sdk/daemon.cpp\<close>, the calls for single nodes of \<^verbatim>\<open>sdk/node_registry_client.hpp\<close>, and the
    handshake of the routers.
  \<^item> \<open>Cli_Scenarios\<close>: the scenarios of \<^verbatim>\<open>src/cli/main.cpp\<close> over the calls of the SDK: it reads what it has
    listed, and its publishing loop ends.
  \<^item> this theory: messages from a gateway of a client to a service of the daemon, through both
    routers and the framed stream.

  \<^bold>\<open>Interfaces.\<close> What a component relies on of another is a locale with the operations as
  \<open>fixes\<close> and their laws as \<open>assumes\<close>, interpreted on the model: \<open>route_codec_law\<close> for the messages of the
  routers, \<open>shared_owner\<close> for counted ownership (both routers), \<open>client_handlers\<close> and \<open>server_handlers\<close> for
  the owners of gateways, \<open>stream_socket\<close> and \<open>stream_sink\<close> for the two ends of a socket, \<open>root_provider\<close>
  between the file provider and the file server, \<open>collecting_client\<close> for the clients that collect
  responses per node, \<open>step_simulation\<close> for programs of callbacks (both executors).

  \<^bold>\<open>Parameters.\<close> System calls, libcyphal, the code generated from DSDL, the TOML library, the CRC
  of service names and the iteration order of hash maps are arguments of the definitions
  (\<open>_env\<close> and \<open>_sys\<close> records); what is relied on is a named law (\<open>fd_law\<close>, \<open>stream_law\<close>, \<open>epoll_law\<close>,
  \<open>route_codec_law\<close>, ...), and concrete instances show that the laws can hold.

  \<^bold>\<open>Undefined behaviour and loops.\<close> \<open>None\<close> of an operation is undefined behaviour of the C++
  code (a span cut outside its bounds, a dead object) or, for the partial functions
  \<open>posixSyscallError\<close>, \<open>SocketAddress_accept\<close>, \<open>waitPollingUntil\<close>, \<open>runWhile\<close>, \<open>access_startCyRegAccessRpcCallFor\<close>
  and the loops of the command line client, a loop that does not end; theorems say when the
  result is \<open>Some\<close>. No definition uses fuel. Integers have the width of the code wherever it can
  be reached (sequence numbers, register indices, sizes on the wire, ports); counters that are
  bounded by the size of an object in memory are naturals.

  \<^bold>\<open>Not modelled.\<close> What the command line client prints (\<^verbatim>\<open>src/cli\<close>); logging and its set-up
  (\<^verbatim>\<open>setup_logging.hpp\<close>, \<^verbatim>\<open>logging.hpp\<close>, \<^verbatim>\<open>transport_helpers.hpp\<close>) influence nothing but log files,
  save that a failed set-up ends the daemon, which is modelled; signal handlers only clear the flag
  that ends the run loop; failing allocations are left out except where the code handles them;
  generated code and libraries are parameters; \<^verbatim>\<open>docs/initial_design\<close> is included by nothing.
\<close>

section \<open>From a client gateway to a service\<close>

text \<open>The client sends payloads on one gateway; the first error stops.\<close>

fun client_sends ::
    "'p client_env \<Rightarrow> nat \<Rightarrow> u64 \<Rightarrow> byte list list \<Rightarrow> ('p, 'h, 'a) client_router \<Rightarrow> ('p, 'h, 'a) client_router option" where
  "client_sends e a svc [] s = Some s"
| "client_sends e a svc (p # ps) s =
     (case cr_gw_send e a svc (SocketBuffer_of (Span p)) s of
        Some (None, s') \<Rightarrow> client_sends e a svc ps s'
      | _ \<Rightarrow> None)"

text \<open>The messages on the wire for payloads numbered from \<open>n\<close>.\<close>

fun wire_msgs :: "route_codec \<Rightarrow> u64 \<Rightarrow> u64 \<Rightarrow> u64 \<Rightarrow> byte list list \<Rightarrow> byte list list" where
  "wire_msgs c t svc n [] = []"
| "wire_msgs c t svc n (p # ps) =
     (the (route_serialize c (Route_channel_msg t n svc (of_nat (length p)))) @ p) # wire_msgs c t svc (n + 1) ps"

lemma client_sends_wire:
  assumes "\<And>r. route_serialize c r \<noteq> None"
    and "cr_heap s a = Some g" "cr_is_connected s" "cr_isRegisteredGateway (gw_endpoint g) s"
  shows "\<exists>s'. client_sends (wire_client_env c) a svc ps s = Some s' \<and>
    cr_pipe s' = cr_pipe s @ wire_msgs c (gw_endpoint g) svc (gw_next_sequence g) ps"
  using assms(2-4)
proof (induction ps arbitrary: s g)
  case (Cons p ps)
  let ?e = "wire_client_env c"
  let ?r = "Route_channel_msg (gw_endpoint g) (gw_next_sequence g) svc (of_nat (length p))"
  obtain hdr where hdr: "route_serialize c ?r = Some hdr" using assms(1) by blast
  let ?g = "g\<lparr>gw_next_sequence := gw_next_sequence g + 1\<rparr>"
  let ?s = "(cr_set_gateway a ?g s)\<lparr>cr_pipe := cr_pipe s @ [hdr @ p]\<rparr>"
  have "sb_size (SocketBuffer_of (Span p)) = of_nat (length p)" by (simp add: sb_size_bytes)
  then have step: "cr_gw_send ?e a svc (SocketBuffer_of (Span p)) s = Some (None, ?s)"
    using Cons.prems hdr
    by (simp add: cr_gw_send_def cr_isConnected_def tryPerformOnSerialized_def client_pipe_send_def
        wire_client_env_def cr_set_gateway_def)
  from Cons.IH [of ?s ?g] Cons.prems obtain s' where "client_sends ?e a svc ps ?s = Some s'"
    "cr_pipe s' = cr_pipe ?s @ wire_msgs c (gw_endpoint g) svc (gw_next_sequence g + 1) ps"
    by (auto simp: cr_set_gateway_def cr_isRegisteredGateway_def)
  with step hdr show ?case by simp
qed simp

text \<open>The server takes the messages of an open channel in order.\<close>

fun numbered :: "nat \<Rightarrow> u64 \<Rightarrow> byte list list \<Rightarrow> 'f sr_note list" where
  "numbered a n [] = []"
| "numbered a n (p # ps) = Noted a (GwMessage n p) # numbered a (n + 1) ps"

lemma server_takes_wire:
  assumes "route_codec_law c" "\<And>r. route_serialize c r \<noteq> None" "e = wire_server_env c"
    and "list_all (\<lambda>m. length m < 2 ^ 64) (wire_msgs c t svc n ps)"
    and "sr_lookup (Endpoint t cl) s = Some a" "sr_heap s a = Some g" "0 < gw_use_count g" "gw_event_handler g = Some a"
  shows "\<exists>s'. sr_run e keep_handler fac (map (SP_Message cl) (wire_msgs c t svc n ps)) s = Some s' \<and>
    snd (sr_app s') = snd (sr_app s) @ numbered a n ps"
  using assms(4-)
proof (induction ps arbitrary: n s)
  case (Cons p ps)
  let ?r = "Route_channel_msg t n svc (of_nat (length p))"
  obtain hdr where hdr: "route_serialize c ?r = Some hdr" using assms(2) by blast
  have read: "route_deserialize c (hdr @ p) = Some ?r" by (rule route_codec_law.roundtrip [OF assms(1) hdr])
  have "subspan (hdr @ p) (of_nat (length (hdr @ p)) - of_nat (length p)) = Some p"
    using Cons.prems(1) hdr by (intro subspan_tail) simp
  note msg = sr_keep_message [OF Cons.prems(2-5) this, of e fac n svc]
  let ?s = "s\<lparr>sr_app := (fst (sr_app s), snd (sr_app s) @ [Noted a (GwMessage n p)])\<rparr>"
  have "sr_handlePipeEvent e keep_handler fac (SP_Message cl (hdr @ p)) s = Some (None, ?s)"
    using msg read by (simp add: sr_handleMessage_def assms(3) wire_server_env_def)
  moreover from Cons.IH [of "n + 1" ?s] Cons.prems obtain s' where
    "sr_run e keep_handler fac (map (SP_Message cl) (wire_msgs c t svc (n + 1) ps)) ?s = Some s'"
    "snd (sr_app s') = snd (sr_app s) @ [Noted a (GwMessage n p)] @ numbered a (n + 1) ps" by auto
  ultimately show ?case using hdr by simp
qed simp

text \<open>
  C1. End to end. A client sends payloads on a fresh gateway of a connected router; each
  becomes one framed message on the stream. However the stream is cut up and interrupted,
  the receiving side of the daemon gets the same messages, and its router opens exactly
  one channel of the requested service with the first payload, then hands the others to
  that channel, complete, in order and numbered one by one.
\<close>

theorem ipc_end_to_end:
  assumes codec: "route_codec_law c" "\<And>r. route_serialize c r \<noteq> None"
    and client: "cr_heap s a = Some g" "cr_is_connected s" "cr_isRegisteredGateway (gw_endpoint g) s"
      "gw_next_sequence g = 0" "cr_pipe s = []"
    and server: "map_of (sr_clients t) cl = Some mp" "map_of mp (gw_endpoint g) = None"
      "map_of (sr_factories t) svc = Some f"
    and sizes: "list_all msg_ok (wire_msgs c (gw_endpoint g) svc 0 (p # ps))"
  shows "\<exists>s'. client_sends (wire_client_env c) a svc (p # ps) s = Some s' \<and>
    (\<forall>k n. list_all healthy k \<longrightarrow> k_stream k = frames (cr_pipe s') \<longrightarrow> k_load k \<le> n \<longrightarrow>
      (\<exists>io' ms t'. rx_run k_recv n IoState_init k = Some (None, io', ms, []) \<and>
        sr_run (wire_server_env c) keep_handler (keep_factory (wire_server_env c)) (map (SP_Message cl) ms) t = Some t' \<and>
        snd (sr_app t') = snd (sr_app t) @
          [Opened f (sr_next_addr t) p, Noted (sr_next_addr t) GwConnected] @ numbered (sr_next_addr t) 1 ps))"
proof -
  let ?t = "gw_endpoint g" and ?b = "sr_next_addr t" and ?e = "wire_server_env c"
  let ?ms = "wire_msgs c ?t svc 0 (p # ps)"
  obtain s' where s': "client_sends (wire_client_env c) a svc (p # ps) s = Some s'" "cr_pipe s' = ?ms"
    using client_sends_wire [OF codec(2) client(1-3), of svc "p # ps"] client(4,5) by auto
  have small: "length m < 2 ^ 64" if "msg_ok m" for m using that by (simp add: msg_ok_def MsgPayloadMaxSize_def)
  have sizes': "list_all (\<lambda>m. length m < 2 ^ 64) ?ms"
    using sizes by (rule list.pred_mono_strong) (use small in blast)
  obtain hdr where hdr: "route_serialize c (Route_channel_msg ?t 0 svc (of_nat (length p))) = Some hdr"
    using codec(2) by blast
  have read: "route_deserialize c (hdr @ p) = Some (Route_channel_msg ?t 0 svc (of_nat (length p)))"
    by (rule route_codec_law.roundtrip [OF codec(1) hdr])
  have "subspan (hdr @ p) (of_nat (length (hdr @ p)) - of_nat (length p)) = Some p"
    using sizes' hdr by (intro subspan_tail) simp
  note first = sr_keep_open [OF server this, of ?e]
  define t1 where "t1 = (sr_upd_client cl (um_assign ?t ?b) t)\<lparr>
      sr_heap := (sr_heap t)(?b \<mapsto> (GatewayImpl_create (Endpoint ?t cl))\<lparr>gw_event_handler := Some ?b\<rparr>),
      sr_next_addr := Suc ?b,
      sr_app := (?b # fst (sr_app t), snd (sr_app t) @ [Opened f ?b p, Noted ?b GwConnected])\<rparr>"
  have step: "sr_handlePipeEvent ?e keep_handler (keep_factory ?e) (SP_Message cl (hdr @ p)) t = Some (None, t1)"
    using first read by (simp add: sr_handleMessage_def wire_server_env_def t1_def)
  have "\<exists>t'. sr_run ?e keep_handler (keep_factory ?e) (map (SP_Message cl) (wire_msgs c ?t svc 1 ps)) t1 = Some t'
      \<and> snd (sr_app t') = snd (sr_app t1) @ numbered ?b 1 ps"
    by (rule server_takes_wire [OF codec, where g = "(GatewayImpl_create (Endpoint ?t cl))\<lparr>gw_event_handler := Some ?b\<rparr>"])
      (use sizes' server in \<open>auto simp: t1_def GatewayImpl_create_def\<close>)
  then obtain t' where t': "sr_run ?e keep_handler (keep_factory ?e) (map (SP_Message cl) ?ms) t = Some t'"
    "snd (sr_app t') = snd (sr_app t1) @ numbered ?b 1 ps"
    using step hdr by auto
  have "\<exists>io'. rx_run k_recv n IoState_init k = Some (None, io', ?ms, [])"
    if k: "list_all healthy k" "k_stream k = frames ?ms" "k_load k \<le> n" for k n
  proof -
    from rx_run_total [OF k(1) IoState_init_wf(1) sizes _ k(3)] k(2) obtain io' ms' where
      run: "rx_run k_recv n IoState_init k = Some (None, io', ms', [])" by auto
    with kq.rx_run_delivers [OF run _ _ _ sizes] k(2) show ?thesis by auto
  qed
  with s' t' show ?thesis by (fastforce simp: t1_def)
qed

theorem ipc_end_to_end_witness:
  "\<exists>s' io' ms t'. client_sends (wire_client_env dsdl_codec) 0 7 [[1], [2]] (two_gateways True) = Some s' \<and>
     rx_run k_recv 100 IoState_init [Fault EINTR, Seg (frames (cr_pipe s'))] = Some (None, io', ms, []) \<and>
     sr_run (wire_server_env dsdl_codec) keep_handler (keep_factory (wire_server_env dsdl_codec))
       (map (SP_Message 3) ms) served = Some t' \<and>
     snd (sr_app t') = [Opened 70 0 [1], Noted 0 GwConnected, Noted 0 (GwMessage 1 [2])]"
proof -
  let ?g = "(GatewayImpl_create 0)\<lparr>gw_event_handler := Some 10\<rparr> :: nat client_gateway"
  have heap: "cr_heap (two_gateways True) 0 = Some ?g" "cr_is_connected (two_gateways True)"
    "cr_isRegisteredGateway (gw_endpoint ?g) (two_gateways True)" "gw_next_sequence ?g = 0" "cr_pipe (two_gateways True) = []"
    by (simp_all add: cr_isRegisteredGateway_def GatewayImpl_create_def)
  have codec: "route_codec_law dsdl_codec" "\<And>r. route_serialize dsdl_codec r \<noteq> None"
    by (rule dsdl.route_codec_law_axioms) (simp add: dsdl_codec_def)
  have server: "map_of (sr_clients served) 3 = Some []" "map_of ([] :: (u64 \<times> nat) list) (gw_endpoint ?g) = None"
    "map_of (sr_factories served) 7 = Some 70"
    by (simp_all add: served_def registerChannelFactory_def ServerRouterImpl_init_def um_simps)
  have sizes: "list_all msg_ok (wire_msgs dsdl_codec (gw_endpoint ?g) 7 0 [[1], [2]])"
    by (simp add: dsdl_codec_def msg_ok_def MsgPayloadMaxSize_def)
  from ipc_end_to_end [OF codec heap server sizes] obtain s' where
    s': "client_sends (wire_client_env dsdl_codec) 0 7 [[1], [2]] (two_gateways True) = Some s'" and
    all: "\<And>k n. list_all healthy k \<Longrightarrow> k_stream k = frames (cr_pipe s') \<Longrightarrow> k_load k \<le> n \<Longrightarrow>
      \<exists>io' ms t'. rx_run k_recv n IoState_init k = Some (None, io', ms, []) \<and>
        sr_run (wire_server_env dsdl_codec) keep_handler (keep_factory (wire_server_env dsdl_codec))
          (map (SP_Message 3) ms) served = Some t' \<and>
        snd (sr_app t') = snd (sr_app served) @
          [Opened 70 (sr_next_addr served) [1], Noted (sr_next_addr served) GwConnected] @ numbered (sr_next_addr served) 1 [[2]]"
    by blast
  have "cr_pipe s' = wire_msgs dsdl_codec (gw_endpoint ?g) 7 0 [[1], [2]]"
    using client_sends_wire [OF codec(2) heap(1-3), of 7 "[[1], [2]]"] s' heap(4,5) by simp
  then have len: "length (frames (cr_pipe s')) = 92" by (simp add: dsdl_codec_def frame_def)
  then have "frames (cr_pipe s') \<noteq> []" by auto
  with s' len all [of "[Fault EINTR, Seg (frames (cr_pipe s'))]" 100] show ?thesis
    by (simp add: served_def registerChannelFactory_def ServerRouterImpl_init_def)
qed

end
